(* ===== verification/Blink_Prelude.thy ===== *)
theory Blink_Prelude
  imports Main "HOL-Library.Word" "HOL-Library.Code_Target_Nat"
begin

text \<open>
  Shared vocabulary of the development.

  A byte string of the program (\<open>std::string\<close>, or a \<open>const char*\<close> with a
  length) is a HOL \<^typ>\<open>string\<close>: HOL characters are bytes.  Positions are the
  program's signed \<open>int\<close>s, modelled by \<^typ>\<open>int\<close> (no string here reaches
  \<open>2 ^ 31\<close> bytes), so that the length \<open>-1\<close> of an absent component is a
  value.  \<open>at s i\<close> is \<open>s[i]\<close> and \<open>seg s b e\<close> is the bytes of the
  half-open range \<open>[b, e)\<close>.  The index loops of the sources
  (\<open>while (i < end && P(s[i])) i++\<close> and its backward form) are \<open>scan_fwd\<close>
  and \<open>scan_back\<close>.
\<close>

named_theorems index_simps \<open>positions and slices\<close>

section \<open>Bytes\<close>

type_synonym str = string

abbreviation byte :: "char \<Rightarrow> nat" where
  "byte c \<equiv> of_char c"

text \<open>
  A byte passed where the code expects a \<open>base::char16\<close>: plain \<open>char\<close> is
  signed on the platforms the program is built for, so the high bytes are sign extended.
\<close>

definition char16_of :: "char \<Rightarrow> nat" where
  "char16_of c = (if byte c < 128 then byte c else byte c + 65280)"

lemma byte_less [simp]: "byte c < 256"
  using of_char_mod_256 [of c, where 'a = nat] by (metis mod_less_divisor zero_less_numeral)

lemma char_of_byte [simp]: "char_of (byte c) = c"
  by simp

lemma byte_char_of: "n < 256 \<Longrightarrow> byte (char_of n) = n"
  by simp

lemma char16_of_ascii: "byte c < 128 \<Longrightarrow> char16_of c = byte c"
  by (simp add: char16_of_def)

lemma char_eq_byte: "c = d \<longleftrightarrow> byte c = byte d"
  by simp

text \<open>A statement about every byte is a statement about 256 closed instances.\<close>

lemma all_bytes: "(\<forall>c::char. P c) \<longleftrightarrow> list_all P Enum.enum"
  by (simp add: list_all_iff UNIV_enum [symmetric])

lemma byte_exhaust: "list_all P Enum.enum \<Longrightarrow> P (c::char)"
  using all_bytes [of P] by blast

section \<open>Lookup tables\<close>

text \<open>A table is compared with the predicate it stands for in one evaluation over its rows.\<close>

lemma table_nth:
  assumes "map f T = map P [0..<n]" "c < n"
  shows "f (T ! c) = P c"
proof -
  have "length T = n" using arg_cong [OF assms(1), of length] by simp
  then show ?thesis using arg_cong [OF assms(1), of "\<lambda>l. l ! c"] assms(2) by simp
qed

lemma upt_all: "list_all P [m..<n] \<Longrightarrow> m \<le> i \<Longrightarrow> i < n \<Longrightarrow> P i"
  by (simp add: list_all_iff)

section \<open>Positions and slices\<close>

definition at :: "'a list \<Rightarrow> int \<Rightarrow> 'a" where
  "at s i = s ! nat i"

definition seg :: "'a list \<Rightarrow> int \<Rightarrow> int \<Rightarrow> 'a list" where
  "seg s b e = take (nat (e - b)) (drop (nat b) s)"

text \<open>Code equations that walk the list on the integer position.\<close>

lemma at_code [code]:
  "at s i = (case s of [] \<Rightarrow> [] ! nat i | x # xs \<Rightarrow> if i \<le> 0 then x else at xs (i - 1))"
proof (cases s)
  case (Cons x xs)
  show ?thesis
  proof (cases "i \<le> 0")
    case False
    then have "nat i = Suc (nat (i - 1))" by linarith
    then show ?thesis using Cons False by (simp add: at_def)
  qed (simp add: Cons at_def)
qed (simp add: at_def)

lemma seg_code [code]:
  "seg s b e = (case s of [] \<Rightarrow> [] | x # xs \<Rightarrow>
     if 0 < b then seg xs (b - 1) (e - 1)
     else if b < e then x # seg xs 0 (if b < 0 then e - b - 1 else e - 1) else [])"
proof (cases s)
  case (Cons x xs)
  consider "0 < b" | "b \<le> 0" "b < e" | "b \<le> 0" "e \<le> b" by linarith
  then show ?thesis
  proof cases
    case 1
    then have "nat b = Suc (nat (b - 1))" by linarith
    then show ?thesis using Cons 1 by (simp add: seg_def)
  next
    case 2
    then have "nat (e - b) = Suc (nat (e - b - 1))" by linarith
    then show ?thesis using Cons 2 by (auto simp: seg_def)
  qed (use Cons in \<open>simp add: seg_def\<close>)
qed (simp add: seg_def)

abbreviation len :: "'a list \<Rightarrow> int" where
  "len s \<equiv> int (length s)"

lemma seg_empty [simp]: "e \<le> b \<Longrightarrow> seg s b e = []"
  by (simp add: seg_def)

lemma seg_all [simp]: "seg s 0 (len s) = s"
  by (simp add: seg_def)

lemma length_seg [index_simps]: "0 \<le> b \<Longrightarrow> b \<le> e \<Longrightarrow> e \<le> len s \<Longrightarrow> len (seg s b e) = e - b"
  by (simp add: seg_def)

lemma seg_Cons: "0 \<le> b \<Longrightarrow> b < e \<Longrightarrow> e \<le> len s \<Longrightarrow> seg s b e = at s b # seg s (b + 1) e"
proof -
  assume a: "0 \<le> b" "b < e" "e \<le> len s"
  then have "nat (e - b) = Suc (nat (e - (b + 1)))" "nat (b + 1) = Suc (nat b)"
    by linarith+
  moreover from a have "drop (nat b) s = s ! nat b # drop (Suc (nat b)) s"
    by (subst Cons_nth_drop_Suc) auto
  ultimately show ?thesis by (simp add: seg_def at_def)
qed

lemma seg_split:
  assumes "0 \<le> b" "b \<le> m" "m \<le> e"
  shows "seg s b e = seg s b m @ seg s m e"
proof -
  have "nat (e - b) = nat (m - b) + nat (e - m)" "nat m = nat (m - b) + nat b"
    using assms by linarith+
  then show ?thesis by (simp add: seg_def take_add)
qed

lemma seg_snoc:
  assumes "0 \<le> b" "b < e" "e \<le> len s"
  shows "seg s b e = seg s b (e - 1) @ [at s (e - 1)]"
  using assms seg_split [of b "e - 1" e s] seg_Cons [of "e - 1" e s] by simp

lemma seg_sep:
  assumes "0 \<le> b" "b \<le> m" "m < e" "e \<le> len s"
  shows "seg s b e = seg s b m @ at s m # seg s (m + 1) e"
  using assms seg_split [of b m e s] seg_Cons [of m e s] by simp

lemma at_seg [index_simps]:
  "0 \<le> b \<Longrightarrow> 0 \<le> i \<Longrightarrow> i < e - b \<Longrightarrow> e \<le> len s \<Longrightarrow> at (seg s b e) i = at s (b + i)"
  by (simp add: at_def seg_def nat_add_distrib)

lemma in_set_seg:
  "c \<in> set (seg s b e) \<Longrightarrow> 0 \<le> b \<Longrightarrow> e \<le> len s \<Longrightarrow> \<exists>i. b \<le> i \<and> i < e \<and> c = at s i"
  by (force simp: in_set_conv_nth seg_def at_def nat_add_distrib
      intro: exI [of _ "b + int _"])

lemma set_segI: "0 \<le> b \<Longrightarrow> b \<le> i \<Longrightarrow> i < e \<Longrightarrow> e \<le> len s \<Longrightarrow> at s i \<in> set (seg s b e)"
  using seg_sep [of b i e s] by simp

lemma at_append_left [index_simps]: "0 \<le> i \<Longrightarrow> i < len s \<Longrightarrow> at (s @ t) i = at s i"
  by (simp add: at_def nth_append nat_less_iff)

lemma at_append_right [index_simps]: "len s \<le> i \<Longrightarrow> at (s @ t) i = at t (i - len s)"
  by (simp add: at_def nth_append nat_less_iff nat_diff_distrib)

lemma seg_append_right [index_simps]:
  "len s \<le> b \<Longrightarrow> seg (s @ t) b e = seg t (b - len s) (e - len s)"
  by (cases "b \<le> e") (simp_all add: seg_def nat_diff_distrib)

lemma seg_append_left [index_simps]:
  "0 \<le> b \<Longrightarrow> e \<le> len s \<Longrightarrow> seg (s @ t) b e = seg s b e"
  by (cases "b \<le> e") (simp_all add: seg_def)

lemma seg_drop: "0 \<le> b \<Longrightarrow> seg (drop (nat b) s) 0 l = seg s b (b + l)"
  by (simp add: seg_def)

section \<open>Index loops\<close>

lemma upto_induct [case_names past step]:
  fixes i e :: int
  assumes "\<And>i. e \<le> i \<Longrightarrow> P i" "\<And>i. i < e \<Longrightarrow> P (i + 1) \<Longrightarrow> P i"
  shows "P i"
proof (induction "nat (e - i)" arbitrary: i)
  case 0
  then show ?case using assms(1) by simp
next
  case (Suc n)
  then have "n = nat (e - (i + 1))" "i < e" by linarith+
  then show ?case using Suc(1) assms(2) by blast
qed

function scan_fwd :: "('a \<Rightarrow> bool) \<Rightarrow> 'a list \<Rightarrow> int \<Rightarrow> int \<Rightarrow> int" where
  "scan_fwd P s i e = (if i < e \<and> P (at s i) then scan_fwd P s (i + 1) e else i)"
  by pat_completeness auto
termination
  by (relation "measure (\<lambda>(P, s, i, e). nat (e - i))") auto

declare scan_fwd.simps [simp del]

function scan_back :: "('a \<Rightarrow> bool) \<Rightarrow> 'a list \<Rightarrow> int \<Rightarrow> int \<Rightarrow> int" where
  "scan_back P s lo i = (if lo < i \<and> P (at s i) then scan_back P s lo (i - 1) else i)"
  by pat_completeness auto
termination
  by (relation "measure (\<lambda>(P, s, lo, i). nat (i - lo))") auto

declare scan_back.simps [simp del]

lemma scan_fwd_ge: "i \<le> scan_fwd P s i e"
  by (induction P s i e rule: scan_fwd.induct) (subst scan_fwd.simps, force)

lemma scan_fwd_le: "i \<le> e \<Longrightarrow> scan_fwd P s i e \<le> e"
  by (induction P s i e rule: scan_fwd.induct) (subst scan_fwd.simps, force)

lemma scan_fwd_past: "e \<le> i \<Longrightarrow> scan_fwd P s i e = i"
  by (simp add: scan_fwd.simps)

lemma scan_fwd_stop: "scan_fwd P s i e < e \<Longrightarrow> \<not> P (at s (scan_fwd P s i e))"
  by (induction P s i e rule: scan_fwd.induct) (metis scan_fwd.simps)

lemma scan_fwd_run: "i \<le> k \<Longrightarrow> k < scan_fwd P s i e \<Longrightarrow> P (at s k)"
proof (induction P s i e rule: scan_fwd.induct)
  case (1 P s i e)
  then show ?case
    by (cases "k = i") (auto simp: scan_fwd.simps [of P s i e] split: if_splits)
qed

lemma scan_fwd_eqI:
  assumes "i \<le> j" "j \<le> e" "\<And>k. i \<le> k \<Longrightarrow> k < j \<Longrightarrow> P (at s k)" "j < e \<Longrightarrow> \<not> P (at s j)"
  shows "scan_fwd P s i e = j"
proof (rule antisym)
  show "scan_fwd P s i e \<le> j"
    using assms scan_fwd_run [of i j P s e] scan_fwd_le [of i e P s]
    by (cases "j < e") force+
  show "j \<le> scan_fwd P s i e"
    using assms scan_fwd_stop [of P s i e] scan_fwd_ge [of i P s e] by force
qed

lemma scan_fwd_seg:
  assumes "0 \<le> i" "e \<le> len s"
  shows "x \<in> set (seg s i (scan_fwd P s i e)) \<Longrightarrow> P x"
  using assms scan_fwd_run [of i _ P s e] scan_fwd_le [of i e P s] in_set_seg
  by (metis linorder_not_less order_trans scan_fwd_past seg_empty
      empty_iff list.set(1) nle_le)

lemma scan_back_le: "scan_back P s lo i \<le> i"
  by (induction P s lo i rule: scan_back.induct) (subst scan_back.simps, force)

lemma scan_back_ge: "lo \<le> i \<Longrightarrow> lo \<le> scan_back P s lo i"
  by (induction P s lo i rule: scan_back.induct) (subst scan_back.simps, force)

lemma scan_back_stop: "lo < scan_back P s lo i \<Longrightarrow> \<not> P (at s (scan_back P s lo i))"
  by (induction P s lo i rule: scan_back.induct) (metis scan_back.simps)

lemma scan_back_run: "scan_back P s lo i < k \<Longrightarrow> k \<le> i \<Longrightarrow> P (at s k)"
proof (induction P s lo i rule: scan_back.induct)
  case (1 P s lo i)
  then show ?case
    by (cases "k = i") (auto simp: scan_back.simps [of P s lo i] split: if_splits)
qed

lemma scan_fwd_between: "i \<le> e \<Longrightarrow> i \<le> scan_fwd P s i e \<and> scan_fwd P s i e \<le> e"
  using scan_fwd_ge scan_fwd_le by blast

lemma scan_back_between: "lo \<le> i \<Longrightarrow> lo \<le> scan_back P s lo i \<and> scan_back P s lo i \<le> i"
  using scan_back_ge scan_back_le by blast

section \<open>Loops over a text with known parts\<close>

lemma at_sep: "at (pre @ c # t) (len pre) = c"
  by (simp add: at_def nth_append)

lemma at_sep2: "at (pre @ c # d # t) (len pre + 1) = d"
  by (simp add: at_def nth_append nat_add_distrib)

lemma at_mid:
  assumes "u = pre @ t @ rest" "len pre \<le> k" "k < len pre + len t"
  shows "at u k \<in> set t"
proof -
  have "at u k = t ! nat (k - len pre)"
    using assms at_append_right [of pre k "t @ rest"] by (simp add: at_def nth_append nat_less_iff)
  moreover have "nat (k - len pre) < length t" using assms by linarith
  ultimately show ?thesis by simp
qed

lemma at_next: "u = pre @ t @ c # rest \<Longrightarrow> at u (len pre + len t) = c"
  using at_sep [of "pre @ t" c rest] by simp

lemma scan_fwd_text:
  assumes "u = pre @ t @ rest" "\<And>c. c \<in> set t \<Longrightarrow> P c" "len pre + len t \<le> e"
    "len pre + len t < e \<Longrightarrow> rest \<noteq> [] \<and> \<not> P (hd rest)"
  shows "scan_fwd P u (len pre) e = len pre + len t"
proof (rule scan_fwd_eqI)
  show "\<And>k. len pre \<le> k \<Longrightarrow> k < len pre + len t \<Longrightarrow> P (at u k)"
    using at_mid [OF assms(1)] assms(2) by blast
  show "len pre + len t < e \<Longrightarrow> \<not> P (at u (len pre + len t))"
    using assms(4) at_next [of u pre t "hd rest" "tl rest"] assms(1) by auto
qed (use assms(3) in simp_all)

lemma scan_back_eqI:
  assumes "j \<le> i" "lo \<le> j" "\<And>k. j < k \<Longrightarrow> k \<le> i \<Longrightarrow> P (at s k)" "lo < j \<Longrightarrow> \<not> P (at s j)"
  shows "scan_back P s lo i = j"
proof (rule antisym)
  show "scan_back P s lo i \<le> j"
    using assms scan_back_stop [of lo P s i] scan_back_le [of P s lo i] scan_back_ge [of lo i P s] by force
  show "j \<le> scan_back P s lo i"
    using assms scan_back_run [of P s lo i j] scan_back_ge [of lo i P s] by (cases "lo < j") force+
qed

text \<open>The backward loop stops at the end of \<open>pre\<close>.\<close>

lemma scan_back_text:
  assumes "u = pre @ c # t @ rest" "\<And>x. x \<in> set t \<Longrightarrow> P x" "\<not> P c" "lo \<le> len pre"
  shows "scan_back P u lo (len pre + len t) = len pre"
proof (rule scan_back_eqI)
  fix k assume k: "len pre < k" "k \<le> len pre + len t"
  have "u = (pre @ [c]) @ t @ rest" using assms(1) by simp
  from at_mid [OF this, of k] k show "P (at u k)" using assms(2) by simp
next
  show "lo < len pre \<Longrightarrow> \<not> P (at u (len pre))" using assms(1,3) at_sep [of pre c "t @ rest"] by simp
qed (use assms(4) in simp_all)

lemma scan_back_none:
  assumes "u = pre @ t @ rest" "\<And>x. x \<in> set t \<Longrightarrow> P x" "t \<noteq> []"
  shows "scan_back P u (len pre) (len pre + len t - 1) = len pre"
proof (rule scan_back_eqI)
  fix k assume k: "len pre < k" "k \<le> len pre + len t - 1"
  then show "P (at u k)" using at_mid [OF assms(1), of k] assms(2) by simp
next
  show "len pre \<le> len pre + len t - 1" using assms(3) by (cases t) simp_all
qed simp_all

end
