(* ===== verification/Base_Strings.thy ===== *)
theory Base_Strings
  imports Blink_Prelude
begin

text \<open>
  The ASCII string helpers of \<open>chromium/base/strings\<close> (\<open>string_util.h\<close>,
  \<open>string_util.cc\<close>, \<open>string_split.cc\<close>) that the URL, HTTP and cookie code
  calls: case mapping, case-insensitive comparison, trimming and splitting.
\<close>

section \<open>ASCII case\<close>

definition ToLowerASCII :: "char \<Rightarrow> char" where
  "ToLowerASCII c =
     (if byte CHR ''A'' \<le> byte c \<and> byte c \<le> byte CHR ''Z''
      then char_of (byte c + (byte CHR ''a'' - byte CHR ''A'')) else c)"

definition ToUpperASCII :: "char \<Rightarrow> char" where
  "ToUpperASCII c =
     (if byte CHR ''a'' \<le> byte c \<and> byte c \<le> byte CHR ''z''
      then char_of (byte c - (byte CHR ''a'' - byte CHR ''A'')) else c)"

definition LowerCaseEqualsASCII :: "str \<Rightarrow> str \<Rightarrow> bool" where
  "LowerCaseEqualsASCII s lowercase_ascii =
     (length s = length lowercase_ascii \<and>
      list_all2 (\<lambda>c l. ToLowerASCII c = l) s lowercase_ascii)"

lemma lower_case_iff: "LowerCaseEqualsASCII s t \<longleftrightarrow> map ToLowerASCII s = t"
  by (auto simp: LowerCaseEqualsASCII_def list_eq_iff_nth_eq list_all2_conv_all_nth)

text \<open>
  \<open>CompareCaseInsensitiveASCIIT\<close> for \<open>std::string\<close>: the lowered characters are
  compared as the signed \<open>char\<close> values they are.
\<close>

definition schar :: "char \<Rightarrow> int" where
  "schar c = (if byte c < 128 then int (byte c) else int (byte c) - 256)"

fun CompareCaseInsensitiveASCII :: "str \<Rightarrow> str \<Rightarrow> int" where
  "CompareCaseInsensitiveASCII (a # as) (b # bs) =
     (let lower_a = schar (ToLowerASCII a); lower_b = schar (ToLowerASCII b)
      in if lower_a < lower_b then -1
         else if lower_a > lower_b then 1
         else CompareCaseInsensitiveASCII as bs)"
| "CompareCaseInsensitiveASCII as bs =
     (if length as = length bs then 0 else if length as < length bs then -1 else 1)"

definition EqualsCaseInsensitiveASCII :: "str \<Rightarrow> str \<Rightarrow> bool" where
  "EqualsCaseInsensitiveASCII a b =
     (if length a \<noteq> length b then False else CompareCaseInsensitiveASCII a b = 0)"

lemma byte_ToLower: "byte (ToLowerASCII c) = (if 65 \<le> byte c \<and> byte c \<le> 90 then byte c + 32 else byte c)"
  by (simp add: ToLowerASCII_def)

lemma byte_ToUpper: "byte (ToUpperASCII c) = (if 97 \<le> byte c \<and> byte c \<le> 122 then byte c - 32 else byte c)"
  by (auto simp: ToUpperASCII_def intro: mod_less)

lemma ToLower_idem [simp]: "ToLowerASCII (ToLowerASCII c) = ToLowerASCII c"
  by (auto simp: char_eq_byte byte_ToLower byte_ToUpper simp del: of_char_eq_iff)

lemma ToLower_ToUpper [simp]: "ToLowerASCII (ToUpperASCII c) = ToLowerASCII c"
  by (auto simp: char_eq_byte byte_ToLower byte_ToUpper simp del: of_char_eq_iff)

lemma ToUpper_ToLower [simp]: "ToUpperASCII (ToLowerASCII c) = ToUpperASCII c"
  by (auto simp: char_eq_byte byte_ToLower byte_ToUpper simp del: of_char_eq_iff)

lemma LowerCaseEquals_map: "LowerCaseEqualsASCII s t \<longleftrightarrow> map ToLowerASCII s = t"
  by (auto simp: LowerCaseEqualsASCII_def list_all2_conv_all_nth list_eq_iff_nth_eq)

lemma schar_eq_iff [simp]: "schar c = schar d \<longleftrightarrow> c = d"
  by (auto simp: schar_def split: if_splits)
    (use byte_less [of c] byte_less [of d] in linarith)+

lemma Compare_eq_0: "CompareCaseInsensitiveASCII a b = 0 \<longleftrightarrow> map ToLowerASCII a = map ToLowerASCII b"
  by (induction a b rule: CompareCaseInsensitiveASCII.induct)
    (auto simp: Let_def not_less dest: antisym split: if_splits)

lemma EqualsCaseInsensitive_map:
  "EqualsCaseInsensitiveASCII a b \<longleftrightarrow> map ToLowerASCII a = map ToLowerASCII b"
  using map_eq_imp_length_eq [of ToLowerASCII a ToLowerASCII b]
  by (auto simp: EqualsCaseInsensitiveASCII_def Compare_eq_0)

end
