(* ===== verification/Base_String_Ops.thy ===== *)
theory Base_String_Ops
  imports Base_Strings
begin

unbundle bit_operations_syntax

text \<open>
  \<open>chromium/base/strings/string_util.cc\<close> and \<open>string_split.cc\<close>: searching, trimming,
  replacing, splitting and joining of 8-bit strings.  A \<open>size_t\<close> position is a natural
  number and \<open>npos\<close> is \<open>None\<close>; the operations of \<open>std::string\<close> and \<open>StringPiece\<close> that the
  code calls come first.
\<close>

section \<open>Operations of the standard library\<close>

fun find_index :: "(char \<Rightarrow> bool) \<Rightarrow> str \<Rightarrow> nat option" where
  "find_index P [] = None"
| "find_index P (c # s) = (if P c then Some 0 else map_option Suc (find_index P s))"

definition find_first_of :: "str \<Rightarrow> str \<Rightarrow> nat \<Rightarrow> nat option" where
  "find_first_of s chars pos = map_option (\<lambda>k. pos + k) (find_index (\<lambda>c. c \<in> set chars) (drop pos s))"

definition find_first_not_of :: "str \<Rightarrow> str \<Rightarrow> nat \<Rightarrow> nat option" where
  "find_first_not_of s chars pos = map_option (\<lambda>k. pos + k) (find_index (\<lambda>c. c \<notin> set chars) (drop pos s))"

definition find_last_not_of :: "str \<Rightarrow> str \<Rightarrow> nat option" where
  "find_last_not_of s chars = map_option (\<lambda>k. length s - 1 - k) (find_index (\<lambda>c. c \<notin> set chars) (rev s))"

definition matches_at :: "str \<Rightarrow> str \<Rightarrow> nat \<Rightarrow> bool" where
  "matches_at f s k \<longleftrightarrow> k + length f \<le> length s \<and> take (length f) (drop k s) = f"

text \<open>\<open>find\<close> of a string from a position on, and \<open>rfind\<close> from a position down.\<close>

definition str_find :: "str \<Rightarrow> str \<Rightarrow> nat \<Rightarrow> nat option" where
  "str_find f s pos = find (matches_at f s) [pos..<length s + 1]"

definition str_rfind :: "str \<Rightarrow> str \<Rightarrow> nat \<Rightarrow> nat option" where
  "str_rfind f s pos = find (matches_at f s) (rev [0..<min pos (length s) + 1])"

definition substr :: "str \<Rightarrow> nat \<Rightarrow> nat \<Rightarrow> str" where
  "substr s pos n = take n (drop pos s)"

definition str_replace :: "str \<Rightarrow> nat \<Rightarrow> nat \<Rightarrow> str \<Rightarrow> str" where
  "str_replace s pos n t = take pos s @ t @ drop (pos + n) s"

section \<open>Case and comparison\<close>

definition ToLowerASCIIImpl :: "str \<Rightarrow> str" where "ToLowerASCIIImpl s = map ToLowerASCII s"
definition ToUpperASCIIImpl :: "str \<Rightarrow> str" where "ToUpperASCIIImpl s = map ToUpperASCII s"

datatype CompareCase = SENSITIVE | INSENSITIVE_ASCII

definition StartsWith :: "str \<Rightarrow> str \<Rightarrow> CompareCase \<Rightarrow> bool" where
  "StartsWith s search_for case_sensitivity =
     (if length search_for > length s then False
      else let source = substr s 0 (length search_for)
           in case case_sensitivity of
                SENSITIVE \<Rightarrow> source = search_for
              | INSENSITIVE_ASCII \<Rightarrow> list_all2 (\<lambda>x y. ToLowerASCII x = ToLowerASCII y) search_for source)"

definition EndsWith :: "str \<Rightarrow> str \<Rightarrow> CompareCase \<Rightarrow> bool" where
  "EndsWith s search_for case_sensitivity =
     (if length search_for > length s then False
      else let source = substr s (length s - length search_for) (length search_for)
           in case case_sensitivity of
                SENSITIVE \<Rightarrow> source = search_for
              | INSENSITIVE_ASCII \<Rightarrow> list_all2 (\<lambda>x y. ToLowerASCII x = ToLowerASCII y) source search_for)"

definition ContainsOnlyChars :: "str \<Rightarrow> str \<Rightarrow> bool" where
  "ContainsOnlyChars input characters \<longleftrightarrow> find_first_not_of input characters 0 = None"

section \<open>Whitespace\<close>

definition kWhitespaceASCII :: str where
  "kWhitespaceASCII = [CHR 0x09, CHR 0x0A, CHR 0x0B, CHR 0x0C, CHR 0x0D, CHR 0x20]"

definition kWhitespaceWide :: "int list" where
  "kWhitespaceWide = [0x0009, 0x000A, 0x000B, 0x000C, 0x000D, 0x0020, 0x0085, 0x00A0, 0x1680,
     0x2000, 0x2001, 0x2002, 0x2003, 0x2004, 0x2005, 0x2006, 0x2007, 0x2008, 0x2009, 0x200A,
     0x2028, 0x2029, 0x202F, 0x205F, 0x3000]"

definition IsUnicodeWhitespace :: "int \<Rightarrow> bool" where
  "IsUnicodeWhitespace c \<longleftrightarrow> list_ex (\<lambda>cur. cur = c) kWhitespaceWide"

text \<open>The bits of \<open>TrimPositions\<close>.\<close>

type_synonym TrimPositions = nat

definition TRIM_NONE :: TrimPositions where "TRIM_NONE = 0"
definition TRIM_LEADING :: TrimPositions where "TRIM_LEADING = push_bit 0 1"
definition TRIM_TRAILING :: TrimPositions where "TRIM_TRAILING = push_bit 1 1"
definition TRIM_ALL :: TrimPositions where "TRIM_ALL = TRIM_LEADING OR TRIM_TRAILING"

text \<open>\<open>TrimStringT\<close> returns where it trimmed, and its output.\<close>

definition TrimStringT :: "str \<Rightarrow> str \<Rightarrow> TrimPositions \<Rightarrow> TrimPositions \<times> str" where
  "TrimStringT input trim_chars positions =
     (let last_char = length input - 1;
          first_good_char = (if positions AND TRIM_LEADING \<noteq> 0 then find_first_not_of input trim_chars 0 else Some 0);
          last_good_char = (if positions AND TRIM_TRAILING \<noteq> 0 then find_last_not_of input trim_chars else Some last_char)
      in if input = [] then (TRIM_NONE, [])
         else case (first_good_char, last_good_char) of
             (Some first, Some lst) \<Rightarrow>
               ((if first = 0 then TRIM_NONE else TRIM_LEADING) OR (if lst = last_char then TRIM_NONE else TRIM_TRAILING),
                substr input first (lst - first + 1))
           | _ \<Rightarrow> (positions, []))"

definition TrimString :: "str \<Rightarrow> str \<Rightarrow> bool \<times> str" where
  "TrimString input trim_chars =
     (let (positions, output) = TrimStringT input trim_chars TRIM_ALL in (positions \<noteq> TRIM_NONE, output))"

definition TrimStringPieceT :: "str \<Rightarrow> str \<Rightarrow> TrimPositions \<Rightarrow> str" where
  "TrimStringPieceT input trim_chars positions =
     (case (if positions AND TRIM_LEADING \<noteq> 0 then find_first_not_of input trim_chars 0 else Some 0) of
        None \<Rightarrow> []
      | Some b \<Rightarrow>
          (case (if positions AND TRIM_TRAILING \<noteq> 0 then find_last_not_of input trim_chars else Some (length input)) of
             None \<Rightarrow> []
           | Some e \<Rightarrow> substr input b (e - b + 1)))"

definition TrimWhitespaceASCII :: "str \<Rightarrow> TrimPositions \<Rightarrow> TrimPositions \<times> str" where
  "TrimWhitespaceASCII input positions = TrimStringT input kWhitespaceASCII positions"

text \<open>The loop of \<open>CollapseWhitespaceT\<close>: its flags, the result buffer and the count written.\<close>

definition collapse_char :: "bool \<Rightarrow> char \<Rightarrow> bool \<times> bool \<times> str \<times> nat \<Rightarrow> bool \<times> bool \<times> str \<times> nat" where
  "collapse_char trim_breaks c st =
     (let (in_whitespace, already_trimmed, result, chars_written) = st
      in if IsUnicodeWhitespace (schar c) then
           (let (result, chars_written) =
                  (if \<not> in_whitespace then (result[chars_written := CHR '' ''], chars_written + 1)
                   else (result, chars_written))
            in if trim_breaks \<and> \<not> already_trimmed \<and> (c = CHR 0x0A \<or> c = CHR 0x0D)
               then (True, True, result, chars_written - 1)
               else (True, already_trimmed, result, chars_written))
         else (False, False, result[chars_written := c], chars_written + 1))"

definition CollapseWhitespaceT :: "str \<Rightarrow> bool \<Rightarrow> str" where
  "CollapseWhitespaceT txt trim_breaks =
     (let (in_whitespace, already_trimmed, result, chars_written) =
            fold (collapse_char trim_breaks) txt (True, True, replicate (length txt) (CHR 0x00), 0);
          chars_written = (if in_whitespace \<and> \<not> already_trimmed then chars_written - 1 else chars_written)
      in take chars_written result)"

section \<open>ASCII tests on machine words\<close>

text \<open>
  \<open>DoIsStringASCII\<close> on a 64-bit little-endian machine, for a string at an address: the bytes
  before the first aligned address, the aligned words, and the rest.
\<close>

type_synonym MachineWord = "64 word"

definition IsAlignedToMachineWord :: "nat \<Rightarrow> bool" where "IsAlignedToMachineWord p \<longleftrightarrow> p AND 7 = 0"
definition AlignToMachineWord :: "nat \<Rightarrow> nat" where "AlignToMachineWord p = p - (p AND 7)"
definition NonASCIIMask :: MachineWord where "NonASCIIMask = 0x8080808080808080"

definition machine_word :: "str \<Rightarrow> MachineWord" where
  "machine_word s = foldr (\<lambda>c w. push_bit 8 w OR of_nat (byte c)) s 0"

fun ascii_prologue :: "nat \<Rightarrow> str \<Rightarrow> MachineWord \<Rightarrow> nat \<times> str \<times> MachineWord" where
  "ascii_prologue p [] bits = (p, [], bits)"
| "ascii_prologue p (c # s) bits =
     (if \<not> IsAlignedToMachineWord p then ascii_prologue (p + 1) s (bits OR word_of_int (schar c))
      else (p, c # s, bits))"

function ascii_words :: "nat \<Rightarrow> nat \<Rightarrow> str \<Rightarrow> MachineWord \<Rightarrow> nat \<times> str \<times> MachineWord" where
  "ascii_words p word_end s bits =
     (if p < word_end then ascii_words (p + 8) word_end (drop 8 s) (bits OR machine_word (take 8 s)) else (p, s, bits))"
  by pat_completeness auto
termination
  by (relation "measure (\<lambda>(p, e, s, bits). e - p)") auto

declare ascii_words.simps [simp del]

definition DoIsStringASCII :: "nat \<Rightarrow> str \<Rightarrow> bool" where
  "DoIsStringASCII characters s =
     (let e = characters + length s;
          (p, s1, bits1) = ascii_prologue characters s 0;
          word_end = AlignToMachineWord e;
          (p2, s2, bits2) = ascii_words p word_end s1 bits1;
          all_char_bits = fold (\<lambda>c bits. bits OR word_of_int (schar c)) s2 bits2
      in all_char_bits AND NonASCIIMask = 0)"

end
