(* ===== verification/Base_String_Edit.thy ===== *)
theory Base_String_Edit
  imports Base_String_Ops
begin

text \<open>
  The rest of \<open>string_util.cc\<close> and \<open>string_split.cc\<close>: the operations that build or rewrite a
  string in place.
\<close>

section \<open>Replacing characters\<close>

lemma find_index_bound: "find_index P s = Some k \<Longrightarrow> k < length s"
  by (induction s arbitrary: k) (auto split: if_splits)

lemma find_first_of_bound: "find_first_of s chars pos = Some k \<Longrightarrow> pos \<le> k \<and> k < length s"
  by (auto simp: find_first_of_def dest: find_index_bound)

function replace_chars :: "str \<Rightarrow> str \<Rightarrow> str \<Rightarrow> nat \<Rightarrow> bool \<Rightarrow> bool \<times> str" where
  "replace_chars chars replace_with output pos removed =
     (case find_first_of output chars pos of
        None \<Rightarrow> (removed, output)
      | Some found \<Rightarrow>
          replace_chars chars replace_with (str_replace output found 1 replace_with) (found + length replace_with) True)"
  by pat_completeness auto
termination
  by (relation "measure (\<lambda>(chars, rw, output, pos, removed). length output - pos)")
    (auto simp: str_replace_def dest!: find_first_of_bound)

declare replace_chars.simps [simp del]

definition ReplaceChars :: "str \<Rightarrow> str \<Rightarrow> str \<Rightarrow> bool \<times> str" where
  "ReplaceChars input chars replace_with = replace_chars chars replace_with input 0 False"

definition RemoveChars :: "str \<Rightarrow> str \<Rightarrow> bool \<times> str" where
  "RemoveChars input remove_chars = ReplaceChars input remove_chars []"

section \<open>Replacing substrings\<close>

definition memmove :: "str \<Rightarrow> nat \<Rightarrow> nat \<Rightarrow> nat \<Rightarrow> str" where
  "memmove s dst src n = take dst s @ take n (drop src s) @ drop (dst + n) s"

text \<open>\<open>resize\<close> fills with null characters.\<close>

definition str_resize :: "str \<Rightarrow> nat \<Rightarrow> str" where
  "str_resize s n = take n s @ replicate (n - length s) (CHR 0x00)"

lemma str_find_bound: "str_find f s pos = Some k \<Longrightarrow> pos \<le> k \<and> k + length f \<le> length s"
  by (auto simp: str_find_def find_Some_iff matches_at_def simp del: upt_Suc)

text \<open>
  The loops for find strings that are as long as the replacement, longer and shorter.  An
  empty find string makes them run forever, and the backward loop of the last one can compute
  a wrapped length and move bytes outside the buffer; both are \<open>None\<close>.
\<close>

partial_function (option) replace_same :: "str \<Rightarrow> str \<Rightarrow> str \<Rightarrow> nat \<Rightarrow> str option" where
  "replace_same find_this replace_with s offset =
     (let s = str_replace s offset (length find_this) replace_with
      in case str_find find_this s (offset + length replace_with) of
           None \<Rightarrow> Some s
         | Some offset \<Rightarrow> replace_same find_this replace_with s offset)"

partial_function (option) replace_shorter :: "str \<Rightarrow> str \<Rightarrow> nat \<Rightarrow> str \<Rightarrow> nat \<Rightarrow> nat \<Rightarrow> str option" where
  "replace_shorter find_this replace_with str_length s offset write_offset =
     (let (s, write_offset) =
            (if replace_with \<noteq> []
             then (str_replace s write_offset (length replace_with) replace_with, write_offset + length replace_with)
             else (s, write_offset));
          read_offset = offset + length find_this;
          offset = (case str_find find_this s read_offset of None \<Rightarrow> str_length | Some k \<Rightarrow> min k str_length);
          n = offset - read_offset;
          (s, write_offset) = (if n \<noteq> 0 then (memmove s write_offset read_offset n, write_offset + n) else (s, write_offset))
      in if offset < str_length then replace_shorter find_this replace_with str_length s offset write_offset
         else Some (str_resize s write_offset))"

partial_function (option) count_matches :: "str \<Rightarrow> str \<Rightarrow> nat \<Rightarrow> nat \<Rightarrow> nat \<Rightarrow> (nat \<times> nat) option" where
  "count_matches find_this s expansion final_length offset =
     (case str_find find_this s (offset + length find_this) of
        None \<Rightarrow> Some (final_length + expansion, offset)
      | Some offset' \<Rightarrow> count_matches find_this s expansion (final_length + expansion) offset')"

partial_function (option) replace_longer :: "str \<Rightarrow> str \<Rightarrow> nat \<Rightarrow> str \<Rightarrow> nat \<Rightarrow> nat \<Rightarrow> nat \<Rightarrow> str option" where
  "replace_longer find_this replace_with first_match s current_match prev_match write_offset =
     (let read_offset = current_match + length find_this
      in if prev_match < read_offset then None
         else
           let n = prev_match - read_offset;
               (s, write_offset) =
                 (if n \<noteq> 0 then (memmove s (write_offset - n) read_offset n, write_offset - n) else (s, write_offset));
               write_offset = write_offset - length replace_with;
               s = str_replace s write_offset (length replace_with) replace_with
           in if current_match = first_match then Some s
              else case str_rfind find_this s (current_match - 1) of
                     None \<Rightarrow> None
                   | Some k \<Rightarrow> replace_longer find_this replace_with first_match s k current_match write_offset)"

declare replace_same.simps [code] replace_shorter.simps [code] count_matches.simps [code] replace_longer.simps [code]

definition DoReplaceSubstringsAfterOffset :: "str \<Rightarrow> nat \<Rightarrow> str \<Rightarrow> str \<Rightarrow> bool \<Rightarrow> str option" where
  "DoReplaceSubstringsAfterOffset s offset find_this replace_with replace_all =
     (case str_find find_this s offset of
        None \<Rightarrow> Some s
      | Some offset \<Rightarrow>
          if \<not> replace_all then Some (str_replace s offset (length find_this) replace_with)
          else if length find_this = length replace_with then replace_same find_this replace_with s offset
          else if length find_this > length replace_with
          then replace_shorter find_this replace_with (length s) s offset offset
          else (case count_matches find_this s (length replace_with - length find_this) (length s) offset of
                  None \<Rightarrow> None
                | Some (final_length, current_match) \<Rightarrow>
                    replace_longer find_this replace_with offset (str_resize s final_length) current_match
                      (length s) final_length))"

definition ReplaceFirstSubstringAfterOffset :: "str \<Rightarrow> nat \<Rightarrow> str \<Rightarrow> str \<Rightarrow> str option" where
  "ReplaceFirstSubstringAfterOffset s start_offset find_this replace_with =
     DoReplaceSubstringsAfterOffset s start_offset find_this replace_with False"

definition ReplaceSubstringsAfterOffset :: "str \<Rightarrow> nat \<Rightarrow> str \<Rightarrow> str \<Rightarrow> str option" where
  "ReplaceSubstringsAfterOffset s start_offset find_this replace_with =
     DoReplaceSubstringsAfterOffset s start_offset find_this replace_with True"

section \<open>Joining and splitting\<close>

definition JoinStringT :: "str list \<Rightarrow> str \<Rightarrow> str" where
  "JoinStringT parts sep =
     (case parts of [] \<Rightarrow> [] | first # rest \<Rightarrow> fold (\<lambda>part result. (result @ sep) @ part) rest first)"

datatype WhitespaceHandling = KEEP_WHITESPACE | TRIM_WHITESPACE
datatype SplitResult = SPLIT_WANT_ALL | SPLIT_WANT_NONEMPTY

text \<open>What both splitters do with a piece.\<close>

definition add_piece :: "WhitespaceHandling \<Rightarrow> SplitResult \<Rightarrow> str \<Rightarrow> str list \<Rightarrow> str list" where
  "add_piece whitespace result_type piece result =
     (let piece = (if whitespace = TRIM_WHITESPACE then TrimStringPieceT piece kWhitespaceASCII TRIM_ALL else piece)
      in if result_type = SPLIT_WANT_ALL \<or> piece \<noteq> [] then result @ [piece] else result)"

function split_scan :: "str \<Rightarrow> str \<Rightarrow> WhitespaceHandling \<Rightarrow> SplitResult \<Rightarrow> nat \<Rightarrow> str list \<Rightarrow> str list" where
  "split_scan s delimiters whitespace result_type start result =
     (case find_first_of s delimiters start of
        None \<Rightarrow> add_piece whitespace result_type (drop start s) result
      | Some e \<Rightarrow> split_scan s delimiters whitespace result_type (e + 1)
                   (add_piece whitespace result_type (substr s start (e - start)) result))"
  by pat_completeness auto
termination
  by (relation "measure (\<lambda>(s, d, w, r, start, result). length s + 1 - start)")
    (auto dest!: find_first_of_bound)

declare split_scan.simps [simp del]

definition SplitString :: "str \<Rightarrow> str \<Rightarrow> WhitespaceHandling \<Rightarrow> SplitResult \<Rightarrow> str list" where
  "SplitString s separators whitespace result_type =
     (if s = [] then [] else split_scan s separators whitespace result_type 0 [])"

text \<open>\<open>None\<close> when the loop does not end: the delimiter is empty.\<close>

partial_function (option) split_substr_scan ::
  "str \<Rightarrow> str \<Rightarrow> WhitespaceHandling \<Rightarrow> SplitResult \<Rightarrow> nat \<Rightarrow> str list \<Rightarrow> str list option" where
  "split_substr_scan input delimiter whitespace result_type begin_index result =
     (case str_find delimiter input begin_index of
        None \<Rightarrow> Some (add_piece whitespace result_type (drop begin_index input) result)
      | Some end_index \<Rightarrow>
          split_substr_scan input delimiter whitespace result_type (end_index + length delimiter)
            (add_piece whitespace result_type (substr input begin_index (end_index - begin_index)) result))"

declare split_substr_scan.simps [code]

definition SplitStringUsingSubstr :: "str \<Rightarrow> str \<Rightarrow> WhitespaceHandling \<Rightarrow> SplitResult \<Rightarrow> str list option" where
  "SplitStringUsingSubstr input delimiter whitespace result_type =
     split_substr_scan input delimiter whitespace result_type 0 []"

text \<open>The success flag and the pair that is appended.\<close>

definition AppendStringKeyValue :: "str \<Rightarrow> char \<Rightarrow> bool \<times> str \<times> str" where
  "AppendStringKeyValue input delimiter =
     (case find_first_of input [delimiter] 0 of
        None \<Rightarrow> (False, [], [])
      | Some end_key_pos \<Rightarrow>
          let remains = substr input end_key_pos (length input - end_key_pos)
          in case find_first_not_of remains [delimiter] 0 of
               None \<Rightarrow> (False, substr input 0 end_key_pos, [])
             | Some begin_value_pos \<Rightarrow>
                 (True, substr input 0 end_key_pos, substr remains begin_value_pos (length remains - begin_value_pos)))"

definition SplitStringIntoKeyValuePairs :: "str \<Rightarrow> char \<Rightarrow> char \<Rightarrow> bool \<times> (str \<times> str) list" where
  "SplitStringIntoKeyValuePairs input key_value_delimiter key_value_pair_delimiter =
     fold (\<lambda>pair (success, key_value_pairs).
         let (ok, kv) = AppendStringKeyValue pair key_value_delimiter
         in (if \<not> ok then False else success, key_value_pairs @ [kv]))
       (SplitString input [key_value_pair_delimiter] TRIM_WHITESPACE SPLIT_WANT_NONEMPTY) (True, [])"

section \<open>Placeholders\<close>

text \<open>A \<open>ReplacementOffset\<close> is a parameter index and a position.\<close>

definition insert_offset :: "64 word \<times> nat \<Rightarrow> (64 word \<times> nat) list \<Rightarrow> (64 word \<times> nat) list" where
  "insert_offset r r_offsets =
     takeWhile (\<lambda>e. fst e < fst r) r_offsets @ r # dropWhile (\<lambda>e. fst e < fst r) r_offsets"

definition is_digit :: "char \<Rightarrow> bool" where
  "is_digit c \<longleftrightarrow> byte CHR ''0'' \<le> byte c \<and> byte c \<le> byte CHR ''9''"

definition placeholder_index :: "str \<Rightarrow> 64 word" where
  "placeholder_index digits = fold (\<lambda>c index. index * 10 + of_nat (byte c - byte CHR ''0'')) digits 0 - 1"

function placeholders ::
  "str list \<Rightarrow> str \<Rightarrow> str \<Rightarrow> (64 word \<times> nat) list \<Rightarrow> str \<times> (64 word \<times> nat) list" where
  "placeholders subst [] formatted r_offsets = (formatted, r_offsets)"
| "placeholders subst (c # i) formatted r_offsets =
     (if c = CHR ''$'' then
        (if i = [] then (formatted, r_offsets)
         else if hd i = CHR ''$''
         then placeholders subst (dropWhile (\<lambda>c. c = CHR ''$'') i) (formatted @ takeWhile (\<lambda>c. c = CHR ''$'') i) r_offsets
         else let index = placeholder_index (takeWhile is_digit i)
              in placeholders subst (dropWhile is_digit i)
                   (if index < of_nat (length subst) then formatted @ subst ! unat index else formatted)
                   (insert_offset (index, length formatted) r_offsets))
      else placeholders subst i (formatted @ [c]) r_offsets)"
  by pat_completeness auto
termination
  by (relation "measure (\<lambda>(subst, i, f, r). length i)") (auto simp: le_imp_less_Suc length_dropWhile_le)

text \<open>The formatted string and the offsets in the order of their parameters.\<close>

definition ReplaceStringPlaceholders :: "str \<Rightarrow> str list \<Rightarrow> str \<times> nat list" where
  "ReplaceStringPlaceholders format_string subst =
     (let (formatted, r_offsets) = placeholders subst format_string [] [] in (formatted, map snd r_offsets))"

section \<open>Zero-terminated strings\<close>

text \<open>
  \<open>lcpyT\<close> on a destination buffer and a source given by the bytes before its terminator: the
  result and the buffer.
\<close>

definition c_at :: "str \<Rightarrow> nat \<Rightarrow> char" where
  "c_at src i = (if i < length src then src ! i else CHR 0x00)"

function lcpy_scan :: "str \<Rightarrow> str \<Rightarrow> nat \<Rightarrow> nat \<Rightarrow> nat option \<times> str" where
  "lcpy_scan dst src dst_size i =
     (if i < dst_size then
        let dst = dst[i := c_at src i]
        in if dst ! i = CHR 0x00 then (Some i, dst) else lcpy_scan dst src dst_size (i + 1)
      else (None, dst))"
  by pat_completeness auto
termination
  by (relation "measure (\<lambda>(dst, src, n, i). n - i)") auto

declare lcpy_scan.simps [simp del]

definition lcpyT :: "str \<Rightarrow> str \<Rightarrow> nat \<Rightarrow> nat \<times> str" where
  "lcpyT dst src dst_size =
     (case lcpy_scan dst src dst_size 0 of
        (Some i, dst) \<Rightarrow> (i, dst)
      | (None, dst) \<Rightarrow>
          (let dst = (if dst_size \<noteq> 0 then dst[dst_size - 1 := CHR 0x00] else dst)
           in (dst_size + length (takeWhile (\<lambda>c. c \<noteq> CHR 0x00) (drop dst_size src)), dst)))"

text \<open>A format specification after its percent sign: portable, not portable, or to be continued.\<close>

definition not_portable :: "bool \<Rightarrow> nat \<Rightarrow> bool" where
  "not_portable modifier_l c \<longleftrightarrow>
     c \<noteq> byte CHR ''l'' \<and>
     (((c = byte CHR ''s'' \<or> c = byte CHR ''c'') \<and> \<not> modifier_l) \<or> c \<in> set (map byte ''SCFDOU''))"

definition known_specifier :: "nat \<Rightarrow> bool" where
  "known_specifier c \<longleftrightarrow> c \<in> set (map byte ''diouxXeEfgGaAcspn%'')"

fun portable_spec :: "bool \<Rightarrow> nat list \<Rightarrow> nat list option" where
  "portable_spec modifier_l [] = Some []"
| "portable_spec modifier_l (c # position) =
     (if not_portable modifier_l c then None
      else if known_specifier c then Some position
      else portable_spec (modifier_l \<or> c = byte CHR ''l'') position)"

lemma portable_spec_shorter: "portable_spec l s = Some t \<Longrightarrow> length t \<le> length s"
  by (induction s arbitrary: l) (fastforce split: if_splits)+

function IsWprintfFormatPortable :: "nat list \<Rightarrow> bool" where
  "IsWprintfFormatPortable [] = True"
| "IsWprintfFormatPortable (c # position) =
     (if c = byte CHR ''%'' then
        (case portable_spec False position of None \<Rightarrow> False | Some rest \<Rightarrow> IsWprintfFormatPortable rest)
      else IsWprintfFormatPortable position)"
  by pat_completeness auto
termination
  by (relation "measure length") (auto dest!: portable_spec_shorter)

definition HexDigitToInt :: "char \<Rightarrow> nat" where
  "HexDigitToInt c =
     (if byte CHR ''0'' \<le> byte c \<and> byte c \<le> byte CHR ''9'' then byte c - byte CHR ''0''
      else if byte CHR ''A'' \<le> byte c \<and> byte c \<le> byte CHR ''F'' then byte c - byte CHR ''A'' + 10
      else if byte CHR ''a'' \<le> byte c \<and> byte c \<le> byte CHR ''f'' then byte c - byte CHR ''a'' + 10
      else 0)"

end
