(* ===== verification/Base_String_Laws.thy ===== *)
theory Base_String_Laws
  imports Base_String_Edit
begin

text \<open>
  What holds of the string utilities: substitution in place against its recursive
  reference, splitting against joining, replacement of characters, the word-wise ASCII test.
\<close>

section \<open>Searching\<close>

lemma matches_atI: "take (length f) (drop k s) = f \<Longrightarrow> k \<le> length s \<Longrightarrow> matches_at f s k"
  unfolding matches_at_def by (metis le_diff_conv2 length_drop length_take min.cobounded1 add.commute)

lemma matches_at_len: "matches_at f s k \<Longrightarrow> k + length f \<le> length s"
  by (simp add: matches_at_def)

lemma matches_at_nth: "matches_at f s k \<Longrightarrow> i < length f \<Longrightarrow> s ! (k + i) = f ! i"
  unfolding matches_at_def by (metis add_leD1 nth_drop nth_take)

lemma matches_at_append: "matches_at f (d @ s) (length d + k) \<longleftrightarrow> matches_at f s k"
  by (simp add: matches_at_def)

lemma take_eq_le: "take m s = take m t \<Longrightarrow> n \<le> m \<Longrightarrow> take n s = take n t"
  by (metis min.absorb1 take_take)

lemma matches_at_take:
  assumes "take n s = take n t" "k + length f \<le> n" "n \<le> length t" "matches_at f s k"
  shows "matches_at f t k"
proof -
  have "take (length f) (drop k u) = drop k (take (k + length f) u)" for u :: str by (simp add: take_drop add.commute)
  then show ?thesis using take_eq_le [OF assms(1,2)] assms(2-4) by (simp add: matches_at_def)
qed

lemma find_SomeD: "find P xs = Some y \<longleftrightarrow> (\<exists>i<length xs. P (xs ! i) \<and> y = xs ! i \<and> (\<forall>j<i. \<not> P (xs ! j)))"
  by (rule find_Some_iff)

lemma str_find_Some:
  "str_find f s pos = Some k \<longleftrightarrow> pos \<le> k \<and> matches_at f s k \<and> (\<forall>j. pos \<le> j \<longrightarrow> j < k \<longrightarrow> \<not> matches_at f s j)"
  (is "?l = ?r")
proof
  assume ?l
  then obtain i where i: "i < length s + 1 - pos" "matches_at f s (pos + i)" "k = pos + i" "\<forall>j<i. \<not> matches_at f s (pos + j)"
    by (auto simp: str_find_def find_SomeD simp del: upt_Suc)
  then show ?r by (metis le_add1 le_add_diff_inverse nat_add_left_cancel_less)
next
  assume r: ?r
  then have "k < length s + 1" using matches_at_len [of f s k] by simp
  then show ?l using r
    by (auto simp: str_find_def find_SomeD simp del: upt_Suc intro!: exI [of _ "k - pos"])
qed

lemma str_find_None: "str_find f s pos = None \<longleftrightarrow> (\<forall>j\<ge>pos. \<not> matches_at f s j)"
  using matches_at_len [of f s] by (fastforce simp: str_find_def find_None_iff simp del: upt_Suc)

lemma rev_upt_nth: "i \<le> m \<Longrightarrow> rev [0..<m + 1] ! i = m - i"
  using rev_nth [of i "[0..<m + 1]"] nth_upt [of 0 "m - i" "m + 1"] by (simp del: upt_Suc)

lemma shorter: "f \<noteq> [] \<Longrightarrow> length f \<le> length s \<Longrightarrow> length s - length f < length s"
  by (cases f) auto

lemma str_rfind_Some:
  "str_rfind f s pos = Some k \<longleftrightarrow> k \<le> pos \<and> matches_at f s k \<and> (\<forall>j. k < j \<longrightarrow> j \<le> pos \<longrightarrow> \<not> matches_at f s j)"
  (is "?l = ?r")
proof -
  let ?m = "min pos (length s)"
  have n: "rev [0..<?m + 1] ! i = ?m - i" if "i \<le> ?m" for i
    using that by (rule rev_upt_nth)
  show ?thesis
  proof
    assume ?l
    then obtain i where i: "i \<le> ?m" "matches_at f s (rev [0..<?m + 1] ! i)" "k = rev [0..<?m + 1] ! i"
        "\<forall>j<i. \<not> matches_at f s (rev [0..<?m + 1] ! j)"
      by (auto simp: str_rfind_def find_SomeD less_Suc_eq_le simp del: upt_Suc)
    then have k: "k = ?m - i" "matches_at f s k" using n by auto
    have "\<not> matches_at f s j" if "k < j" "j \<le> pos" for j
    proof (cases "j \<le> length s")
      case True
      have "?m - (?m - j) = j" by (rule diff_diff_cancel) (use True that in simp)
      then have "rev [0..<?m + 1] ! (?m - j) = j" using n [OF diff_le_self, of j] by metis
      moreover have "?m - j < i" using k(1) i(1) that True by linarith
      ultimately show ?thesis using i(4) by metis
    next
      case False
      then show ?thesis using matches_at_len [of f s j] by linarith
    qed
    then show ?r using k by simp
  next
    assume r: ?r
    then have k: "k \<le> ?m" using matches_at_len [of f s k] by simp
    have "?m - k < length (rev [0..<?m + 1])" by (simp only: length_rev length_upt diff_zero)
    moreover have "rev [0..<?m + 1] ! (?m - k) = k" using n [OF diff_le_self, of k] diff_diff_cancel [OF k] by metis
    moreover have "\<forall>j<?m - k. \<not> matches_at f s (rev [0..<?m + 1] ! j)"
    proof (intro allI impI)
      fix j assume j: "j < ?m - k"
      then have "j \<le> ?m" "k < ?m - j" "?m - j \<le> pos" by (linarith, linarith, linarith)
      then show "\<not> matches_at f s (rev [0..<?m + 1] ! j)" using r n [of j] by metis
    qed
    ultimately show ?l using r unfolding str_rfind_def find_SomeD by metis
  qed
qed

section \<open>The replacement as a function\<close>

function replace_all :: "str \<Rightarrow> str \<Rightarrow> str \<Rightarrow> str" where
  "replace_all f r s =
     (if f \<noteq> [] \<and> matches_at f s 0 then r @ replace_all f r (drop (length f) s)
      else case s of [] \<Rightarrow> [] | c # s \<Rightarrow> c # replace_all f r s)"
  by pat_completeness auto
termination
  by (relation "measure (\<lambda>(f, r, s). length s)") (auto dest!: matches_at_len intro: shorter)

declare replace_all.simps [simp del]

function occurrences :: "str \<Rightarrow> str \<Rightarrow> nat" where
  "occurrences f s =
     (if f \<noteq> [] \<and> matches_at f s 0 then Suc (occurrences f (drop (length f) s))
      else case s of [] \<Rightarrow> 0 | c # s \<Rightarrow> occurrences f s)"
  by pat_completeness auto
termination
  by (relation "measure (\<lambda>(f, s). length s)") (auto dest!: matches_at_len intro: shorter)

declare occurrences.simps [simp del]

lemma matches_drop: "p \<le> length s \<Longrightarrow> matches_at f (drop p s) k \<longleftrightarrow> matches_at f s (p + k)"
  using matches_at_append [of f "take p s" "drop p s" k] by simp

lemma replace_all_at:
  "f \<noteq> [] \<Longrightarrow> matches_at f s p \<Longrightarrow> replace_all f r (drop p s) = r @ replace_all f r (drop (p + length f) s)"
  "f \<noteq> [] \<Longrightarrow> matches_at f s p \<Longrightarrow> occurrences f (drop p s) = Suc (occurrences f (drop (p + length f) s))"
  using matches_drop [of p s f 0] matches_at_len [of f s p]
  by (subst replace_all.simps occurrences.simps, simp add: add.commute)+

lemma replace_all_skip:
  "p < length s \<Longrightarrow> \<not> matches_at f s p \<Longrightarrow> replace_all f r (drop p s) = s ! p # replace_all f r (drop (Suc p) s)"
  "p < length s \<Longrightarrow> \<not> matches_at f s p \<Longrightarrow> occurrences f (drop p s) = occurrences f (drop (Suc p) s)"
  using matches_drop [of p s f 0] Cons_nth_drop_Suc [of p s]
  by (subst replace_all.simps occurrences.simps, simp split: list.split add: neq_Nil_conv, metis list.inject)+

lemma replace_all_gap:
  assumes "p \<le> k" "k \<le> length s" "\<And>j. p \<le> j \<Longrightarrow> j < k \<Longrightarrow> \<not> matches_at f s j"
  shows "replace_all f r (drop p s) = take (k - p) (drop p s) @ replace_all f r (drop k s) \<and>
    occurrences f (drop p s) = occurrences f (drop k s)"
  using assms
proof (induction "k - p" arbitrary: p)
  case (Suc n)
  have p: "p < length s" "\<not> matches_at f s p" "k - p = Suc (k - Suc p)" using Suc.hyps(2) Suc.prems by auto
  have "replace_all f r (drop (Suc p) s) = take (k - Suc p) (drop (Suc p) s) @ replace_all f r (drop k s) \<and>
    occurrences f (drop (Suc p) s) = occurrences f (drop k s)"
    using Suc.hyps Suc.prems p by simp
  moreover have "take (Suc (k - Suc p)) (drop p s) = s ! p # take (k - Suc p) (drop (Suc p) s)"
    by (simp flip: Cons_nth_drop_Suc [OF p(1)])
  ultimately show ?case unfolding replace_all_skip [OF p(1,2)] p(3) by simp
qed simp

lemma replace_all_found:
  assumes "str_find f s p = Some k" "f \<noteq> []"
  shows "replace_all f r (drop p s) = take (k - p) (drop p s) @ r @ replace_all f r (drop (k + length f) s)"
    "occurrences f (drop p s) = Suc (occurrences f (drop (k + length f) s))"
  using assms replace_all_gap [of p k s f r] replace_all_at [of f s k] matches_at_len [of f s k]
  by (auto simp: str_find_Some)

lemma replace_all_none:
  assumes "str_find f s p = None" "f \<noteq> []" "p \<le> length s"
  shows "replace_all f r (drop p s) = drop p s" "occurrences f (drop p s) = 0"
proof -
  have e: "replace_all f r [] = []" "occurrences f [] = 0"
    using assms(2) by (subst replace_all.simps, simp add: matches_at_def, subst occurrences.simps, simp add: matches_at_def)
  show "replace_all f r (drop p s) = drop p s" "occurrences f (drop p s) = 0"
    using replace_all_gap [of p "length s" s f r] assms(1,3) e by (simp_all add: str_find_None)
qed

lemma length_replace_all:
  assumes "length r = length f + e"
  shows "length (replace_all f r s) = length s + occurrences f s * e"
  using assms
proof (induction f s rule: occurrences.induct)
  case (1 f s)
  show ?case
  proof (cases "f \<noteq> [] \<and> matches_at f s 0")
    case True
    then show ?thesis
      using 1 matches_at_len [of f s 0] by (subst replace_all.simps, subst occurrences.simps) simp
  next
    case False
    then have "replace_all f r s = (case s of [] \<Rightarrow> [] | c # s \<Rightarrow> c # replace_all f r s)"
      "occurrences f s = (case s of [] \<Rightarrow> 0 | c # s \<Rightarrow> occurrences f s)"
      by (subst replace_all.simps, simp only: if_False, subst occurrences.simps, simp only: if_False)
    then show ?thesis using 1 False by (cases s) simp_all
  qed
qed

section \<open>The loops of the replacement\<close>

lemma str_find_append:
  "str_find f (d @ s) (length d) = map_option (\<lambda>k. length d + k) (str_find f s 0)"
proof (cases "str_find f s 0")
  case None
  then have "\<not> matches_at f (d @ s) j" if "length d \<le> j" for j
    using matches_at_append [of f d s "j - length d"] that by (simp add: str_find_None)
  then have "str_find f (d @ s) (length d) = None" by (simp add: str_find_None)
  then show ?thesis using None by simp
next
  case (Some k)
  then have "\<not> matches_at f (d @ s) j" if "length d \<le> j" "j < length d + k" for j
    using matches_at_append [of f d s "j - length d"] that by (auto simp: str_find_Some)
  then have "str_find f (d @ s) (length d) = Some (length d + k)"
    using Some matches_at_append [of f d s k] by (simp add: str_find_Some)
  then show ?thesis using Some by simp
qed

lemma str_find_drop:
  assumes "drop p s = drop p t" "length s = length t" "p \<le> length s"
  shows "str_find f s p = str_find f t p"
proof -
  have "str_find f u p = map_option (\<lambda>k. p + k) (str_find f (drop p u) 0)" if "p \<le> length u" for u
    using str_find_append [of f "take p u" "drop p u"] that by simp
  then show ?thesis using assms by simp
qed

lemma replace_same_eq:
  assumes "f \<noteq> []" "length f = length r" "str_find f s 0 = Some k"
  shows "replace_same f r (d @ s) (length d + k) = Some (d @ replace_all f r s)"
  using assms(3)
proof (induction "length s" arbitrary: d s k rule: less_induct)
  case less
  have m: "k + length f \<le> length s" using less.prems matches_at_len by (simp add: str_find_Some)
  let ?d = "d @ take k s @ r" and ?s = "drop (k + length f) s"
  have rep: "str_replace (d @ s) (length d + k) (length f) r = ?d @ ?s"
    by (simp add: str_replace_def)
  have len: "length d + k + length r = length ?d" using m by simp
  have whole: "replace_all f r s = take k s @ r @ replace_all f r ?s"
    using replace_all_found(1) [OF less.prems assms(1), of r] by simp
  show ?case
  proof (cases "str_find f ?s 0")
    case None
    then have "replace_all f r ?s = ?s" using replace_all_none(1) [of f ?s 0 r] assms(1) by simp
    moreover have "str_find f (?d @ ?s) (length ?d) = None" unfolding str_find_append using None by simp
    ultimately show ?thesis
      by (subst replace_same.simps) (simp only: Let_def rep len whole option.case, simp)
  next
    case (Some k')
    have f: "str_find f (?d @ ?s) (length ?d) = Some (length ?d + k')" unfolding str_find_append using Some by simp
    have "length ?s < length s" using m assms(1) by (cases f) auto
    from less.hyps [OF this Some, of ?d] show ?thesis
      by (subst replace_same.simps) (simp only: Let_def rep len f whole option.case, simp)
  qed
qed

text \<open>Moving text that lies behind the place it is moved to, and writing before a place.\<close>

lemma memmove_left:
  "w \<le> r \<Longrightarrow> r + n \<le> length s \<Longrightarrow> take (w + n) (memmove s w r n) = take w s @ take n (drop r s)"
  "w \<le> r \<Longrightarrow> r + n \<le> length s \<Longrightarrow> drop (r + n) (memmove s w r n) = drop (r + n) s"
  "w \<le> r \<Longrightarrow> r + n \<le> length s \<Longrightarrow> length (memmove s w r n) = length s"
  by (simp_all add: memmove_def)

lemma replace_in_place:
  "w + length t \<le> length s \<Longrightarrow> length (str_replace s w (length t) t) = length s"
  "w + length t \<le> length s \<Longrightarrow> take (w + length t) (str_replace s w (length t) t) = take w s @ t"
  "w + length t \<le> r \<Longrightarrow> r \<le> length s \<Longrightarrow> drop r (str_replace s w (length t) t) = drop r s"
  by (simp_all add: str_replace_def)

lemma replace_shorter_eq:
  assumes "f \<noteq> []" "length r < length f"
  shows "length s = N \<Longrightarrow> w \<le> p \<Longrightarrow> matches_at f s p \<Longrightarrow>
    replace_shorter f r N s p w = Some (take w s @ replace_all f r (drop p s))"
proof (induction "N - p" arbitrary: s p w rule: less_induct)
  case less
  have m: "p + length f \<le> N" using less.prems matches_at_len by blast
  define s1 where "s1 = (if r \<noteq> [] then str_replace s w (length r) r else s)"
  define w1 where "w1 = w + length r"
  let ?rd = "p + length f"
  have s1: "length s1 = N" "take w1 s1 = take w s @ r" "drop ?rd s1 = drop ?rd s"
    using m less.prems assms(2) replace_in_place(1,2) [of w r s] replace_in_place(3) [of w r ?rd s]
    by (simp_all add: s1_def w1_def)
  have w1: "w1 \<le> ?rd" using less.prems(2) assms(2) by (simp add: w1_def)
  have fst_step: "(if r \<noteq> [] then (str_replace s w (length r) r, w + length r) else (s, w)) = (s1, w1)"
    by (simp add: s1_def w1_def)
  have here: "replace_all f r (drop p s) = r @ replace_all f r (drop ?rd s)"
    using replace_all_at(1) [OF assms(1) less.prems(3)] .
  define q where "q = (case str_find f s1 ?rd of None \<Rightarrow> N | Some k \<Rightarrow> min k N)"
  have find: "str_find f s1 ?rd = str_find f s ?rd" using str_find_drop [OF s1(3)] s1(1) less.prems(1) m by simp
  have q: "?rd \<le> q" "q \<le> N" "q < N \<Longrightarrow> str_find f s ?rd = Some q" "\<not> q < N \<Longrightarrow> str_find f s ?rd = None"
  proof -
    have "?rd \<le> k \<and> k < N" if "str_find f s ?rd = Some k" for k
      using that matches_at_len [of f s k] less.prems(1) assms(1) by (auto simp: str_find_Some simp flip: length_greater_0_conv)
    then show "?rd \<le> q" "q \<le> N" "q < N \<Longrightarrow> str_find f s ?rd = Some q" "\<not> q < N \<Longrightarrow> str_find f s ?rd = None"
      using m by (cases "str_find f s ?rd"; force simp: q_def find)+
  qed
  define n where "n = q - ?rd"
  define s2 where "s2 = (if n \<noteq> 0 then memmove s1 w1 ?rd n else s1)"
  define w2 where "w2 = w1 + n"
  have sn: "(if n \<noteq> 0 then (memmove s1 w1 ?rd n, w1 + n) else (s1, w1)) = (s2, w2)" by (simp add: s2_def w2_def)
  have rn: "?rd + n = q" using q(1) by (simp add: n_def)
  have s2: "length s2 = N" "take w2 s2 = take w s @ r @ take n (drop ?rd s)" "drop q s2 = drop q s"
    using memmove_left [OF w1, of n s1] s1 q(2) rn
    by (cases "n = 0"; simp add: s2_def w2_def; metis append_assoc drop_drop add.commute)+
  have w2: "w2 \<le> q" using w1 rn by (simp add: w2_def)
  have step: "replace_shorter f r N s p w =
      (if q < N then replace_shorter f r N s2 q w2 else Some (str_resize s2 w2))"
    by (subst replace_shorter.simps) (simp only: fst_step Let_def prod.case q_def [symmetric] n_def [symmetric] sn)
  have rest: "replace_all f r (drop ?rd s) = take n (drop ?rd s) @ (if q < N then replace_all f r (drop q s) else [])"
  proof (cases "q < N")
    case True
    have "matches_at f s q" using q(3) [OF True] by (simp add: str_find_Some)
    then show ?thesis using replace_all_found(1) [OF q(3) [OF True] assms(1), of r] replace_all_at(1) [OF assms(1), of s q r] True
      by (simp add: n_def)
  next
    case False
    then show ?thesis using replace_all_none(1) [OF q(4) [OF False] assms(1), of r] m q(2) less.prems(1) by (simp add: n_def)
  qed
  show ?case
  proof (cases "q < N")
    case True
    then have "matches_at f s2 q" using q(3) [OF True] matches_drop [of q s2 f 0] matches_drop [of q s f 0] s2 less.prems(1) q(2)
      by (simp add: str_find_Some)
    moreover have "N - q < N - p" using q(1,2) True m assms(1) by (cases f) auto
    ultimately have "replace_shorter f r N s2 q w2 = Some (take w2 s2 @ replace_all f r (drop q s2))"
      using less.hyps s2(1) w2 by blast
    then show ?thesis unfolding step here rest using True s2 by simp
  next
    case False
    then show ?thesis unfolding step here rest using s2 w2 q by (simp add: str_resize_def)
  qed
qed

section \<open>The backward loop\<close>

text \<open>
  The buffer while the loop is at the match \<open>p\<close> before \<open>prev\<close>: the text before \<open>prev\<close> is
  still there, and the replacement of the text from \<open>prev\<close> on stands at \<open>w\<close>.
\<close>

definition back_state :: "str \<Rightarrow> str \<Rightarrow> str \<Rightarrow> nat \<Rightarrow> nat \<Rightarrow> str \<Rightarrow> bool" where
  "back_state f r s prev w t \<longleftrightarrow>
     prev \<le> length s \<and> prev \<le> w \<and> w \<le> length t \<and> take prev t = take prev s \<and> drop w t = replace_all f r (drop prev s)"

text \<open>One step: \<open>g\<close> is the number of bytes the output before the match will be longer.\<close>

lemma back_step:
  assumes f: "f \<noteq> []" "length r = length f + e" and m: "matches_at f s p"
    and n: "p + length f \<le> prev" "\<And>j. p + length f \<le> j \<Longrightarrow> j < prev \<Longrightarrow> \<not> matches_at f s j"
    and b: "back_state f r s prev (prev + (g + e)) t"
  defines "t' \<equiv> (let n = prev - (p + length f);
       (t1, w1) = (if n \<noteq> 0 then (memmove t (prev + (g + e) - n) (p + length f) n, prev + (g + e) - n) else (t, prev + (g + e)))
     in str_replace t1 (w1 - length r) (length r) r)"
  shows "back_state f r s p (p + g) t'" "take (p + g) t' = take (p + g) t" "length t' = length t"
    "replace_longer f r first t p prev (prev + (g + e)) =
       (if p = first then Some t'
        else case str_rfind f t' (p - 1) of None \<Rightarrow> None | Some k \<Rightarrow> replace_longer f r first t' k p (p + g))"
proof -
  define n where "n = prev - (p + length f)"
  define t1 where "t1 = (if n \<noteq> 0 then memmove t (prev + (g + e) - n) (p + length f) n else t)"
  have pn: "prev = p + length f + n" using n by (simp add: n_def)
  have w1: "prev + (g + e) - n = p + g + length r" using f(2) pn by simp
  have b': "prev \<le> length s" "prev + (g + e) \<le> length t" "take prev t = take prev s" "drop (prev + (g + e)) t = replace_all f r (drop prev s)"
    using b by (simp_all add: back_state_def)
  have wr: "(if n \<noteq> 0 then (memmove t (prev + (g + e) - n) (p + length f) n, prev + (g + e) - n) else (t, prev + (g + e))) = (t1, p + g + length r)"
    by (simp only: w1 [symmetric] t1_def) simp
  have t': "t' = str_replace t1 (p + g) (length r) r"
    unfolding t'_def n_def [symmetric] Let_def wr by simp
  have gap: "take n (drop (p + length f) t) = take n (drop (p + length f) s)"
    using b'(3) pn by (metis add_diff_cancel_left' drop_take)
  have D: "p + g + length r + n = prev + (g + e)" "p + length f + n \<le> length t"
    using w1 pn b'(2) by simp_all
  have mv: "memmove t (p + g + length r) (p + length f) n =
      take (p + g + length r) t @ take n (drop (p + length f) s) @ replace_all f r (drop prev s)"
    unfolding memmove_def gap D(1) b'(4) ..
  have t1: "t1 = take (p + g + length r) t @ take n (drop (p + length f) s) @ replace_all f r (drop prev s)"
  proof (cases "n = 0")
    case True
    then have "p + g + length r = prev + (g + e)" using D(1) by simp
    then show ?thesis unfolding t1_def b'(4) [symmetric] using True by (simp only: append_take_drop_id) simp
  next
    case False
    then show ?thesis unfolding t1_def w1 by (simp only: if_True not_False_eq_True mv)
  qed
  have le: "p + g + length r \<le> length t" using D(1) b'(2) by simp
  have t'2: "t' = take (p + g) t @ r @ take n (drop (p + length f) s) @ replace_all f r (drop prev s)"
    unfolding t' t1 str_replace_def using le by simp
  have rest: "replace_all f r (drop p s) = r @ take n (drop (p + length f) s) @ replace_all f r (drop prev s)"
    using replace_all_at(1) [OF f(1) m, of r] replace_all_gap [OF n(1) b'(1) n(2), of r] by (simp add: n_def)
  have whole: "t' = take (p + g) t @ replace_all f r (drop p s)" unfolding t'2 rest ..
  show tk: "take (p + g) t' = take (p + g) t" unfolding whole using le by simp
  have "length (take n (drop (p + length f) s)) = n" using b'(1) pn by simp
  moreover have "length (replace_all f r (drop prev s)) = length t - (prev + (g + e))" unfolding b'(4) [symmetric] by simp
  ultimately show l: "length t' = length t" unfolding t'2 using le D(1) b'(2) by simp
  have "take p t' = take p s" using tk b'(3) pn by (metis le_add1 min.absorb1 take_take add.assoc)
  then show "back_state f r s p (p + g) t'"
    unfolding back_state_def l using le b'(1) pn by (simp add: whole)
  show "replace_longer f r first t p prev (prev + (g + e)) =
       (if p = first then Some t'
        else case str_rfind f t' (p - 1) of None \<Rightarrow> None | Some k \<Rightarrow> replace_longer f r first t' k p (p + g))"
    using n(1) by (subst replace_longer.simps)
      (simp only: Let_def n_def [symmetric] wr prod.case t' [symmetric] not_less [symmetric] if_False add_diff_cancel_right')
qed

text \<open>A string whose first character occurs once has no overlapping occurrences.\<close>

lemma no_overlap:
  assumes "hd f \<notin> set (tl f)" "matches_at f x p" "matches_at f y j" "p < j" "j < p + length f" "x ! j = y ! j"
  shows False
proof -
  have "f \<noteq> []" using assms(4,5) by auto
  then have "y ! j = hd f" using matches_at_nth [OF assms(3), of 0] by (simp add: hd_conv_nth)
  moreover have "x ! j = f ! (j - p)" using matches_at_nth [OF assms(2), of "j - p"] assms(4,5) by simp
  moreover have "f ! (j - p) = tl f ! (j - p - 1)" "j - p - 1 < length (tl f)"
    using assms(4,5) \<open>f \<noteq> []\<close> by (simp_all add: nth_tl Suc_diff_Suc)
  ultimately show False using assms(1,6) nth_mem by metis
qed

lemma rfind_prev:
  assumes f: "f \<noteq> []" "hd f \<notin> set (tl f)" and p: "matches_at f s p" and q: "str_find f s (p + length f) = Some q"
    and t: "take (q + 1) t = take (q + 1) s" "length s \<le> length t"
  shows "str_rfind f t (q - 1) = Some p"
proof -
  have pq: "p + length f \<le> q" "matches_at f s q" "q < length s" and between: "\<And>j. p + length f \<le> j \<Longrightarrow> j < q \<Longrightarrow> \<not> matches_at f s j"
    using q matches_at_len [of f s q] f(1) by (auto simp: str_find_Some simp flip: length_greater_0_conv)
  have mt: "matches_at f t p" using matches_at_take [OF t(1) [symmetric] _ _ p] pq(1,3) t(2) by simp
  have at: "t ! q = s ! q" using t(1) by (metis less_add_one nth_take)
  have "\<not> matches_at f t j" if j: "p < j" "j \<le> q - 1" for j
  proof
    assume m: "matches_at f t j"
    have jq: "j < q" using j by linarith
    show False
    proof (cases "j < p + length f")
      case True
      then show False using no_overlap [OF f(2) mt m j(1)] by simp
    next
      case past: False
      show False
      proof (cases "j + length f \<le> q")
        case True
        then have "matches_at f s j" using matches_at_take [OF t(1) _ _ m] pq(3) by simp
        then show False using between [of j] past jq by simp
      next
        case False
        then show False using no_overlap [OF f(2) m pq(2) jq _ at] by simp
      qed
    qed
  qed
  moreover have "p \<le> q - 1" using pq(1) f(1) by (cases f) auto
  ultimately show ?thesis using mt by (simp add: str_rfind_Some)
qed

lemma longer_run:
  assumes f: "f \<noteq> []" "hd f \<notin> set (tl f)" "length r = length f + e" "0 < e"
  shows "matches_at f s p \<Longrightarrow> first \<le> p \<Longrightarrow> m = occurrences f (drop p s) \<Longrightarrow>
    back_state f r s (length s) (length s + (g + m * e)) t \<Longrightarrow>
    \<exists>last t'. (\<forall>L. count_matches f s e L p = Some (L + m * e, last)) \<and>
      back_state f r s p (p + g) t' \<and> length t' = length t \<and> (0 < g \<longrightarrow> take (p + 1) t' = take (p + 1) s) \<and>
      replace_longer f r first t last (length s) (length s + (g + m * e)) =
        (if p = first then Some t'
         else case str_rfind f t' (p - 1) of None \<Rightarrow> None | Some k \<Rightarrow> replace_longer f r first t' k p (p + g))"
proof (induction "length s - p" arbitrary: p m g rule: less_induct)
  case less
  have m: "m = Suc (occurrences f (drop (p + length f) s))"
    using replace_all_at(2) [OF f(1) less.prems(1)] less.prems(3) by simp
  have pl: "p + length f \<le> length s" using matches_at_len [OF less.prems(1)] .
  have f0: "0 < length f" using f(1) by simp
  show ?case
  proof (cases "str_find f s (p + length f)")
    case None
    then have m1: "m = 1" using m replace_all_none(2) [OF None f(1) pl] by simp
    have c: "count_matches f s e L p = Some (L + m * e, p)" for L
      by (subst count_matches.simps) (simp add: None m1)
    have b: "back_state f r s (length s) (length s + (g + e)) t" using less.prems(4) m1 by simp
    have n: "\<not> matches_at f s j" if "p + length f \<le> j" for j using None that by (simp add: str_find_None)
    note st = back_step [OF f(1,3) less.prems(1) pl _ b]
    obtain t' where t': "back_state f r s p (p + g) t'" "take (p + g) t' = take (p + g) t" "length t' = length t"
      "replace_longer f r first t p (length s) (length s + (g + e)) =
        (if p = first then Some t'
         else case str_rfind f t' (p - 1) of None \<Rightarrow> None | Some k \<Rightarrow> replace_longer f r first t' k p (p + g))"
      using st n by blast
    have "take (p + 1) t' = take (p + 1) s" if "0 < g"
    proof -
      have "take (p + 1) t' = take (p + 1) t" using take_eq_le [OF t'(2), of "p + 1"] that by simp
      moreover have "take (p + 1) t = take (p + 1) s"
        using take_eq_le [of "length s" t s "p + 1"] b pl f0 unfolding back_state_def by linarith
      ultimately show ?thesis by simp
    qed
    then show ?thesis using c t' m1 by (intro exI [of _ p] exI [of _ t']) simp
  next
    case (Some q)
    then have q: "p + length f \<le> q" "matches_at f s q" "\<And>j. p + length f \<le> j \<Longrightarrow> j < q \<Longrightarrow> \<not> matches_at f s j"
      by (auto simp: str_find_Some)
    define m' where "m' = occurrences f (drop q s)"
    have mm: "m = Suc m'"
      using m replace_all_found(2) [OF Some f(1)] replace_all_at(2) [OF f(1) q(2)] by (simp add: m'_def)
    have ge: "g + m * e = (g + e) + m' * e" using mm by simp
    have "length s - q < length s - p" "first \<le> q" using q(1) f0 matches_at_len [OF q(2)] less.prems(2) by linarith+
    from less.hyps [OF this(1) q(2) this(2) m'_def, of "g + e"] less.prems(4)
    obtain last t1 where c: "\<And>L. count_matches f s e L q = Some (L + m' * e, last)"
      and t1: "back_state f r s q (q + (g + e)) t1" "length t1 = length t" "take (q + 1) t1 = take (q + 1) s"
      and r: "replace_longer f r first t last (length s) (length s + (g + m * e)) =
        (if q = first then Some t1
         else case str_rfind f t1 (q - 1) of None \<Rightarrow> None | Some k \<Rightarrow> replace_longer f r first t1 k q (q + (g + e)))"
      unfolding ge using f(4) by auto
    have "length s \<le> length t" using less.prems(4) by (simp add: back_state_def)
    then have rf: "str_rfind f t1 (q - 1) = Some p" using rfind_prev [OF f(1,2) less.prems(1) Some t1(3)] t1(2) by simp
    have "q \<noteq> first" using less.prems(2) q(1) f0 by linarith
    then have r': "replace_longer f r first t last (length s) (length s + (g + m * e)) =
        replace_longer f r first t1 p q (q + (g + e))" using r rf by simp
    obtain t' where t': "back_state f r s p (p + g) t'" "take (p + g) t' = take (p + g) t1" "length t' = length t1"
      "replace_longer f r first t1 p q (q + (g + e)) =
        (if p = first then Some t'
         else case str_rfind f t' (p - 1) of None \<Rightarrow> None | Some k \<Rightarrow> replace_longer f r first t' k p (p + g))"
      using back_step [OF f(1,3) less.prems(1) q(1) q(3) t1(1)] by blast
    have "take (p + 1) t' = take (p + 1) s" if "0 < g"
    proof -
      have "take (p + 1) t' = take (p + 1) t1" using take_eq_le [OF t'(2), of "p + 1"] that by simp
      moreover have "take (p + 1) t1 = take (p + 1) s"
        using take_eq_le [OF t1(3), of "p + 1"] q(1) by simp
      ultimately show ?thesis by simp
    qed
    moreover have "count_matches f s e L p = Some (L + m * e, last)" for L
      by (subst count_matches.simps) (simp add: Some c mm)
    ultimately show ?thesis using t' t1(2) r' by (intro exI [of _ last] exI [of _ t']) simp
  qed
qed

lemma replace_longer_eq:
  assumes f: "f \<noteq> []" "hd f \<notin> set (tl f)" "length f < length r" and p: "matches_at f s p"
  shows "(case count_matches f s (length r - length f) (length s) p of
        None \<Rightarrow> None
      | Some (final_length, current_match) \<Rightarrow>
          replace_longer f r p (str_resize s final_length) current_match (length s) final_length) =
    Some (take p s @ replace_all f r (drop p s))"
proof -
  define e where "e = length r - length f"
  have e: "length r = length f + e" "0 < e" using f(3) by (simp_all add: e_def)
  define m where "m = occurrences f (drop p s)"
  let ?t = "str_resize s (length s + m * e)"
  have "occurrences f [] = 0" "replace_all f r [] = []"
    using f(1) by (subst occurrences.simps replace_all.simps, simp add: matches_at_def)+
  then have "back_state f r s (length s) (length s + (0 + m * e)) ?t"
    by (simp add: back_state_def str_resize_def)
  from longer_run [OF f(1,2) e p order_refl m_def this]
  obtain last t' where c: "\<And>L. count_matches f s e L p = Some (L + m * e, last)"
    and t': "back_state f r s p (p + 0) t'"
    and r: "replace_longer f r p ?t last (length s) (length s + (0 + m * e)) = Some t'" by auto
  have "t' = take p s @ replace_all f r (drop p s)"
    using t' append_take_drop_id [of p t'] by (simp add: back_state_def)
  then show ?thesis using c r unfolding e_def [symmetric] by simp
qed

lemma replace_all_offset:
  assumes "str_find f s n = Some p"
  shows "take n s @ replace_all f r (drop n s) = take p s @ replace_all f r (drop p s)"
proof -
  have p: "n \<le> p" "p \<le> length s" using assms matches_at_len [of f s p] by (simp_all add: str_find_Some)
  have "take p s = take n s @ take (p - n) (drop n s)" using p(1) by (metis le_add_diff_inverse take_add)
  moreover have "replace_all f r (drop n s) = take (p - n) (drop n s) @ replace_all f r (drop p s)"
    using replace_all_gap [OF p, of f r] assms by (simp add: str_find_Some)
  ultimately show ?thesis by simp
qed

text \<open>
  C11. The substitution of substrings, which shifts text inside the buffer, is the plain
  recursive replacement of the occurrences from the offset on, and it ends: always when the
  replacement is not longer than the string that is looked for, and for a longer one when the
  first character of that string does not occur in it again.
\<close>

theorem replace_substrings_reference:
  assumes "find_this \<noteq> []" "offset \<le> length s"
    "length replace_with \<le> length find_this \<or> hd find_this \<notin> set (tl find_this)"
  shows "ReplaceSubstringsAfterOffset s offset find_this replace_with =
    Some (take offset s @ replace_all find_this replace_with (drop offset s))"
proof (cases "str_find find_this s offset")
  case None
  then show ?thesis using replace_all_none(1) [OF None assms(1,2)]
    by (simp add: ReplaceSubstringsAfterOffset_def DoReplaceSubstringsAfterOffset_def)
next
  case (Some p)
  then have p: "matches_at find_this s p" by (simp add: str_find_Some)
  note def = ReplaceSubstringsAfterOffset_def DoReplaceSubstringsAfterOffset_def
  consider (same) "length find_this = length replace_with" | (shorter) "length replace_with < length find_this" |
    (longer) "length find_this < length replace_with" by linarith
  then show ?thesis unfolding replace_all_offset [OF Some]
  proof cases
    case same
    have "str_find find_this (drop p s) 0 = Some 0"
      using p matches_drop [of p s find_this 0] matches_at_len [OF p] by (simp add: str_find_Some)
    moreover have "length (take p s) + 0 = p" using matches_at_len [OF p] by simp
    ultimately show "ReplaceSubstringsAfterOffset s offset find_this replace_with =
        Some (take p s @ replace_all find_this replace_with (drop p s))"
      using replace_same_eq [OF assms(1) same, of "drop p s" 0 "take p s"] same Some by (simp add: def)
  next
    case shorter
    show "ReplaceSubstringsAfterOffset s offset find_this replace_with =
        Some (take p s @ replace_all find_this replace_with (drop p s))"
      using replace_shorter_eq [OF assms(1) shorter refl order_refl p] shorter Some by (simp add: def)
  next
    case longer
    then have "hd find_this \<notin> set (tl find_this)" using assms(3) by linarith
    then show "ReplaceSubstringsAfterOffset s offset find_this replace_with =
        Some (take p s @ replace_all find_this replace_with (drop p s))"
      using replace_longer_eq [OF assms(1) _ longer p] longer Some by (simp add: def)
  qed
qed

theorem replace_substrings_reference_witness:
  "ReplaceSubstringsAfterOffset ''a,b,c'' 2 '','' '', '' = Some ''a,b, c''"
proof -
  have "ReplaceSubstringsAfterOffset ''a,b,c'' 2 '','' '', '' = Some (take 2 ''a,b,c'' @ replace_all '','' '', '' (drop 2 ''a,b,c''))"
    by (rule replace_substrings_reference) simp_all
  also have "\<dots> = Some ''a,b, c''" by code_simp
  finally show ?thesis .
qed

text \<open>
  A find string that overlaps itself breaks the substitution by a longer one: the backward
  search finds an occurrence that the forward count skipped, the length of the text between
  the two wraps around, and the code moves bytes outside the buffer.
\<close>

theorem overlapping_replacement_fails:
  "ReplaceSubstringsAfterOffset ''aaaa'' 0 ''aa'' ''bbb'' = None \<and>
   replace_all ''aa'' ''bbb'' ''aaaa'' = ''bbbbbb'' \<and>
   ReplaceSubstringsAfterOffset ''aaaa'' 0 ''aa'' ''b'' = Some ''bb''"
  by (intro conjI; code_simp)

section \<open>Splitting and joining\<close>

lemma find_index_append: "\<not> list_ex P s \<Longrightarrow> find_index P (s @ t) = map_option (\<lambda>k. length s + k) (find_index P t)"
  by (induction s; cases "find_index P t") auto

lemma find_index_none: "find_index P s = None \<longleftrightarrow> \<not> list_ex P s"
  by (induction s) auto

lemma find_first_of_append: "find_first_of (d @ s) cs (length d) = map_option (\<lambda>k. length d + k) (find_index (\<lambda>c. c \<in> set cs) s)"
  by (simp add: find_first_of_def)

lemma JoinString_Cons: "JoinStringT (p # ps) sep = p @ concat (map (\<lambda>q. sep @ q) ps)"
proof -
  have "fold (\<lambda>part result. (result @ sep) @ part) ps r = r @ concat (map (\<lambda>q. sep @ q) ps)" for r
    by (induction ps arbitrary: r) simp_all
  then show ?thesis by (simp add: JoinStringT_def)
qed

lemma split_scan_pieces:
  assumes "list_all (\<lambda>p. c \<notin> set p) (p # ps)"
  shows "split_scan (d @ p @ concat (map ((#) c) ps)) [c] w rt (length d) result = fold (add_piece w rt) (p # ps) result"
  using assms
proof (induction ps arbitrary: d p result)
  case Nil
  then have "find_index (\<lambda>x. x \<in> set [c]) p = None" by (auto simp: find_index_none list_ex_iff)
  then have "find_first_of (d @ p) [c] (length d) = None" by (simp add: find_first_of_append)
  then show ?case by (subst split_scan.simps) simp
next
  case (Cons q ps)
  let ?rest = "concat (map ((#) c) ps)"
  have "\<not> list_ex (\<lambda>x. x \<in> set [c]) p" using Cons.prems by (auto simp: list_ex_iff)
  then have "find_first_of (d @ p @ c # q @ ?rest) [c] (length d) = Some (length d + length p)"
    using find_index_append [of "\<lambda>x. x \<in> set [c]" p "c # q @ ?rest"] by (simp only: find_first_of_append) simp
  moreover have "split_scan ((d @ p @ [c]) @ q @ ?rest) [c] w rt (length (d @ p @ [c])) (add_piece w rt p result) =
      fold (add_piece w rt) (q # ps) (add_piece w rt p result)"
    by (rule Cons.IH) (use Cons.prems in simp)
  ultimately show ?case by (subst split_scan.simps) (simp add: substr_def)
qed

text \<open>
  Splitting text at a separator and joining with it are inverse: parts that do not
  contain the separator come back unchanged and in order, empty ones included, unless the
  joined text is empty.
\<close>

theorem split_join_round_trip:
  assumes "list_all (\<lambda>p. c \<notin> set p) parts" "JoinStringT parts [c] \<noteq> []"
  shows "SplitString (JoinStringT parts [c]) [c] KEEP_WHITESPACE SPLIT_WANT_ALL = parts"
proof (cases parts)
  case (Cons p ps)
  have "fold (add_piece KEEP_WHITESPACE SPLIT_WANT_ALL) qs r = r @ qs" for qs r
    by (induction qs arbitrary: r) (simp_all add: add_piece_def)
  then show ?thesis
    using split_scan_pieces [of c p ps "[]" KEEP_WHITESPACE SPLIT_WANT_ALL "[]"] assms Cons
    by (simp add: SplitString_def JoinString_Cons add_piece_def)
qed (use assms(2) in \<open>simp add: JoinStringT_def\<close>)

theorem split_join_round_trip_witness: "SplitString '',a,,b'' '','' KEEP_WHITESPACE SPLIT_WANT_ALL = [[], ''a'', [], ''b'']"
proof -
  have "JoinStringT [[], ''a'', [], ''b''] '','' = '',a,,b''" by code_simp
  then show ?thesis using split_join_round_trip [of "CHR '',''" "[[], ''a'', [], ''b'']"] by simp
qed

section \<open>Replacing characters\<close>

lemma replace_chars_eq:
  "replace_chars chars rw (d @ s) (length d) removed =
     (removed \<or> list_ex (\<lambda>c. c \<in> set chars) s, d @ concat (map (\<lambda>c. if c \<in> set chars then rw else [c]) s))"
proof (induction "length s" arbitrary: d s removed rule: less_induct)
  case less
  show ?case
  proof (cases "list_ex (\<lambda>c. c \<in> set chars) s")
    case False
    then have "find_first_of (d @ s) chars (length d) = None" by (simp add: find_first_of_append find_index_none)
    moreover have "concat (map (\<lambda>c. if c \<in> set chars then rw else [c]) s) = s"
      using False by (induction s) auto
    ultimately show ?thesis using False by (subst replace_chars.simps) simp
  next
    case True
    then obtain pre c post where s: "s = pre @ c # post" "c \<in> set chars" "\<not> list_ex (\<lambda>c. c \<in> set chars) pre"
      using split_list_first_prop [of s "\<lambda>c. c \<in> set chars"] by (auto simp: list_ex_iff)
    then have "find_first_of (d @ s) chars (length d) = Some (length d + length pre)"
      using find_index_append [OF s(3), of "c # post"] by (simp only: find_first_of_append) simp
    moreover have "str_replace (d @ s) (length d + length pre) 1 rw = (d @ pre @ rw) @ post"
      by (simp add: str_replace_def s(1))
    moreover have "concat (map (\<lambda>c. if c \<in> set chars then rw else [c]) pre) = pre"
      using s(3) by (induction pre) auto
    ultimately show ?thesis
      using less.hyps [of post "d @ pre @ rw" True] True s by (subst replace_chars.simps) (simp add: add.assoc)
  qed
qed

lemma ReplaceChars_eq:
  "ReplaceChars input chars rw =
     (list_ex (\<lambda>c. c \<in> set chars) input, concat (map (\<lambda>c. if c \<in> set chars then rw else [c]) input))"
  using replace_chars_eq [of chars rw "[]" input False] by (simp add: ReplaceChars_def)

section \<open>ASCII\<close>


definition clean :: "MachineWord \<Rightarrow> bool" where
  "clean w \<longleftrightarrow> w AND NonASCIIMask = 0"

lemma clean_or: "clean (v OR w) \<longleftrightarrow> clean v \<and> clean w"
proof -
  have "(v OR w) AND NonASCIIMask = (v AND NonASCIIMask) OR (w AND NonASCIIMask)" by (rule bit.conj_disj_distrib2)
  then show ?thesis by (simp add: clean_def or_eq_0_iff)
qed

lemma mask_bits: "i < 64 \<Longrightarrow> bit NonASCIIMask i \<longleftrightarrow> i mod 8 = 7"
proof -
  have "list_all (\<lambda>i. bit NonASCIIMask i = (i mod 8 = 7)) [0..<64]" by code_simp
  then show "i < 64 \<Longrightarrow> bit NonASCIIMask i \<longleftrightarrow> i mod 8 = 7" by (simp add: list_all_iff)
qed

lemma clean_iff: "clean w \<longleftrightarrow> (\<forall>i<64. i mod 8 = 7 \<longrightarrow> \<not> bit w i)"
proof
  assume "clean w"
  then have "\<not> bit (w AND NonASCIIMask) i" for i by (simp add: clean_def)
  then show "\<forall>i<64. i mod 8 = 7 \<longrightarrow> \<not> bit w i" using mask_bits by (auto simp: bit_and_iff)
next
  assume "\<forall>i<64. i mod 8 = 7 \<longrightarrow> \<not> bit w i"
  then show "clean w" unfolding clean_def
    by (intro bit_word_eqI) (simp add: bit_and_iff mask_bits, blast)
qed

lemma clean_schar: "clean (word_of_int (schar c)) \<longleftrightarrow> byte c < 128"
proof -
  have "list_all (\<lambda>n. clean (word_of_int (if n < 128 then int n else int n - 256)) = (n < 128)) [0..<256]" by code_simp
  then show ?thesis using byte_less [of c] by (simp add: list_all_iff schar_def split: if_splits)
qed

lemma machine_word_bits:
  "j < 8 \<Longrightarrow> 8 * k + j < 64 \<Longrightarrow> bit (machine_word s) (8 * k + j) \<longleftrightarrow> k < length s \<and> bit (byte (s ! k)) j"
proof (induction s arbitrary: k)
  case (Cons c s)
  have high: "\<not> bit (byte c) i" if "8 \<le> i" for i
  proof -
    have "take_bit 8 (byte c) = byte c" using byte_less [of c] by (simp add: take_bit_nat_eq_self)
    then show ?thesis using that by (metis bit_take_bit_iff not_le)
  qed
  have w: "bit (word_of_nat (byte c) :: MachineWord) i \<longleftrightarrow> i < 64 \<and> bit (byte c) i" for i
    by (simp add: bit_of_nat_iff)
  have m: "machine_word (c # s) = push_bit 8 (machine_word s) OR word_of_nat (byte c)"
    by (simp add: machine_word_def)
  show ?case
  proof (cases k)
    case 0
    then show ?thesis using Cons.prems by (simp add: m bit_or_iff bit_push_bit_iff w)
  next
    case (Suc n)
    then have "\<not> bit (byte c) (8 * k + j)" "8 * n + j < 64" "8 * k + j - 8 = 8 * n + j" "8 \<le> 8 * k + j"
      using high Cons.prems by simp_all
    then show ?thesis using Cons.IH [OF Cons.prems(1), of n] Cons.prems Suc
      by (simp add: m bit_or_iff bit_push_bit_iff w del: mult_Suc_right)
  qed
qed (simp add: machine_word_def)

lemma byte_bit7: "bit (byte c) 7 \<longleftrightarrow> 128 \<le> byte c"
proof -
  have "list_all (\<lambda>n. bit n 7 = (128 \<le> n)) [0..<256]" by code_simp
  then show ?thesis using byte_less [of c] by (simp add: list_all_iff)
qed

definition ascii :: "str \<Rightarrow> bool" where
  "ascii s \<longleftrightarrow> list_all (\<lambda>c. byte c < 128) s"

lemma clean_machine_word:
  assumes "length s \<le> 8"
  shows "clean (machine_word s) \<longleftrightarrow> ascii s"
proof -
  have bits: "bit (machine_word s) (8 * k + 7) \<longleftrightarrow> k < length s \<and> 128 \<le> byte (s ! k)" if "k < 8" for k
    using machine_word_bits [of 7 k s] that byte_bit7 by simp
  have "clean (machine_word s) \<longleftrightarrow> (\<forall>k<8. \<not> bit (machine_word s) (8 * k + 7))"
  proof
    assume c: "clean (machine_word s)"
    have "8 * k + 7 < 64" "(8 * k + 7) mod 8 = 7" if "k < 8" for k :: nat using that by presburger+
    then show "\<forall>k<8. \<not> bit (machine_word s) (8 * k + 7)" using c unfolding clean_iff by blast
  next
    assume b: "\<forall>k<8. \<not> bit (machine_word s) (8 * k + 7)"
    have "\<not> bit (machine_word s) i" if "i < 64" "i mod 8 = 7" for i
    proof -
      have "i div 8 < 8" "8 * (i div 8) + 7 = i" using that by presburger+
      then show ?thesis using b by metis
    qed
    then show "clean (machine_word s)" unfolding clean_iff by blast
  qed
  also have "\<dots> \<longleftrightarrow> (\<forall>k<8. \<not> (k < length s \<and> 128 \<le> byte (s ! k)))" using bits by blast
  also have "\<dots> \<longleftrightarrow> ascii s" using assms by (auto simp: ascii_def list_all_length not_le)
  finally show ?thesis .
qed

lemma prologue_clean:
  "ascii_prologue p s bits = (p', s', bits') \<Longrightarrow> clean bits' \<and> ascii s' \<longleftrightarrow> clean bits \<and> ascii s"
  by (induction p s bits rule: ascii_prologue.induct)
    (auto simp: clean_or clean_schar ascii_def split: if_splits)

lemma words_clean:
  "ascii_words p e s bits = (p', s', bits') \<Longrightarrow> clean bits' \<and> ascii s' \<longleftrightarrow> clean bits \<and> ascii s"
proof (induction p e s bits rule: ascii_words.induct)
  case (1 p e s bits)
  have "ascii s \<longleftrightarrow> ascii (take 8 s) \<and> ascii (drop 8 s)"
    unfolding ascii_def by (metis append_take_drop_id list_all_append)
  then show ?case
    using 1 clean_machine_word [of "take 8 s"] by (subst (asm) (2) ascii_words.simps) (auto simp: clean_or split: if_splits)
qed

text \<open>
  C39. The test for ASCII, which collects eight characters at a time into a machine word
  after the first aligned address, is the test of every character, wherever the string lies.
\<close>

theorem is_string_ascii_reference: "DoIsStringASCII characters s \<longleftrightarrow> list_all (\<lambda>c. byte c < 128) s"
proof -
  obtain p s1 b1 where 1: "ascii_prologue characters s 0 = (p, s1, b1)" by (metis prod_cases3)
  obtain p2 s2 b2 where 2: "ascii_words p (AlignToMachineWord (characters + length s)) s1 b1 = (p2, s2, b2)" by (metis prod_cases3)
  have "clean (fold (\<lambda>c bits. bits OR word_of_int (schar c)) t b) \<longleftrightarrow> clean b \<and> ascii t" for t b
    by (induction t arbitrary: b) (auto simp: clean_or clean_schar ascii_def)
  moreover have "clean 0" by (simp add: clean_def)
  ultimately show ?thesis
    using prologue_clean [OF 1] words_clean [OF 2] by (simp add: DoIsStringASCII_def 1 2 clean_def [symmetric] ascii_def)
qed

end
