(* ===== verification/Url_Parse.thy ===== *)
theory Url_Parse
  imports Base_Strings
begin

text \<open>
  The URL parser of \<open>chromium/url/third_party/mozilla/url_parse.cc\<close> with its helpers in
  \<open>url_parse_internal.h\<close> and the scheme registry of \<open>url_util.cc\<close>: it splits a
  spec into ranges (\<open>component\<close>) without copying.  An output parameter that a function
  always writes is part of its result; one it may leave alone is an \<open>option\<close>.
\<close>

section \<open>Ranges and parsed URLs\<close>

record component =
  c_begin :: int
  c_len :: int

definition Component :: "int \<Rightarrow> int \<Rightarrow> component" where
  "Component b l = \<lparr>c_begin = b, c_len = l\<rparr>"

definition no_component :: component where
  "no_component = Component 0 (-1)"

definition c_end :: "component \<Rightarrow> int" where
  "c_end c = c_begin c + c_len c"

definition is_valid :: "component \<Rightarrow> bool" where
  "is_valid c \<longleftrightarrow> c_len c \<noteq> -1"

definition is_nonempty :: "component \<Rightarrow> bool" where
  "is_nonempty c \<longleftrightarrow> c_len c > 0"

definition MakeRange :: "int \<Rightarrow> int \<Rightarrow> component" where
  "MakeRange b e = Component b (e - b)"

text \<open>
  \<open>struct Parsed\<close>.  Only the outer structure of a \<open>filesystem:\<close> URL has an
  \<open>inner_parsed_\<close>, and that one never has a further one, so the eight ranges form a
  record of their own.
\<close>

record parts =
  p_scheme :: component
  p_username :: component
  p_password :: component
  p_host :: component
  p_port :: component
  p_path :: component
  p_query :: component
  p_ref :: component

record parsed = parts +
  inner_parsed :: "parts option"

definition no_parts :: parts where
  "no_parts = \<lparr>p_scheme = no_component, p_username = no_component, p_password = no_component,
     p_host = no_component, p_port = no_component, p_path = no_component,
     p_query = no_component, p_ref = no_component\<rparr>"

definition to_parsed :: "parts \<Rightarrow> parts option \<Rightarrow> parsed" where
  "to_parsed p i = \<lparr>p_scheme = p_scheme p, p_username = p_username p, p_password = p_password p,
     p_host = p_host p, p_port = p_port p, p_path = p_path p, p_query = p_query p,
     p_ref = p_ref p, inner_parsed = i\<rparr>"

datatype ComponentType = SCHEME | USERNAME | PASSWORD | HOST | PORT | PATH | QUERY | REF

fun component_index :: "ComponentType \<Rightarrow> nat" where
  "component_index SCHEME = 0"
| "component_index USERNAME = 1"
| "component_index PASSWORD = 2"
| "component_index HOST = 3"
| "component_index PORT = 4"
| "component_index PATH = 5"
| "component_index QUERY = 6"
| "component_index REF = 7"

text \<open>
  \<open>Parsed::CountCharactersBefore\<close>: the early returns walk the components in URL order
  and \<open>cur\<close> is the end of the last one seen.
\<close>

definition CountCharactersBefore :: "'a parts_scheme \<Rightarrow> ComponentType \<Rightarrow> bool \<Rightarrow> int" where
  "CountCharactersBefore p ty include_delimiter =
    (let t = component_index ty in
     if ty = SCHEME then c_begin (p_scheme p) else
     let cur0 = (if is_valid (p_scheme p) then c_end (p_scheme p) + 1 else 0) in
     if is_valid (p_username p) \<and> t \<le> 1 then c_begin (p_username p) else
     let cur1 = (if is_valid (p_username p) then c_end (p_username p) + 1 else cur0) in
     if is_valid (p_password p) \<and> t \<le> 2 then c_begin (p_password p) else
     let cur2 = (if is_valid (p_password p) then c_end (p_password p) + 1 else cur1) in
     if is_valid (p_host p) \<and> t \<le> 3 then c_begin (p_host p) else
     let cur3 = (if is_valid (p_host p) then c_end (p_host p) else cur2) in
     if is_valid (p_port p) \<and> (t < 4 \<or> t = 4 \<and> include_delimiter) then c_begin (p_port p) - 1 else
     if is_valid (p_port p) \<and> t = 4 then c_begin (p_port p) else
     let cur4 = (if is_valid (p_port p) then c_end (p_port p) else cur3) in
     if is_valid (p_path p) \<and> t \<le> 5 then c_begin (p_path p) else
     let cur5 = (if is_valid (p_path p) then c_end (p_path p) else cur4) in
     if is_valid (p_query p) \<and> (t < 6 \<or> t = 6 \<and> include_delimiter) then c_begin (p_query p) - 1 else
     if is_valid (p_query p) \<and> t = 6 then c_begin (p_query p) else
     let cur6 = (if is_valid (p_query p) then c_end (p_query p) else cur5) in
     if is_valid (p_ref p) then
       (if ty = REF \<and> \<not> include_delimiter then c_begin (p_ref p) else c_begin (p_ref p) - 1)
     else cur6)"

definition Parsed_Length :: "'a parts_scheme \<Rightarrow> int" where
  "Parsed_Length p =
     (if is_valid (p_ref p) then c_end (p_ref p) else CountCharactersBefore p REF False)"

definition GetContent :: "'a parts_scheme \<Rightarrow> component" where
  "GetContent p =
     (let b = CountCharactersBefore p USERNAME False; l = Parsed_Length p - b
      in if l \<noteq> 0 then Component b l else no_component)"

section \<open>Character classes and trimming (url_parse_internal.h)\<close>

definition IsURLSlash :: "nat \<Rightarrow> bool" where
  "IsURLSlash ch \<longleftrightarrow> ch = byte CHR ''/'' \<or> ch = byte CHR 0x5C"

definition ShouldTrimFromURL :: "nat \<Rightarrow> bool" where
  "ShouldTrimFromURL ch \<longleftrightarrow> ch \<le> byte CHR '' ''"

definition IsAuthorityTerminator :: "nat \<Rightarrow> bool" where
  "IsAuthorityTerminator ch \<longleftrightarrow> IsURLSlash ch \<or> ch = byte CHR ''?'' \<or> ch = byte CHR ''#''"

definition IsPortDigit :: "nat \<Rightarrow> bool" where
  "IsPortDigit ch \<longleftrightarrow> byte CHR ''0'' \<le> ch \<and> ch \<le> byte CHR ''9''"

abbreviation url_slash :: "char \<Rightarrow> bool" where
  "url_slash c \<equiv> IsURLSlash (char16_of c)"

abbreviation trimmed_char :: "char \<Rightarrow> bool" where
  "trimmed_char c \<equiv> ShouldTrimFromURL (char16_of c)"

text \<open>The result is the new \<open>(*begin, *len)\<close>.\<close>

definition TrimURL :: "str \<Rightarrow> int \<Rightarrow> int \<Rightarrow> bool \<Rightarrow> int \<times> int" where
  "TrimURL spec b l trim_path_end =
     (let b' = scan_fwd trimmed_char spec b l
      in (b', if trim_path_end then scan_back trimmed_char spec (b' - 1) (l - 1) + 1 else l))"

definition CountConsecutiveSlashes :: "str \<Rightarrow> int \<Rightarrow> int \<Rightarrow> int" where
  "CountConsecutiveSlashes s begin_offset str_len =
     scan_fwd url_slash s begin_offset str_len - begin_offset"

definition FindNextAuthorityTerminator :: "str \<Rightarrow> int \<Rightarrow> int \<Rightarrow> int" where
  "FindNextAuthorityTerminator spec start_offset spec_len =
     (let i = scan_fwd (\<lambda>c. \<not> IsAuthorityTerminator (char16_of c)) spec start_offset spec_len
      in if i < spec_len then i else spec_len)"

definition FindNextSlash :: "str \<Rightarrow> int \<Rightarrow> int \<Rightarrow> int" where
  "FindNextSlash spec begin_index spec_len = scan_fwd (\<lambda>c. \<not> url_slash c) spec begin_index spec_len"

section \<open>Authority\<close>

definition ParseUserInfo :: "str \<Rightarrow> component \<Rightarrow> component \<times> component" where
  "ParseUserInfo spec user =
     (let colon_offset = scan_fwd (\<lambda>c. c \<noteq> CHR '':'') spec (c_begin user) (c_end user) - c_begin user
      in if colon_offset < c_len user
         then (Component (c_begin user) colon_offset,
               MakeRange (c_begin user + colon_offset + 1) (c_begin user + c_len user))
         else (user, no_component))"

text \<open>The loop of \<open>ParseServerInfo\<close>: the last right bracket and the last colon.\<close>

function server_scan :: "str \<Rightarrow> int \<Rightarrow> int \<Rightarrow> int \<Rightarrow> int \<Rightarrow> int \<times> int" where
  "server_scan spec i e ipv6_terminator colon =
     (if i < e then
        (if at spec i = CHR '']'' then server_scan spec (i + 1) e i colon
         else if at spec i = CHR '':'' then server_scan spec (i + 1) e ipv6_terminator i
         else server_scan spec (i + 1) e ipv6_terminator colon)
      else (ipv6_terminator, colon))"
  by pat_completeness auto
termination
  by (relation "measure (\<lambda>(s, i, e, t, c). nat (e - i))") auto

declare server_scan.simps [simp del]

text \<open>Host name and port.\<close>

definition ParseServerInfo :: "str \<Rightarrow> component \<Rightarrow> component \<times> component" where
  "ParseServerInfo spec serverinfo =
     (if c_len serverinfo = 0 then (no_component, no_component)
      else let (ipv6_terminator, colon) =
             server_scan spec (c_begin serverinfo) (c_end serverinfo)
               (if at spec (c_begin serverinfo) = CHR ''['' then c_end serverinfo else -1) (-1)
      in if colon > ipv6_terminator
         then (let hostname = MakeRange (c_begin serverinfo) colon
               in (if c_len hostname = 0 then no_component else hostname,
                   MakeRange (colon + 1) (c_end serverinfo)))
         else (serverinfo, no_component))"

text \<open>User name, password, host name and port.\<close>

definition DoParseAuthority ::
    "str \<Rightarrow> component \<Rightarrow> component \<times> component \<times> component \<times> component" where
  "DoParseAuthority spec auth =
     (if c_len auth = 0 then (no_component, no_component, no_component, no_component)
      else let i = scan_back (\<lambda>c. c \<noteq> CHR ''@'') spec (c_begin auth) (c_begin auth + c_len auth - 1)
      in if at spec i = CHR ''@''
         then (let (username, password) = ParseUserInfo spec (Component (c_begin auth) (i - c_begin auth));
                   (hostname, port_num) = ParseServerInfo spec (MakeRange (i + 1) (c_begin auth + c_len auth))
               in (username, password, hostname, port_num))
         else (let (hostname, port_num) = ParseServerInfo spec auth
               in (no_component, no_component, hostname, port_num)))"

section \<open>Path, query and reference\<close>

text \<open>The loop of \<open>ParsePath\<close>: the first \<open>?\<close> before any \<open>#\<close>, and the first \<open>#\<close>.\<close>

function path_scan :: "str \<Rightarrow> int \<Rightarrow> int \<Rightarrow> int \<Rightarrow> int \<Rightarrow> int \<times> int" where
  "path_scan spec i path_end query_separator ref_separator =
     (if i < path_end then
        (if at spec i = CHR ''?'' then
           path_scan spec (i + 1) path_end
             (if ref_separator < 0 \<and> query_separator < 0 then i else query_separator) ref_separator
         else if at spec i = CHR ''#'' then
           path_scan spec (i + 1) path_end query_separator
             (if ref_separator < 0 then i else ref_separator)
         else path_scan spec (i + 1) path_end query_separator ref_separator)
      else (query_separator, ref_separator))"
  by pat_completeness auto
termination
  by (relation "measure (\<lambda>(s, i, e, q, r). nat (e - i))") auto

declare path_scan.simps [simp del]

definition ParsePath :: "str \<Rightarrow> component \<Rightarrow> component \<times> component \<times> component" where
  "ParsePath spec path =
     (if c_len path = -1 then (no_component, no_component, no_component)
      else let path_end = c_begin path + c_len path;
        (query_separator, ref_separator) = path_scan spec (c_begin path) path_end (-1) (-1);
        (query_end, ref) =
          (if ref_separator \<ge> 0 then (ref_separator, MakeRange (ref_separator + 1) path_end)
           else (path_end, no_component));
        (file_end, query) =
          (if query_separator \<ge> 0 then (query_separator, MakeRange (query_separator + 1) query_end)
           else (query_end, no_component))
      in (if file_end \<noteq> c_begin path then MakeRange (c_begin path) file_end else no_component,
          query, ref))"

section \<open>Scheme and standard URLs\<close>

definition ExtractScheme :: "str \<Rightarrow> int \<Rightarrow> component option" where
  "ExtractScheme url url_len =
     (let b = scan_fwd trimmed_char url 0 url_len
      in if b = url_len then None
         else let i = scan_fwd (\<lambda>c. c \<noteq> CHR '':'') url b url_len
              in if i < url_len then Some (MakeRange b i) else None)"

text \<open>Everything of the structure but the scheme.\<close>

definition DoParseAfterScheme :: "str \<Rightarrow> int \<Rightarrow> int \<Rightarrow> parts \<Rightarrow> parts" where
  "DoParseAfterScheme spec spec_len after_scheme p =
     (let num_slashes = CountConsecutiveSlashes spec after_scheme spec_len;
          after_slashes = after_scheme + num_slashes;
          end_auth = FindNextAuthorityTerminator spec after_slashes spec_len;
          authority = Component after_slashes (end_auth - after_slashes);
          full_path = (if end_auth = spec_len then no_component
                       else Component end_auth (spec_len - end_auth));
          (username, password, host, port) = DoParseAuthority spec authority;
          (path, query, ref) = ParsePath spec full_path
      in p\<lparr>p_username := username, p_password := password, p_host := host, p_port := port,
           p_path := path, p_query := query, p_ref := ref\<rparr>)"

definition ParseStandardURL :: "str \<Rightarrow> int \<Rightarrow> parts" where
  "ParseStandardURL spec spec_len0 =
     (let (b, spec_len) = TrimURL spec 0 spec_len0 True;
          (scheme, after_scheme) =
            (case ExtractScheme spec spec_len of
               Some s \<Rightarrow> (s, c_end s + 1)
             | None \<Rightarrow> (no_component, b))
      in DoParseAfterScheme spec spec_len after_scheme (no_parts\<lparr>p_scheme := scheme\<rparr>))"

section \<open>Path, mailto and file URLs\<close>

text \<open>\<open>&spec[b]\<close> with the remaining length is the string without its first \<open>b\<close> bytes.\<close>

definition ExtractSchemeAt :: "str \<Rightarrow> int \<Rightarrow> int \<Rightarrow> component option" where
  "ExtractSchemeAt spec b spec_len =
     map_option (\<lambda>s. s\<lparr>c_begin := c_begin s + b\<rparr>) (ExtractScheme (drop (nat b) spec) (spec_len - b))"

definition ParsePathURL :: "str \<Rightarrow> int \<Rightarrow> bool \<Rightarrow> parts" where
  "ParsePathURL spec spec_len0 trim_path_end =
     (let (scheme_begin, spec_len) = TrimURL spec 0 spec_len0 trim_path_end
      in if scheme_begin = spec_len then no_parts
         else let (scheme, path_begin) =
                (case ExtractSchemeAt spec scheme_begin spec_len of
                   Some s \<Rightarrow> (s, c_end s + 1)
                 | None \<Rightarrow> (no_component, scheme_begin))
         in if path_begin = spec_len then no_parts\<lparr>p_scheme := scheme\<rparr>
            else let (path, query, ref) = ParsePath spec (MakeRange path_begin spec_len)
                 in no_parts\<lparr>p_scheme := scheme, p_path := path, p_query := query, p_ref := ref\<rparr>)"

definition ParseMailtoURL :: "str \<Rightarrow> int \<Rightarrow> parts" where
  "ParseMailtoURL spec spec_len0 =
     (let (b, spec_len) = TrimURL spec 0 spec_len0 True
      in if b = spec_len then no_parts
         else let (scheme, path_begin, path_end) =
                (case ExtractSchemeAt spec b spec_len of
                   Some s \<Rightarrow> (if c_end s \<noteq> spec_len - 1 then (s, c_end s + 1, spec_len) else (s, -1, -1))
                 | None \<Rightarrow> (no_component, b, spec_len));
              i = scan_fwd (\<lambda>c. c \<noteq> CHR ''?'') spec path_begin path_end;
              (query, path_end') =
                (if i < path_end then (MakeRange (i + 1) path_end, i) else (no_component, path_end))
         in no_parts\<lparr>p_scheme := scheme, p_query := query,
              p_path := (if path_begin = path_end' then no_component else MakeRange path_begin path_end')\<rparr>)"

text \<open>\<open>url_parse_file.cc\<close>, in the variant compiled without \<open>WIN32\<close>.\<close>

definition DoParseUNC :: "str \<Rightarrow> int \<Rightarrow> int \<Rightarrow> parts \<Rightarrow> parts" where
  "DoParseUNC spec after_slashes spec_len p =
     (let next_slash = FindNextSlash spec after_slashes spec_len
      in if next_slash = spec_len
         then (let host_len = spec_len - after_slashes
               in p\<lparr>p_host := (if host_len \<noteq> 0 then Component after_slashes host_len else no_component),
                    p_path := no_component\<rparr>)
         else let host_len = next_slash - after_slashes;
                  p' = p\<lparr>p_host := (if host_len \<noteq> 0 then MakeRange after_slashes next_slash else no_component)\<rparr>
         in if next_slash < spec_len
            then (let (path, query, ref) = ParsePath spec (MakeRange next_slash spec_len)
                  in p'\<lparr>p_path := path, p_query := query, p_ref := ref\<rparr>)
            else p'\<lparr>p_path := no_component\<rparr>)"

definition DoParseLocalFile :: "str \<Rightarrow> int \<Rightarrow> int \<Rightarrow> parts \<Rightarrow> parts" where
  "DoParseLocalFile spec path_begin spec_len p =
     (let (path, query, ref) = ParsePath spec (MakeRange path_begin spec_len)
      in p\<lparr>p_host := no_component, p_path := path, p_query := query, p_ref := ref\<rparr>)"

definition ParseFileURL :: "str \<Rightarrow> int \<Rightarrow> parts" where
  "ParseFileURL spec spec_len0 =
     (let (b, spec_len) = TrimURL spec 0 spec_len0 True;
          num_slashes = CountConsecutiveSlashes spec b spec_len;
          (scheme, after_scheme) =
            (case (if num_slashes = 0 then ExtractSchemeAt spec b spec_len else None) of
               Some s \<Rightarrow> (s, c_end s + 1)
             | None \<Rightarrow> (no_component, b));
          p = no_parts\<lparr>p_scheme := scheme\<rparr>
      in if after_scheme = spec_len then p
         else let num_slashes' = CountConsecutiveSlashes spec after_scheme spec_len;
                  after_slashes = after_scheme + num_slashes'
         in if num_slashes' = 2 then DoParseUNC spec after_slashes spec_len p
            else DoParseLocalFile spec
                   (if num_slashes' > 0 then after_scheme + num_slashes' - 1 else after_scheme)
                   spec_len p)"

section \<open>The scheme registry (url_util.cc)\<close>

datatype SchemeType = SCHEME_WITH_PORT | SCHEME_WITHOUT_PORT | SCHEME_WITHOUT_AUTHORITY

type_synonym schemes = "(str \<times> SchemeType) list"

definition kStandardURLSchemes :: schemes where
  "kStandardURLSchemes =
     [(''http'', SCHEME_WITH_PORT), (''https'', SCHEME_WITH_PORT), (''file'', SCHEME_WITHOUT_PORT),
      (''ftp'', SCHEME_WITH_PORT), (''gopher'', SCHEME_WITH_PORT), (''ws'', SCHEME_WITH_PORT),
      (''wss'', SCHEME_WITH_PORT), (''filesystem'', SCHEME_WITHOUT_AUTHORITY)]"

record scheme_registry =
  standard_schemes :: "schemes option"
  standard_schemes_locked :: bool

definition InitStandardSchemes :: "scheme_registry \<Rightarrow> scheme_registry" where
  "InitStandardSchemes r =
     (case standard_schemes r of Some l \<Rightarrow> r | None \<Rightarrow> r\<lparr>standard_schemes := Some kStandardURLSchemes\<rparr>)"

text \<open>The assertion that the list is not locked is a debug check and stops nothing.\<close>

definition AddStandardScheme :: "scheme_registry \<Rightarrow> str \<Rightarrow> SchemeType \<Rightarrow> scheme_registry" where
  "AddStandardScheme r new_scheme ty =
     (if new_scheme = [] then r
      else let r' = InitStandardSchemes r
           in r'\<lparr>standard_schemes := map_option (\<lambda>l. l @ [(new_scheme, ty)]) (standard_schemes r')\<rparr>)"

definition LockStandardSchemes :: "scheme_registry \<Rightarrow> scheme_registry" where
  "LockStandardSchemes r = r\<lparr>standard_schemes_locked := True\<rparr>"

definition component_str :: "str \<Rightarrow> component \<Rightarrow> str" where
  "component_str spec c = seg spec (c_begin c) (c_end c)"

definition CompareSchemeComponent :: "str \<Rightarrow> component \<Rightarrow> str \<Rightarrow> bool" where
  "CompareSchemeComponent spec c compare_to =
     (if \<not> is_nonempty c then compare_to = [] else LowerCaseEqualsASCII (component_str spec c) compare_to)"

text \<open>The lookup over the current list, which \<open>InitStandardSchemes\<close> has filled.\<close>

definition DoIsStandard :: "schemes \<Rightarrow> str \<Rightarrow> component \<Rightarrow> SchemeType option" where
  "DoIsStandard schemes spec scheme =
     (if \<not> is_nonempty scheme then None
      else map_option snd (find (\<lambda>(s, ty). LowerCaseEqualsASCII (component_str spec scheme) s) schemes))"

definition GetStandardSchemeType ::
    "scheme_registry \<Rightarrow> str \<Rightarrow> component \<Rightarrow> SchemeType option \<times> scheme_registry" where
  "GetStandardSchemeType r spec scheme =
     (if \<not> is_nonempty scheme then (None, r)
      else let r' = InitStandardSchemes r
           in (DoIsStandard (the (standard_schemes r')) spec scheme, r'))"

section \<open>Filesystem URLs\<close>

definition shift_parts :: "int \<Rightarrow> parts \<Rightarrow> parts" where
  "shift_parts n p =
     (let sh = (\<lambda>c. c\<lparr>c_begin := c_begin c + n\<rparr>)
      in \<lparr>p_scheme = sh (p_scheme p), p_username = sh (p_username p), p_password = sh (p_password p),
          p_host = sh (p_host p), p_port = sh (p_port p), p_path = sh (p_path p),
          p_query = sh (p_query p), p_ref = sh (p_ref p)\<rparr>)"

text \<open>The second half of \<open>DoParseFileSystemURL\<close>, once the inner URL has been parsed.\<close>

definition split_inner_path :: "str \<Rightarrow> int \<Rightarrow> parts \<Rightarrow> parts \<Rightarrow> parsed" where
  "split_inner_path spec spec_len p inner0 =
     (let p' = p\<lparr>p_query := p_query inner0, p_ref := p_ref inner0\<rparr>;
          inner = inner0\<lparr>p_query := no_component, p_ref := no_component\<rparr>
      in if \<not> is_valid (p_scheme inner) \<or> \<not> is_valid (p_path inner) then to_parsed p' (Some inner)
         else if \<not> url_slash (at spec (c_begin (p_path inner))) then to_parsed p' (Some inner)
         else let inner_path_end =
                    scan_fwd (\<lambda>c. \<not> url_slash c) spec (c_begin (p_path inner) + 1) spec_len;
                  new_inner_path_length = inner_path_end - c_begin (p_path inner)
         in to_parsed
              (p'\<lparr>p_path := Component inner_path_end (c_len (p_path inner) - new_inner_path_length)\<rparr>)
              (Some (inner\<lparr>p_path := (p_path inner)\<lparr>c_len := new_inner_path_length\<rparr>\<rparr>)))"

definition ParseFileSystemURL :: "schemes \<Rightarrow> str \<Rightarrow> int \<Rightarrow> parsed" where
  "ParseFileSystemURL schemes spec spec_len0 =
     (let (b, spec_len) = TrimURL spec 0 spec_len0 True
      in if b = spec_len then to_parsed no_parts None
         else case ExtractSchemeAt spec b spec_len of
           None \<Rightarrow> to_parsed no_parts None
         | Some scheme \<Rightarrow>
             (let p = no_parts\<lparr>p_scheme := scheme\<rparr>
              in if c_end scheme = spec_len - 1 then to_parsed p None
                 else let inner_start = c_end scheme + 1;
                          inner_spec = drop (nat inner_start) spec;
                          inner_spec_len = spec_len - inner_start
                 in case ExtractSchemeAt spec inner_start spec_len of
                      None \<Rightarrow> to_parsed p None
                    | Some inner_scheme \<Rightarrow>
                        if c_end inner_scheme = spec_len - 1 then to_parsed p None
                        else if CompareSchemeComponent spec inner_scheme ''file''
                        then split_inner_path spec spec_len p
                               (shift_parts inner_start (ParseFileURL inner_spec inner_spec_len))
                        else if CompareSchemeComponent spec inner_scheme ''filesystem'' then to_parsed p None
                        else if DoIsStandard schemes spec inner_scheme \<noteq> None
                        then split_inner_path spec spec_len p
                               (shift_parts inner_start (ParseStandardURL inner_spec inner_spec_len))
                        else to_parsed p None))"

section \<open>Ports, file names and query keys\<close>

definition PORT_UNSPECIFIED :: int where "PORT_UNSPECIFIED = -1"
definition PORT_INVALID :: int where "PORT_INVALID = -2"

text \<open>\<open>atoi\<close> of a string of decimal digits.\<close>

definition atoi_digits :: "str \<Rightarrow> int" where
  "atoi_digits ds = foldl (\<lambda>n c. 10 * n + (int (byte c) - int (byte CHR ''0''))) 0 ds"

definition ParsePort :: "str \<Rightarrow> component \<Rightarrow> int" where
  "ParsePort spec c =
     (if \<not> is_nonempty c then PORT_UNSPECIFIED
      else let i = scan_fwd (\<lambda>c. c = CHR ''0'') spec (c_begin c) (c_end c);
               digits_comp = (if i < c_end c then MakeRange i (c_end c) else Component (c_end c) 0)
      in if c_len digits_comp = 0 then 0
         else if c_len digits_comp > 5 then PORT_INVALID
         else let digits = component_str spec digits_comp
         in if \<not> list_all (\<lambda>ch. IsPortDigit (char16_of ch)) digits then PORT_INVALID
            else let port = atoi_digits digits in if port > 65535 then PORT_INVALID else port)"

function file_name_scan :: "str \<Rightarrow> int \<Rightarrow> int \<Rightarrow> int \<Rightarrow> component" where
  "file_name_scan spec path_begin i file_end =
     (if path_begin \<le> i then
        (if at spec i = CHR '';'' then file_name_scan spec path_begin (i - 1) i
         else if url_slash (at spec i) then MakeRange (i + 1) file_end
         else file_name_scan spec path_begin (i - 1) file_end)
      else MakeRange path_begin file_end)"
  by pat_completeness auto
termination
  by (relation "measure (\<lambda>(s, lo, i, e). nat (i + 1 - lo))") auto

declare file_name_scan.simps [simp del]

definition ExtractFileName :: "str \<Rightarrow> component \<Rightarrow> component" where
  "ExtractFileName spec path =
     (if \<not> is_nonempty path then no_component
      else file_name_scan spec (c_begin path) (c_end path - 1) (c_end path))"

text \<open>The rest of the query, the key and the value; \<open>None\<close> when the query is used up.\<close>

definition ExtractQueryKeyValue :: "str \<Rightarrow> component \<Rightarrow> (component \<times> component \<times> component) option" where
  "ExtractQueryKeyValue spec query =
     (if \<not> is_nonempty query then None
      else let e = c_end query;
               cur1 = scan_fwd (\<lambda>c. c \<noteq> CHR ''&'' \<and> c \<noteq> CHR ''='') spec (c_begin query) e;
               key = Component (c_begin query) (cur1 - c_begin query);
               cur2 = (if cur1 < e \<and> at spec cur1 = CHR ''='' then cur1 + 1 else cur1);
               cur3 = scan_fwd (\<lambda>c. c \<noteq> CHR ''&'') spec cur2 e;
               val = Component cur2 (cur3 - cur2);
               cur4 = (if cur3 < e \<and> at spec cur3 = CHR ''&'' then cur3 + 1 else cur3)
           in Some (MakeRange cur4 e, key, val))"

end
