(* ===== verification/Url_Parse_Laws.thy ===== *)
theory Url_Parse_Laws
  imports Url_Parse
begin

text \<open>
  What the URL parser guarantees.  Every range it reports lies inside the trimmed input;
  the ranges and their delimiters, put together in order, are the trimmed input; no
  component contains the delimiter that ends it; ports are read as decimal numbers.
\<close>

section \<open>Ranges\<close>

definition within :: "int \<Rightarrow> int \<Rightarrow> component \<Rightarrow> bool" where
  "within lo hi c \<longleftrightarrow> is_valid c \<longrightarrow> lo \<le> c_begin c \<and> 0 \<le> c_len c \<and> c_end c \<le> hi"

definition opt_str :: "str \<Rightarrow> str \<Rightarrow> component \<Rightarrow> str" where
  "opt_str prefix spec c = (if is_valid c then prefix @ component_str spec c else [])"

lemma component_sel [simp]:
  "c_begin (Component b l) = b" "c_len (Component b l) = l" "c_end (Component b l) = b + l"
  "c_begin (MakeRange b e) = b" "c_len (MakeRange b e) = e - b" "c_end (MakeRange b e) = e"
  "is_valid (Component b l) \<longleftrightarrow> l \<noteq> -1" "\<not> is_valid no_component"
  "is_nonempty (Component b l) \<longleftrightarrow> l > 0" "\<not> is_nonempty no_component"
  "c_begin no_component = 0" "c_len no_component = -1"
  by (simp_all add: Component_def MakeRange_def no_component_def c_end_def is_valid_def is_nonempty_def)

lemma MakeRange_valid [simp]: "b \<le> e \<Longrightarrow> is_valid (MakeRange b e)"
  by (simp add: MakeRange_def)

lemma component_str_range [simp]:
  "component_str s (MakeRange b e) = seg s b e"
  "component_str s (Component b l) = seg s b (b + l)"
  by (simp_all add: component_str_def)

lemma opt_str_simps [simp]:
  "opt_str pre s no_component = []"
  "b \<le> e \<Longrightarrow> opt_str pre s (MakeRange b e) = pre @ seg s b e"
  "0 \<le> l \<Longrightarrow> opt_str pre s (Component b l) = pre @ seg s b (b + l)"
  by (simp_all add: opt_str_def)

lemma within_simps [simp]:
  "within lo hi no_component"
  "b \<le> e \<Longrightarrow> within lo hi (MakeRange b e) \<longleftrightarrow> lo \<le> b \<and> e \<le> hi"
  "0 \<le> l \<Longrightarrow> within lo hi (Component b l) \<longleftrightarrow> lo \<le> b \<and> b + l \<le> hi"
  by (auto simp: within_def)

lemma within_mono: "within lo hi c \<Longrightarrow> lo' \<le> lo \<Longrightarrow> hi \<le> hi' \<Longrightarrow> within lo' hi' c"
  by (auto simp: within_def)

section \<open>The scanning loops\<close>

lemma server_scan_colon:
  assumes "server_scan spec i e t0 c0 = (t, c)"
  shows "(c = c0 \<and> (\<forall>k. i \<le> k \<and> k < e \<longrightarrow> at spec k \<noteq> CHR '':'')) \<or>
         (i \<le> c \<and> c < e \<and> at spec c = CHR '':'' \<and> (\<forall>k. c < k \<and> k < e \<longrightarrow> at spec k \<noteq> CHR '':''))"
  using assms
proof (induction spec i e t0 c0 rule: server_scan.induct)
  case (1 spec i e t0 c0)
  show ?case
  proof (cases "i < e")
    case True
    have split: "i \<le> k \<and> k < e \<longleftrightarrow> k = i \<or> i + 1 \<le> k \<and> k < e" for k
      using True by auto
    consider "at spec i = CHR '']''" | "at spec i = CHR '':''" | "at spec i \<noteq> CHR '']''" "at spec i \<noteq> CHR '':''"
      by blast
    then show ?thesis
      using 1 True by cases (auto simp: server_scan.simps [of spec i] split)
  qed (use "1.prems" in \<open>auto simp: server_scan.simps [of spec i]\<close>)
qed

lemma server_scan_bracket:
  "server_scan spec i e t0 c0 = (t, c) \<Longrightarrow> t = t0 \<or> i \<le> t \<and> t < e"
proof (induction spec i e t0 c0 rule: server_scan.induct)
  case (1 spec i e t0 c0)
  then show ?case
    by (auto simp: server_scan.simps [of spec i] split: if_splits)
qed

lemma path_scan_found: "0 \<le> i \<Longrightarrow> 0 \<le> r0 \<Longrightarrow> path_scan spec i e q0 r0 = (q0, r0)"
  by (induction spec i e q0 r0 rule: path_scan.induct) (subst path_scan.simps, simp)

lemma path_scan_ref:
  assumes "0 \<le> i" "r0 < 0"
  shows "snd (path_scan spec i e q0 r0) =
    (let k = scan_fwd (\<lambda>c. c \<noteq> CHR ''#'') spec i e in if k < e then k else r0)"
  using assms
proof (induction spec i e q0 r0 rule: path_scan.induct)
  case (1 spec i e q0 r0)
  then show ?case
    by (auto simp: path_scan.simps [of spec i] scan_fwd.simps [of _ spec i] path_scan_found)
qed

lemma path_scan_query:
  assumes "0 \<le> i" "r0 < 0"
  shows "fst (path_scan spec i e q0 r0) =
    (let k = scan_fwd (\<lambda>c. c \<noteq> CHR ''?'' \<and> c \<noteq> CHR ''#'') spec i e
     in if q0 < 0 \<and> k < e \<and> at spec k = CHR ''?'' then k else q0)"
  using assms
proof (induction spec i e q0 r0 rule: path_scan.induct)
  case (1 spec i e q0 r0)
  then show ?case
    by (cases "q0 < 0") (auto simp: path_scan.simps [of spec i] scan_fwd.simps [of _ spec i] path_scan_found Let_def)
qed

section \<open>Authority\<close>

definition free_of :: "char set \<Rightarrow> str \<Rightarrow> component \<Rightarrow> bool" where
  "free_of D spec c \<longleftrightarrow> is_valid c \<longrightarrow> set (component_str spec c) \<inter> D = {}"

lemma free_of_simps [simp]:
  "free_of D spec no_component"
  "b \<le> e \<Longrightarrow> free_of D spec (MakeRange b e) \<longleftrightarrow> set (seg spec b e) \<inter> D = {}"
  "0 \<le> l \<Longrightarrow> free_of D spec (Component b l) \<longleftrightarrow> set (seg spec b (b + l)) \<inter> D = {}"
  by (auto simp: free_of_def)

lemma seg_free:
  assumes "0 \<le> b" "e \<le> len spec" "\<And>k. b \<le> k \<Longrightarrow> k < e \<Longrightarrow> at spec k \<notin> D"
  shows "set (seg spec b e) \<inter> D = {}"
  using assms in_set_seg [of _ spec b e] by blast

lemma seg_free_sub:
  assumes "set (seg spec b e) \<inter> D = {}" "0 \<le> b" "b \<le> b'" "e' \<le> e" "e \<le> len spec"
  shows "set (seg spec b' e') \<inter> D = {}"
proof -
  have "c \<in> set (seg spec b e)" if "c \<in> set (seg spec b' e')" for c
  proof -
    from that assms obtain i where "b' \<le> i" "i < e'" "c = at spec i"
      using in_set_seg [of c spec b' e'] by auto
    then show ?thesis using assms set_segI [of b i e spec] by simp
  qed
  then show ?thesis using assms(1) by blast
qed

lemma user_info:
  assumes "ParseUserInfo spec (Component b l) = (u, pw)" "0 \<le> b" "0 \<le> l" "b + l \<le> len spec"
  shows "seg spec b (b + l) = component_str spec u @ opt_str '':'' spec pw"
    and "is_valid u" "within b (b + l) u" "within b (b + l) pw" "free_of {CHR '':''} spec u"
proof -
  define k where "k = scan_fwd (\<lambda>c. c \<noteq> CHR '':'') spec b (b + l)"
  have k: "b \<le> k" "k \<le> b + l"
    using assms unfolding k_def by (simp_all add: scan_fwd_ge scan_fwd_le)
  have free: "set (seg spec b k) \<inter> {CHR '':''} = {}"
    using assms k scan_fwd_run [of b _ "\<lambda>c. c \<noteq> CHR '':''" spec "b + l"]
    by (intro seg_free) (auto simp: k_def)
  have colon: "k < b + l \<Longrightarrow> at spec k = CHR '':''"
    using scan_fwd_stop [of "\<lambda>c. c \<noteq> CHR '':''" spec b "b + l"] by (auto simp: k_def)
  have uw: "(u, pw) = (if k < b + l then (Component b (k - b), MakeRange (k + 1) (b + l))
      else (Component b l, no_component))"
    using assms(1) by (auto simp: ParseUserInfo_def Let_def k_def [symmetric] split: if_splits)
  show "seg spec b (b + l) = component_str spec u @ opt_str '':'' spec pw"
  proof (cases "k < b + l")
    case True
    then show ?thesis
      using uw k colon assms seg_sep [of b k "b + l" spec] by simp
  qed (use uw in simp)
  show "is_valid u" "within b (b + l) u" "within b (b + l) pw" "free_of {CHR '':''} spec u"
    using uw k free assms by (auto split: if_splits)
qed

lemma server_info:
  assumes "ParseServerInfo spec c = (h, pt)" "within lo hi c" "0 \<le> lo" "hi \<le> len spec" "is_valid c"
  shows "component_str spec c = opt_str [] spec h @ opt_str '':'' spec pt"
    and "within (c_begin c) (c_end c) h" "within (c_begin c) (c_end c) pt"
    and "free_of {CHR '':''} spec pt" "is_valid h \<Longrightarrow> is_nonempty h"
proof -
  obtain t k where tk: "server_scan spec (c_begin c) (c_end c)
      (if at spec (c_begin c) = CHR ''['' then c_end c else -1) (-1) = (t, k)"
    by fastforce
  have b: "0 \<le> c_begin c" "0 \<le> c_len c" "c_begin c \<le> c_end c" "c_end c \<le> len spec" "c_end c = c_begin c + c_len c"
    using assms(2-5) by (auto simp: within_def c_end_def)
  have t: "-1 \<le> t" using server_scan_bracket [OF tk] b by (auto split: if_splits)
  have k: "c_begin c \<le> k \<and> k < c_end c \<and> at spec k = CHR '':'' \<and>
      set (seg spec (k + 1) (c_end c)) \<inter> {CHR '':''} = {}" if "t < k"
  proof -
    have k: "c_begin c \<le> k" "k < c_end c" "at spec k = CHR '':''"
      "\<And>j. k < j \<Longrightarrow> j < c_end c \<Longrightarrow> at spec j \<noteq> CHR '':''"
      using server_scan_colon [OF tk] t that by auto
    have "set (seg spec (k + 1) (c_end c)) \<inter> {CHR '':''} = {}"
      using b k by (intro seg_free) auto
    then show ?thesis using k(1-3) by blast
  qed
  have hp: "(h, pt) = (if c_len c = 0 then (no_component, no_component)
      else if k > t then (if k = c_begin c then no_component else MakeRange (c_begin c) k, MakeRange (k + 1) (c_end c))
      else (c, no_component))"
    using assms(1) by (simp add: ParseServerInfo_def tk Let_def split: if_splits)
  show "component_str spec c = opt_str [] spec h @ opt_str '':'' spec pt"
    using hp k b seg_sep [of "c_begin c" k "c_end c" spec] assms(5)
    by (auto simp: component_str_def opt_str_def split: if_splits)
  show "within (c_begin c) (c_end c) h" "within (c_begin c) (c_end c) pt"
    "free_of {CHR '':''} spec pt" "is_valid h \<Longrightarrow> is_nonempty h"
    using hp k b by (auto simp: within_def is_nonempty_def MakeRange_def split: if_splits)
qed

text \<open>The text of user name, password, host and port, with their delimiters.\<close>

definition authority_text :: "str \<Rightarrow> component \<Rightarrow> component \<Rightarrow> component \<Rightarrow> component \<Rightarrow> str" where
  "authority_text spec u pw h pt =
     (if is_valid u then component_str spec u @ opt_str '':'' spec pw @ ''@'' else []) @
     opt_str [] spec h @ opt_str '':'' spec pt"

lemma authority:
  assumes "DoParseAuthority spec (Component b l) = (u, pw, h, pt)" "0 \<le> b" "0 \<le> l" "b + l \<le> len spec"
  shows "seg spec b (b + l) = authority_text spec u pw h pt"
    and "within b (b + l) u" "within b (b + l) pw" "within b (b + l) h" "within b (b + l) pt"
    and "free_of {CHR '':''} spec u" "free_of {CHR ''@''} spec h" "free_of {CHR '':'', CHR ''@''} spec pt"
    and "is_valid pw \<Longrightarrow> is_valid u" "is_valid h \<Longrightarrow> is_nonempty h"
proof -
  define i where "i = scan_back (\<lambda>c. c \<noteq> CHR ''@'') spec b (b + l - 1)"
  have i: "l \<noteq> 0 \<Longrightarrow> b \<le> i \<and> i \<le> b + l - 1"
    using assms scan_back_le [of "\<lambda>c. c \<noteq> CHR ''@''" spec b "b + l - 1"]
      scan_back_ge [of b "b + l - 1" "\<lambda>c. c \<noteq> CHR ''@''" spec] by (simp add: i_def)
  have noat: "i < k \<Longrightarrow> k < b + l \<Longrightarrow> at spec k \<noteq> CHR ''@''" for k
    using scan_back_run [of "\<lambda>c. c \<noteq> CHR ''@''" spec b "b + l - 1" k] by (simp add: i_def)
  have first: "l \<noteq> 0 \<Longrightarrow> at spec i \<noteq> CHR ''@'' \<Longrightarrow> i = b"
    using scan_back_stop [of b "\<lambda>c. c \<noteq> CHR ''@''" spec "b + l - 1"] i unfolding i_def by force
  consider (empty) "l = 0" | (user) "l \<noteq> 0" "at spec i = CHR ''@''" | (none) "l \<noteq> 0" "at spec i \<noteq> CHR ''@''"
    by blast
  then have all: "seg spec b (b + l) = authority_text spec u pw h pt \<and> within b (b + l) u \<and>
      within b (b + l) pw \<and> within b (b + l) h \<and> within b (b + l) pt \<and> free_of {CHR '':''} spec u \<and>
      free_of {CHR ''@''} spec h \<and> free_of {CHR '':'', CHR ''@''} spec pt \<and>
      (is_valid pw \<longrightarrow> is_valid u) \<and> (is_valid h \<longrightarrow> is_nonempty h)"
  proof cases
    case empty
    then show ?thesis
      using assms(1) by (auto simp: DoParseAuthority_def authority_text_def)
  next
    case user
    obtain u' pw' where U: "ParseUserInfo spec (Component b (i - b)) = (u', pw')" by fastforce
    obtain h' pt' where S: "ParseServerInfo spec (MakeRange (i + 1) (b + l)) = (h', pt')" by fastforce
    have eq: "u = u'" "pw = pw'" "h = h'" "pt = pt'"
      using assms(1) user U S by (simp_all add: DoParseAuthority_def i_def [symmetric])
    have w: "within (i + 1) (b + l) (MakeRange (i + 1) (b + l))" "is_valid (MakeRange (i + 1) (b + l))"
      using i user by auto
    note ui = user_info [OF U] and si = server_info [OF S w(1) _ _ w(2)]
    have free: "set (seg spec (i + 1) (b + l)) \<inter> {CHR ''@''} = {}"
      using assms i user noat by (intro seg_free) auto
    have sub: "within (i + 1) (b + l) c \<Longrightarrow> free_of {CHR ''@''} spec c" for c
      using seg_free_sub [OF free, of "c_begin c" "c_end c"] assms i user
      by (auto simp: free_of_def within_def component_str_def)
    have "seg spec b (b + l) = seg spec b i @ ''@'' @ seg spec (i + 1) (b + l)"
      using seg_sep [of b i "b + l" spec] i user assms by simp
    moreover have "free_of {CHR '':'', CHR ''@''} spec pt'"
      using si(3,4) sub [of pt'] assms i user by (auto simp: free_of_def)
    ultimately show ?thesis
      using ui si sub [of h'] i user assms within_mono [of b i u' b "b + l"] within_mono [of b i pw' b "b + l"]
        within_mono [of "i + 1" "b + l" h' b "b + l"] within_mono [of "i + 1" "b + l" pt' b "b + l"]
      by (auto simp: eq authority_text_def)
  next
    case none
    obtain h' pt' where S: "ParseServerInfo spec (Component b l) = (h', pt')" by fastforce
    have eq: "u = no_component" "pw = no_component" "h = h'" "pt = pt'"
      using assms(1) none S by (simp_all add: DoParseAuthority_def i_def [symmetric])
    have w: "within b (b + l) (Component b l)" "is_valid (Component b l)"
      using assms by auto
    note si = server_info [OF S w(1) _ _ w(2)]
    have free: "set (seg spec b (b + l)) \<inter> {CHR ''@''} = {}"
      using assms i none noat first [OF none] by (intro seg_free) (auto, metis le_less)
    have sub: "within b (b + l) c \<Longrightarrow> free_of {CHR ''@''} spec c" for c
      using seg_free_sub [OF free, of "c_begin c" "c_end c"] assms
      by (auto simp: free_of_def within_def component_str_def)
    have "free_of {CHR '':'', CHR ''@''} spec pt'"
      using si(3,4) sub [of pt'] assms by (auto simp: free_of_def)
    then show ?thesis
      using si sub [of h'] assms by (auto simp: eq authority_text_def)
  qed
  then show "seg spec b (b + l) = authority_text spec u pw h pt"
    "within b (b + l) u" "within b (b + l) pw" "within b (b + l) h" "within b (b + l) pt"
    "free_of {CHR '':''} spec u" "free_of {CHR ''@''} spec h" "free_of {CHR '':'', CHR ''@''} spec pt"
    "is_valid pw \<Longrightarrow> is_valid u" "is_valid h \<Longrightarrow> is_nonempty h"
    by blast+
qed

section \<open>Path, query and reference\<close>

lemma path_parts:
  assumes "ParsePath spec (Component b l) = (pth, q, r)" "0 \<le> b" "0 \<le> l" "b + l \<le> len spec"
  shows "seg spec b (b + l) = opt_str [] spec pth @ opt_str ''?'' spec q @ opt_str ''#'' spec r"
    and "within b (b + l) pth" "within b (b + l) q" "within b (b + l) r"
    and "free_of {CHR ''?'', CHR ''#''} spec pth" "free_of {CHR ''#''} spec q"
    and "is_valid pth \<Longrightarrow> is_nonempty pth"
proof -
  let ?H = "\<lambda>c. c \<noteq> CHR ''#''" and ?Q = "\<lambda>c. c \<noteq> CHR ''?'' \<and> c \<noteq> CHR ''#''"
  define e where "e = b + l"
  define m where "m = scan_fwd ?H spec b e"
  define k where "k = scan_fwd ?Q spec b e"
  have be: "b \<le> e" "e \<le> len spec" using assms by (simp_all add: e_def)
  have m: "b \<le> m" "m \<le> e" and k: "b \<le> k" "k \<le> e"
    using be unfolding m_def k_def by (simp_all add: scan_fwd_ge scan_fwd_le)
  have mH: "m < e \<Longrightarrow> at spec m = CHR ''#''" and m_run: "\<And>j. b \<le> j \<Longrightarrow> j < m \<Longrightarrow> at spec j \<noteq> CHR ''#''"
    using scan_fwd_stop [of ?H spec b e] scan_fwd_run [of b _ ?H spec e] by (auto simp: m_def)
  have kQ: "k < e \<Longrightarrow> at spec k = CHR ''?'' \<or> at spec k = CHR ''#''"
    and k_run: "\<And>j. b \<le> j \<Longrightarrow> j < k \<Longrightarrow> at spec j \<notin> {CHR ''?'', CHR ''#''}"
    using scan_fwd_stop [of ?Q spec b e] scan_fwd_run [of b _ ?Q spec e] by (auto simp: k_def)
  have km: "k \<le> m"
  proof (rule ccontr)
    assume "\<not> k \<le> m"
    then have "m < k" "m < e" using k by simp_all
    then show False using mH k_run [of m] m by simp
  qed
  have ps: "path_scan spec b e (-1) (-1) = (if k < e \<and> at spec k = CHR ''?'' then k else -1, if m < e then m else -1)"
    using path_scan_ref [of b "-1" spec e "-1"] path_scan_query [of b "-1" spec e "-1"] assms
    by (simp add: prod_eq_iff Let_def m_def k_def)
  have free_k: "set (seg spec b k) \<inter> {CHR ''?'', CHR ''#''} = {}"
    using k_run k be assms by (intro seg_free) auto
  have free_m: "set (seg spec (k + 1) m) \<inter> {CHR ''#''} = {}"
    using m_run m k be assms by (intro seg_free) auto
  have k_eq: "k = m" if "\<not> (k < e \<and> at spec k = CHR ''?'')"
    using that kQ km m k m_run [of k] by (cases "k < e") force+
  define qm where "qm \<longleftrightarrow> k < e \<and> at spec k = CHR ''?''"
  have res: "pth = (if k \<noteq> b then MakeRange b k else no_component)"
    "q = (if qm then MakeRange (k + 1) m else no_component)"
    "r = (if m < e then MakeRange (m + 1) e else no_component)"
    using assms(1,2,3) ps m k k_eq
    by (auto simp: ParsePath_def e_def [symmetric] qm_def Let_def split: if_splits)
  have q_lt: "qm \<Longrightarrow> k < m"
    using km m mH by (cases "k = m") (auto simp: qm_def)
  have tail: "seg spec m e = opt_str ''#'' spec r"
    using res(3) seg_Cons [of m e spec] m be assms mH by auto
  have mid: "seg spec k m = opt_str ''?'' spec q"
    using res(2) q_lt k_eq seg_Cons [of k m spec] k m be assms by (auto simp: qm_def)
  have head: "seg spec b k = opt_str [] spec pth"
    using res(1) k by auto
  have "seg spec b e = seg spec b k @ seg spec k m @ seg spec m e"
    using seg_split [of b k e spec] seg_split [of k m e spec] k m km assms by simp
  then show "seg spec b (b + l) = opt_str [] spec pth @ opt_str ''?'' spec q @ opt_str ''#'' spec r"
    by (simp only: head mid tail e_def [symmetric])
  show "within b (b + l) pth" "within b (b + l) q" "within b (b + l) r"
    "free_of {CHR ''?'', CHR ''#''} spec pth" "free_of {CHR ''#''} spec q" "is_valid pth \<Longrightarrow> is_nonempty pth"
    using res k m km q_lt free_k free_m by (auto simp: e_def [symmetric] MakeRange_def)
qed

section \<open>Standard URLs\<close>

lemma trim_bounds:
  assumes "TrimURL spec 0 (len spec) t = (b, e)"
  shows "0 \<le> b" "b \<le> e" "e \<le> len spec" "\<And>k. 0 \<le> k \<Longrightarrow> k < b \<Longrightarrow> trimmed_char (at spec k)"
    and "b < e \<Longrightarrow> \<not> trimmed_char (at spec b)"
proof -
  have b: "b = scan_fwd trimmed_char spec 0 (len spec)"
    and e: "e = (if t then scan_back trimmed_char spec (b - 1) (len spec - 1) + 1 else len spec)"
    using assms by (auto simp: TrimURL_def Let_def)
  show "0 \<le> b" using b scan_fwd_ge [of 0] by simp
  have "b \<le> len spec" unfolding b by (simp add: scan_fwd_le)
  then show be: "b \<le> e" "e \<le> len spec"
    using scan_back_ge [of "b - 1" "len spec - 1" trimmed_char spec]
      scan_back_le [of trimmed_char spec "b - 1" "len spec - 1"] by (auto simp: e)
  show "\<And>k. 0 \<le> k \<Longrightarrow> k < b \<Longrightarrow> trimmed_char (at spec k)"
    using scan_fwd_run [of 0 _ trimmed_char spec "len spec"] by (simp add: b)
  show "b < e \<Longrightarrow> \<not> trimmed_char (at spec b)"
    using scan_fwd_stop [of trimmed_char spec 0 "len spec"] be by (simp add: b)
qed

lemma extract_scheme_trimmed:
  assumes "TrimURL spec 0 (len spec) True = (b, e)"
  shows "ExtractScheme spec e =
    (let i = scan_fwd (\<lambda>c. c \<noteq> CHR '':'') spec b e in if i < e then Some (MakeRange b i) else None)"
proof -
  note tb = trim_bounds [OF assms]
  have "scan_fwd trimmed_char spec 0 e = b"
    using tb by (intro scan_fwd_eqI) auto
  then show ?thesis
    by (auto simp: ExtractScheme_def Let_def scan_fwd_past)
qed

lemma after_scheme_parts:
  assumes "0 \<le> a" "a \<le> e" "e \<le> len spec" and p_def: "p = DoParseAfterScheme spec e a p0"
  shows "\<exists>slashes. seg spec a e = slashes @ authority_text spec (p_username p) (p_password p) (p_host p) (p_port p)
        @ opt_str [] spec (p_path p) @ opt_str ''?'' spec (p_query p) @ opt_str ''#'' spec (p_ref p)
        \<and> list_all url_slash slashes"
    and "list_all (within a e) [p_username p, p_password p, p_host p, p_port p, p_path p, p_query p, p_ref p]"
    and "free_of {CHR '':''} spec (p_username p)" "free_of {CHR ''@'', CHR ''/'', CHR 0x5C, CHR ''?'', CHR ''#''} spec (p_host p)"
    and "free_of {CHR '':'', CHR ''@'', CHR ''/'', CHR 0x5C, CHR ''?'', CHR ''#''} spec (p_port p)"
    and "free_of {CHR ''?'', CHR ''#''} spec (p_path p)" "free_of {CHR ''#''} spec (p_query p)"
    and "p_scheme p = p_scheme p0"
    and "free_of {CHR ''/'', CHR 0x5C, CHR ''?'', CHR ''#''} spec (p_username p)"
    and "free_of {CHR ''/'', CHR 0x5C, CHR ''?'', CHR ''#''} spec (p_password p)"
proof -
  define s where "s = scan_fwd url_slash spec a e"
  define t where "t = scan_fwd (\<lambda>c. \<not> IsAuthorityTerminator (char16_of c)) spec s e"
  have s: "a \<le> s" "s \<le> e" using assms unfolding s_def by (simp_all add: scan_fwd_ge scan_fwd_le)
  have t: "s \<le> t" "t \<le> e" using s unfolding t_def by (simp_all add: scan_fwd_ge scan_fwd_le)
  have auth_free: "set (seg spec s t) \<inter> {CHR ''/'', CHR 0x5C, CHR ''?'', CHR ''#''} = {}"
  proof (rule seg_free)
    fix k assume "s \<le> k" "k < t"
    then have "\<not> IsAuthorityTerminator (char16_of (at spec k))"
      using scan_fwd_run [of s k _ spec e] by (simp add: t_def)
    then show "at spec k \<notin> {CHR ''/'', CHR 0x5C, CHR ''?'', CHR ''#''}"
      by (auto simp: IsAuthorityTerminator_def IsURLSlash_def char16_of_def)
  qed (use assms s t in auto)
  obtain u pw h pt where A: "DoParseAuthority spec (Component s (t - s)) = (u, pw, h, pt)"
    by (metis prod_cases4)
  obtain pth q r where P: "ParsePath spec (if t = e then no_component else Component t (e - t)) = (pth, q, r)"
    by (metis prod_cases3)
  have peq: "p_username p = u" "p_password p = pw" "p_host p = h" "p_port p = pt"
    "p_path p = pth" "p_query p = q" "p_ref p = r" "p_scheme p = p_scheme p0"
    using A P t by (auto simp: p_def DoParseAfterScheme_def CountConsecutiveSlashes_def
        FindNextAuthorityTerminator_def Let_def s_def [symmetric] t_def [symmetric])
  note au = authority [OF A]
  have path: "seg spec t e = opt_str [] spec pth @ opt_str ''?'' spec q @ opt_str ''#'' spec r \<and>
    within t e pth \<and> within t e q \<and> within t e r \<and> free_of {CHR ''?'', CHR ''#''} spec pth \<and> free_of {CHR ''#''} spec q"
  proof (cases "t = e")
    case True
    then show ?thesis
      using P by (auto simp: ParsePath_def)
  next
    case False
    then have P': "ParsePath spec (Component t (e - t)) = (pth, q, r)" using P by simp
    show ?thesis
      using path_parts [OF P'] assms(1-3) s t by simp
  qed
  have "seg spec a e = seg spec a s @ seg spec s t @ seg spec t e"
    using seg_split [of a s e spec] seg_split [of s t e spec] s t assms(1-3) by simp
  moreover have "seg spec s t = authority_text spec u pw h pt"
    using au(1) s t assms(1-3) by simp
  moreover have "list_all url_slash (seg spec a s)"
    using scan_fwd_run [of a _ url_slash spec e] in_set_seg [of _ spec a s] s assms(1-3)
    by (fastforce simp: list_all_iff s_def)
  ultimately show "\<exists>slashes. seg spec a e = slashes @ authority_text spec (p_username p) (p_password p) (p_host p) (p_port p)
        @ opt_str [] spec (p_path p) @ opt_str ''?'' spec (p_query p) @ opt_str ''#'' spec (p_ref p)
        \<and> list_all url_slash slashes"
    by (intro exI [of _ "seg spec a s"]) (simp add: peq path)
  show "list_all (within a e) [p_username p, p_password p, p_host p, p_port p, p_path p, p_query p, p_ref p]"
    using au(2-5) path s t assms(1-3)
    by (auto simp: peq intro: within_mono [of s t _ a e] within_mono [of t e _ a e])
  have sub: "within s t c \<Longrightarrow> free_of {CHR ''/'', CHR 0x5C, CHR ''?'', CHR ''#''} spec c" for c
    using seg_free_sub [OF auth_free, of "c_begin c" "c_end c"] assms(1-3) s t
    by (auto simp: free_of_def within_def component_str_def)
  show "free_of {CHR '':''} spec (p_username p)" "free_of {CHR ''@'', CHR ''/'', CHR 0x5C, CHR ''?'', CHR ''#''} spec (p_host p)"
    "free_of {CHR '':'', CHR ''@'', CHR ''/'', CHR 0x5C, CHR ''?'', CHR ''#''} spec (p_port p)"
    using au(4-8) sub [of h] sub [of pt] s t assms(1-3) by (auto simp: peq free_of_def)
  show "free_of {CHR ''?'', CHR ''#''} spec (p_path p)" "free_of {CHR ''#''} spec (p_query p)" "p_scheme p = p_scheme p0"
    using path by (simp_all add: peq)
  show "free_of {CHR ''/'', CHR 0x5C, CHR ''?'', CHR ''#''} spec (p_username p)"
    "free_of {CHR ''/'', CHR 0x5C, CHR ''?'', CHR ''#''} spec (p_password p)"
    using au(2,3) sub [of u] sub [of pw] s t assms(1-3) by (auto simp: peq)
qed

definition scheme_text :: "str \<Rightarrow> component \<Rightarrow> str" where
  "scheme_text spec c = (if is_valid c then component_str spec c @ '':'' else [])"

lemma standard_url_split:
  assumes t: "TrimURL spec 0 (len spec) True = (b, e)"
  obtains a sch where "ParseStandardURL spec (len spec) = DoParseAfterScheme spec e a (no_parts\<lparr>p_scheme := sch\<rparr>)"
    "0 \<le> a" "a \<le> e" "e \<le> len spec" "seg spec b e = scheme_text spec sch @ seg spec a e"
    "within 0 (len spec) sch" "free_of {CHR '':''} spec sch"
proof -
  note tb = trim_bounds [OF t]
  define i where "i = scan_fwd (\<lambda>c. c \<noteq> CHR '':'') spec b e"
  have i: "b \<le> i" "i \<le> e" using tb unfolding i_def by (simp_all add: scan_fwd_ge scan_fwd_le)
  have free: "set (seg spec b i) \<inter> {CHR '':''} = {}"
    using tb i scan_fwd_run [of b _ "\<lambda>c. c \<noteq> CHR '':''" spec e] by (intro seg_free) (auto simp: i_def)
  have p: "ParseStandardURL spec (len spec) = DoParseAfterScheme spec e (if i < e then i + 1 else b)
      (no_parts\<lparr>p_scheme := (if i < e then MakeRange b i else no_component)\<rparr>)"
    by (simp add: ParseStandardURL_def t extract_scheme_trimmed [OF t] Let_def i_def [symmetric])
  show thesis
  proof (cases "i < e")
    case True
    have "at spec i = CHR '':''"
      using True scan_fwd_stop [of "\<lambda>c. c \<noteq> CHR '':''" spec b e] by (simp add: i_def)
    then have "seg spec b e = scheme_text spec (MakeRange b i) @ seg spec (i + 1) e"
      using i tb True seg_sep [of b i e spec] by (simp add: scheme_text_def)
    then show thesis
      using that [OF p] True tb i free by simp
  next
    case False
    then show thesis
      using that [OF p] tb by (simp add: scheme_text_def)
  qed
qed

text \<open>
  C15. Reassembly: the trimmed input is exactly the components of the parsed URL in order,
  each with its delimiter, with nothing but slash characters between the scheme and the
  authority.  No byte of the input is lost, duplicated or attributed to two components.
\<close>

theorem standard_url_reassembles:
  fixes spec :: str
  defines "p \<equiv> ParseStandardURL spec (len spec)"
  shows "\<exists>slashes. list_all url_slash slashes \<and>
    seg spec (fst (TrimURL spec 0 (len spec) True)) (snd (TrimURL spec 0 (len spec) True)) =
      scheme_text spec (p_scheme p) @ slashes @
      authority_text spec (p_username p) (p_password p) (p_host p) (p_port p) @
      opt_str [] spec (p_path p) @ opt_str ''?'' spec (p_query p) @ opt_str ''#'' spec (p_ref p)"
proof -
  obtain b e where t: "TrimURL spec 0 (len spec) True = (b, e)" by fastforce
  obtain a sch where p: "p = DoParseAfterScheme spec e a (no_parts\<lparr>p_scheme := sch\<rparr>)"
    and a: "0 \<le> a" "a \<le> e" "e \<le> len spec" and split: "seg spec b e = scheme_text spec sch @ seg spec a e"
    using standard_url_split [OF t] by (metis p_def)
  note ap = after_scheme_parts [OF a p]
  obtain slashes where "list_all url_slash slashes" and "seg spec a e = slashes @
      authority_text spec (p_username p) (p_password p) (p_host p) (p_port p) @
      opt_str [] spec (p_path p) @ opt_str ''?'' spec (p_query p) @ opt_str ''#'' spec (p_ref p)"
    using ap(1) by blast
  then show ?thesis
    using split ap(8) by (intro exI [of _ slashes]) (simp add: t)
qed

lemma standard_url_within:
  fixes spec :: str
  defines "p \<equiv> ParseStandardURL spec (len spec)"
  shows "list_all (within 0 (len spec))
    [p_scheme p, p_username p, p_password p, p_host p, p_port p, p_path p, p_query p, p_ref p]"
proof -
  obtain b e where t: "TrimURL spec 0 (len spec) True = (b, e)" by fastforce
  obtain a sch where p: "p = DoParseAfterScheme spec e a (no_parts\<lparr>p_scheme := sch\<rparr>)"
    and a: "0 \<le> a" "a \<le> e" "e \<le> len spec" and w: "within 0 (len spec) sch"
    using standard_url_split [OF t] by (metis p_def)
  note ap = after_scheme_parts [OF a p]
  have "within a e c \<Longrightarrow> within 0 (len spec) c" for c
    using a by (auto intro: within_mono)
  then show ?thesis using ap(2,8) w by simp
qed

text \<open>
  C35. Bounds: whatever bytes it is given, every component the parser reports as present lies
  inside the input string and has a non-negative length.
\<close>

theorem standard_url_in_range:
  fixes spec :: str
  defines "p \<equiv> ParseStandardURL spec (len spec)"
  shows "list_all (within 0 (len spec))
    [p_scheme p, p_username p, p_password p, p_host p, p_port p, p_path p, p_query p, p_ref p]"
  unfolding p_def by (rule standard_url_within)

text \<open>
  C36. Delimiters: no component but the reference holds a byte that would have ended it.  The
  scheme is free of colons; the user name of colons and of the four bytes that end an
  authority (slash, backslash, question mark, hash); the password of those four, while it may
  hold colons and at signs; the host of those four and of at signs; the port of all of them;
  the path of question marks and hashes; the query of hashes.  The reference, which begins
  after the first hash, may hold every byte.
\<close>

theorem standard_url_delimiters:
  fixes spec :: str
  defines "p \<equiv> ParseStandardURL spec (len spec)"
  shows "free_of {CHR '':''} spec (p_scheme p) \<and>
    free_of {CHR '':'', CHR ''/'', CHR 0x5C, CHR ''?'', CHR ''#''} spec (p_username p) \<and>
    free_of {CHR ''/'', CHR 0x5C, CHR ''?'', CHR ''#''} spec (p_password p) \<and>
    free_of {CHR ''@'', CHR ''/'', CHR 0x5C, CHR ''?'', CHR ''#''} spec (p_host p) \<and>
    free_of {CHR '':'', CHR ''@'', CHR ''/'', CHR 0x5C, CHR ''?'', CHR ''#''} spec (p_port p) \<and>
    free_of {CHR ''?'', CHR ''#''} spec (p_path p) \<and> free_of {CHR ''#''} spec (p_query p)"
proof -
  obtain b e where t: "TrimURL spec 0 (len spec) True = (b, e)" by fastforce
  obtain a sch where p: "p = DoParseAfterScheme spec e a (no_parts\<lparr>p_scheme := sch\<rparr>)"
    and a: "0 \<le> a" "a \<le> e" "e \<le> len spec" and f: "free_of {CHR '':''} spec sch"
    using standard_url_split [OF t] by (metis p_def)
  note ap = after_scheme_parts [OF a p]
  have "free_of {CHR '':'', CHR ''/'', CHR 0x5C, CHR ''?'', CHR ''#''} spec (p_username p)"
    using ap(3,9) by (auto simp: free_of_def)
  then show ?thesis using ap(4-8,10) f by simp
qed

section \<open>Ports\<close>

lemma atoi_append_zeros: "atoi_digits (replicate n CHR ''0'' @ ds) = atoi_digits ds"
proof -
  have "foldl (\<lambda>n c. 10 * n + (int (byte c) - 48)) 0 (replicate n CHR ''0'') = 0"
    by (induction n) auto
  then show ?thesis by (simp add: atoi_digits_def)
qed

lemma port_digit_iff: "IsPortDigit (char16_of c) \<longleftrightarrow> 48 \<le> byte c \<and> byte c \<le> 57"
  by (auto simp: IsPortDigit_def char16_of_def split: if_splits)

lemma atoi_digits_ge:
  assumes "list_all (\<lambda>ch. IsPortDigit (char16_of ch)) ds"
  shows "acc * 10 ^ length ds \<le> foldl (\<lambda>n c. 10 * n + (int (byte c) - 48)) acc ds"
  using assms
proof (induction ds arbitrary: acc)
  case (Cons d ds)
  have "48 \<le> byte d" using Cons.prems by (simp add: port_digit_iff)
  then have "(acc * 10) * 10 ^ length ds \<le> (10 * acc + (int (byte d) - 48)) * 10 ^ length ds"
    by (intro mult_right_mono) auto
  also have "\<dots> \<le> foldl (\<lambda>n c. 10 * n + (int (byte c) - 48)) (10 * acc + (int (byte d) - 48)) ds"
    using Cons by simp
  finally show ?case by (simp add: mult.assoc)
qed simp

text \<open>A number without leading zeros is at least a power of ten.\<close>

lemma atoi_too_long:
  assumes "list_all (\<lambda>ch. IsPortDigit (char16_of ch)) (d # ds)" "d \<noteq> CHR ''0''" "5 \<le> length ds"
  shows "65535 < atoi_digits (d # ds)"
proof -
  have "byte d \<noteq> 48" using assms(2) char_eq_byte [of d "CHR ''0''"] by simp
  then have "1 \<le> int (byte d) - 48" using assms(1) by (simp add: port_digit_iff)
  moreover have "(10::int) ^ 5 \<le> 10 ^ length ds" using assms(3) by (intro power_increasing) auto
  ultimately have "(1::int) * 10 ^ 5 \<le> (int (byte d) - 48) * 10 ^ length ds"
    by (intro mult_mono) auto
  also have "\<dots> \<le> atoi_digits (d # ds)"
    using atoi_digits_ge [of ds "int (byte d) - 48"] assms(1) by (simp add: atoi_digits_def)
  finally show ?thesis by simp
qed

lemma port_value:
  assumes "within 0 (len spec) c"
  shows "ParsePort spec c =
    (if \<not> is_nonempty c then PORT_UNSPECIFIED
     else if list_all (\<lambda>ch. IsPortDigit (char16_of ch)) (component_str spec c)
             \<and> atoi_digits (component_str spec c) \<le> 65535
          then atoi_digits (component_str spec c) else PORT_INVALID)"
proof (cases "is_nonempty c")
  case True
  define b e where "b = c_begin c" and "e = c_end c"
  have be: "0 \<le> b" "b < e" "e \<le> len spec"
    using assms True by (auto simp: within_def is_valid_def is_nonempty_def b_def e_def c_end_def)
  define i where "i = scan_fwd (\<lambda>c. c = CHR ''0'') spec b e"
  have i: "b \<le> i" "i \<le> e" using be unfolding i_def by (simp_all add: scan_fwd_ge scan_fwd_le)
  have zeros: "seg spec b i = replicate (nat (i - b)) CHR ''0''"
  proof (rule replicate_length_same [symmetric, THEN trans, rotated])
    show "\<forall>x\<in>set (seg spec b i). x = CHR ''0''"
      using scan_fwd_run [of b _ "\<lambda>c. c = CHR ''0''" spec e] in_set_seg [of _ spec b i] be i
      by (force simp: i_def)
    show "replicate (length (seg spec b i)) CHR ''0'' = replicate (nat (i - b)) CHR ''0''"
      using length_seg [of b i spec] be i by (metis nat_int order_trans)
  qed
  have str: "component_str spec c = replicate (nat (i - b)) CHR ''0'' @ seg spec i e"
    using seg_split [of b i e spec] be i zeros by (simp add: component_str_def b_def e_def)
  have first: "i < e \<Longrightarrow> seg spec i e = at spec i # seg spec (i + 1) e \<and> at spec i \<noteq> CHR ''0''"
    using seg_Cons [of i e spec] scan_fwd_stop [of "\<lambda>c. c = CHR ''0''" spec b e] be i by (simp add: i_def)
  have long: "65535 < atoi_digits (seg spec i e)"
    if "list_all (\<lambda>ch. IsPortDigit (char16_of ch)) (seg spec i e)" "5 < e - i"
    using atoi_too_long [of "at spec i" "seg spec (i + 1) e"] first that length_seg [of "i + 1" e spec] be i
    by simp
  have digits: "list_all (\<lambda>ch. IsPortDigit (char16_of ch)) (replicate n CHR ''0'')" for n
    by (simp add: list_all_iff port_digit_iff)
  have "ParsePort spec c = (if i = e then 0 else if 5 < e - i then PORT_INVALID
      else if \<not> list_all (\<lambda>ch. IsPortDigit (char16_of ch)) (seg spec i e) then PORT_INVALID
      else if atoi_digits (seg spec i e) > 65535 then PORT_INVALID else atoi_digits (seg spec i e))"
    using True i by (simp add: ParsePort_def Let_def b_def [symmetric] e_def [symmetric] i_def [symmetric])
  moreover have "atoi_digits [] = 0" by (simp add: atoi_digits_def)
  ultimately show ?thesis
    using True long i by (auto simp: digits str atoi_append_zeros)
qed (simp add: ParsePort_def)


text \<open>
  Ports.  The result is the decimal value of the whole component when it consists of
  digits and denotes at most 65535 (leading zeros do not count), and the two special values
  otherwise: in particular a buffer of five digits is always enough.
\<close>

theorem parse_port_value:
  assumes "within 0 (len spec) c"
  shows "ParsePort spec c =
    (if \<not> is_nonempty c then PORT_UNSPECIFIED
     else if list_all (\<lambda>ch. IsPortDigit (char16_of ch)) (component_str spec c)
             \<and> atoi_digits (component_str spec c) \<le> 65535
          then atoi_digits (component_str spec c) else PORT_INVALID)"
  using assms by (rule port_value)

theorem parse_port_value_witness:
  "ParsePort ''http://h:0080/'' (Component 9 4) = 80"
proof -
  have "within 0 (len ''http://h:0080/'') (Component 9 4)" by simp
  from parse_port_value [OF this] show ?thesis
    by (simp add: seg_def port_digit_iff atoi_digits_def)
qed

section \<open>Query keys and values\<close>

text \<open>
  C37. One step of the query iteration: the key, its separator, the value and the separator
  after it are exactly the bytes that were consumed; the rest is strictly shorter and ends
  where the query ends, so the iteration stops; keys hold no \<open>&\<close> or \<open>=\<close>, values no \<open>&\<close>.
\<close>

theorem query_step:
  assumes "ExtractQueryKeyValue spec q = Some (rest, key, val)" "within 0 (len spec) q"
  shows "c_len rest < c_len q \<and> within 0 (len spec) rest \<and> c_end rest = c_end q \<and>
    (\<exists>eq amp. eq \<in> {[], ''=''} \<and> amp \<in> {[], ''&''} \<and>
       component_str spec q = component_str spec key @ eq @ component_str spec val @ amp @ component_str spec rest) \<and>
    free_of {CHR ''&'', CHR ''=''} spec key \<and> free_of {CHR ''&''} spec val"
proof -
  let ?K = "\<lambda>c. c \<noteq> CHR ''&'' \<and> c \<noteq> CHR ''=''" and ?V = "\<lambda>c. c \<noteq> CHR ''&''"
  have ne: "is_nonempty q" using assms(1) by (auto simp: ExtractQueryKeyValue_def split: if_splits)
  define b e where "b = c_begin q" and "e = c_end q"
  have be: "0 \<le> b" "b < e" "e \<le> len spec" "c_len q = e - b"
    using assms(2) ne by (auto simp: within_def is_valid_def is_nonempty_def b_def e_def c_end_def)
  define c1 where "c1 = scan_fwd ?K spec b e"
  define c2 where "c2 = (if c1 < e \<and> at spec c1 = CHR ''='' then c1 + 1 else c1)"
  define c3 where "c3 = scan_fwd ?V spec c2 e"
  define c4 where "c4 = (if c3 < e \<and> at spec c3 = CHR ''&'' then c3 + 1 else c3)"
  have res: "rest = MakeRange c4 e" "key = Component b (c1 - b)" "val = Component c2 (c3 - c2)"
    using assms(1) ne by (auto simp: ExtractQueryKeyValue_def Let_def b_def e_def c1_def c2_def c3_def c4_def)
  have c1: "b \<le> c1" "c1 \<le> e"
    using be unfolding c1_def by (simp_all add: scan_fwd_ge scan_fwd_le)
  then have c2: "c1 \<le> c2" "c2 \<le> e"
    by (auto simp: c2_def)
  then have c3: "c2 \<le> c3" "c3 \<le> e"
    unfolding c3_def by (simp_all add: scan_fwd_ge scan_fwd_le)
  then have c4: "c3 \<le> c4" "c4 \<le> e"
    by (auto simp: c4_def)
  note c = c1 c2 c3 c4
  have fk: "set (seg spec b c1) \<inter> {CHR ''&'', CHR ''=''} = {}"
    using scan_fwd_run [of b _ ?K spec e] be c by (intro seg_free) (auto simp: c1_def)
  have fv: "set (seg spec c2 c3) \<inter> {CHR ''&''} = {}"
    using scan_fwd_run [of c2 _ ?V spec e] be c by (intro seg_free) (auto simp: c3_def)
  have eq: "seg spec c1 c2 \<in> {[], ''=''}" and amp: "seg spec c3 c4 \<in> {[], ''&''}"
    using seg_Cons [of c1 c2 spec] seg_Cons [of c3 c4 spec] be c by (auto simp: c2_def c4_def)
  have prog: "b < c4"
  proof (cases "c1 = b")
    case True
    then have "at spec b = CHR ''&'' \<or> at spec b = CHR ''=''"
      using scan_fwd_stop [of ?K spec b e] be by (simp add: c1_def)
    then show ?thesis
    proof
      assume "at spec b = CHR ''&''"
      then have "c2 = b" "c3 = b" using True be by (simp_all add: c2_def c3_def scan_fwd.simps)
      then show ?thesis using be \<open>at spec b = CHR ''&''\<close> by (simp add: c4_def)
    qed (use True be c in \<open>simp add: c2_def\<close>)
  qed (use c in simp)
  have "seg spec b e = seg spec b c1 @ seg spec c1 c2 @ seg spec c2 c3 @ seg spec c3 c4 @ seg spec c4 e"
    using seg_split [of b c1 e spec] seg_split [of c1 c2 e spec] seg_split [of c2 c3 e spec]
      seg_split [of c3 c4 e spec] be c by simp
  then show ?thesis
    using eq amp fk fv prog c be by (auto simp: res component_str_def [of spec q] b_def [symmetric] e_def [symmetric])
qed

theorem query_step_witness:
  "ExtractQueryKeyValue ''a=1&b'' (Component 0 5) = Some (MakeRange 4 5, Component 0 1, Component 2 1)
   \<and> c_len (MakeRange 4 5) < c_len (Component 0 5)"
proof -
  have s: "ExtractQueryKeyValue ''a=1&b'' (Component 0 5) = Some (MakeRange 4 5, Component 0 1, Component 2 1)"
    by code_simp
  have "within 0 (len ''a=1&b'') (Component 0 5)" by simp
  from query_step [OF s this] s show ?thesis by simp
qed

section \<open>A negative path length\<close>

text \<open>
  The split of a filesystem URL looks for the slash that ends the inner path up to the end
  of the whole input, not up to the end of the path, so a slash in the query moves it past the
  path: the outer path gets the length \<open>-2\<close>, which counts as a present component.
\<close>

theorem filesystem_path_negative_length:
  "c_len (p_path (ParseFileSystemURL kStandardURLSchemes ''filesystem:http://a/t?q/x'' 25)) = -2
   \<and> is_valid (p_path (ParseFileSystemURL kStandardURLSchemes ''filesystem:http://a/t?q/x'' 25))"
  by code_simp

end
