(* ===== verification/Url_Chars.thy ===== *)
theory Url_Chars
  imports Url_Parse
begin

unbundle bit_operations_syntax

text \<open>
  The character layer of the URL canonicalizers: \<open>url_canon_internal.h\<close> and
  \<open>url_canon_internal.cc\<close>, with the code point reader the build links
  (\<open>base/strings/utf_string_conversion_utils.cpp\<close>).

  A \<open>CanonOutput\<close> is the byte string written so far.  An operation that writes takes
  it as its last argument and returns it updated.  A code unit handed over as a number is a
  \<^typ>\<open>nat\<close>.  An index that the code advances through a pointer is part of the result.
\<close>

section \<open>Character types\<close>

datatype SharedCharTypes =
  CHAR_QUERY | CHAR_USERINFO | CHAR_IPV4 | CHAR_HEX | CHAR_DEC | CHAR_OCT | CHAR_COMPONENT

fun type_bit :: "SharedCharTypes \<Rightarrow> nat" where
  "type_bit CHAR_QUERY = 1"
| "type_bit CHAR_USERINFO = 2"
| "type_bit CHAR_IPV4 = 4"
| "type_bit CHAR_HEX = 8"
| "type_bit CHAR_DEC = 16"
| "type_bit CHAR_OCT = 32"
| "type_bit CHAR_COMPONENT = 64"

text \<open>
  The flags of each row of sixteen bytes: for example \<open>67\<close> is
  \<open>CHAR_QUERY | CHAR_USERINFO | CHAR_COMPONENT\<close>, \<open>127\<close> is all seven.
\<close>

definition kSharedCharTypeTable :: "nat list" where
  "kSharedCharTypeTable =
    [0, 0, 0, 0, 0, 0, 0, 0, 0, 0, 0, 0, 0, 0, 0, 0,
     0, 0, 0, 0, 0, 0, 0, 0, 0, 0, 0, 0, 0, 0, 0, 0,
     0, 67, 0, 0, 3, 3, 3, 0, 67, 67, 67, 3, 3, 67, 71, 1,
     127, 127, 127, 127, 127, 127, 127, 127, 95, 95, 1, 1, 0, 1, 0, 1,
     1, 79, 79, 79, 79, 79, 79, 67, 67, 67, 67, 67, 67, 67, 67, 67,
     67, 67, 67, 67, 67, 67, 67, 67, 71, 67, 67, 1, 1, 1, 1, 67,
     1, 79, 79, 79, 79, 79, 79, 67, 67, 67, 67, 67, 67, 67, 67, 67,
     67, 67, 67, 67, 67, 67, 67, 67, 71, 67, 67, 1, 1, 1, 67, 0]
    @ replicate 128 0"

definition IsCharOfType :: "nat \<Rightarrow> SharedCharTypes \<Rightarrow> bool" where
  "IsCharOfType c ty \<longleftrightarrow> kSharedCharTypeTable ! c AND type_bit ty \<noteq> 0"

definition IsQueryChar :: "nat \<Rightarrow> bool" where "IsQueryChar c = IsCharOfType c CHAR_QUERY"
definition IsIPv4Char :: "nat \<Rightarrow> bool" where "IsIPv4Char c = IsCharOfType c CHAR_IPV4"
definition IsHexChar :: "nat \<Rightarrow> bool" where "IsHexChar c = IsCharOfType c CHAR_HEX"
definition IsComponentChar :: "nat \<Rightarrow> bool" where "IsComponentChar c = IsCharOfType c CHAR_COMPONENT"

definition kHexCharLookup :: str where
  "kHexCharLookup = ''0123456789ABCDEF''"

definition kCharToHexLookup :: "nat list" where
  "kCharToHexLookup = [0, byte CHR ''0'', byte CHR ''A'' - 10, byte CHR ''a'' - 10, 0, 0, 0, 0]"

definition HexCharToValue :: "nat \<Rightarrow> nat" where
  "HexCharToValue c = (c + 256 - kCharToHexLookup ! (c div 32)) mod 256"

definition IsDot :: "str \<Rightarrow> int \<Rightarrow> int \<Rightarrow> int" where
  "IsDot spec offset e =
     (if at spec offset = CHR ''.'' then 1
      else if at spec offset = CHR ''%'' \<and> offset + 3 \<le> e \<and> at spec (offset + 1) = CHR ''2''
              \<and> (at spec (offset + 2) = CHR ''e'' \<or> at spec (offset + 2) = CHR ''E'') then 3
      else 0)"

section \<open>Escapes\<close>

definition push_back :: "char \<Rightarrow> str \<Rightarrow> str" where
  "push_back c out = out @ [c]"

definition AppendEscapedChar :: "nat \<Rightarrow> str \<Rightarrow> str" where
  "AppendEscapedChar ch out =
     push_back (kHexCharLookup ! (ch AND 15))
       (push_back (kHexCharLookup ! (drop_bit 4 ch AND 15)) (push_back CHR ''%'' out))"

text \<open>The decoded byte and the index of the last byte of the escape.\<close>

definition DecodeEscaped :: "str \<Rightarrow> int \<Rightarrow> int \<Rightarrow> (nat \<times> int) option" where
  "DecodeEscaped spec b e =
     (if b + 3 > e then None
      else let first = byte (at spec (b + 1)); second = byte (at spec (b + 2))
      in if \<not> IsHexChar first \<or> \<not> IsHexChar second then None
         else Some ((push_bit 4 (HexCharToValue first) + HexCharToValue second) mod 256, b + 2))"

section \<open>Code points\<close>

definition kUnicodeReplacementCharacter :: nat where
  "kUnicodeReplacementCharacter = 65533"

definition IsValidCharacter :: "nat \<Rightarrow> bool" where
  "IsValidCharacter code_point \<longleftrightarrow>
     code_point < 0xD800 \<or> (code_point \<ge> 0xE000 \<and> code_point < 0xFDD0) \<or>
     (code_point > 0xFDEF \<and> code_point \<le> 0x10FFFF \<and> code_point AND 0xFFFE \<noteq> 0xFFFE)"

text \<open>
  The reader that every project file of the repository compiles is the placeholder of the
  \<open>.cpp\<close> file: with assertions off it fails on every input, leaving the index and the
  code point alone.
\<close>

definition ReadUnicodeCharacter :: "str \<Rightarrow> int \<Rightarrow> int \<Rightarrow> (nat \<times> int) option" where
  "ReadUnicodeCharacter src src_len char_index = None"

text \<open>Success, the code point and the new index.\<close>

definition ReadUTFChar :: "str \<Rightarrow> int \<Rightarrow> int \<Rightarrow> bool \<times> nat \<times> int" where
  "ReadUTFChar s b l =
     (case ReadUnicodeCharacter s l b of
        None \<Rightarrow> (False, kUnicodeReplacementCharacter, b)
      | Some (code_point, b') \<Rightarrow>
          if \<not> IsValidCharacter code_point then (False, kUnicodeReplacementCharacter, b')
          else (True, code_point, b'))"

definition DoAppendUTF8 :: "(nat \<Rightarrow> str \<Rightarrow> str) \<Rightarrow> nat \<Rightarrow> str \<Rightarrow> str" where
  "DoAppendUTF8 Appender char_value out =
     (if char_value \<le> 0x7f then Appender char_value out
      else if char_value \<le> 0x7ff then
        Appender (0x80 OR (char_value AND 0x3f)) (Appender (0xC0 OR drop_bit 6 char_value) out)
      else if char_value \<le> 0xffff then
        Appender (0x80 OR (char_value AND 0x3f))
          (Appender (0x80 OR (drop_bit 6 char_value AND 0x3f))
            (Appender (0xe0 OR drop_bit 12 char_value) out))
      else if char_value \<le> 0x10FFFF then
        Appender (0x80 OR (char_value AND 0x3f))
          (Appender (0x80 OR (drop_bit 6 char_value AND 0x3f))
            (Appender (0x80 OR (drop_bit 12 char_value AND 0x3f))
              (Appender (0xf0 OR drop_bit 18 char_value) out)))
      else out)"

definition AppendCharToOutput :: "nat \<Rightarrow> str \<Rightarrow> str" where
  "AppendCharToOutput ch out = push_back (char_of ch) out"

definition AppendUTF8Value :: "nat \<Rightarrow> str \<Rightarrow> str" where
  "AppendUTF8Value = DoAppendUTF8 AppendCharToOutput"

definition AppendUTF8EscapedValue :: "nat \<Rightarrow> str \<Rightarrow> str" where
  "AppendUTF8EscapedValue = DoAppendUTF8 AppendEscapedChar"

text \<open>One or two UTF-16 units.\<close>

definition AppendUTF16Value :: "nat \<Rightarrow> nat list \<Rightarrow> nat list" where
  "AppendUTF16Value code_point out =
     (if code_point > 0xffff
      then out @ [(drop_bit 10 code_point + 0xd7c0) mod 65536, ((code_point AND 0x3ff) OR 0xdc00) mod 65536]
      else out @ [code_point])"

definition AppendUTF8EscapedChar :: "str \<Rightarrow> int \<Rightarrow> int \<Rightarrow> str \<Rightarrow> bool \<times> int \<times> str" where
  "AppendUTF8EscapedChar s b l out =
     (let (success, ch, b') = ReadUTFChar s b l in (success, b', AppendUTF8EscapedValue ch out))"

lemma ReadUTFChar_eq [simp]: "ReadUTFChar s b l = (False, kUnicodeReplacementCharacter, b)"
  by (simp add: ReadUTFChar_def ReadUnicodeCharacter_def)

lemma AppendUTF8EscapedChar_eq:
  "AppendUTF8EscapedChar s b l out = (False, b, AppendUTF8EscapedValue kUnicodeReplacementCharacter out)"
  by (simp add: AppendUTF8EscapedChar_def)

section \<open>Whole strings\<close>

function DoAppendStringOfType :: "str \<Rightarrow> int \<Rightarrow> SharedCharTypes \<Rightarrow> int \<Rightarrow> str \<Rightarrow> str" where
  "DoAppendStringOfType source l ty i out =
     (if i < l then
        (let uch = byte (at source i)
         in if uch \<ge> 0x80
            then (let (success, code_point, i') = ReadUTFChar source i l
                  in DoAppendStringOfType source l ty (i' + 1) (AppendUTF8EscapedValue code_point out))
            else if \<not> IsCharOfType uch ty
            then DoAppendStringOfType source l ty (i + 1) (AppendEscapedChar uch out)
            else DoAppendStringOfType source l ty (i + 1) (push_back (at source i) out))
      else out)"
  by pat_completeness auto
termination
  by (relation "measure (\<lambda>(s, l, ty, i, out). nat (l - i))") auto

declare DoAppendStringOfType.simps [simp del]

text \<open>The wrappers take \<open>&spec[b]\<close> and a length.\<close>

definition AppendStringOfType :: "str \<Rightarrow> component \<Rightarrow> SharedCharTypes \<Rightarrow> str \<Rightarrow> str" where
  "AppendStringOfType spec c ty out =
     DoAppendStringOfType (drop (nat (c_begin c)) spec) (c_len c) ty 0 out"

function AppendInvalidNarrowString :: "str \<Rightarrow> int \<Rightarrow> int \<Rightarrow> str \<Rightarrow> str" where
  "AppendInvalidNarrowString spec i e out =
     (if i < e then
        (let uch = byte (at spec i)
         in if uch \<ge> 0x80
            then (let (success, i', out') = AppendUTF8EscapedChar spec i e out
                  in AppendInvalidNarrowString spec (i' + 1) e out')
            else if uch \<le> byte CHR '' '' \<or> uch = 0x7f
            then AppendInvalidNarrowString spec (i + 1) e (AppendEscapedChar uch out)
            else AppendInvalidNarrowString spec (i + 1) e (push_back (at spec i) out))
      else out)"
  by pat_completeness auto
termination
  by (relation "measure (\<lambda>(s, i, e, out). nat (e - i))") (auto simp: AppendUTF8EscapedChar_eq)

declare AppendInvalidNarrowString.simps [simp del]

function ConvertUTF8ToUTF16 :: "str \<Rightarrow> int \<Rightarrow> int \<Rightarrow> bool \<Rightarrow> nat list \<Rightarrow> bool \<times> nat list" where
  "ConvertUTF8ToUTF16 input input_len i success out =
     (if i < input_len then
        (let (ok, code_point, i') = ReadUTFChar input i input_len
         in ConvertUTF8ToUTF16 input input_len (i' + 1) (success \<and> ok) (AppendUTF16Value code_point out))
      else (success, out))"
  by pat_completeness auto
termination
  by (relation "measure (\<lambda>(s, l, i, b, out). nat (l - i))") auto

declare ConvertUTF8ToUTF16.simps [simp del]

section \<open>Numbers\<close>

text \<open>The digits that \<open>snprintf\<close> prints for \<open>%d\<close> and \<open>%x\<close>.\<close>

definition digit_char :: "nat \<Rightarrow> char" where
  "digit_char d = ''0123456789abcdef'' ! d"

fun print_nat :: "nat \<Rightarrow> nat \<Rightarrow> str" where
  "print_nat radix n =
     (if radix < 2 \<or> n < radix then [digit_char n]
      else print_nat radix (n div radix) @ [digit_char (n mod radix)])"

declare print_nat.simps [simp del]

definition snprintf_d :: "int \<Rightarrow> str" where
  "snprintf_d v = (if v < 0 then CHR ''-'' # print_nat 10 (nat (- v)) else print_nat 10 (nat v))"

definition snprintf_x :: "int \<Rightarrow> str" where
  "snprintf_x v = print_nat 16 (nat (v mod 2 ^ 32))"

text \<open>\<open>None\<close> is \<open>EINVAL\<close>: an unknown radix, or no room for the terminating null.\<close>

definition itoa_s :: "int \<Rightarrow> nat \<Rightarrow> nat \<Rightarrow> str option" where
  "itoa_s value size_in_chars radix =
     (if radix \<noteq> 10 \<and> radix \<noteq> 16 then None
      else let written = (if radix = 10 then snprintf_d value else snprintf_x value)
           in if length written \<ge> size_in_chars then None else Some written)"

text \<open>
  \<open>strtoull\<close> on a string of digits of its base: the value, capped at \<open>ULLONG_MAX\<close>.
\<close>

definition digits_value :: "nat \<Rightarrow> str \<Rightarrow> nat" where
  "digits_value base ds = foldl (\<lambda>n c. base * n + HexCharToValue (byte c)) 0 ds"

definition strtoui64 :: "str \<Rightarrow> nat \<Rightarrow> nat" where
  "strtoui64 ds base = min (digits_value base ds) (2 ^ 64 - 1)"

end
