(* ===== verification/Url_Chars_Laws.thy ===== *)
theory Url_Chars_Laws
  imports Url_Chars Url_Parse_Laws
begin

unbundle bit_operations_syntax

text \<open>
  What the character layer guarantees: escapes decode to what was escaped, numbers print
  and read back, UTF-8 output has the bit layout of the standard, and the string routines
  write ASCII text of the class they were asked for.
\<close>

section \<open>Append-only writers\<close>

text \<open>
  Most operations only append to the output: what they write does not depend on what is
  already there.
\<close>

locale writer =
  fixes f :: "str \<Rightarrow> str"
  assumes writes: "f out = out @ f []"
begin

lemma grows: "length out \<le> length (f out)"
  by (subst writes) simp

lemma len_grows: "len out \<le> len (f out)"
  using grows by simp

lemma keeps: "0 \<le> b \<Longrightarrow> e \<le> len out \<Longrightarrow> seg (f out) b e = seg out b e"
  by (subst writes) (simp add: index_simps)

lemma new_part: "seg (f out) (len out) (len (f out)) = f []"
  by (subst (1 2) writes) (simp add: index_simps)

end

locale writer2 = first: writer f + second: writer g for f g :: "str \<Rightarrow> str"
begin

sublocale both: writer "\<lambda>out. g (f out)"
  by unfold_locales (metis append.assoc first.writes second.writes)

lemma both_parts: "g (f []) = f [] @ g []"
  by (subst second.writes) simp

end

section \<open>Character classes\<close>

lemma is_hex:
  assumes "c < 256"
  shows "IsHexChar c \<longleftrightarrow> 48 \<le> c \<and> c \<le> 57 \<or> 65 \<le> c \<and> c \<le> 70 \<or> 97 \<le> c \<and> c \<le> 102"
  unfolding IsCharOfType_def IsHexChar_def by (rule table_nth [OF _ assms]) code_simp

lemma is_dec:
  assumes "c < 256"
  shows "IsCharOfType c CHAR_DEC \<longleftrightarrow> 48 \<le> c \<and> c \<le> 57"
  unfolding IsCharOfType_def by (rule table_nth [OF _ assms]) code_simp

lemma is_oct:
  assumes "c < 256"
  shows "IsCharOfType c CHAR_OCT \<longleftrightarrow> 48 \<le> c \<and> c \<le> 55"
  unfolding IsCharOfType_def by (rule table_nth [OF _ assms]) code_simp

lemma is_ipv4:
  assumes "c < 256"
  shows "IsIPv4Char c \<longleftrightarrow> c = 46 \<or> c = 88 \<or> c = 120 \<or> 48 \<le> c \<and> c \<le> 57 \<or> 65 \<le> c \<and> c \<le> 70 \<or> 97 \<le> c \<and> c \<le> 102"
  unfolding IsCharOfType_def IsIPv4Char_def by (rule table_nth [OF _ assms]) code_simp

lemma typed_any:
  assumes "c < 256"
  shows "kSharedCharTypeTable ! c \<noteq> 0 \<longleftrightarrow>
    33 \<le> c \<and> c \<le> 126 \<and> c \<noteq> 34 \<and> c \<noteq> 35 \<and> c \<noteq> 39 \<and> c \<noteq> 60 \<and> c \<noteq> 62"
  by (rule table_nth [OF _ assms, where f = "\<lambda>f. f \<noteq> 0"]) code_simp

lemma typed_ascii: "c < 256 \<Longrightarrow> IsCharOfType c ty \<Longrightarrow> 33 \<le> c \<and> c \<le> 126 \<and> c \<noteq> 35"
  using typed_any [of c] by (auto simp: IsCharOfType_def)

lemma percent_typed:
  "IsCharOfType 37 CHAR_QUERY" "IsCharOfType 37 CHAR_USERINFO"
  by code_simp+

section \<open>Hex digits and escapes\<close>

lemma hex_value_dec:
  assumes "48 \<le> c" "c < 58"
  shows "HexCharToValue c = c - 48"
  by (rule upt_all [OF _ assms]) code_simp

lemma hex_value_upper:
  assumes "65 \<le> c" "c < 71"
  shows "HexCharToValue c = c - 55"
  by (rule upt_all [OF _ assms]) code_simp

lemma hex_value_lower:
  assumes "97 \<le> c" "c < 103"
  shows "HexCharToValue c = c - 87"
  by (rule upt_all [OF _ assms]) code_simp

lemma hex_digit:
  "d < 16 \<Longrightarrow> IsHexChar (byte (kHexCharLookup ! d)) \<and> HexCharToValue (byte (kHexCharLookup ! d)) = d"
  by (rule upt_all [where m = 0 and n = 16]) (code_simp, simp_all)

lemma digit_char_value: "d < 16 \<Longrightarrow> HexCharToValue (byte (digit_char d)) = d"
  by (rule upt_all [where m = 0 and n = 16]) (code_simp, simp_all)

lemma and_mask: "x AND 15 = x mod 16" "x AND 63 = x mod 64" "x AND 1023 = x mod 1024" for x :: nat
  using take_bit_eq_mask [of 4 x] take_bit_eq_mask [of 6 x] take_bit_eq_mask [of 10 x]
  by (simp_all add: take_bit_eq_mod mask_eq_exp_minus_1)

definition escaped :: "nat \<Rightarrow> str" where
  "escaped ch = [CHR ''%'', kHexCharLookup ! (ch div 16 mod 16), kHexCharLookup ! (ch mod 16)]"

lemma AppendEscapedChar_eq: "AppendEscapedChar ch out = out @ escaped ch"
  by (simp add: AppendEscapedChar_def push_back_def drop_bit_eq_div and_mask escaped_def)

text \<open>
  Decoding reads back every escape that the writers produce: wherever
  \<open>AppendEscapedChar\<close> has put a byte, \<open>DecodeEscaped\<close> returns this byte and the
  index of its last digit, whatever follows.
\<close>

theorem escape_round_trip:
  assumes "ch < 256" "len out + 3 \<le> e"
  shows "DecodeEscaped (AppendEscapedChar ch out @ rest) (len out) e = Some (ch, len out + 2)"
proof -
  have h: "(ch div 16 * 16 + ch mod 16) mod 256 = ch" "ch div 16 < 16" using assms by simp_all
  show ?thesis
    using assms(2) hex_digit [of "ch div 16"] hex_digit [of "ch mod 16"] h
    by (simp add: DecodeEscaped_def AppendEscapedChar_eq escaped_def index_simps push_bit_eq_mult)
      (simp add: at_def push_bit_eq_mult)
qed

theorem escape_round_trip_witness:
  "DecodeEscaped (AppendEscapedChar 227 ''/a'' @ ''/'') 2 6 = Some (227, 4)"
  using escape_round_trip [of 227 "''/a''" 6 "''/''"] by simp

section \<open>UTF-8\<close>

text \<open>The bit layout of one code point, as a decoder of byte values.\<close>

fun utf8_value :: "nat list \<Rightarrow> nat option" where
  "utf8_value [a] = (if a < 128 then Some a else None)"
| "utf8_value [a, b] =
     (if 192 \<le> a \<and> a < 224 \<and> 128 \<le> b \<and> b < 192 then Some ((a - 192) * 64 + (b - 128)) else None)"
| "utf8_value [a, b, c] =
     (if 224 \<le> a \<and> a < 240 \<and> 128 \<le> b \<and> b < 192 \<and> 128 \<le> c \<and> c < 192
      then Some (((a - 224) * 64 + (b - 128)) * 64 + (c - 128)) else None)"
| "utf8_value [a, b, c, d] =
     (if 240 \<le> a \<and> a < 248 \<and> 128 \<le> b \<and> b < 192 \<and> 128 \<le> c \<and> c < 192 \<and> 128 \<le> d \<and> d < 192
      then Some ((((a - 240) * 64 + (b - 128)) * 64 + (c - 128)) * 64 + (d - 128)) else None)"
| "utf8_value _ = None"

lemma or_lead: "x < 64 \<Longrightarrow> 128 OR x = 128 + x" "x < 32 \<Longrightarrow> 192 OR x = 192 + x"
  "x < 16 \<Longrightarrow> 224 OR x = 224 + x" "x < 8 \<Longrightarrow> 240 OR x = 240 + x" for x :: nat
proof -
  show "x < 64 \<Longrightarrow> 128 OR x = 128 + x"
    by (rule upt_all [where m = 0 and n = 64]) (code_simp, simp_all)
  show "x < 32 \<Longrightarrow> 192 OR x = 192 + x"
    by (rule upt_all [where m = 0 and n = 32]) (code_simp, simp_all)
  show "x < 16 \<Longrightarrow> 224 OR x = 224 + x"
    by (rule upt_all [where m = 0 and n = 16]) (code_simp, simp_all)
  show "x < 8 \<Longrightarrow> 240 OR x = 240 + x"
    by (rule upt_all [where m = 0 and n = 8]) (code_simp, simp_all)
qed

lemma utf8_two:
  fixes n :: nat
  assumes "n < 2048"
  shows "n div 64 < 32" "(n div 64) * 64 + n mod 64 = n"
  using assms by simp_all

lemma utf8_three:
  fixes n :: nat
  assumes "n < 65536"
  shows "n div 4096 < 16" "(n div 4096 * 64 + n div 64 mod 64) * 64 + n mod 64 = n"
proof -
  have "n div 4096 = n div 64 div 64" by (simp add: div_mult2_eq [symmetric])
  then have "n div 4096 * 64 + n div 64 mod 64 = n div 64" by simp
  then show "(n div 4096 * 64 + n div 64 mod 64) * 64 + n mod 64 = n" by simp
qed (use assms in simp)

lemma utf8_four:
  fixes n :: nat
  assumes "n < 2097152"
  shows "n div 262144 < 8" "((n div 262144 * 64 + n div 4096 mod 64) * 64 + n div 64 mod 64) * 64 + n mod 64 = n"
proof -
  have "n div 262144 = n div 4096 div 64" by (simp add: div_mult2_eq [symmetric])
  then have "n div 262144 * 64 + n div 4096 mod 64 = n div 4096" by simp
  moreover have "n div 4096 = n div 64 div 64" by (simp add: div_mult2_eq [symmetric])
  then have "n div 4096 * 64 + n div 64 mod 64 = n div 64" by simp
  ultimately show "((n div 262144 * 64 + n div 4096 mod 64) * 64 + n div 64 mod 64) * 64 + n mod 64 = n" by simp
qed (use assms in simp)

lemma mod64_less: "x mod 64 < 128" for x :: nat
  by (rule less_trans [of _ 64]) simp_all

text \<open>
  \<open>AppendUTF8Value\<close> writes one to four bytes with the bit layout of UTF-8: read by the
  layout of the standard they give the code point back.
\<close>

theorem utf8_layout:
  assumes "char_value \<le> 0x10FFFF"
  shows "\<exists>bytes. AppendUTF8Value char_value out = out @ map char_of bytes \<and>
    list_all (\<lambda>b. b < 256) bytes \<and> utf8_value bytes = Some char_value"
proof -
  let ?n = char_value
  let ?c = "\<lambda>x. 128 + x mod 64"
  consider "?n < 128" | "128 \<le> ?n" "?n < 2048" | "2048 \<le> ?n" "?n < 65536" | "65536 \<le> ?n" by linarith
  then show ?thesis
  proof cases
    case 1
    then show ?thesis by (intro exI [of _ "[?n]"])
      (simp add: AppendUTF8Value_def DoAppendUTF8_def AppendCharToOutput_def push_back_def)
  next
    case 2
    then show ?thesis using utf8_two [of ?n]
      by (intro exI [of _ "[192 + ?n div 64, ?c ?n]"])
        (simp add: AppendUTF8Value_def DoAppendUTF8_def AppendCharToOutput_def push_back_def
          and_mask drop_bit_eq_div or_lead mod64_less)
  next
    case 3
    then show ?thesis using utf8_three [of ?n]
      by (intro exI [of _ "[224 + ?n div 4096, ?c (?n div 64), ?c ?n]"])
        (simp add: AppendUTF8Value_def DoAppendUTF8_def AppendCharToOutput_def push_back_def
          and_mask drop_bit_eq_div or_lead mod64_less)
  next
    case 4
    then show ?thesis using utf8_four [of ?n] assms
      by (intro exI [of _ "[240 + ?n div 262144, ?c (?n div 4096), ?c (?n div 64), ?c ?n]"])
        (simp add: AppendUTF8Value_def DoAppendUTF8_def AppendCharToOutput_def push_back_def
          and_mask drop_bit_eq_div or_lead mod64_less)
  qed
qed

theorem utf8_layout_witness:
  "\<exists>bytes. AppendUTF8Value 0x20AC ''#'' = ''#'' @ map char_of bytes \<and>
    list_all (\<lambda>b. b < 256) bytes \<and> utf8_value bytes = Some 0x20AC"
  by (rule utf8_layout) simp

lemma replacement_escaped:
  "AppendUTF8EscapedValue kUnicodeReplacementCharacter out = out @ ''%EF%BF%BD''"
proof -
  have "escaped 0xEF @ escaped 0xBF @ escaped 0xBD = ''%EF%BF%BD''" by code_simp
  moreover have "AppendUTF8EscapedValue kUnicodeReplacementCharacter out
      = out @ (escaped 0xEF @ escaped 0xBF @ escaped 0xBD)"
    by (simp add: AppendUTF8EscapedValue_def DoAppendUTF8_def kUnicodeReplacementCharacter_def
        AppendEscapedChar_eq drop_bit_eq_div and_mask or_lead)
  ultimately show ?thesis by simp
qed
lemma replacement_utf8:
  "AppendUTF8Value kUnicodeReplacementCharacter out = out @ map char_of [0xEF, 0xBF, 0xBD::nat]"
  by (simp add: AppendUTF8Value_def DoAppendUTF8_def kUnicodeReplacementCharacter_def push_back_def
        AppendCharToOutput_def drop_bit_eq_div and_mask or_lead)

section \<open>Strings of one class\<close>

definition typed_char :: "SharedCharTypes \<Rightarrow> char \<Rightarrow> str" where
  "typed_char ty c =
     (if byte c \<ge> 128 then ''%EF%BF%BD''
      else if IsCharOfType (byte c) ty then [c] else escaped (byte c))"

lemma DoAppendStringOfType_eq:
  "0 \<le> i \<Longrightarrow> l \<le> len s \<Longrightarrow>
   DoAppendStringOfType s l ty i out = out @ concat (map (typed_char ty) (seg s i l))"
proof (induction i arbitrary: out rule: upto_induct [where e = l])
  case (step i)
  then have "seg s i l = at s i # seg s (i + 1) l" by (simp add: seg_Cons)
  then show ?case using step
    by (simp add: DoAppendStringOfType.simps [of s l ty i] typed_char_def Let_def
        AppendEscapedChar_eq push_back_def replacement_escaped)
qed (simp add: DoAppendStringOfType.simps)

lemma AppendStringOfType_eq:
  "within 0 (len s) c \<Longrightarrow> is_valid c \<Longrightarrow>
   AppendStringOfType s c ty out = out @ concat (map (typed_char ty) (component_str s c))"
  by (auto simp: AppendStringOfType_def within_def DoAppendStringOfType_eq seg_drop component_str_def c_end_def)


lemma typed_char_typed:
  assumes "ty = CHAR_QUERY \<or> ty = CHAR_USERINFO" "x \<in> set (typed_char ty c)"
  shows "byte x < 128 \<and> IsCharOfType (byte x) ty"
proof -
  have hexs: "list_all (\<lambda>c. byte c < 128 \<and> IsCharOfType (byte c) ty) (''%EF%BF%BD'' @ ''%'' @ kHexCharLookup)"
    using assms(1) by (elim disjE) (hypsubst, code_simp)+
  have "d < 16 \<Longrightarrow> kHexCharLookup ! d \<in> set kHexCharLookup" for d
    by (rule nth_mem) (simp add: kHexCharLookup_def)
  then show ?thesis using assms(2) hexs
    by (auto simp: typed_char_def escaped_def list_all_iff split: if_splits)
qed

lemma typed_char_id: "byte c < 128 \<Longrightarrow> IsCharOfType (byte c) ty \<Longrightarrow> typed_char ty c = [c]"
  by (simp add: typed_char_def)

lemma typed_chars_id:
  "list_all (\<lambda>c. byte c < 128 \<and> IsCharOfType (byte c) ty) t \<Longrightarrow> concat (map (typed_char ty) t) = t"
  by (induction t) (simp_all add: typed_char_id)

lemma typed_chars_typed:
  "ty = CHAR_QUERY \<or> ty = CHAR_USERINFO \<Longrightarrow>
   list_all (\<lambda>c. byte c < 128 \<and> IsCharOfType (byte c) ty) (concat (map (typed_char ty) s))"
  using typed_char_typed by (fastforce simp: list_all_iff)

text \<open>
  For user names, passwords and queries, \<open>AppendStringOfType\<close> only appends; what it appends
  consists of ASCII characters of the requested class; and running it again on this text
  changes nothing, so a canonical component stays as it is.
\<close>

theorem string_of_type_canonical:
  assumes "ty = CHAR_QUERY \<or> ty = CHAR_USERINFO" "within 0 (len spec) c" "is_valid c"
  shows "\<exists>t. AppendStringOfType spec c ty out = out @ t \<and>
    list_all (\<lambda>x. byte x < 128 \<and> IsCharOfType (byte x) ty) t \<and>
    AppendStringOfType t (Component 0 (len t)) ty [] = t"
proof (intro exI conjI)
  let ?t = "concat (map (typed_char ty) (component_str spec c))"
  show "AppendStringOfType spec c ty out = out @ ?t"
    using assms(2,3) by (rule AppendStringOfType_eq)
  show l: "list_all (\<lambda>x. byte x < 128 \<and> IsCharOfType (byte x) ty) ?t"
    using assms(1) by (rule typed_chars_typed)
  show "AppendStringOfType ?t (Component 0 (len ?t)) ty [] = ?t"
    by (simp add: AppendStringOfType_eq typed_chars_id [OF l])
qed

theorem string_of_type_canonical_witness:
  "\<exists>t. AppendStringOfType ''a b'' (Component 0 3) CHAR_QUERY ''?'' = ''?'' @ t \<and>
    list_all (\<lambda>x. byte x < 128 \<and> IsCharOfType (byte x) CHAR_QUERY) t \<and>
    AppendStringOfType t (Component 0 (len t)) CHAR_QUERY [] = t"
  by (rule string_of_type_canonical) simp_all

text \<open>
  The text of non-ASCII characters is lost: two inputs that agree on their ASCII bytes and
  have any other bytes, valid UTF-8 or not, in the same places are written the same way, each
  such byte as an escaped replacement character.
\<close>

theorem non_ascii_text_lost:
  assumes "list_all2 (\<lambda>a b. a = b \<or> byte a \<ge> 128 \<and> byte b \<ge> 128) s s'"
    "within 0 (len s) c" "is_valid c"
  shows "AppendStringOfType s c ty out = AppendStringOfType s' c ty out"
proof -
  have "list_all2 (\<lambda>a b. typed_char ty a = typed_char ty b) s s'"
    using assms(1) by (rule list_all2_mono) (auto simp: typed_char_def)
  then have "map (typed_char ty) s = map (typed_char ty) s'"
    by (simp add: list_all2_conv_all_nth list_eq_iff_nth_eq)
  then have "map (typed_char ty) (component_str s c) = map (typed_char ty) (component_str s' c)"
    by (simp add: component_str_def seg_def drop_map take_map [symmetric] flip: drop_map take_map)
  moreover have "len s' = len s" using assms(1) by (simp add: list_all2_lengthD)
  ultimately show ?thesis using assms(2,3) by (simp add: AppendStringOfType_eq)
qed

theorem non_ascii_text_lost_witness:
  "AppendStringOfType (''q='' @ map char_of [195, 169::nat]) (Component 0 4) CHAR_QUERY ''?''
   = AppendStringOfType (''q='' @ map char_of [195, 168::nat]) (Component 0 4) CHAR_QUERY ''?''"
  by (rule non_ascii_text_lost) simp_all

section \<open>Invalid text and UTF-16\<close>

definition invalid_char :: "char \<Rightarrow> str" where
  "invalid_char c =
     (if byte c \<ge> 128 then ''%EF%BF%BD''
      else if byte c \<le> 32 \<or> byte c = 127 then escaped (byte c) else [c])"

lemma AppendInvalidNarrowString_eq:
  "0 \<le> i \<Longrightarrow> e \<le> len s \<Longrightarrow>
   AppendInvalidNarrowString s i e out = out @ concat (map invalid_char (seg s i e))"
proof (induction i arbitrary: out rule: upto_induct [where e = e])
  case (step i)
  then have "seg s i e = at s i # seg s (i + 1) e" by (simp add: seg_Cons)
  then show ?case using step
    by (simp add: AppendInvalidNarrowString.simps [of s i e] invalid_char_def Let_def
        AppendEscapedChar_eq push_back_def AppendUTF8EscapedChar_eq replacement_escaped)
qed (simp add: AppendInvalidNarrowString.simps)

lemma ConvertUTF8ToUTF16_fails:
  "fst (ConvertUTF8ToUTF16 s l i ok out) \<longleftrightarrow> ok \<and> l \<le> i"
proof (induction i arbitrary: ok out rule: upto_induct [where e = l])
  case (step i)
  then show ?case by (simp add: ConvertUTF8ToUTF16.simps [of s l i])
qed (simp add: ConvertUTF8ToUTF16.simps)

section \<open>Numbers\<close>

lemma digits_value_append: "digits_value b (xs @ ys) = foldl (\<lambda>n c. b * n + HexCharToValue (byte c)) (digits_value b xs) ys"
  by (simp add: digits_value_def)

lemma digits_value_print:
  "2 \<le> radix \<Longrightarrow> radix \<le> 16 \<Longrightarrow> digits_value radix (print_nat radix n) = n"
proof (induction radix n rule: print_nat.induct)
  case (1 radix n)
  show ?case
  proof (cases "n < radix")
    case True
    then show ?thesis using 1
      by (simp add: print_nat.simps [of radix n] digits_value_def digit_char_value)
  next
    case False
    then have "n mod radix < 16" using 1 by (auto intro: less_le_trans [of _ radix])
    then show ?thesis using 1 False
      by (simp add: print_nat.simps [of radix n] digits_value_append digit_char_value)
  qed
qed

lemma length_print_nat:
  "2 \<le> radix \<Longrightarrow> n < radix ^ k \<Longrightarrow> 0 < k \<Longrightarrow> length (print_nat radix n) \<le> k"
proof (induction k arbitrary: n)
  case (Suc k)
  show ?case
  proof (cases "n < radix")
    case True
    then show ?thesis by (simp add: print_nat.simps [of radix n])
  next
    case False
    then have "n div radix < radix ^ k" using Suc.prems by (simp add: less_mult_imp_div_less mult.commute)
    moreover have "0 < k" using False Suc.prems by (cases k) auto
    ultimately show ?thesis using False Suc by (simp add: print_nat.simps [of radix n])
  qed
qed simp

lemma print_nat_digits:
  "2 \<le> radix \<Longrightarrow> c \<in> set (print_nat radix n) \<Longrightarrow> \<exists>d<radix. c = digit_char d"
proof (induction radix n rule: print_nat.induct)
  case (1 radix n)
  moreover have "n mod radix < radix" using 1 by simp
  ultimately show ?case
    by (cases "n < radix") (fastforce simp: print_nat.simps [of radix n])+
qed

lemma print_nat_nonempty: "print_nat radix n \<noteq> []"
  by (simp add: print_nat.simps [of radix n])

lemma hd_print_nat:
  "2 \<le> radix \<Longrightarrow> 0 < n \<Longrightarrow> \<exists>d<radix. 0 < d \<and> hd (print_nat radix n) = digit_char d"
proof (induction radix n rule: print_nat.induct)
  case (1 radix n)
  show ?case
  proof (cases "n < radix")
    case False
    then have "0 < n div radix" using 1 by (simp add: div_greater_zero_iff)
    then show ?thesis using 1 False
      by (simp add: print_nat.simps [of radix n] print_nat_nonempty)
  qed (use 1 in \<open>auto simp: print_nat.simps [of radix n]\<close>)
qed

end
