(* ===== verification/Url_Ip.thy ===== *)
theory Url_Ip
  imports Url_Chars_Laws
begin

unbundle bit_operations_syntax

text \<open>
  IP addresses in host names: \<open>url_canon_ip.cc\<close> in its 8-bit instantiation.  An address is
  the list of its bytes in network order.  \<open>Inl\<close> of a result is the family that ends the
  analysis, \<open>Inr\<close> carries the number or address that was found.
\<close>

datatype Family = NEUTRAL | BROKEN | IPV4 | IPV6

record CanonHostInfo =
  family :: Family
  num_ipv4_components :: int
  out_host :: component
  address :: "nat list"

definition new_host_info :: CanonHostInfo where
  "new_host_info = \<lparr>family = NEUTRAL, num_ipv4_components = 0, out_host = no_component, address = []\<rparr>"

definition IsIPAddress :: "CanonHostInfo \<Rightarrow> bool" where
  "IsIPAddress info \<longleftrightarrow> family info = IPV4 \<or> family info = IPV6"

section \<open>IPv4\<close>

fun BaseForType :: "SharedCharTypes \<Rightarrow> nat" where
  "BaseForType CHAR_HEX = 16"
| "BaseForType CHAR_DEC = 10"
| "BaseForType CHAR_OCT = 8"
| "BaseForType _ = 0"

text \<open>The main loop of \<open>DoFindIPv4Components\<close>; \<open>comps\<close> are the components stored so far.\<close>

function ipv4_scan :: "str \<Rightarrow> int \<Rightarrow> int \<Rightarrow> int \<Rightarrow> component list \<Rightarrow> component list option" where
  "ipv4_scan spec e i cur_component_begin comps =
     (if i \<ge> e \<or> at spec i = CHR ''.'' then
        (let component_len = i - cur_component_begin;
             comps' = comps @ [Component cur_component_begin component_len];
             cur_component = length comps'
         in if component_len = 0 \<and> (i < e \<or> cur_component = 1) then None
            else if i \<ge> e then Some comps'
            else if cur_component = 4 then
              (if at spec i = CHR ''.'' \<and> i + 1 = e then Some comps' else None)
            else ipv4_scan spec e (i + 1) (i + 1) comps')
      else if byte (at spec i) \<ge> 0x80 \<or> \<not> IsIPv4Char (byte (at spec i)) then None
      else ipv4_scan spec e (i + 1) cur_component_begin comps)"
  by pat_completeness auto
termination
  by (relation "measure (\<lambda>(s, e, i, b, cs). nat (e - i))") auto

declare ipv4_scan.simps [simp del]

definition FindIPv4Components :: "str \<Rightarrow> component \<Rightarrow> component list option" where
  "FindIPv4Components spec host =
     (if \<not> is_nonempty host then None
      else map_option (\<lambda>comps. comps @ replicate (4 - length comps) no_component)
             (ipv4_scan spec (c_end host) (c_begin host) (c_begin host) []))"

definition ipv4_base :: "str \<Rightarrow> component \<Rightarrow> SharedCharTypes \<times> int" where
  "ipv4_base spec c =
     (if at spec (c_begin c) = CHR ''0'' then
        (if c_len c = 1 then (CHAR_DEC, 0)
         else if at spec (c_begin c + 1) = CHR ''X'' \<or> at spec (c_begin c + 1) = CHR ''x''
         then (CHAR_HEX, 2) else (CHAR_OCT, 1))
      else (CHAR_DEC, 0))"

definition kMaxComponentLen :: nat where "kMaxComponentLen = 16"

definition IPv4ComponentToNumber :: "str \<Rightarrow> component \<Rightarrow> Family + nat" where
  "IPv4ComponentToNumber spec c =
     (let (base, prefix_len) = ipv4_base spec c;
          digits_begin = scan_fwd (\<lambda>c. c = CHR ''0'') spec (c_begin c + prefix_len) (c_end c);
          digits = seg spec digits_begin (c_end c)
      in if \<not> list_all (\<lambda>input. IsCharOfType (byte input) base) digits then Inl NEUTRAL
         else let buf = take kMaxComponentLen digits;
                  num = strtoui64 buf (BaseForType base)
         in if num > 2 ^ 32 - 1 then Inl BROKEN else Inr num)"

text \<open>The first loop of \<open>DoIPv4AddressToNumber\<close>: whether a component was broken, and the values.\<close>

fun ipv4_values :: "str \<Rightarrow> component list \<Rightarrow> bool \<Rightarrow> nat list \<Rightarrow> Family + bool \<times> nat list" where
  "ipv4_values spec [] broken vals = Inr (broken, vals)"
| "ipv4_values spec (c # cs) broken vals =
     (if c_len c \<le> 0 then ipv4_values spec cs broken vals
      else case IPv4ComponentToNumber spec c of
        Inl f \<Rightarrow> if f = BROKEN then ipv4_values spec cs True (vals @ [0]) else Inl f
      | Inr n \<Rightarrow> ipv4_values spec cs broken (vals @ [n]))"

text \<open>The last component fills the remaining \<open>k\<close> bytes from the right; what is left of it.\<close>

fun fill_bytes :: "nat \<Rightarrow> nat \<Rightarrow> nat list \<Rightarrow> nat list \<times> nat" where
  "fill_bytes 0 last_value bytes = (bytes, last_value)"
| "fill_bytes (Suc k) last_value bytes = fill_bytes k (drop_bit 8 last_value) (last_value mod 256 # bytes)"

definition IPv4AddressToNumber :: "str \<Rightarrow> component \<Rightarrow> Family + nat list \<times> int" where
  "IPv4AddressToNumber spec host =
     (case FindIPv4Components spec host of
        None \<Rightarrow> Inl NEUTRAL
      | Some components \<Rightarrow>
        (case ipv4_values spec components False [] of
           Inl f \<Rightarrow> Inl f
         | Inr (broken, vals) \<Rightarrow>
             if broken then Inl BROKEN
             else if \<not> list_all (\<lambda>v. v \<le> 255) (butlast vals) then Inl BROKEN
             else let (bytes, residue) = fill_bytes (5 - length vals) (last vals) []
             in if residue \<noteq> 0 then Inl BROKEN else Inr (butlast vals @ bytes, int (length vals))))"

text \<open>\<open>_itoa_s\<close> into a buffer that is large enough.\<close>

definition itoa_text :: "nat \<Rightarrow> nat \<Rightarrow> nat \<Rightarrow> str" where
  "itoa_text v size_in_chars radix = (case itoa_s (int v) size_in_chars radix of Some t \<Rightarrow> t | None \<Rightarrow> [])"

fun append_ipv4_from :: "nat list \<Rightarrow> str \<Rightarrow> str" where
  "append_ipv4_from [] out = out"
| "append_ipv4_from (a # as) out =
     append_ipv4_from as
       (let out' = out @ itoa_text a 16 10 in if as \<noteq> [] then push_back CHR ''.'' out' else out')"

definition AppendIPv4Address :: "nat list \<Rightarrow> str \<Rightarrow> str" where
  "AppendIPv4Address addr out = append_ipv4_from (take 4 addr) out"

text \<open>The boolean is \<open>true\<close> when the decision is final.\<close>

definition CanonicalizeIPv4Address ::
    "str \<Rightarrow> component \<Rightarrow> str \<Rightarrow> CanonHostInfo \<Rightarrow> bool \<times> str \<times> CanonHostInfo" where
  "CanonicalizeIPv4Address spec host out info =
     (case IPv4AddressToNumber spec host of
        Inr (addr, n) \<Rightarrow>
          (let out' = AppendIPv4Address addr out
           in (True, out', info\<lparr>family := IPV4, address := addr, num_ipv4_components := n,
                 out_host := Component (len out) (len out' - len out)\<rparr>))
      | Inl BROKEN \<Rightarrow> (True, out, info\<lparr>family := BROKEN\<rparr>)
      | Inl f \<Rightarrow> (False, out, info\<lparr>family := f\<rparr>))"

section \<open>IPv6\<close>

record IPv6Parsed =
  hex_components :: "component list"
  index_of_contraction :: int
  ipv4_component :: component

abbreviation num_hex_components :: "IPv6Parsed \<Rightarrow> int" where
  "num_hex_components p \<equiv> len (hex_components p)"

definition reset_IPv6Parsed :: IPv6Parsed where
  "reset_IPv6Parsed = \<lparr>hex_components = [], index_of_contraction = -1, ipv4_component = no_component\<rparr>"

text \<open>
  The scan of \<open>DoParseIPv6\<close>.  The loop runs under the commented condition
  \<open>i <= end\<close>, which is the first test here.  A component that ends at \<open>i\<close> is
  recorded by \<open>end_component\<close>.
\<close>

definition end_component :: "int \<Rightarrow> int \<Rightarrow> int \<Rightarrow> bool \<Rightarrow> int \<Rightarrow> IPv6Parsed \<Rightarrow> IPv6Parsed option" where
  "end_component b e i is_contraction cur_component_begin p =
     (let component_len = i - cur_component_begin
      in if component_len > 4 then None
         else if component_len = 0 \<and>
             \<not> (is_contraction \<and> i = b \<or> i = e \<and> index_of_contraction p = num_hex_components p) then None
         else if component_len > 0 then
           (if num_hex_components p \<ge> 8 then None
            else Some (p\<lparr>hex_components := hex_components p @ [Component cur_component_begin component_len]\<rparr>))
         else Some p)"

function ipv6_scan :: "str \<Rightarrow> int \<Rightarrow> int \<Rightarrow> int \<Rightarrow> int \<Rightarrow> IPv6Parsed \<Rightarrow> IPv6Parsed option" where
  "ipv6_scan spec b e i cur_component_begin p0 =
     (if i > e then None
      else let is_colon = (at spec i = CHR '':'');
               is_contraction = (is_colon \<and> i < e - 1 \<and> at spec (i + 1) = CHR '':'')
      in case (if is_colon \<or> i = e then end_component b e i is_contraction cur_component_begin p0
               else Some p0) of
           None \<Rightarrow> None
         | Some p \<Rightarrow>
             if i = e then Some p
             else if is_contraction then
               (if index_of_contraction p \<noteq> -1 then None
                else ipv6_scan spec b e (i + 2) (i + 2) (p\<lparr>index_of_contraction := num_hex_components p\<rparr>))
             else if is_colon then ipv6_scan spec b e (i + 1) (i + 1) p
             else if byte (at spec i) \<ge> 0x80 then None
             else if \<not> IsHexChar (byte (at spec i)) then
               (if IsIPv4Char (byte (at spec i))
                then Some (p\<lparr>ipv4_component := Component cur_component_begin (e - cur_component_begin)\<rparr>)
                else None)
             else ipv6_scan spec b e (i + 1) cur_component_begin p)"
  by pat_completeness auto
termination
  by (relation "measure (\<lambda>(s, b, e, i, c, p). nat (e + 1 - i))") auto

declare ipv6_scan.simps [simp del]

definition DoParseIPv6 :: "str \<Rightarrow> component \<Rightarrow> IPv6Parsed option" where
  "DoParseIPv6 spec host =
     (if \<not> is_nonempty host then None
      else ipv6_scan spec (c_begin host) (c_end host) (c_begin host) (c_begin host) reset_IPv6Parsed)"

text \<open>The number of bytes that the contraction stands for.\<close>

definition CheckIPv6ComponentsSize :: "IPv6Parsed \<Rightarrow> int option" where
  "CheckIPv6ComponentsSize parsed =
     (let without = num_hex_components parsed * 2 + (if is_valid (ipv4_component parsed) then 4 else 0);
          contraction = (if index_of_contraction parsed \<noteq> -1
                         then (if 16 - without < 2 then 2 else 16 - without) else 0)
      in if without + contraction \<noteq> 16 then None else Some contraction)"

definition IPv6HexComponentToNumber :: "str \<Rightarrow> component \<Rightarrow> nat" where
  "IPv6HexComponentToNumber spec c = strtoui64 (component_str spec c) 16 mod 2 ^ 16"

text \<open>The loop over the components, with the contraction in its place.\<close>

fun ipv6_bytes :: "str \<Rightarrow> IPv6Parsed \<Rightarrow> int \<Rightarrow> int \<Rightarrow> component list \<Rightarrow> nat list \<Rightarrow> nat list" where
  "ipv6_bytes spec p n_contraction i cs addr =
     (let addr' = (if i = index_of_contraction p then addr @ replicate (nat n_contraction) 0 else addr)
      in case cs of
           [] \<Rightarrow> addr'
         | c # cs' \<Rightarrow>
             (let number = IPv6HexComponentToNumber spec c
              in ipv6_bytes spec p n_contraction (i + 1) cs'
                   (addr' @ [drop_bit 8 (number AND 0xFF00), number AND 0x00FF])))"

declare ipv6_bytes.simps [simp del]

definition IPv6AddressToNumber :: "str \<Rightarrow> component \<Rightarrow> nat list option" where
  "IPv6AddressToNumber spec host =
     (if \<not> is_nonempty host \<or> at spec (c_begin host) \<noteq> CHR ''['' \<or> at spec (c_end host - 1) \<noteq> CHR '']''
      then None
      else let ipv6_comp = Component (c_begin host + 1) (c_len host - 2)
      in case DoParseIPv6 spec ipv6_comp of
           None \<Rightarrow> None
         | Some parsed \<Rightarrow>
           (case CheckIPv6ComponentsSize parsed of
              None \<Rightarrow> None
            | Some n_contraction \<Rightarrow>
              (let addr = ipv6_bytes spec parsed n_contraction 0 (hex_components parsed) []
               in if is_valid (ipv4_component parsed)
                  then (case IPv4AddressToNumber spec (ipv4_component parsed) of
                          Inr (bytes, ignored) \<Rightarrow> Some (addr @ bytes)
                        | Inl f \<Rightarrow> None)
                  else Some addr)))"

text \<open>The loop of \<open>ChooseIPv6ContractionRange\<close> at the even index \<open>i\<close>.\<close>

function contraction_scan :: "nat list \<Rightarrow> int \<Rightarrow> component \<Rightarrow> component \<Rightarrow> component" where
  "contraction_scan addr i max_range cur_range =
     (if i < 16 then
        (let is_zero = (at addr i = 0 \<and> at addr (i + 1) = 0);
             cur1 = (if is_zero
                     then (let c = (if \<not> is_valid cur_range then Component i 0 else cur_range)
                           in c\<lparr>c_len := c_len c + 2\<rparr>)
                     else cur_range)
         in if \<not> is_zero \<or> i = 14
            then contraction_scan addr (i + 2)
                   (if c_len cur1 > 2 \<and> c_len cur1 > c_len max_range then cur1 else max_range) no_component
            else contraction_scan addr (i + 2) max_range cur1)
      else max_range)"
  by pat_completeness auto
termination
  by (relation "measure (\<lambda>(a, i, m, c). nat (16 - i))") auto

declare contraction_scan.simps [simp del]

definition ChooseIPv6ContractionRange :: "nat list \<Rightarrow> component" where
  "ChooseIPv6ContractionRange addr = contraction_scan addr 0 no_component no_component"

function append_ipv6_from :: "nat list \<Rightarrow> component \<Rightarrow> int \<Rightarrow> str \<Rightarrow> str" where
  "append_ipv6_from addr contraction_range i out =
     (if i \<le> 14 then
        (if i = c_begin contraction_range \<and> c_len contraction_range > 0 then
           append_ipv6_from addr contraction_range (c_end contraction_range)
             (push_back CHR '':'' (if i = 0 then push_back CHR '':'' out else out))
         else let x = push_bit 8 (at addr i) OR at addr (i + 1);
                  out' = out @ itoa_text x 5 16
         in append_ipv6_from addr contraction_range (i + 2)
              (if i + 2 < 16 then push_back CHR '':'' out' else out'))
      else out)"
  by pat_completeness auto
termination
  by (relation "measure (\<lambda>(a, c, i, out). nat (16 - i))") (auto simp: c_end_def)

declare append_ipv6_from.simps [simp del]

definition AppendIPv6Address :: "nat list \<Rightarrow> str \<Rightarrow> str" where
  "AppendIPv6Address addr out = append_ipv6_from addr (ChooseIPv6ContractionRange addr) 0 out"

definition CanonicalizeIPv6Address ::
    "str \<Rightarrow> component \<Rightarrow> str \<Rightarrow> CanonHostInfo \<Rightarrow> bool \<times> str \<times> CanonHostInfo" where
  "CanonicalizeIPv6Address spec host out info =
     (case IPv6AddressToNumber spec host of
        None \<Rightarrow>
          (if list_ex (\<lambda>c. c = CHR ''['' \<or> c = CHR '']'' \<or> c = CHR '':'') (component_str spec host)
           then (True, out, info\<lparr>family := BROKEN\<rparr>)
           else (False, out, info\<lparr>family := NEUTRAL\<rparr>))
      | Some addr \<Rightarrow>
          (let out' = push_back CHR '']'' (AppendIPv6Address addr (push_back CHR ''['' out))
           in (True, out', info\<lparr>family := IPV6, address := addr,
                 out_host := Component (len out) (len out' - len out)\<rparr>)))"

definition CanonicalizeIPAddress :: "str \<Rightarrow> component \<Rightarrow> str \<Rightarrow> CanonHostInfo \<Rightarrow> str \<times> CanonHostInfo" where
  "CanonicalizeIPAddress spec host out info =
     (let (final, out', info') = CanonicalizeIPv4Address spec host out info
      in if final then (out', info')
         else let (final6, out'', info'') = CanonicalizeIPv6Address spec host out' info'
              in (out'', info''))"

end
