(* ===== verification/Url_Ip_Laws.thy ===== *)
theory Url_Ip_Laws
  imports Url_Ip
begin

text \<open>
  What the IP address code guarantees: components of IPv4 addresses are read exactly, with
  the overflow decided by a bounded buffer; the contraction of an IPv6 address is the longest
  and first run of zeros; and both families read back what they print.
\<close>

section \<open>Digits\<close>

lemma digits_value_Cons:
  "digits_value b (d # ds) = HexCharToValue (byte d) * b ^ length ds + digits_value b ds"
proof -
  have "foldl (\<lambda>n c. b * n + HexCharToValue (byte c)) n ds = n * b ^ length ds + digits_value b ds" for n
  proof (induction ds arbitrary: n)
    case (Cons x xs)
    show ?case
      using Cons [of "b * n + HexCharToValue (byte x)"] Cons [of "HexCharToValue (byte x)"]
      by (simp add: digits_value_def algebra_simps)
  qed (simp add: digits_value_def)
  from this [of "HexCharToValue (byte d)"] show ?thesis by (simp add: digits_value_def)
qed

lemma digits_value_Nil [simp]: "digits_value b [] = 0"
  by (simp add: digits_value_def)

lemma digits_value_split:
  "digits_value b (xs @ ys) = digits_value b xs * b ^ length ys + digits_value b ys"
  by (induction xs) (simp_all add: digits_value_Cons algebra_simps power_add)

definition digits_of :: "nat \<Rightarrow> str \<Rightarrow> bool" where
  "digits_of b ds \<longleftrightarrow> list_all (\<lambda>c. HexCharToValue (byte c) < b) ds"

lemma digits_value_less: "digits_of b ds \<Longrightarrow> digits_value b ds < b ^ length ds"
proof (induction ds)
  case (Cons d ds)
  then have "HexCharToValue (byte d) + 1 \<le> b" "digits_value b ds < b ^ length ds"
    by (simp_all add: digits_of_def)
  then have "(HexCharToValue (byte d) + 1) * b ^ length ds \<le> b * b ^ length ds"
    by (intro mult_right_mono) simp_all
  then show ?case using \<open>digits_value b ds < _\<close> by (simp add: digits_value_Cons)
qed simp

lemma digits_value_ge: "HexCharToValue (byte d) > 0 \<Longrightarrow> b ^ length ds \<le> digits_value b (d # ds)"
  by (simp add: digits_value_Cons trans_le_add1)

lemma zero_digit: "HexCharToValue 48 = 0"
  by code_simp

lemma digits_value_zeros: "list_all (\<lambda>c. c = CHR ''0'') zs \<Longrightarrow> digits_value b (zs @ ds) = digits_value b ds"
  by (induction zs) (simp_all add: digits_value_Cons zero_digit)

lemma strtoui64_exact:
  assumes "digits_of b ds" "b \<le> 16" "length ds \<le> 16"
  shows "strtoui64 ds b = digits_value b ds"
proof -
  have "b ^ length ds \<le> 16 ^ length ds" using assms(2) by (rule power_mono) simp
  also have "\<dots> \<le> 16 ^ 16" using assms(3) by (intro power_increasing) simp_all
  finally have "digits_value b ds < 16 ^ 16" using digits_value_less [OF assms(1)] by linarith
  then show ?thesis by (simp add: strtoui64_def)
qed

abbreviation number_class :: "SharedCharTypes \<Rightarrow> bool" where
  "number_class base \<equiv> base = CHAR_DEC \<or> base = CHAR_OCT \<or> base = CHAR_HEX"

lemma class_digit:
  assumes "number_class base" "IsCharOfType (byte c) base"
  shows "HexCharToValue (byte c) < BaseForType base"
    and "HexCharToValue (byte c) = 0 \<longleftrightarrow> c = CHR ''0''"
proof -
  have c: "byte c < 256" by simp
  have z: "c = CHR ''0'' \<longleftrightarrow> byte c = 48" by (simp add: char_eq_byte del: of_char_eq_iff)
  consider "48 \<le> byte c" "byte c < 58" "base = CHAR_OCT \<longrightarrow> byte c < 56"
    | "base = CHAR_HEX" "65 \<le> byte c" "byte c < 71" | "base = CHAR_HEX" "97 \<le> byte c" "byte c < 103"
    using assms is_dec [OF c] is_oct [OF c] is_hex [OF c] by (force simp: IsHexChar_def)
  then have "HexCharToValue (byte c) < BaseForType base \<and> (HexCharToValue (byte c) = 0 \<longleftrightarrow> byte c = 48)"
    using assms(1) by cases (auto simp: hex_value_dec hex_value_upper hex_value_lower)
  then show "HexCharToValue (byte c) < BaseForType base" "HexCharToValue (byte c) = 0 \<longleftrightarrow> c = CHR ''0''"
    by (simp_all add: z)
qed

lemma class_digits:
  "number_class base \<Longrightarrow> list_all (\<lambda>c. IsCharOfType (byte c) base) ds \<Longrightarrow> digits_of (BaseForType base) ds"
  using class_digit(1) by (auto simp: list_all_iff digits_of_def)

lemma zero_in_class: "number_class base \<Longrightarrow> IsCharOfType (byte CHR ''0'') base"
  by (elim disjE; hypsubst; code_simp)

text \<open>The buffer of sixteen digits decides the 32-bit overflow for inputs of any length.\<close>

lemma long_number:
  assumes "number_class base" "list_all (\<lambda>c. IsCharOfType (byte c) base) ds" "16 < length ds"
    "hd ds \<noteq> CHR ''0''"
  shows "2 ^ 32 \<le> digits_value (BaseForType base) (take 16 ds)"
    "2 ^ 32 \<le> digits_value (BaseForType base) ds"
proof -
  let ?b = "BaseForType base"
  obtain d t where d: "take 16 ds = d # t" "length t = 15"
  proof -
    have "length (take 16 ds) = 16" using assms(3) by simp
    then show ?thesis using that by (cases "take 16 ds") auto
  qed
  then have "hd ds = d" using assms(3) by (metis hd_take list.sel(1) zero_less_numeral)
  then have "HexCharToValue (byte d) > 0"
    using assms class_digit(2) [OF assms(1), of d] by (cases ds) auto
  then have "?b ^ 15 \<le> digits_value ?b (take 16 ds)" using digits_value_ge [of d ?b t] d by simp
  moreover have "(8::nat) ^ 15 \<le> ?b ^ 15" using assms(1) by (intro power_mono) auto
  ultimately show a: "2 ^ 32 \<le> digits_value ?b (take 16 ds)" by simp
  have "digits_value ?b ds = digits_value ?b (take 16 ds @ drop 16 ds)" by simp
  also have "\<dots> \<ge> digits_value ?b (take 16 ds) * 1"
    unfolding digits_value_split using assms(1) by (intro trans_le_add1 mult_left_mono) auto
  finally show "2 ^ 32 \<le> digits_value ?b ds" using a by linarith
qed

section \<open>IPv4 components\<close>

lemma ipv4_base_class:
  "ipv4_base spec c = (base, n) \<Longrightarrow> is_nonempty c \<Longrightarrow> number_class base \<and> 0 \<le> n \<and> n \<le> c_len c"
  by (auto simp: ipv4_base_def is_nonempty_def split: if_splits)

lemma component_number:
  assumes "within 0 (len spec) c" "is_nonempty c" "ipv4_base spec c = (base, n)"
  shows "IPv4ComponentToNumber spec c =
    (let ds = seg spec (c_begin c + n) (c_end c); v = digits_value (BaseForType base) ds
     in if \<not> list_all (\<lambda>x. IsCharOfType (byte x) base) ds then Inl NEUTRAL
        else if v < 2 ^ 32 then Inr v else Inl BROKEN)"
proof -
  let ?b = "BaseForType base"
  define j where "j = scan_fwd (\<lambda>c. c = CHR ''0'') spec (c_begin c + n) (c_end c)"
  define digits where "digits = seg spec j (c_end c)"
  define zs where "zs = seg spec (c_begin c + n) j"
  have n: "number_class base" "0 \<le> n" "n \<le> c_len c"
    using ipv4_base_class [OF assms(3,2)] by auto
  have c: "0 \<le> c_begin c" "c_end c \<le> len spec" "c_begin c + n \<le> c_end c"
    using assms(1,2) n(3) by (auto simp: within_def is_valid_def is_nonempty_def c_end_def)
  have j: "c_begin c + n \<le> j" "j \<le> c_end c"
    unfolding j_def using c by (simp_all add: scan_fwd_ge scan_fwd_le)
  have split: "seg spec (c_begin c + n) (c_end c) = zs @ digits"
    unfolding zs_def digits_def using c n j by (intro seg_split) auto
  have zs: "list_all (\<lambda>c. c = CHR ''0'') zs"
    unfolding zs_def j_def list_all_iff using c n scan_fwd_seg [of "c_begin c + n" "c_end c" spec] by auto
  then have zsok: "list_all (\<lambda>x. IsCharOfType (byte x) base) zs"
    by (rule list.pred_mono_strong) (use zero_in_class [OF n(1)] in simp)
  have lhs: "IPv4ComponentToNumber spec c =
    (if \<not> list_all (\<lambda>x. IsCharOfType (byte x) base) digits then Inl NEUTRAL
     else if strtoui64 (take 16 digits) ?b > 2 ^ 32 - 1 then Inl BROKEN
     else Inr (strtoui64 (take 16 digits) ?b))"
    unfolding IPv4ComponentToNumber_def assms(3) digits_def j_def kMaxComponentLen_def Let_def prod.case
    by (rule refl)
  show ?thesis
  proof (cases "list_all (\<lambda>x. IsCharOfType (byte x) base) digits")
    case False
    then show ?thesis by (simp add: lhs split)
  next
    case True
    then have td: "digits_of ?b (take 16 digits)"
      using class_digits [OF n(1)] by (auto simp: list_all_iff dest: in_set_takeD)
    have b: "?b \<le> 16" using n(1) by auto
    have s: "strtoui64 (take 16 digits) ?b = digits_value ?b (take 16 digits)"
      by (rule strtoui64_exact [OF td b]) simp
    have v: "digits_value ?b (seg spec (c_begin c + n) (c_end c)) = digits_value ?b digits"
      by (simp add: split digits_value_zeros [OF zs])
    have all: "list_all (\<lambda>x. IsCharOfType (byte x) base) (seg spec (c_begin c + n) (c_end c))"
      using True zsok by (simp add: split)
    show ?thesis
    proof (cases "length digits \<le> 16")
      case le: True
      then have "strtoui64 digits ?b = digits_value ?b digits" using s by simp
      then show ?thesis using True all le by (auto simp: lhs v Let_def not_less)
    next
      case False
      have "j < c_end c"
      proof (rule ccontr)
        assume "\<not> j < c_end c"
        then have "digits = []" by (simp add: digits_def)
        then show False using False by simp
      qed
      then have "hd digits = at spec j" "at spec j \<noteq> CHR ''0''"
        using seg_Cons [of j "c_end c" spec] j c n scan_fwd_stop [of "\<lambda>c. c = CHR ''0''" spec "c_begin c + n" "c_end c"]
        by (auto simp: digits_def j_def)
      then have "2 ^ 32 \<le> digits_value ?b (take 16 digits)" "2 ^ 32 \<le> digits_value ?b digits"
        using long_number [OF n(1) True] False by auto
      then show ?thesis using True all by (simp add: lhs s v Let_def)
    qed
  qed
qed

text \<open>
  C34. A component of an IPv4 address is read exactly.  With the base chosen by its \<open>0x\<close> or
  \<open>0\<close> prefix, it is no number if some character is not a digit of this base; otherwise
  the result is the value of all its digits, or \<open>BROKEN\<close> when this value needs more than
  32 bits, although only sixteen digits are ever converted.
\<close>

theorem component_number_exact:
  assumes "within 0 (len spec) c" "is_nonempty c" "ipv4_base spec c = (base, n)"
  shows "IPv4ComponentToNumber spec c =
    (let ds = seg spec (c_begin c + n) (c_end c); v = digits_value (BaseForType base) ds
     in if \<not> list_all (\<lambda>x. IsCharOfType (byte x) base) ds then Inl NEUTRAL
        else if v < 2 ^ 32 then Inr v else Inl BROKEN)"
  using assms by (rule component_number)

theorem component_number_exact_witness:
  "IPv4ComponentToNumber ''a.0x00F'' (Component 2 5) = Inr 15"
proof -
  have b: "ipv4_base ''a.0x00F'' (Component 2 5) = (CHAR_HEX, 2)" by code_simp
  have "seg ''a.0x00F'' 4 7 = ''00F''" by code_simp
  moreover have "list_all (\<lambda>x. IsCharOfType (byte x) CHAR_HEX) ''00F''" "digits_value 16 ''00F'' = 15"
    by code_simp+
  ultimately show ?thesis
    using component_number_exact [OF _ _ b] by simp
qed

section \<open>The contraction of an IPv6 address\<close>

definition zero_group :: "nat list \<Rightarrow> int \<Rightarrow> bool" where
  "zero_group addr k \<longleftrightarrow> at addr k = 0 \<and> at addr (k + 1) = 0"

definition zeros :: "nat list \<Rightarrow> int \<Rightarrow> int \<Rightarrow> bool" where
  "zeros addr b e \<longleftrightarrow> (\<forall>k. b \<le> k \<and> k < e \<and> even k \<longrightarrow> zero_group addr k)"

definition zero_run :: "nat list \<Rightarrow> component \<Rightarrow> bool" where
  "zero_run addr r \<longleftrightarrow> even (c_begin r) \<and> even (c_len r) \<and> 2 < c_len r \<and> 0 \<le> c_begin r \<and>
     c_end r \<le> 16 \<and> zeros addr (c_begin r) (c_end r)"

definition preferred :: "component \<Rightarrow> component \<Rightarrow> bool" where
  "preferred m r \<longleftrightarrow> c_len r < c_len m \<or> c_len r = c_len m \<and> c_begin m \<le> c_begin r"

text \<open>What the loop knows before index \<open>i\<close>: the run that reaches \<open>i\<close> and the best one before it.\<close>

definition cur_ok :: "nat list \<Rightarrow> int \<Rightarrow> component \<Rightarrow> bool" where
  "cur_ok addr i cur \<longleftrightarrow>
     (cur = no_component \<and> (i = 0 \<or> \<not> zero_group addr (i - 2))) \<or>
     (even (c_begin cur) \<and> 0 \<le> c_begin cur \<and> c_end cur = i \<and> 2 \<le> c_len cur \<and>
      zeros addr (c_begin cur) i \<and> (c_begin cur = 0 \<or> \<not> zero_group addr (c_begin cur - 2)))"

definition cur_begin :: "int \<Rightarrow> component \<Rightarrow> int" where
  "cur_begin i cur = (if is_valid cur then c_begin cur else i)"

definition max_ok :: "nat list \<Rightarrow> int \<Rightarrow> component \<Rightarrow> bool" where
  "max_ok addr i m \<longleftrightarrow>
     (m = no_component \<or> zero_run addr m \<and> c_end m \<le> i) \<and>
     (\<forall>r. zero_run addr r \<longrightarrow> c_begin r < i \<longrightarrow> preferred m r)"

lemma zeros_snoc:
  assumes "even i" "zeros addr b i" "zero_group addr i"
  shows "zeros addr b (i + 2)"
  unfolding zeros_def
proof clarify
  fix k assume "b \<le> k" "k < i + 2" "even k"
  then have "k < i \<or> k = i" using assms(1) by presburger
  then show "zero_group addr k"
    using assms(2,3) \<open>b \<le> k\<close> \<open>even k\<close> by (auto simp: zeros_def)
qed

lemma zero_runD:
  assumes "zero_run addr r"
  shows "even (c_begin r)" "even (c_len r)" "2 < c_len r" "0 \<le> c_begin r" "c_end r \<le> 16"
    "zeros addr (c_begin r) (c_end r)" "c_end r = c_begin r + c_len r"
  using assms by (auto simp: zero_run_def c_end_def)

lemma run_at_most:
  "zero_run addr r \<Longrightarrow> \<not> zero_group addr k \<Longrightarrow> even k \<Longrightarrow> c_begin r \<le> k \<Longrightarrow> c_end r \<le> k"
  by (force simp: zero_run_def zeros_def)

lemma cur_okD:
  assumes "cur_ok addr i cur" "is_valid cur"
  shows "even (c_begin cur)" "0 \<le> c_begin cur" "c_end cur = i" "2 \<le> c_len cur" "zeros addr (c_begin cur) i"
    "c_begin cur + c_len cur = i"
  using assms by (auto simp: cur_ok_def c_end_def)

lemma cur_ok_run: "cur_ok addr i cur \<Longrightarrow> c_len cur > 2 \<Longrightarrow> i \<le> 16 \<Longrightarrow> even i \<Longrightarrow> zero_run addr cur"
  by (auto simp: cur_ok_def zero_run_def c_end_def)

text \<open>Extending the current run by a zero group.\<close>

definition extend_run :: "int \<Rightarrow> component \<Rightarrow> component" where
  "extend_run i cur =
     (let c = (if \<not> is_valid cur then Component i 0 else cur) in c\<lparr>c_len := c_len c + 2\<rparr>)"

lemma extend_run:
  assumes "cur_ok addr i cur" "zero_group addr i" "even i" "0 \<le> i"
  shows "cur_ok addr (i + 2) (extend_run i cur)" "is_valid (extend_run i cur)"
    "c_begin (extend_run i cur) = cur_begin i cur"
proof -
  have "cur_ok addr (i + 2) (extend_run i cur) \<and> is_valid (extend_run i cur) \<and>
    c_begin (extend_run i cur) = cur_begin i cur"
  proof (cases "is_valid cur")
    case True
    then have e: "extend_run i cur = cur\<lparr>c_len := c_len cur + 2\<rparr>" by (simp add: extend_run_def)
    have "c_begin cur = 0 \<or> \<not> zero_group addr (c_begin cur - 2)"
      using assms(1) True by (auto simp: cur_ok_def)
    then show ?thesis
      using True cur_okD [OF assms(1) True] zeros_snoc [OF assms(3) _ assms(2)]
      by (simp add: e cur_ok_def cur_begin_def c_end_def is_valid_def)
  next
    case False
    then have e: "extend_run i cur = Component i 2" by (simp add: extend_run_def Component_def)
    have "i = 0 \<or> \<not> zero_group addr (i - 2)" using assms(1) False cur_okD(4)
      by (auto simp: cur_ok_def is_valid_def)
    moreover have "zeros addr i i" by (auto simp: zeros_def)
    then have "zeros addr i (i + 2)" using zeros_snoc [OF assms(3) _ assms(2)] by blast
    ultimately show ?thesis using False assms(3,4) by (simp add: e cur_ok_def cur_begin_def)
  qed
  then show "cur_ok addr (i + 2) (extend_run i cur)" "is_valid (extend_run i cur)"
    "c_begin (extend_run i cur) = cur_begin i cur" by blast+
qed

text \<open>Closing a run: the new maximum is right for everything that starts before the next group.\<close>

lemma close_run:
  assumes "cur_ok addr j cur" "max_ok addr (cur_begin i cur) m" "even i" "i \<le> 14"
    "j = i \<and> \<not> zero_group addr i \<or> j = 16 \<and> i = 14 \<and> is_valid cur"
  shows "max_ok addr (i + 2) (if c_len cur > 2 \<and> c_len cur > c_len m then cur else m)"
proof -
  let ?b = "cur_begin i cur"
  let ?m = "if c_len cur > 2 \<and> c_len cur > c_len m then cur else m"
  have j: "even j" "j \<le> 16" "j \<le> i + 2" using assms(3-5) by auto
  have b: "?b \<le> i + 2" "?b \<le> j"
    using cur_okD [OF assms(1)] j assms(4,5) by (auto simp: cur_begin_def)
  have m: "m = no_component \<or> zero_run addr m \<and> c_end m \<le> ?b"
    "\<And>r. zero_run addr r \<Longrightarrow> c_begin r < ?b \<Longrightarrow> preferred m r"
    using assms(2) by (auto simp: max_ok_def)
  have "?m = no_component \<or> zero_run addr ?m \<and> c_end ?m \<le> i + 2"
  proof (cases "c_len cur > 2 \<and> c_len cur > c_len m")
    case True
    then have "is_valid cur" by (simp add: is_valid_def)
    then show ?thesis
      using True cur_ok_run [OF assms(1) _ j(2,1)] cur_okD(3) [OF assms(1)] j by simp
  qed (use m(1) b in auto)
  moreover have "preferred ?m r" if r: "zero_run addr r" "c_begin r < i + 2" for r
  proof (cases "c_begin r < ?b")
    case True
    then show ?thesis using m(2) [OF r(1)] by (auto simp: preferred_def)
  next
    case False
    note rd = zero_runD [OF r(1)]
    have bi: "c_begin r \<le> i" using rd(1) r(2) assms(3) by presburger
    have e: "c_end r \<le> j"
      using assms(5) run_at_most [OF r(1) _ assms(3) bi] rd(5) by blast
    have v: "is_valid cur"
    proof (rule ccontr)
      assume nv: "\<not> is_valid cur"
      then have "j = i" "?b = i" using assms(5) by (simp_all add: cur_begin_def)
      then show False using False e rd(3,7) by simp
    qed
    then have "?b = c_begin cur" by (simp add: cur_begin_def)
    then have l: "c_len r \<le> c_len cur" "c_len r = c_len cur \<longrightarrow> c_begin r = c_begin cur" "c_begin cur \<le> c_begin r"
      using e False rd(7) cur_okD(6) [OF assms(1) v] by linarith+
    show ?thesis
    proof (cases "c_len cur > c_len m")
      case True
      then show ?thesis using l rd(3) by (auto simp: preferred_def)
    next
      case nm: False
      then have "m \<noteq> no_component" using l rd(3) by (auto simp: no_component_def Component_def)
      then have "zero_run addr m" "c_end m \<le> ?b" using m(1) by blast+
      then have "c_begin m \<le> c_begin r"
        using zero_runD(3,7) [of addr m] False by linarith
      then show ?thesis using nm l by (auto simp: preferred_def)
    qed
  qed
  ultimately show ?thesis by (auto simp: max_ok_def)
qed

lemma contraction_scan_best:
  assumes "even i" "0 \<le> i" "i \<le> 16" "cur_ok addr i cur" "max_ok addr (cur_begin i cur) m"
    "i = 16 \<longrightarrow> cur = no_component"
  shows "max_ok addr 16 (contraction_scan addr i m cur)"
  using assms
proof (induction "nat (16 - i)" arbitrary: i m cur rule: less_induct)
  case less
  show ?case
  proof (cases "i < 16")
    case False
    then have "i = 16" using less.prems by simp
    then show ?thesis using less.prems
      by (simp add: contraction_scan.simps [of addr 16] cur_begin_def)
  next
    case True
    then have i14: "i \<le> 14" "even (i + 2)" "0 \<le> i + 2" "i + 2 \<le> 16" using less.prems(1,2) by presburger+
    define z where "z = (at addr i = 0 \<and> at addr (i + 1) = 0)"
    define cur1 where "cur1 = (if z then extend_run i cur else cur)"
    define m1 where "m1 = (if c_len cur1 > 2 \<and> c_len cur1 > c_len m then cur1 else m)"
    have zg: "zero_group addr i = z" by (simp add: z_def zero_group_def)
    have step: "contraction_scan addr i m cur =
      (if \<not> z \<or> i = 14 then contraction_scan addr (i + 2) m1 no_component
       else contraction_scan addr (i + 2) m cur1)"
      unfolding m1_def cur1_def extend_run_def z_def
      by (subst contraction_scan.simps) (simp only: True if_True Let_def)
    note ext = extend_run [OF less.prems(4) _ less.prems(1,2)]
    note IH = less.hyps [OF _ i14(2-4)]
    show ?thesis
    proof (cases "\<not> z \<or> i = 14")
      case stop: True
      have "max_ok addr (i + 2) m1"
        unfolding m1_def
      proof (rule close_run)
        show "cur_ok addr (if z then i + 2 else i) cur1" using ext(1) zg less.prems(4) by (simp add: cur1_def)
        show "max_ok addr (cur_begin i cur1) m"
          using less.prems(5) ext(2,3) zg by (simp add: cur1_def cur_begin_def split: if_splits)
        show "(if z then i + 2 else i) = i \<and> \<not> zero_group addr i \<or> (if z then i + 2 else i) = 16 \<and> i = 14 \<and> is_valid cur1"
          using stop zg ext(2) by (simp add: cur1_def)
      qed (use less.prems(1) i14 in auto)
      then show ?thesis
      proof (cases "i = 14")
        case True
        then show ?thesis using step \<open>max_ok addr (i + 2) m1\<close> by (simp add: contraction_scan.simps [of addr 16])
      next
        case False
        have "max_ok addr 16 (contraction_scan addr (i + 2) m1 no_component)"
          by (rule IH) (use stop False zg True \<open>max_ok addr (i + 2) m1\<close> in \<open>auto simp: cur_ok_def cur_begin_def\<close>)
        then show ?thesis using step stop by simp
      qed
    next
      case go: False
      have "max_ok addr 16 (contraction_scan addr (i + 2) m cur1)"
        by (rule IH) (use go zg ext True less.prems(5) i14 in \<open>auto simp: cur1_def cur_begin_def\<close>)
      then show ?thesis using step go by simp
    qed
  qed
qed

definition longest_zero_run :: "nat list \<Rightarrow> component \<Rightarrow> bool" where
  "longest_zero_run addr m \<longleftrightarrow>
     (m = no_component \<or> zero_run addr m) \<and> (\<forall>r. zero_run addr r \<longrightarrow> preferred m r)"

lemma contraction_best:
  "longest_zero_run addr (ChooseIPv6ContractionRange addr)"
proof -
  have "max_ok addr (cur_begin 0 no_component) no_component"
    by (auto simp: max_ok_def cur_begin_def zero_run_def)
  then have "max_ok addr 16 (ChooseIPv6ContractionRange addr)"
    unfolding ChooseIPv6ContractionRange_def
    by (intro contraction_scan_best) (simp_all add: cur_ok_def)
  then show ?thesis by (force simp: max_ok_def longest_zero_run_def zero_run_def c_end_def)
qed

text \<open>
  C32. \<open>ChooseIPv6ContractionRange\<close> picks the longest run of at least two zero groups, that is
  of 32 bits, and the first one among those of the same length; it picks none exactly when
  there is no such run.  (The comment of the function speaks of at least 16 bits.)
\<close>

theorem contraction_is_longest_first:
  "longest_zero_run addr (ChooseIPv6ContractionRange addr)"
  by (rule contraction_best)

section \<open>IPv4 addresses\<close>

lemma print_nat_dec: "c \<in> set (print_nat 10 n) \<Longrightarrow> 48 \<le> byte c \<and> byte c \<le> 57"
proof -
  assume "c \<in> set (print_nat 10 n)"
  then obtain d where "d < 10" "c = digit_char d" using print_nat_digits [of 10 c n] by auto
  moreover have "list_all (\<lambda>d. 48 \<le> byte (digit_char d) \<and> byte (digit_char d) \<le> 57) [0..<10]"
    by code_simp
  ultimately show ?thesis by (simp add: list_all_iff)
qed

lemma print_nat_hex: "c \<in> set (print_nat 16 n) \<Longrightarrow> IsHexChar (byte c) \<and> byte c < 128 \<and> c \<noteq> CHR '':''"
proof -
  assume "c \<in> set (print_nat 16 n)"
  then obtain d where "d < 16" "c = digit_char d" using print_nat_digits [of 16 c n] by auto
  moreover have "list_all (\<lambda>d. IsHexChar (byte (digit_char d)) \<and> byte (digit_char d) < 128 \<and> digit_char d \<noteq> CHR '':'') [0..<16]"
    by code_simp
  ultimately show ?thesis by (simp add: list_all_iff)
qed

lemma itoa_text_dec: "n < 10 ^ k \<Longrightarrow> 0 < k \<Longrightarrow> k < sz \<Longrightarrow> itoa_text n sz 10 = print_nat 10 n"
  using length_print_nat [of 10 n k] by (simp add: itoa_text_def itoa_s_def snprintf_d_def)

lemma itoa_text_hex:
  "n < 16 ^ k \<Longrightarrow> 0 < k \<Longrightarrow> k < sz \<Longrightarrow> n < 2 ^ 32 \<Longrightarrow> itoa_text n sz 16 = print_nat 16 n"
  using length_print_nat [of 16 n k]
  by (simp add: itoa_text_def itoa_s_def snprintf_x_def nat_mod_distrib)

lemma hd_print_dec: "0 < n \<Longrightarrow> hd (print_nat 10 n) \<noteq> CHR ''0''"
proof -
  assume "0 < n"
  then obtain d where "d < 10" "0 < d" "hd (print_nat 10 n) = digit_char d"
    using hd_print_nat [of 10 n] by auto
  moreover have "list_all (\<lambda>d. digit_char d \<noteq> CHR ''0'') [1..<10]" by code_simp
  ultimately show ?thesis by (simp add: list_all_iff)
qed

text \<open>A component that spells a number in decimal is read as this number.\<close>

lemma decimal_component:
  assumes "within 0 (len spec) c" "is_nonempty c" "component_str spec c = print_nat 10 n" "n < 2 ^ 32"
  shows "IPv4ComponentToNumber spec c = Inr n"
proof -
  have c: "0 \<le> c_begin c" "c_begin c < c_end c" "c_end c \<le> len spec" "c_end c = c_begin c + c_len c"
    using assms(1,2) by (auto simp: within_def is_valid_def is_nonempty_def c_end_def)
  have "seg spec (c_begin c) (c_end c) = at spec (c_begin c) # seg spec (c_begin c + 1) (c_end c)"
    using c by (intro seg_Cons) auto
  then have hd: "at spec (c_begin c) = hd (print_nat 10 n)"
    using assms(3) unfolding component_str_def by (metis list.sel(1))
  have l: "c_len c = len (print_nat 10 n)"
    using assms(3) c length_seg [of "c_begin c" "c_end c" spec] by (simp add: component_str_def)
  have base: "ipv4_base spec c = (CHAR_DEC, 0)"
  proof (cases "n = 0")
    case True
    then have "c_len c = 1" using l by (simp add: print_nat.simps)
    then show ?thesis by (simp add: ipv4_base_def)
  next
    case False
    then show ?thesis using hd hd_print_dec [of n] by (simp add: ipv4_base_def)
  qed
  have "list_all (\<lambda>x. IsCharOfType (byte x) CHAR_DEC) (print_nat 10 n)"
    using print_nat_dec is_dec by (auto simp: list_all_iff)
  then show ?thesis
    using component_number [OF assms(1,2) base] assms(3,4)
    by (simp add: component_str_def digits_value_print Let_def)
qed

lemma ipv4_scan_run:
  assumes "0 \<le> i" "i \<le> j" "j \<le> e" "e \<le> len spec"
    "\<And>k. i \<le> k \<Longrightarrow> k < j \<Longrightarrow> at spec k \<noteq> CHR ''.'' \<and> byte (at spec k) < 128 \<and> IsIPv4Char (byte (at spec k))"
  shows "ipv4_scan spec e i cb comps = ipv4_scan spec e j cb comps"
  using assms(1,2,5)
proof (induction i rule: upto_induct [where e = j])
  case (step i)
  then have "at spec i \<noteq> CHR ''.'' \<and> byte (at spec i) < 128 \<and> IsIPv4Char (byte (at spec i))"
    by simp
  then have "ipv4_scan spec e i cb comps = ipv4_scan spec e (i + 1) cb comps"
    using assms(3) step.hyps by (auto simp: ipv4_scan.simps [of spec e i])
  then show ?case using step by simp
qed simp

lemma ipv4_text_writer: "append_ipv4_from as out = out @ append_ipv4_from as []"
proof (induction as arbitrary: out)
  case (Cons a as)
  show ?case
    by (simp add: push_back_def Let_def) (metis Cons append.assoc)
qed simp

interpretation ipv4_text: writer "AppendIPv4Address addr" for addr
  by unfold_locales (simp only: AppendIPv4Address_def, rule ipv4_text_writer)

definition spells :: "str \<Rightarrow> nat \<Rightarrow> component \<Rightarrow> bool" where
  "spells t a c \<longleftrightarrow> within 0 (len t) c \<and> is_nonempty c \<and> component_str t c = print_nat 10 a"

text \<open>One number of the text: the scan runs over it and stores its range.\<close>

lemma ipv4_scan_number:
  assumes "spec = pre @ print_nat 10 a @ rest"
  defines "b \<equiv> len pre" and "j \<equiv> len pre + len (print_nat 10 a)"
  shows "ipv4_scan spec (len spec) b b comps = ipv4_scan spec (len spec) j b comps"
    and "spells spec a (Component b (j - b))" "b < j" "j \<le> len spec"
proof -
  show bj: "b < j" "j \<le> len spec" using assms print_nat_nonempty [of 10 a] by simp_all
  have s: "seg spec b j = print_nat 10 a"
    by (simp add: assms index_simps)
  then show "spells spec a (Component b (j - b))"
    using bj by (simp add: spells_def b_def)
  have "at spec k \<noteq> CHR ''.'' \<and> byte (at spec k) < 128 \<and> IsIPv4Char (byte (at spec k))"
    if "b \<le> k" "k < j" for k
  proof -
    have "at spec k \<in> set (print_nat 10 a)"
      using set_segI [of b k j spec] that bj s by (simp add: b_def)
    then show ?thesis
      using print_nat_dec [of "at spec k" a] is_ipv4 [of "byte (at spec k)"] by auto
  qed
  then show "ipv4_scan spec (len spec) b b comps = ipv4_scan spec (len spec) j b comps"
    using bj by (intro ipv4_scan_run) (auto simp: b_def)
qed

lemma ipv4_scan_text:
  assumes "as \<noteq> []" "length comps + length as = 4" "list_all (\<lambda>a. a < 256) as"
  shows "\<exists>cs. ipv4_scan (append_ipv4_from as out) (len (append_ipv4_from as out)) (len out) (len out) comps
      = Some (comps @ cs) \<and> list_all2 (spells (append_ipv4_from as out)) as cs"
  using assms
proof (induction as arbitrary: out comps)
  case (Cons a as)
  define t where "t = append_ipv4_from (a # as) out"
  have it: "itoa_text a 16 10 = print_nat 10 a" using Cons.prems by (intro itoa_text_dec [of _ 3]) auto
  show ?case
  proof (cases "as = []")
    case True
    then have t: "t = out @ print_nat 10 a @ []" by (simp add: t_def it)
    note n = ipv4_scan_number [OF t]
    show ?thesis
      using n True Cons.prems(2) t unfolding t_def [symmetric]
      by (intro exI [of _ "[Component (len out) (len (print_nat 10 a))]"])
        (simp add: ipv4_scan.simps [of _ _ "len out + len (print_nat 10 a)"] print_nat_nonempty Let_def)
  next
    case False
    let ?out = "out @ print_nat 10 a @ ''.''"
    have t: "t = append_ipv4_from as ?out"
      using False by (simp add: t_def it push_back_def)
    then have t2: "t = out @ print_nat 10 a @ (''.'' @ append_ipv4_from as [])"
      using ipv4_text_writer [of as ?out] by simp
    note n = ipv4_scan_number [OF t2]
    let ?j = "len out + len (print_nat 10 a)" and ?c = "Component (len out) (len (print_nat 10 a))"
    have dot: "at t ?j = CHR ''.''"
      unfolding t2 by (simp add: at_def nth_append nat_add_distrib)
    have jl: "?j < len t" unfolding t2 by simp
    have "length comps < 3" using Cons.prems(2) False by (cases as) auto
    then have step: "ipv4_scan t (len t) (len out) (len out) comps
        = ipv4_scan t (len t) (len ?out) (len ?out) (comps @ [?c])"
      using n(1,3) dot jl
      by (simp add: ipv4_scan.simps [of t "len t" ?j] print_nat_nonempty Let_def ac_simps)
    obtain cs where "ipv4_scan t (len t) (len ?out) (len ?out) (comps @ [?c]) = Some ((comps @ [?c]) @ cs)"
      "list_all2 (spells t) as cs"
      using Cons.IH [of "comps @ [?c]" ?out] False Cons.prems t by auto
    then show ?thesis
      using step n(2) unfolding t_def [symmetric] by (intro exI [of _ "?c # cs"]) simp
  qed
qed simp

lemma ipv4_values_spell:
  "list_all2 (spells t) as cs \<Longrightarrow> list_all (\<lambda>a. a < 2 ^ 32) as \<Longrightarrow>
   ipv4_values t cs broken vals = Inr (broken, vals @ as)"
proof (induction as cs arbitrary: vals rule: list_all2_induct)
  case (Cons a as c cs)
  have "IPv4ComponentToNumber t c = Inr a"
    using Cons by (intro decimal_component) (auto simp: spells_def)
  moreover have "0 < c_len c" using Cons by (simp add: spells_def is_nonempty_def)
  ultimately show ?case using Cons by simp
qed simp

lemma ipv4_reads_back:
  assumes "length addr = 4" "list_all (\<lambda>a. a < 256) addr"
  shows "IPv4AddressToNumber (AppendIPv4Address addr out)
    (MakeRange (len out) (len (AppendIPv4Address addr out))) = Inr (addr, 4)"
proof -
  let ?t = "AppendIPv4Address addr out"
  have t: "?t = append_ipv4_from addr out" using assms(1) by (simp add: AppendIPv4Address_def)
  obtain cs where cs: "ipv4_scan ?t (len ?t) (len out) (len out) [] = Some cs" "list_all2 (spells ?t) addr cs"
    using ipv4_scan_text [of addr "[]" out] assms unfolding t by fastforce
  then have l: "length cs = 4" using assms(1) list_all2_lengthD by fastforce
  have "len out < len ?t"
  proof (rule ccontr)
    assume "\<not> len out < len ?t"
    then show False using cs(1) ipv4_text.len_grows [where out = out and addr = addr]
      by (simp add: ipv4_scan.simps [of ?t "len ?t"])
  qed
  then have f: "FindIPv4Components ?t (MakeRange (len out) (len ?t)) = Some cs"
    using cs(1) l by (simp add: FindIPv4Components_def MakeRange_def c_end_def)
  have "list_all (\<lambda>a. a < 2 ^ 32) addr"
    by (rule list.pred_mono_strong [OF assms(2)]) simp
  then have v: "ipv4_values ?t cs False [] = Inr (False, addr)"
    using ipv4_values_spell [OF cs(2), of False "[]"] by simp
  obtain xs x where x: "addr = xs @ [x]" "length xs = 3" using assms(1) by (cases addr rule: rev_cases) auto
  have "list_all (\<lambda>v. v \<le> 255) xs" "x < 256"
    using assms(2) x(1) by (auto simp: list_all_iff)
  moreover have "butlast addr = xs" "last addr = x" using x(1) by simp_all
  moreover have "fill_bytes (5 - length addr) x [] = ([x], 0)"
    using assms(1) \<open>x < 256\<close> by (simp add: drop_bit_eq_div)
  ultimately show ?thesis
    unfolding IPv4AddressToNumber_def f v option.case sum.case prod.case
    using x(1) assms(1) by simp
qed

text \<open>
  The IPv4 reader inverts the IPv4 writer: the dotted decimal text of any four bytes,
  appended to any output, is recognised as an IPv4 address of four components with these bytes.
\<close>

theorem ipv4_round_trip:
  assumes "length addr = 4" "list_all (\<lambda>a. a < 256) addr"
  shows "IPv4AddressToNumber (AppendIPv4Address addr out)
    (MakeRange (len out) (len (AppendIPv4Address addr out))) = Inr (addr, 4)"
  using assms by (rule ipv4_reads_back)

theorem ipv4_round_trip_witness:
  "IPv4AddressToNumber (AppendIPv4Address [192, 168, 0, 1] ''http://'')
    (MakeRange 7 (len (AppendIPv4Address [192, 168, 0, 1] ''http://''))) = Inr ([192, 168, 0, 1], 4)"
  using ipv4_round_trip [of "[192, 168, 0, 1]" "''http://''"] by simp

section \<open>The reader of addresses\<close>

text \<open>
  What a text means as an IPv4 address, without positions: its parts between the dots, where
  the last one may be left empty, the number of each part by its prefix, and the bytes.
\<close>

fun dotted_parts :: "str \<Rightarrow> str list" where
  "dotted_parts [] = [[]]"
| "dotted_parts (c # s) = (if c = CHR ''.'' then [] # dotted_parts s else (c # hd (dotted_parts s)) # tl (dotted_parts s))"

definition without_last_empty :: "str list \<Rightarrow> str list" where
  "without_last_empty parts = (if last parts = [] then butlast parts else parts)"

definition part_number :: "str \<Rightarrow> nat option" where
  "part_number t =
     (let (base, ds) = (if take 2 t \<in> {''0x'', ''0X''} then (CHAR_HEX, drop 2 t)
                        else if take 1 t = ''0'' \<and> length t > 1 then (CHAR_OCT, drop 1 t) else (CHAR_DEC, t))
      in if list_all (\<lambda>c. IsCharOfType (byte c) base) ds then Some (digits_value (BaseForType base) ds) else None)"

definition bytes_of :: "nat \<Rightarrow> nat \<Rightarrow> nat list" where
  "bytes_of k v = map (\<lambda>i. v div 256 ^ i mod 256) (rev [0..<k])"

definition ipv4_reference :: "str \<Rightarrow> Family + nat list \<times> int" where
  "ipv4_reference t =
     (let parts = without_last_empty (dotted_parts t); numbers = map part_number parts; vals = map the numbers
      in if parts = [] \<or> length parts > 4 \<or> [] \<in> set parts \<or> None \<in> set numbers then Inl NEUTRAL
         else if (\<exists>v\<in>set (butlast vals). v \<ge> 256) \<or> last vals \<ge> 256 ^ (5 - length vals) then Inl BROKEN
         else Inr (butlast vals @ bytes_of (5 - length vals) (last vals), len vals))"

lemma dotted_parts_simps:
  assumes "CHR ''.'' \<notin> set p"
  shows "dotted_parts p = [p]" "dotted_parts (p @ CHR ''.'' # s) = p # dotted_parts s"
  using assms by (induction p) auto

lemma dotted_parts_nonempty [simp]: "dotted_parts s \<noteq> []"
  by (cases s) auto

lemma dotted_parts_empty [simp]: "dotted_parts s = [[]] \<longleftrightarrow> s = []"
  by (cases s) auto

lemma in_set_last: "x \<in> set xs \<Longrightarrow> x \<in> set (butlast xs) \<or> x = last xs"
  by (induction xs) auto

lemma without_last_empty_Cons: "ps \<noteq> [] \<Longrightarrow> without_last_empty (p # ps) = p # without_last_empty ps"
  by (simp add: without_last_empty_def)

lemma without_last_empty_none: "ps \<noteq> [] \<Longrightarrow> without_last_empty ps = [] \<longleftrightarrow> ps = [[]]"
  by (cases ps rule: rev_cases) (auto simp: without_last_empty_def)

subsection \<open>The numbers of the parts\<close>

lemma part_component:
  assumes "within 0 (len spec) c" "is_nonempty c"
  shows "IPv4ComponentToNumber spec c =
    (case part_number (component_str spec c) of None \<Rightarrow> Inl NEUTRAL | Some v \<Rightarrow> if v < 2 ^ 32 then Inr v else Inl BROKEN)"
proof -
  obtain b l where c: "c = Component b l" "0 \<le> b" "0 < l" "b + l \<le> len spec"
    using assms by (cases c) (auto simp: within_def is_valid_def is_nonempty_def c_end_def Component_def)
  obtain base n where base: "ipv4_base spec c = (base, n)" by fastforce
  let ?t = "component_str spec c"
  have t: "?t = seg spec b (b + l)" by (simp add: c)
  have first: "?t = at spec b # seg spec (b + 1) (b + l)" using seg_Cons [of b "b + l" spec] c t by simp
  have second: "1 < l \<Longrightarrow> seg spec (b + 1) (b + l) = at spec (b + 1) # seg spec (b + 2) (b + l)"
    using seg_Cons [of "b + 1" "b + l" spec] c by (simp add: add.assoc)
  have one: "l = 1 \<Longrightarrow> seg spec (b + 1) (b + l) = []" by simp
  have "part_number ?t =
    (let ds = seg spec (c_begin c + n) (c_end c)
     in if list_all (\<lambda>x. IsCharOfType (byte x) base) ds then Some (digits_value (BaseForType base) ds) else None)"
  proof (cases "l = 1")
    case True
    then show ?thesis using base first one c by (auto simp: ipv4_base_def part_number_def split: if_splits)
  next
    case False
    then have l: "1 < l" using c(3) by simp
    then show ?thesis using base first second [OF l] c
      by (auto simp: ipv4_base_def part_number_def add.commute split: if_splits)
  qed
  then show ?thesis unfolding component_number [OF assms base] by (auto simp: Let_def)
qed

lemma part_chars:
  assumes "part_number p = Some v" "c \<in> set p"
  shows "byte c < 128 \<and> IsIPv4Char (byte c)"
proof -
  have "\<exists>pre ds base. p = pre @ ds \<and> set pre \<subseteq> {CHR ''0'', CHR ''x'', CHR ''X''} \<and> number_class base \<and>
    list_all (\<lambda>c. IsCharOfType (byte c) base) ds"
  proof (cases "take 2 p \<in> {''0x'', ''0X''}")
    case True
    then have "list_all (\<lambda>c. IsCharOfType (byte c) CHAR_HEX) (drop 2 p)" "set (take 2 p) \<subseteq> {CHR ''0'', CHR ''x'', CHR ''X''}"
      using assms(1) by (auto simp: part_number_def Let_def split: if_splits)
    then show ?thesis by (metis append_take_drop_id)
  next
    case False
    show ?thesis
    proof (cases "take 1 p = ''0'' \<and> length p > 1")
      case True
      then have "list_all (\<lambda>c. IsCharOfType (byte c) CHAR_OCT) (drop 1 p)" "set (take 1 p) \<subseteq> {CHR ''0'', CHR ''x'', CHR ''X''}"
        using assms(1) False by (auto simp: part_number_def Let_def split: if_splits)
      then show ?thesis by (metis append_take_drop_id)
    next
      case f: False
      then have "list_all (\<lambda>c. IsCharOfType (byte c) CHAR_DEC) p"
        using assms(1) False by (auto simp: part_number_def Let_def split: if_splits)
      then show ?thesis by (intro exI [of _ "[]"] exI [of _ p] exI [of _ CHAR_DEC]) simp
    qed
  qed
  then consider "c \<in> {CHR ''0'', CHR ''x'', CHR ''X''}" | base where "number_class base" "IsCharOfType (byte c) base"
    using assms(2) by (fastforce simp: list_all_iff)
  then show ?thesis
  proof cases
    case 1
    then show ?thesis using is_ipv4 [of "byte c"] by auto
  next
    case 2
    then show ?thesis using is_ipv4 [of "byte c"] is_hex [of "byte c"] is_oct [of "byte c"] is_dec [of "byte c"]
      by (auto simp: IsHexChar_def)
  qed
qed

subsection \<open>The scan\<close>

text \<open>The ranges of consecutive parts, each followed by a dot.\<close>

fun ranges :: "int \<Rightarrow> str list \<Rightarrow> component list" where
  "ranges b [] = []"
| "ranges b (p # ps) = Component b (len p) # ranges (b + len p + 1) ps"

definition ipv4_char :: "char \<Rightarrow> bool" where
  "ipv4_char c \<longleftrightarrow> byte c < 128 \<and> IsIPv4Char (byte c)"

definition parts_fit :: "nat \<Rightarrow> str list \<Rightarrow> bool" where
  "parts_fit k ps \<longleftrightarrow> list_all (list_all ipv4_char) ps \<and> [] \<notin> set (without_last_empty ps) \<and>
     k + length (without_last_empty ps) \<in> {1..4}"

lemma ipv4_scan_bad:
  assumes "0 \<le> i" "i \<le> j" "j \<le> e" "e \<le> len spec" "\<And>k. i \<le> k \<Longrightarrow> k < j \<Longrightarrow> at spec k \<noteq> CHR ''.''"
    "\<not> list_all ipv4_char (seg spec i j)"
  shows "ipv4_scan spec e i cb comps = None"
  using assms(1,2,5,6)
proof (induction i rule: upto_induct [where e = j])
  case (step i)
  have s: "seg spec i j = at spec i # seg spec (i + 1) j" using seg_Cons [of i j spec] step assms(3,4) by simp
  have "at spec i \<noteq> CHR ''.''" "i < e" using step assms(3) by simp_all
  then show ?case using step s by (auto simp: ipv4_scan.simps [of spec e i] ipv4_char_def)
qed simp

lemma ipv4_scan_parts:
  assumes "0 \<le> b" "b \<le> e" "e \<le> len spec" "length comps < 4" "list_all (\<lambda>c. 0 < c_len c) comps"
  shows "map_option (filter (\<lambda>c. 0 < c_len c)) (ipv4_scan spec e b b comps) =
    (let ps = dotted_parts (seg spec b e)
     in if parts_fit (length comps) ps then Some (comps @ ranges b (without_last_empty ps)) else None)"
  using assms
proof (induction "nat (e - b)" arbitrary: b comps rule: less_induct)
  case less
  define j where "j = scan_fwd (\<lambda>c. c \<noteq> CHR ''.'') spec b e"
  define p where "p = seg spec b j"
  have j: "b \<le> j" "j \<le> e" using less.prems(2) unfolding j_def by (simp_all add: scan_fwd_ge scan_fwd_le)
  have run: "b \<le> k \<Longrightarrow> k < j \<Longrightarrow> at spec k \<noteq> CHR ''.''" for k
    using scan_fwd_run [of b k "\<lambda>c. c \<noteq> CHR ''.''" spec e] by (simp add: j_def)
  have dot: "j < e \<Longrightarrow> at spec j = CHR ''.''" using scan_fwd_stop [of "\<lambda>c. c \<noteq> CHR ''.''" spec b e] by (simp add: j_def)
  have free: "CHR ''.'' \<notin> set p" using run in_set_seg [of "CHR ''.''" spec b j] less.prems j by (force simp: p_def)
  have lp: "len p = j - b" using length_seg [of b j spec] less.prems j by (simp add: p_def)
  have pos: "filter (\<lambda>c. 0 < c_len c) comps = comps" using less.prems(5) by (simp add: filter_id_conv list_all_iff)
  show ?case
  proof (cases "list_all ipv4_char p")
    case False
    have "p \<in> set (dotted_parts (seg spec b e))"
    proof (cases "j < e")
      case True
      then show ?thesis using seg_sep [of b j e spec] less.prems j dot dotted_parts_simps(2) [OF free] by (simp add: p_def)
    next
      case False
      then show ?thesis using j dotted_parts_simps(1) [OF free] by (simp add: p_def)
    qed
    then have "\<not> parts_fit (length comps) (dotted_parts (seg spec b e))" using False by (auto simp: parts_fit_def list_all_iff)
    then show ?thesis using ipv4_scan_bad [of b j e spec b comps] less.prems j run False by (simp add: p_def)
  next
    case ok: True
    have to_j: "ipv4_scan spec e b b comps = ipv4_scan spec e j b comps"
      using less.prems j run set_segI [of b _ j spec] ok
      by (intro ipv4_scan_run) (auto simp: p_def list_all_iff ipv4_char_def)
    show ?thesis
    proof (cases "j < e")
      case False
      then have "j = e" using j by simp
      then have "dotted_parts (seg spec b e) = [p]" using dotted_parts_simps(1) [OF free] by (simp add: p_def)
      moreover have "ipv4_scan spec e e b comps = (if p = [] \<and> comps = [] then None else Some (comps @ [Component b (len p)]))"
        unfolding ipv4_scan.simps [of spec e e b comps] using lp \<open>j = e\<close> by (cases p) (auto simp: Let_def)
      ultimately show ?thesis unfolding to_j \<open>j = e\<close> using ok pos less.prems(4)
        by (cases p) (auto simp: parts_fit_def without_last_empty_def Suc_le_eq)
    next
      case True
      let ?rest = "dotted_parts (seg spec (j + 1) e)"
      have parts: "dotted_parts (seg spec b e) = p # ?rest"
        using seg_sep [of b j e spec] less.prems j dot True dotted_parts_simps(2) [OF free] by (simp add: p_def)
      have rest: "without_last_empty (p # ?rest) = p # without_last_empty ?rest" by (simp add: without_last_empty_Cons)
      have none: "without_last_empty ?rest = [] \<longleftrightarrow> j + 1 = e"
        using without_last_empty_none [of ?rest] True length_seg [of "j + 1" e spec] less.prems j by fastforce
      show ?thesis
      proof (cases "p = [] \<or> length comps = 3")
        case stop: True
        then show ?thesis unfolding to_j parts rest using True dot [OF True] lp pos less.prems(4) none ok
          by (auto simp: ipv4_scan.simps [of spec e j] Let_def parts_fit_def rest)
      next
        case False
        then have "p \<noteq> []" "length comps < 3" using less.prems(4) by simp_all
        then have "b < j" using lp by (cases p) simp_all
        have step: "ipv4_scan spec e j b comps = ipv4_scan spec e (j + 1) (j + 1) (comps @ [Component b (len p)])"
          using True dot [OF True] lp \<open>p \<noteq> []\<close> \<open>length comps < 3\<close> by (auto simp: ipv4_scan.simps [of spec e j] Let_def)
        have "parts_fit (length comps) (p # ?rest) \<longleftrightarrow> parts_fit (length comps + 1) ?rest"
          using ok \<open>p \<noteq> []\<close> by (auto simp: parts_fit_def rest)
        then show ?thesis unfolding to_j parts rest step
          using less.hyps [of "j + 1" "comps @ [Component b (len p)]"] True j less.prems \<open>b < j\<close> \<open>length comps < 3\<close> lp
          by (simp add: Let_def rest)
      qed
    qed
  qed
qed

subsection \<open>The values\<close>

lemma ipv4_values_filter: "ipv4_values spec cs broken vals = ipv4_values spec (filter (\<lambda>c. 0 < c_len c) cs) broken vals"
  by (induction spec cs broken vals rule: ipv4_values.induct) (auto split: sum.split)

text \<open>The value that is kept for a part: zero stands for a number of more than 32 bits.\<close>

definition kept :: "nat \<Rightarrow> nat" where
  "kept v = (if v < 2 ^ 32 then v else 0)"

lemma ipv4_values_parts:
  assumes "list_all2 (\<lambda>p c. within 0 (len spec) c \<and> is_nonempty c \<and> component_str spec c = p) ps cs"
  shows "ipv4_values spec cs broken vals =
    (if None \<in> set (map part_number ps) then Inl NEUTRAL
     else Inr (broken \<or> (\<exists>p\<in>set ps. 2 ^ 32 \<le> the (part_number p)), vals @ map (kept \<circ> the \<circ> part_number) ps))"
  using assms
proof (induction ps cs arbitrary: broken vals rule: list_all2_induct)
  case (Cons p ps c cs)
  have n: "IPv4ComponentToNumber spec c =
      (case part_number p of None \<Rightarrow> Inl NEUTRAL | Some v \<Rightarrow> if v < 2 ^ 32 then Inr v else Inl BROKEN)"
    using part_component [of spec c] Cons.hyps(1) by simp
  have l: "\<not> c_len c \<le> 0" using Cons.hyps(1) by (simp add: is_nonempty_def)
  show ?case
    using l Cons.IH [of broken] Cons.IH [of True]
    by (cases "part_number p") (auto simp: n kept_def not_less)
qed simp

lemma ranges_spell:
  assumes "0 \<le> b" "b \<le> e" "e \<le> len spec" "[] \<notin> set (without_last_empty (dotted_parts (seg spec b e)))"
  shows "list_all2 (\<lambda>p c. within 0 (len spec) c \<and> is_nonempty c \<and> component_str spec c = p)
    (without_last_empty (dotted_parts (seg spec b e))) (ranges b (without_last_empty (dotted_parts (seg spec b e))))"
  using assms
proof (induction "nat (e - b)" arbitrary: b rule: less_induct)
  case less
  define j where "j = scan_fwd (\<lambda>c. c \<noteq> CHR ''.'') spec b e"
  define p where "p = seg spec b j"
  have j: "b \<le> j" "j \<le> e" using less.prems(2) unfolding j_def by (simp_all add: scan_fwd_ge scan_fwd_le)
  have run: "b \<le> k \<Longrightarrow> k < j \<Longrightarrow> at spec k \<noteq> CHR ''.''" for k
    using scan_fwd_run [of b k "\<lambda>c. c \<noteq> CHR ''.''" spec e] by (simp add: j_def)
  have free: "CHR ''.'' \<notin> set p" using run in_set_seg [of "CHR ''.''" spec b j] less.prems j by (force simp: p_def)
  have lp: "len p = j - b" using length_seg [of b j spec] less.prems j by (simp add: p_def)
  have good: "within 0 (len spec) (Component b (len p)) \<and> is_nonempty (Component b (len p)) \<and> component_str spec (Component b (len p)) = p"
    if "p \<noteq> []" using that lp less.prems j by (cases p) (simp_all add: p_def [symmetric])
  show ?case
  proof (cases "j < e")
    case False
    then have "dotted_parts (seg spec b e) = [p]" using j dotted_parts_simps(1) [OF free] by (simp add: p_def)
    then show ?thesis using good by (cases p) (simp_all add: without_last_empty_def)
  next
    case True
    then have "at spec j = CHR ''.''" using scan_fwd_stop [of "\<lambda>c. c \<noteq> CHR ''.''" spec b e] by (simp add: j_def)
    then have parts: "dotted_parts (seg spec b e) = p # dotted_parts (seg spec (j + 1) e)"
      using seg_sep [of b j e spec] less.prems j True dotted_parts_simps(2) [OF free] by (simp add: p_def)
    have w: "without_last_empty (dotted_parts (seg spec b e)) = p # without_last_empty (dotted_parts (seg spec (j + 1) e))"
      by (simp add: parts without_last_empty_Cons)
    have b: "b + len p + 1 = j + 1" using lp by simp
    have "p \<noteq> []" "[] \<notin> set (without_last_empty (dotted_parts (seg spec (j + 1) e)))" using less.prems(4) w by auto
    then show ?thesis unfolding w ranges.simps b using good less.hyps [of "j + 1"] less.prems j True by simp
  qed
qed

lemma fill_bytes_of: "fill_bytes k v bs = (bytes_of k v @ bs, v div 256 ^ k)"
proof (induction k arbitrary: v bs)
  case (Suc k)
  have "bytes_of (Suc k) v = bytes_of k (v div 256) @ [v mod 256]"
  proof -
    have "map (\<lambda>i. v div 256 ^ i mod 256) (rev [0..<Suc k]) = rev (map (\<lambda>i. v div 256 ^ i mod 256) (0 # map Suc [0..<k]))"
      unfolding rev_map [symmetric] by (simp only: upt_conv_Cons [of 0 "Suc k"] map_Suc_upt zero_less_Suc)
    also have "\<dots> = map (\<lambda>i. v div 256 div 256 ^ i mod 256) (rev [0..<k]) @ [v mod 256]"
      by (simp add: rev_map o_def div_mult2_eq)
    finally show ?thesis by (simp add: bytes_of_def)
  qed
  then show ?case by (simp add: Suc.IH drop_bit_eq_div div_mult2_eq)
qed (simp add: bytes_of_def)

lemma ipv4_verdict:
  assumes "vs \<noteq> []" "length vs \<le> 4"
  shows "(if \<exists>v\<in>set vs. 2 ^ 32 \<le> v then Inl BROKEN
      else if \<not> list_all (\<lambda>v. v \<le> 255) (butlast (map kept vs)) then Inl BROKEN
      else let (bytes, residue) = fill_bytes (5 - length (map kept vs)) (last (map kept vs)) []
           in if residue \<noteq> 0 then Inl BROKEN else Inr (butlast (map kept vs) @ bytes, int (length (map kept vs)))) =
    (if (\<exists>v\<in>set (butlast vs). 256 \<le> v) \<or> 256 ^ (5 - length vs) \<le> last vs then Inl BROKEN
     else Inr (butlast vs @ bytes_of (5 - length vs) (last vs), len vs))"
proof (cases "\<exists>v\<in>set vs. 2 ^ 32 \<le> v")
  case True
  then obtain v where v: "v \<in> set vs" "2 ^ 32 \<le> v" by blast
  have "(256::nat) ^ (5 - length vs) \<le> 256 ^ 4" using assms(1) by (intro power_increasing) (cases vs, simp_all)
  then have "256 ^ (5 - length vs) \<le> v" "256 \<le> v" using v(2) by (simp_all add: le_trans)
  then have "(\<exists>v\<in>set (butlast vs). 256 \<le> v) \<or> 256 ^ (5 - length vs) \<le> last vs" using in_set_last [OF v(1)] by blast
  then show ?thesis using True by simp
next
  case False
  then have "map kept vs = vs" by (intro map_idI) (auto simp: kept_def)
  moreover have "list_all (\<lambda>v. v \<le> 255) (butlast vs) \<longleftrightarrow> \<not> (\<exists>v\<in>set (butlast vs). 256 \<le> v)" by (auto simp: list_all_iff)
  moreover have "last vs div 256 ^ (5 - length vs) \<noteq> 0 \<longleftrightarrow> 256 ^ (5 - length vs) \<le> last vs" by (simp add: div_eq_0_iff not_less)
  ultimately show ?thesis using False by (simp add: fill_bytes_of)
qed

lemma ipv4_reader:
  assumes "within 0 (len spec) host"
  shows "IPv4AddressToNumber spec host = ipv4_reference (component_str spec host)"
proof (cases "is_nonempty host")
  case False
  then have "component_str spec host = []" by (simp add: is_nonempty_def component_str_def c_end_def)
  then show ?thesis using False by (simp add: IPv4AddressToNumber_def FindIPv4Components_def ipv4_reference_def without_last_empty_def Let_def)
next
  case True
  let ?t = "component_str spec host"
  let ?ps = "without_last_empty (dotted_parts ?t)"
  let ?numbers = "map part_number ?ps"
  have h: "0 \<le> c_begin host" "c_begin host \<le> c_end host" "c_end host \<le> len spec"
    using assms True by (auto simp: within_def is_valid_def is_nonempty_def c_end_def)
  have t: "?t = seg spec (c_begin host) (c_end host)" by (simp add: component_str_def)
  let ?scan = "ipv4_scan spec (c_end host) (c_begin host) (c_begin host) []"
  have scan: "map_option (filter (\<lambda>c. 0 < c_len c)) ?scan =
      (if parts_fit 0 (dotted_parts ?t) then Some (ranges (c_begin host) ?ps) else None)"
    using ipv4_scan_parts [of "c_begin host" "c_end host" spec "[]"] h by (simp add: t Let_def)
  have fits: "parts_fit 0 (dotted_parts ?t)" if "?ps \<noteq> []" "length ?ps \<le> 4" "[] \<notin> set ?ps" "None \<notin> set ?numbers"
  proof -
    have "list_all ipv4_char p" if "p \<in> set (dotted_parts ?t)" for p
    proof (cases "p = []")
      case False
      then have "p \<in> set ?ps" using in_set_last [OF that] that by (auto simp: without_last_empty_def)
      then obtain v where "part_number p = Some v" using \<open>None \<notin> set ?numbers\<close> by force
      then show ?thesis using part_chars by (auto simp: list_all_iff ipv4_char_def)
    qed simp
    then show ?thesis using that by (auto simp: parts_fit_def list_all_iff Suc_le_eq)
  qed
  show ?thesis
  proof (cases "parts_fit 0 (dotted_parts ?t)")
    case False
    then have "?scan = None" using scan by simp
    moreover have "?ps = [] \<or> length ?ps > 4 \<or> [] \<in> set ?ps \<or> None \<in> set ?numbers" using False fits by (meson not_less)
    ultimately show ?thesis by (simp add: IPv4AddressToNumber_def FindIPv4Components_def True ipv4_reference_def Let_def)
  next
    case pf: True
    then obtain cs where cs: "?scan = Some cs" "filter (\<lambda>c. 0 < c_len c) cs = ranges (c_begin host) ?ps" using scan by auto
    have n: "?ps \<noteq> []" "length ?ps \<le> 4" "[] \<notin> set ?ps" using pf by (auto simp: parts_fit_def)
    have "ipv4_values spec (cs @ replicate (4 - length cs) no_component) False [] = ipv4_values spec (ranges (c_begin host) ?ps) False []"
      by (subst ipv4_values_filter) (simp add: cs(2))
    also have "\<dots> = (if None \<in> set ?numbers then Inl NEUTRAL
       else Inr (\<exists>p\<in>set ?ps. 2 ^ 32 \<le> the (part_number p), map (kept \<circ> the \<circ> part_number) ?ps))"
      using ipv4_values_parts [OF ranges_spell [of "c_begin host" "c_end host" spec], of False "[]"] h n(3) by (simp add: t)
    finally have vals: "ipv4_values spec (cs @ replicate (4 - length cs) no_component) False [] = \<dots>" .
    show ?thesis
    proof (cases "None \<in> set ?numbers")
      case True
      then show ?thesis using cs(1) vals \<open>is_nonempty host\<close>
        by (simp add: IPv4AddressToNumber_def FindIPv4Components_def ipv4_reference_def Let_def)
    next
      case some: False
      have maps: "map (kept \<circ> the \<circ> part_number) ?ps = map kept (map the ?numbers)" by simp
      have any: "(\<exists>p\<in>set ?ps. 2 ^ 32 \<le> the (part_number p)) \<longleftrightarrow> (\<exists>v\<in>set (map the ?numbers). 2 ^ 32 \<le> v)" by auto
      have vs: "map the ?numbers \<noteq> []" "length (map the ?numbers) \<le> 4" using n by simp_all
      have "ipv4_values spec (cs @ replicate (4 - length cs) no_component) False [] =
          Inr (\<exists>v\<in>set (map the ?numbers). 2 ^ 32 \<le> v, map kept (map the ?numbers))"
        unfolding vals if_not_P [OF some] maps any by (rule refl)
      moreover have "FindIPv4Components spec host = Some (cs @ replicate (4 - length cs) no_component)"
        using cs(1) True by (simp add: FindIPv4Components_def)
      ultimately have "IPv4AddressToNumber spec host =
          (if (\<exists>v\<in>set (butlast (map the ?numbers)). 256 \<le> v) \<or> 256 ^ (5 - length (map the ?numbers)) \<le> last (map the ?numbers)
           then Inl BROKEN else Inr (butlast (map the ?numbers) @ bytes_of (5 - length (map the ?numbers)) (last (map the ?numbers)), len (map the ?numbers)))"
        unfolding ipv4_verdict [OF vs, symmetric] by (simp only: IPv4AddressToNumber_def option.case sum.case prod.case)
      then show ?thesis using some n by (simp add: ipv4_reference_def Let_def)
    qed
  qed
qed

text \<open>What an accepted address looks like, without a condition on the range.\<close>

lemma ipv4_scan_shape:
  "ipv4_scan spec e i cb comps = Some cs \<Longrightarrow> length comps < 4 \<Longrightarrow> cb \<le> i \<Longrightarrow>
   \<exists>c rest. cs = comps @ c # rest \<and> length cs \<le> 4 \<and> (comps = [] \<longrightarrow> 0 < c_len c)"
proof (induction spec e i cb comps rule: ipv4_scan.induct)
  case (1 spec e i cb comps)
  let ?c = "Component cb (i - cb)"
  consider "i \<ge> e" | "i < e" "at spec i = CHR ''.''" | "i < e" "at spec i \<noteq> CHR ''.''" by linarith
  then show ?case
  proof cases
    case 1
    then show ?thesis using "1.prems"
      by (auto simp: ipv4_scan.simps [of spec e i] Let_def split: if_splits)
  next
    case 2
    show ?thesis
    proof (cases "length (comps @ [?c]) = 4")
      case True
      then show ?thesis using 2 "1.prems"
        by (auto simp: ipv4_scan.simps [of spec e i] Let_def split: if_splits)
    next
      case False
      have r: "ipv4_scan spec e (i + 1) (i + 1) (comps @ [?c]) = Some cs" "i - cb \<noteq> 0"
        using False 2 "1.prems"(1) by (auto simp: ipv4_scan.simps [of spec e i] Let_def split: if_splits)
      have "\<exists>c rest. cs = (comps @ [?c]) @ c # rest \<and> length cs \<le> 4 \<and> (comps @ [?c] = [] \<longrightarrow> 0 < c_len c)"
        by (rule "1.IH"(1) [OF _ refl refl refl _ _ False r(1)])
          (use 2 False r(2) "1.prems"(2,3) in auto)
      then show ?thesis using r(2) "1.prems"(3) by auto
    qed
  next
    case 3
    then have "ipv4_scan spec e (i + 1) cb comps = Some cs" "byte (at spec i) < 128 \<and> IsIPv4Char (byte (at spec i))"
      using "1.prems"(1) by (auto simp: ipv4_scan.simps [of spec e i] not_le split: if_splits)
    then show ?thesis using "1.IH"(2) 3 "1.prems"(2,3) by auto
  qed
qed

lemma ipv4_values_length:
  "ipv4_values spec cs broken vals = Inr (b, vals') \<Longrightarrow>
   length vals' = length vals + length (filter (\<lambda>c. 0 < c_len c) cs)"
proof (induction spec cs broken vals rule: ipv4_values.induct)
  case (2 spec c cs broken vals)
  then show ?case
    by (cases "IPv4ComponentToNumber spec c") (auto split: if_splits)
qed simp

lemma bytes_of_shape: "length (bytes_of k v) = k" "list_all (\<lambda>b. b < 256) (bytes_of k v)"
  by (simp_all add: bytes_of_def list_all_iff)

lemma ipv4_shape:
  assumes "IPv4AddressToNumber spec host = Inr (addr, n)"
  shows "1 \<le> n \<and> n \<le> 4 \<and> length addr = 4 \<and> list_all (\<lambda>b. b < 256) addr"
proof -
  obtain cs where cs: "FindIPv4Components spec host = Some cs"
    using assms by (auto simp: IPv4AddressToNumber_def split: option.splits)
  obtain br vals where v: "ipv4_values spec cs False [] = Inr (br, vals)"
    using assms cs by (auto simp: IPv4AddressToNumber_def split: sum.splits)
  have rest: "list_all (\<lambda>v. v \<le> 255) (butlast vals)" "addr = butlast vals @ bytes_of (5 - length vals) (last vals)" "n = len vals"
    using assms unfolding IPv4AddressToNumber_def cs option.case v sum.case prod.case fill_bytes_of
    by (simp_all split: if_splits)
  obtain comps where comps: "ipv4_scan spec (c_end host) (c_begin host) (c_begin host) [] = Some comps"
      "cs = comps @ replicate (4 - length comps) no_component"
    using cs by (auto simp: FindIPv4Components_def split: if_splits)
  then obtain c cr where "comps = c # cr" "length comps \<le> 4" "0 < c_len c"
    using ipv4_scan_shape [OF comps(1)] by auto
  then have l: "1 \<le> length vals" "length vals \<le> 4"
    using ipv4_values_length [OF v] comps(2) length_filter_le [of "\<lambda>c. 0 < c_len c" cs] by simp_all
  have "list_all (\<lambda>b. b < 256) (butlast vals)"
    by (rule list.pred_mono_strong [OF rest(1)]) simp
  then show ?thesis using l rest(2,3) bytes_of_shape by simp
qed

text \<open>
  C33. The reader of IPv4 hosts means what its text says: for every host range of every input
  the result is that of a definition on the text alone.  The text is cut at its dots, where
  an empty last part is left out; there have to be one to four parts, none of them empty and
  each of them a number, in base 16 behind 0x, in base 8 behind another zero, and in base 10
  otherwise, of any length.  All numbers but the last have to be bytes and the last one has
  to fit into the bytes that remain; then the address is the former followed by the latter
  in big-endian order, and otherwise the host is broken.
\<close>

theorem ipv4_address_value:
  assumes "within 0 (len spec) host"
  shows "IPv4AddressToNumber spec host = ipv4_reference (component_str spec host)"
  using assms by (rule ipv4_reader)

theorem ipv4_address_value_witness:
  "IPv4AddressToNumber ''http://0xA.01.123./'' (Component 7 11) = Inr ([10, 1, 0, 123], 3) \<and>
   IPv4AddressToNumber ''http://1.2.65536/'' (Component 7 9) = Inl BROKEN \<and>
   IPv4AddressToNumber ''http://1.2.x/'' (Component 7 5) = Inl NEUTRAL"
proof -
  have "ipv4_reference (component_str ''http://0xA.01.123./'' (Component 7 11)) = Inr ([10, 1, 0, 123], 3)"
    "ipv4_reference (component_str ''http://1.2.65536/'' (Component 7 9)) = Inl BROKEN"
    "ipv4_reference (component_str ''http://1.2.x/'' (Component 7 5)) = Inl NEUTRAL" by (code_simp, code_simp, code_simp)
  then show ?thesis
    using ipv4_address_value [of "''http://0xA.01.123./''" "Component 7 11"] ipv4_address_value [of "''http://1.2.65536/''" "Component 7 9"]
      ipv4_address_value [of "''http://1.2.x/''" "Component 7 5"] by simp
qed

end
