(* ===== verification/Url_Ip6_Laws.thy ===== *)
theory Url_Ip6_Laws
  imports Url_Ip_Laws
begin

unbundle bit_operations_syntax

text \<open>
  The IPv6 reader and writer invert each other.  The text is described by the words that are
  printed (\<open>hex_words\<close>); the scan stores one component per word and the place of the
  contraction, and the bytes are put together again from these.
\<close>

section \<open>Words of an IPv6 address\<close>

definition word_at :: "nat list \<Rightarrow> int \<Rightarrow> nat" where
  "word_at addr i = at addr i * 256 + at addr (i + 1)"

lemma push_or: "b < 256 \<Longrightarrow> push_bit 8 a OR b = a * 256 + b" for a b :: nat
proof -
  assume "b < 256"
  then have "\<not> bit (push_bit 8 a) n \<or> \<not> bit b n" for n
    using take_bit_nat_eq_self [of b 8] bit_take_bit_iff [of 8 b n] by (auto simp: bit_push_bit_iff)
  then have "push_bit 8 a + b = push_bit 8 a OR b" by (intro disjunctive_add_eq_or bit_eqI) (auto simp: bit_and_iff)
  then show ?thesis by (simp add: push_bit_eq_mult)
qed

lemma word_bytes:
  fixes number :: nat
  assumes "number < 65536"
  shows "drop_bit 8 (number AND 0xFF00) = number div 256" "number AND 0x00FF = number mod 256"
proof -
  show m: "number AND 0x00FF = number mod 256" for number :: nat
    using take_bit_eq_mask [of 8 number] by (simp add: take_bit_eq_mod mask_eq_exp_minus_1)
  have "drop_bit 8 (number AND 0xFF00) = drop_bit 8 number AND drop_bit 8 0xFF00" by (rule drop_bit_and)
  also have "\<dots> = (number div 256) mod 256" using m [of "number div 256"] by (simp add: drop_bit_eq_div)
  also have "\<dots> = number div 256" using assms by simp
  finally show "drop_bit 8 (number AND 0xFF00) = number div 256" .
qed

definition byte_list :: "nat list \<Rightarrow> bool" where
  "byte_list addr \<longleftrightarrow> list_all (\<lambda>b. b < 256) addr"

lemma byte_at: "byte_list addr \<Longrightarrow> 0 \<le> i \<Longrightarrow> i < len addr \<Longrightarrow> at addr i < 256"
  by (simp add: byte_list_def at_def list_all_length nat_less_iff)

lemma word_less:
  assumes "byte_list addr" "0 \<le> i" "i + 1 < len addr"
  shows "word_at addr i < 65536"
  using byte_at [of addr i] byte_at [of addr "i + 1"] assms by (simp add: word_at_def)

lemma word_split:
  assumes "byte_list addr" "0 \<le> i" "i + 1 < len addr"
  shows "word_at addr i div 256 = at addr i" "word_at addr i mod 256 = at addr (i + 1)"
  using byte_at [of addr "i + 1"] assms by (simp_all add: word_at_def)

text \<open>The words that are printed, in order: all but those of the contraction.\<close>

function hex_words :: "nat list \<Rightarrow> component \<Rightarrow> int \<Rightarrow> nat list" where
  "hex_words addr r i =
     (if i \<le> 14 then
        (if i = c_begin r \<and> c_len r > 0 then hex_words addr r (c_end r)
         else word_at addr i # hex_words addr r (i + 2))
      else [])"
  by pat_completeness auto
termination
  by (relation "measure (\<lambda>(a, c, i). nat (16 - i))") (auto simp: c_end_def)

declare hex_words.simps [simp del]

lemma itoa_word:
  assumes "byte_list addr" "0 \<le> i" "i + 1 < len addr"
  shows "itoa_text (push_bit 8 (at addr i) OR at addr (i + 1)) 5 16 = print_nat 16 (word_at addr i)"
  using word_less [OF assms] byte_at [of addr "i + 1"] assms
  by (simp add: push_or itoa_text_hex [of _ 4] word_at_def)

lemma append_ipv6_step:
  assumes "i \<le> 14"
  shows "i = c_begin r \<and> c_len r > 0 \<Longrightarrow>
      append_ipv6_from addr r i out = append_ipv6_from addr r (c_end r) (out @ (if i = 0 then ''::'' else '':''))"
    and "\<not> (i = c_begin r \<and> c_len r > 0) \<Longrightarrow>
      append_ipv6_from addr r i out = append_ipv6_from addr r (i + 2)
        (out @ itoa_text (push_bit 8 (at addr i) OR at addr (i + 1)) 5 16 @ (if i + 2 < 16 then '':'' else []))"
proof -
  assume c: "i = c_begin r \<and> c_len r > 0"
  show "append_ipv6_from addr r i out = append_ipv6_from addr r (c_end r) (out @ (if i = 0 then ''::'' else '':''))"
    using assms c by (subst append_ipv6_from.simps) (simp add: push_back_def)
next
  assume c: "\<not> (i = c_begin r \<and> c_len r > 0)"
  show "append_ipv6_from addr r i out = append_ipv6_from addr r (i + 2)
        (out @ itoa_text (push_bit 8 (at addr i) OR at addr (i + 1)) 5 16 @ (if i + 2 < 16 then '':'' else []))"
    by (subst append_ipv6_from.simps) (simp only: assms c if_True if_False Let_def push_back_def append.assoc append_Nil2 split: if_split, simp)
qed

lemma ipv6_text_writer: "append_ipv6_from addr r i out = out @ append_ipv6_from addr r i []"
proof (induction "nat (16 - i)" arbitrary: i out rule: less_induct)
  case less
  show ?case
  proof (cases "i \<le> 14")
    case True
    show ?thesis
    proof (cases "i = c_begin r \<and> c_len r > 0")
      case c: True
      then have lt: "nat (16 - c_end r) < nat (16 - i)" using True by (simp add: c_end_def)
      show ?thesis
        unfolding append_ipv6_step(1) [OF True c] using less [OF lt] by (metis append.assoc append_Nil)
    next
      case c: False
      have lt: "nat (16 - (i + 2)) < nat (16 - i)" using True by simp
      show ?thesis
        unfolding append_ipv6_step(2) [OF True c] using less [OF lt] by (metis append.assoc append_Nil)
    qed
  qed (simp add: append_ipv6_from.simps [of addr r i])
qed

interpretation ipv6_text: writer "AppendIPv6Address addr" for addr
  by unfold_locales (simp only: AppendIPv6Address_def, rule ipv6_text_writer)

interpretation bracketed: writer2 "push_back CHR ''[''" "AppendIPv6Address addr" for addr
  by unfold_locales (simp add: push_back_def)

text \<open>The text from index \<open>i\<close> on, as an equation on strings.\<close>

abbreviation ipv6_tail :: "nat list \<Rightarrow> component \<Rightarrow> int \<Rightarrow> str" where
  "ipv6_tail addr r i \<equiv> append_ipv6_from addr r i []"

lemma ipv6_tail_contraction:
  "i \<le> 14 \<Longrightarrow> i = c_begin r \<Longrightarrow> c_len r > 0 \<Longrightarrow>
   ipv6_tail addr r i = (if i = 0 then ''::'' else '':'') @ ipv6_tail addr r (c_end r)"
  using append_ipv6_step(1) [of i r addr "[]"] ipv6_text_writer [of addr r "c_end r" "if i = 0 then ''::'' else '':''"]
  by (simp only: append_Nil simp_thms)

lemma ipv6_tail_word:
  assumes "i \<le> 14" "\<not> (i = c_begin r \<and> c_len r > 0)" "byte_list addr" "0 \<le> i" "len addr = 16"
  shows "ipv6_tail addr r i =
    print_nat 16 (word_at addr i) @ (if i + 2 < 16 then '':'' else []) @ ipv6_tail addr r (i + 2)"
proof -
  have w: "itoa_text (push_bit 8 (at addr i) OR at addr (i + 1)) 5 16 = print_nat 16 (word_at addr i)"
    using assms by (intro itoa_word) simp_all
  show ?thesis
    unfolding append_ipv6_step(2) [OF assms(1,2)] w
    by (subst ipv6_text_writer) (simp only: append_Nil append.assoc)
qed

lemma ipv6_tail_end: "14 < i \<Longrightarrow> ipv6_tail addr r i = []"
  by (simp add: append_ipv6_from.simps)

section \<open>Reading the words back\<close>

definition spells_hex :: "str \<Rightarrow> nat \<Rightarrow> component \<Rightarrow> bool" where
  "spells_hex t a c \<longleftrightarrow> component_str t c = print_nat 16 a \<and> a < 65536"

lemma hex_component: "spells_hex t a c \<Longrightarrow> IPv6HexComponentToNumber t c = a"
proof -
  assume s: "spells_hex t a c"
  have "list_all (\<lambda>x. IsCharOfType (byte x) CHAR_HEX) (print_nat 16 a)"
    using print_nat_hex [of _ a] by (auto simp: list_all_iff IsHexChar_def)
  then have "digits_of 16 (print_nat 16 a)" using class_digits [of CHAR_HEX] by simp
  moreover have "length (print_nat 16 a) \<le> 4"
    using s by (intro length_print_nat) (simp_all add: spells_hex_def)
  ultimately have "strtoui64 (print_nat 16 a) 16 = a"
    by (simp add: strtoui64_exact digits_value_print)
  then show ?thesis using s by (simp add: IPv6HexComponentToNumber_def spells_hex_def)
qed

lemma ipv6_scan_run:
  assumes "0 \<le> i" "i \<le> j" "j \<le> e"
    "\<And>k. i \<le> k \<Longrightarrow> k < j \<Longrightarrow> at spec k \<noteq> CHR '':'' \<and> byte (at spec k) < 128 \<and> IsHexChar (byte (at spec k))"
  shows "ipv6_scan spec b e i cb p = ipv6_scan spec b e j cb p"
  using assms(1,2,4)
proof (induction i rule: upto_induct [where e = j])
  case (step i)
  then have "at spec i \<noteq> CHR '':'' \<and> byte (at spec i) < 128 \<and> IsHexChar (byte (at spec i))"
    by simp
  then have "ipv6_scan spec b e i cb p = ipv6_scan spec b e (i + 1) cb p"
    using assms(3) step.hyps by (auto simp: ipv6_scan.simps [of spec b e i])
  then show ?case using step by simp
qed simp

lemma ipv6_scan_end:
  "at spec e \<noteq> CHR '':'' \<Longrightarrow> ipv6_scan spec b e e cb p = end_component b e e False cb p"
  by (simp add: ipv6_scan.simps [of spec b e e] split: option.splits)

lemma ipv6_scan_colon:
  assumes "i < e" "at spec i = CHR '':''" "at spec (i + 1) \<noteq> CHR '':''" "end_component b e i False cb p = Some p'"
  shows "ipv6_scan spec b e i cb p = ipv6_scan spec b e (i + 1) (i + 1) p'"
  using assms by (simp add: ipv6_scan.simps [of spec b e i])

lemma ipv6_scan_colons:
  assumes "i < e - 1" "at spec i = CHR '':''" "at spec (i + 1) = CHR '':''"
    "end_component b e i True cb p = Some p'" "index_of_contraction p' = -1"
  shows "ipv6_scan spec b e i cb p =
    ipv6_scan spec b e (i + 2) (i + 2) (p'\<lparr>index_of_contraction := num_hex_components p'\<rparr>)"
  using assms by (simp add: ipv6_scan.simps [of spec b e i])

text \<open>One word of the text: the scan reaches its end and can store it.\<close>

lemma ipv6_scan_word:
  assumes "spec = pre @ print_nat 16 w @ follow" "w < 65536" "len pre + len (print_nat 16 w) \<le> e"
    "num_hex_components p < 8"
  defines "i \<equiv> len pre" and "j \<equiv> len pre + len (print_nat 16 w)"
  shows "ipv6_scan spec b e i i p = ipv6_scan spec b e j i p"
    and "end_component b e j ic i p = Some (p\<lparr>hex_components := hex_components p @ [Component i (j - i)]\<rparr>)"
    and "spells_hex spec w (Component i (j - i))"
proof -
  have s: "seg spec i j = print_nat 16 w"
    by (simp add: assms(1) i_def j_def index_simps)
  then show "spells_hex spec w (Component i (j - i))" using assms(2) by (simp add: spells_hex_def)
  have ij: "i < j" "0 \<le> i" "j \<le> len spec"
    using print_nat_nonempty [of 16 w] by (simp_all add: i_def j_def assms(1))
  have "at spec k \<noteq> CHR '':'' \<and> byte (at spec k) < 128 \<and> IsHexChar (byte (at spec k))" if "i \<le> k" "k < j" for k
    using print_nat_hex [of "at spec k" w] set_segI [of i k j spec] that ij s by auto
  then show "ipv6_scan spec b e i i p = ipv6_scan spec b e j i p"
    using ij assms(3) by (intro ipv6_scan_run) (auto simp: j_def)
  have "length (print_nat 16 w) \<le> 4" using assms(2) by (intro length_print_nat) simp_all
  then show "end_component b e j ic i p = Some (p\<lparr>hex_components := hex_components p @ [Component i (j - i)]\<rparr>)"
    using assms(4) ij by (simp add: end_component_def Let_def i_def j_def)
qed

definition contraction_ok :: "nat list \<Rightarrow> component \<Rightarrow> bool" where
  "contraction_ok addr r \<longleftrightarrow> len addr = 16 \<and> byte_list addr \<and> (c_len r > 0 \<longrightarrow> zero_run addr r)"

abbreviation contracts_at :: "component \<Rightarrow> int \<Rightarrow> bool" where
  "contracts_at r i \<equiv> i = c_begin r \<and> c_len r > 0"

lemma tail_starts_with_digit:
  assumes "contraction_ok addr r" "0 \<le> i" "i \<le> 14" "\<not> contracts_at r i"
  shows "\<exists>c t. ipv6_tail addr r i = c # t \<and> c \<noteq> CHR '':''"
proof -
  obtain c t where c: "print_nat 16 (word_at addr i) = c # t"
    using print_nat_nonempty [of 16 "word_at addr i"] by (cases "print_nat 16 (word_at addr i)") auto
  then have "c \<noteq> CHR '':''" using print_nat_hex [of c "word_at addr i"] by simp
  moreover have "ipv6_tail addr r i =
      print_nat 16 (word_at addr i) @ (if i + 2 < 16 then '':'' else []) @ ipv6_tail addr r (i + 2)"
    using assms by (intro ipv6_tail_word) (auto simp: contraction_ok_def)
  ultimately show ?thesis using c by auto
qed

definition contraction_index :: "component \<Rightarrow> int \<Rightarrow> IPv6Parsed \<Rightarrow> int" where
  "contraction_index r i p =
     (if c_len r > 0 \<and> i \<le> c_begin r then num_hex_components p + (c_begin r - i) div 2
      else index_of_contraction p)"

lemma ipv6_scan_words:
  assumes "contraction_ok addr r" "even i" "0 \<le> i" "i \<le> 16" "\<not> contracts_at r i"
    "spec = pre @ ipv6_tail addr r i @ CHR '']'' # rest" "e = len pre + len (ipv6_tail addr r i)"
    "num_hex_components p + (16 - i) div 2 \<le> 8"
    "c_len r > 0 \<and> i \<le> c_begin r \<longrightarrow> index_of_contraction p = -1"
    "i = 16 \<longrightarrow> index_of_contraction p = num_hex_components p"
  shows "\<exists>cs. ipv6_scan spec b e (len pre) (len pre) p =
      Some (p\<lparr>hex_components := hex_components p @ cs, index_of_contraction := contraction_index r i p\<rparr>) \<and>
    list_all2 (spells_hex spec) (hex_words addr r i) cs"
  using assms
proof (induction "nat (16 - i)" arbitrary: i pre p rule: less_induct)
  case less
  note p = less.prems
  show ?case
  proof (cases "i = 16")
    case True
    then have "ipv6_tail addr r i = []" by (simp add: ipv6_tail_end)
    then have "ipv6_scan spec b e (len pre) (len pre) p = end_component b e e False e p"
      using p(6,7) ipv6_scan_end [of spec e b e p] by (simp add: at_sep)
    also have "\<dots> = Some p" using True p(10) by (simp add: end_component_def Let_def)
    finally show ?thesis using True p(1)
      by (intro exI [of _ "[]"])
        (auto simp: hex_words.simps contraction_index_def contraction_ok_def zero_run_def c_end_def)
  next
    case False
    then have i: "i \<le> 14" "even (i + 2)" using p(2,4) by presburger+
    let ?w = "word_at addr i" and ?d = "print_nat 16 (word_at addr i)"
    let ?follow = "(if i + 2 < 16 then '':'' else []) @ ipv6_tail addr r (i + 2) @ CHR '']'' # rest"
    have w: "?w < 65536" using p(1,3) i by (intro word_less) (auto simp: contraction_ok_def)
    have t: "ipv6_tail addr r i = ?d @ (if i + 2 < 16 then '':'' else []) @ ipv6_tail addr r (i + 2)"
      using p(1,3,5) i by (intro ipv6_tail_word) (auto simp: contraction_ok_def)
    have hw: "hex_words addr r i = ?w # hex_words addr r (i + 2)"
      by (subst hex_words.simps) (simp only: i p(5) if_True if_False)
    have spec: "spec = pre @ ?d @ ?follow" unfolding p(6) t by simp
    have e: "len pre + len ?d \<le> e" unfolding p(7) t by simp
    have "num_hex_components p < 8" using p(8) i by presburger
    note word = ipv6_scan_word [OF spec w e this]
    define j where "j = len pre + len ?d"
    define c where "c = Component (len pre) (j - len pre)"
    define p' where "p' = p\<lparr>hex_components := hex_components p @ [c]\<rparr>"
    have run: "ipv6_scan spec b e (len pre) (len pre) p = ipv6_scan spec b e j (len pre) p"
      "spells_hex spec ?w c" "end_component b e j ic (len pre) p = Some p'" for ic
      using word by (simp_all add: j_def c_def p'_def)
    have goal: ?thesis
      if "ipv6_scan spec b e j (len pre) p = Some (p'\<lparr>hex_components := hex_components p' @ cs, index_of_contraction := x\<rparr>)"
        "x = contraction_index r i p" "list_all2 (spells_hex spec) (hex_words addr r (i + 2)) cs" for cs x
      using that run(1,2) hw by (intro exI [of _ "c # cs"]) (simp add: p'_def)
    consider "i = 14" | "i < 14" "\<not> contracts_at r (i + 2)" | "i < 14" "contracts_at r (i + 2)" using i by linarith
    then show ?thesis
    proof cases
      case 1
      then have "e = j" "at spec j = CHR '']''"
        unfolding p(7) spec t by (simp_all add: j_def ipv6_tail_end at_def nth_append nat_add_distrib)
      then have "ipv6_scan spec b e j (len pre) p = Some p'"
        using ipv6_scan_end [of spec e b "len pre" p] run(3) by simp
      moreover have "contraction_index r i p = index_of_contraction p"
        using 1 p(1) by (auto simp: contraction_index_def contraction_ok_def zero_run_def c_end_def)
      ultimately show ?thesis
        using 1 by (intro goal [where cs = "[]"]) (simp_all add: p'_def hex_words.simps)
    next
      case 2
      obtain h t' where h: "ipv6_tail addr r (i + 2) = h # t'" "h \<noteq> CHR '':''"
      proof -
        have "i + 2 \<le> 14" using 2(1) p(2) by presburger
        then show ?thesis
          using tail_starts_with_digit [OF p(1) _ _ 2(2)] p(3) that by auto
      qed
      let ?pre = "pre @ ?d @ '':''"
      have spec': "spec = ?pre @ ipv6_tail addr r (i + 2) @ CHR '']'' # rest"
        using 2(1) unfolding spec by simp
      have at: "at spec j = CHR '':''" "at spec (j + 1) \<noteq> CHR '':''"
        using h at_sep [of "pre @ ?d" "CHR '':''"] at_sep2 [of "pre @ ?d" "CHR '':''"]
        unfolding spec' j_def by simp_all
      have e': "e = len ?pre + len (ipv6_tail addr r (i + 2))" "len ?pre = j + 1"
        unfolding p(7) t j_def using 2(1) by simp_all
      have step: "ipv6_scan spec b e j (len pre) p = ipv6_scan spec b e (len ?pre) (len ?pre) p'"
      proof -
        have "j < e" using e' h(1) by simp
        then show ?thesis unfolding e'(2) by (rule ipv6_scan_colon [OF _ at run(3)])
      qed
      have "\<exists>cs. ipv6_scan spec b e (len ?pre) (len ?pre) p' =
          Some (p'\<lparr>hex_components := hex_components p' @ cs, index_of_contraction := contraction_index r (i + 2) p'\<rparr>) \<and>
        list_all2 (spells_hex spec) (hex_words addr r (i + 2)) cs"
      proof (rule less.hyps [OF _ p(1) i(2) _ _ 2(2) spec' e'(1)])
        show "num_hex_components p' + (16 - (i + 2)) div 2 \<le> 8" using p(8) by (simp add: p'_def)
        show "c_len r > 0 \<and> i + 2 \<le> c_begin r \<longrightarrow> index_of_contraction p' = - 1"
          using p(9) by (simp add: p'_def)
      qed (use 2 p(3) in auto)
      then obtain cs where cs: "ipv6_scan spec b e j (len pre) p =
          Some (p'\<lparr>hex_components := hex_components p' @ cs, index_of_contraction := contraction_index r (i + 2) p'\<rparr>)"
        "list_all2 (spells_hex spec) (hex_words addr r (i + 2)) cs" using step by auto
      have "contraction_index r (i + 2) p' = contraction_index r i p"
      proof -
        have "even (c_begin r)" if "c_len r > 0" using that p(1) by (auto simp: contraction_ok_def zero_run_def)
        then have "c_len r > 0 \<Longrightarrow> i \<le> c_begin r \<Longrightarrow> i + 2 < c_begin r" using p(2,5) 2(2) by presburger
        then show ?thesis by (auto simp: contraction_index_def p'_def)
      qed
      then show ?thesis using cs by (intro goal)
    next
      case 3
      let ?pre = "pre @ ?d @ ''::''"
      have z: "zero_run addr r" using 3 p(1) by (simp add: contraction_ok_def)
      note zd = zero_runD [OF z]
      have cb14: "c_begin r \<le> 14" using zd(3,5,7) by linarith
      have t2: "ipv6_tail addr r (i + 2) = '':'' @ ipv6_tail addr r (c_end r)"
        using ipv6_tail_contraction [of "i + 2" r addr] 3 p(3) cb14 by simp
      have spec': "spec = ?pre @ ipv6_tail addr r (c_end r) @ CHR '']'' # rest"
        using 3(1) unfolding spec t2 by simp
      have at: "at spec j = CHR '':''" "at spec (j + 1) = CHR '':''"
        using at_sep [of "pre @ ?d" "CHR '':''"] at_sep2 [of "pre @ ?d" "CHR '':''"]
        unfolding spec' j_def by simp_all
      have e': "e = len ?pre + len (ipv6_tail addr r (c_end r))" "len ?pre = j + 2"
        unfolding p(7) t t2 j_def using 3(1) by simp_all
      have idx: "index_of_contraction p' = -1" using p(9) 3 by (simp add: p'_def)
      define p'' where "p'' = p'\<lparr>index_of_contraction := num_hex_components p'\<rparr>"
      have step: "ipv6_scan spec b e j (len pre) p = ipv6_scan spec b e (len ?pre) (len ?pre) p''"
      proof -
        have "j < e - 1" using e' by simp
        then show ?thesis unfolding e'(2) p''_def by (rule ipv6_scan_colons [OF _ at run(3) idx])
      qed
      have "\<exists>cs. ipv6_scan spec b e (len ?pre) (len ?pre) p'' =
          Some (p''\<lparr>hex_components := hex_components p'' @ cs, index_of_contraction := contraction_index r (c_end r) p''\<rparr>) \<and>
        list_all2 (spells_hex spec) (hex_words addr r (c_end r)) cs"
      proof (rule less.hyps [OF _ p(1) _ _ zd(5) _ spec' e'(1)])
        show "num_hex_components p'' + (16 - c_end r) div 2 \<le> 8"
          using p(8) 3 zd by (simp add: p'_def p''_def)
      qed (use 3 zd p(3) in \<open>auto simp: p''_def\<close>)
      then obtain cs where cs: "ipv6_scan spec b e j (len pre) p =
          Some (p''\<lparr>hex_components := hex_components p'' @ cs, index_of_contraction := contraction_index r (c_end r) p''\<rparr>)"
        "list_all2 (spells_hex spec) (hex_words addr r (c_end r)) cs" using step by auto
      have "contraction_index r (c_end r) p'' = contraction_index r i p"
        using 3 zd by (auto simp: contraction_index_def p'_def p''_def)
      moreover have "hex_words addr r (i + 2) = hex_words addr r (c_end r)"
        by (subst hex_words.simps) (use 3 cb14 in simp)
      ultimately show ?thesis using cs by (intro goal [where cs = cs]) (simp_all add: p''_def)
    qed
  qed
qed

lemma ipv6_scan_address:
  assumes "contraction_ok addr r" "spec = pre @ ipv6_tail addr r 0 @ CHR '']'' # rest"
    "e = len pre + len (ipv6_tail addr r 0)"
  shows "\<exists>cs. ipv6_scan spec (len pre) e (len pre) (len pre) reset_IPv6Parsed =
      Some (reset_IPv6Parsed\<lparr>hex_components := cs,
        index_of_contraction := (if c_len r > 0 then c_begin r div 2 else -1)\<rparr>) \<and>
    list_all2 (spells_hex spec) (hex_words addr r 0) cs"
proof (cases "contracts_at r 0")
  case True
  then have z: "zero_run addr r" using assms(1) by (simp add: contraction_ok_def)
  note zd = zero_runD [OF z]
  have t: "ipv6_tail addr r 0 = ''::'' @ ipv6_tail addr r (c_end r)"
    using True by (subst ipv6_tail_contraction) auto
  let ?pre = "pre @ ''::''" and ?p = "reset_IPv6Parsed\<lparr>index_of_contraction := 0\<rparr>"
  have spec: "spec = ?pre @ ipv6_tail addr r (c_end r) @ CHR '']'' # rest" using assms(2) t by simp
  have e: "e = len ?pre + len (ipv6_tail addr r (c_end r))" "len ?pre = len pre + 2"
    using assms(3) t by simp_all
  have at: "at spec (len pre) = CHR '':''" "at spec (len pre + 1) = CHR '':''"
    using at_sep [of pre "CHR '':''"] at_sep2 [of pre "CHR '':''"] by (simp_all add: spec)
  have ec: "end_component (len pre) e (len pre) True (len pre) reset_IPv6Parsed = Some reset_IPv6Parsed"
    by (simp add: end_component_def Let_def)
  have lt: "len pre < e - 1" using e by simp
  have start: "ipv6_scan spec (len pre) e (len pre) (len pre) reset_IPv6Parsed =
      ipv6_scan spec (len pre) e (len ?pre) (len ?pre) ?p"
    using ipv6_scan_colons [OF lt at ec] unfolding e(2) by (simp add: reset_IPv6Parsed_def)
  have "\<exists>cs. ipv6_scan spec (len pre) e (len ?pre) (len ?pre) ?p =
      Some (?p\<lparr>hex_components := hex_components ?p @ cs, index_of_contraction := contraction_index r (c_end r) ?p\<rparr>) \<and>
    list_all2 (spells_hex spec) (hex_words addr r (c_end r)) cs"
    by (rule ipv6_scan_words [OF assms(1) _ _ zd(5) _ spec e(1)])
      (use True zd in \<open>auto simp: reset_IPv6Parsed_def\<close>)
  moreover have "contraction_index r (c_end r) ?p = 0" using True zd by (simp add: contraction_index_def)
  moreover have "hex_words addr r 0 = hex_words addr r (c_end r)"
    by (subst hex_words.simps) (use True in simp)
  ultimately show ?thesis using start True by (simp add: reset_IPv6Parsed_def)
next
  case False
  have "\<exists>cs. ipv6_scan spec (len pre) e (len pre) (len pre) reset_IPv6Parsed =
      Some (reset_IPv6Parsed\<lparr>hex_components := hex_components reset_IPv6Parsed @ cs,
        index_of_contraction := contraction_index r 0 reset_IPv6Parsed\<rparr>) \<and>
    list_all2 (spells_hex spec) (hex_words addr r 0) cs"
    by (rule ipv6_scan_words [OF assms(1) _ _ _ False assms(2,3)])
      (auto simp: reset_IPv6Parsed_def)
  moreover have "contraction_index r 0 reset_IPv6Parsed = (if c_len r > 0 then c_begin r div 2 else -1)"
    using assms(1) by (auto simp: contraction_index_def reset_IPv6Parsed_def contraction_ok_def zero_run_def)
  ultimately show ?thesis by (simp add: reset_IPv6Parsed_def)
qed

section \<open>Assembling the bytes\<close>

lemma ipv6_bytes_Nil:
  "ipv6_bytes spec p n k [] acc = (if k = index_of_contraction p then acc @ replicate (nat n) 0 else acc)"
  by (subst ipv6_bytes.simps) simp

lemma ipv6_bytes_Cons:
  "ipv6_bytes spec p n k (c # cs) acc =
   ipv6_bytes spec p n (k + 1) cs
     ((if k = index_of_contraction p then acc @ replicate (nat n) 0 else acc) @
      [drop_bit 8 (IPv6HexComponentToNumber spec c AND 0xFF00), IPv6HexComponentToNumber spec c AND 0x00FF])"
  by (subst ipv6_bytes.simps) (simp only: Let_def list.case)

lemma ipv6_bytes_past:
  "index_of_contraction p < k \<Longrightarrow> index_of_contraction p' < k \<Longrightarrow>
   ipv6_bytes spec p n k cs acc = ipv6_bytes spec p' n k cs acc"
  by (induction cs arbitrary: k acc) (simp_all add: ipv6_bytes_Nil ipv6_bytes_Cons)

lemma ipv6_bytes_contraction:
  assumes "index_of_contraction p = k"
  shows "ipv6_bytes spec p n k cs acc =
    ipv6_bytes spec (p\<lparr>index_of_contraction := k - 1\<rparr>) n k cs (acc @ replicate (nat n) 0)"
proof (cases cs)
  case Nil
  then show ?thesis using assms by (simp add: ipv6_bytes_Nil)
next
  case (Cons c cs')
  let ?p = "p\<lparr>index_of_contraction := k - 1\<rparr>"
  have "ipv6_bytes spec p n (k + 1) cs' x = ipv6_bytes spec ?p n (k + 1) cs' x" for x
    by (rule ipv6_bytes_past) (simp_all add: assms)
  note past = this
  have k: "(k = index_of_contraction p) = True" "(k = index_of_contraction ?p) = False"
    using assms by simp_all
  show ?thesis
    unfolding Cons ipv6_bytes_Cons k if_True if_False by (rule past)
qed

lemma seg_zeros:
  assumes "zeros addr b e" "even b" "0 \<le> b" "e \<le> len addr"
  shows "seg addr b e = replicate (nat (e - b)) 0"
proof (rule replicate_eqI)
  show "length (seg addr b e) = nat (e - b)"
    using assms(3,4) by (simp add: seg_def)
next
  fix y assume "y \<in> set (seg addr b e)"
  from in_set_seg [OF this assms(3,4)] obtain i where i: "b \<le> i" "i < e" "y = at addr i" by blast
  show "y = 0"
  proof (cases "even i")
    case True
    then show ?thesis using i assms(1) by (auto simp: zeros_def zero_group_def)
  next
    case False
    then have "even (i - 1)" "b \<le> i - 1" using i(1) assms(2) by presburger+
    then have "zero_group addr (i - 1)" using i assms(1) by (auto simp: zeros_def)
    then show ?thesis using i by (simp add: zero_group_def)
  qed
qed

lemma ipv6_bytes_words:
  assumes "contraction_ok addr r" "even i" "0 \<le> i" "i \<le> 16"
    "list_all2 (spells_hex spec) (hex_words addr r i) cs"
    "if c_len r > 0 \<and> i \<le> c_begin r
     then index_of_contraction p = k + (c_begin r - i) div 2 \<and> n = c_len r
     else index_of_contraction p < k"
  shows "ipv6_bytes spec p n k cs acc = acc @ seg addr i 16"
  using assms
proof (induction "nat (16 - i)" arbitrary: i k p cs acc rule: less_induct)
  case less
  note p = less.prems
  have addr: "len addr = 16" "byte_list addr" using p(1) by (simp_all add: contraction_ok_def)
  have "i = 16 \<or> i \<le> 14" using p(2,4) by presburger
  then consider "i = 16" | "i \<le> 14" "contracts_at r i" | "i \<le> 14" "\<not> contracts_at r i" by blast
  then show ?case
  proof cases
    case 1
    have "\<not> (c_len r > 0 \<and> 16 \<le> c_begin r)"
      using p(1) by (auto simp: contraction_ok_def zero_run_def c_end_def)
    then have "index_of_contraction p \<noteq> k" using p(6) 1 by (auto split: if_splits)
    moreover have "cs = []" using p(5) 1 by (simp add: hex_words.simps)
    ultimately show ?thesis using 1 by (simp add: ipv6_bytes_Nil)
  next
    case 2
    then have z: "zero_run addr r" using p(1) by (simp add: contraction_ok_def)
    note zd = zero_runD [OF z]
    have idx: "index_of_contraction p = k" "n = c_len r" using p(6) 2 by simp_all
    have hw: "hex_words addr r i = hex_words addr r (c_end r)"
      by (subst hex_words.simps) (use 2 in simp)
    have "ipv6_bytes spec (p\<lparr>index_of_contraction := k - 1\<rparr>) n k cs (acc @ replicate (nat n) 0)
        = (acc @ replicate (nat n) 0) @ seg addr (c_end r) 16"
      by (rule less.hyps [OF _ p(1) _ _ zd(5)]) (use 2 zd p(3,5) hw in auto)
    moreover have "seg addr i 16 = replicate (nat n) 0 @ seg addr (c_end r) 16"
      using seg_split [of i "c_end r" 16 addr] seg_zeros [OF zd(6,1,4)] zd 2 idx(2) addr by simp
    ultimately show ?thesis using ipv6_bytes_contraction [OF idx(1)] by simp
  next
    case 3
    let ?w = "word_at addr i"
    have hw: "hex_words addr r i = ?w # hex_words addr r (i + 2)"
      by (subst hex_words.simps) (simp only: 3 if_True if_False)
    then obtain c cs' where cs: "cs = c # cs'" "spells_hex spec ?w c"
        "list_all2 (spells_hex spec) (hex_words addr r (i + 2)) cs'"
      using p(5) by (auto simp: list_all2_Cons1)
    have w: "?w < 65536" using addr 3 p(3) by (intro word_less) auto
    have idx: "index_of_contraction p \<noteq> k"
      using p(6) 3 p(1,2) by (auto simp: contraction_ok_def zero_run_def split: if_splits)
    have step: "ipv6_bytes spec p n k cs acc =
        ipv6_bytes spec p n (k + 1) cs' (acc @ [at addr i, at addr (i + 1)])"
      using idx word_bytes [OF w] word_split [of addr i] addr 3 p(3) hex_component [OF cs(2)]
      by (simp add: ipv6_bytes_Cons cs(1))
    have ev: "c_len r > 0 \<Longrightarrow> even (c_begin r)" using p(1) by (auto simp: contraction_ok_def zero_run_def)
    have "ipv6_bytes spec p n (k + 1) cs' (acc @ [at addr i, at addr (i + 1)]) =
        (acc @ [at addr i, at addr (i + 1)]) @ seg addr (i + 2) 16"
    proof (rule less.hyps [OF _ p(1) _ _ _ cs(3)])
      show "if c_len r > 0 \<and> i + 2 \<le> c_begin r
        then index_of_contraction p = k + 1 + (c_begin r - (i + 2)) div 2 \<and> n = c_len r
        else index_of_contraction p < k + 1"
      proof (cases "c_len r > 0 \<and> i \<le> c_begin r")
        case True
        then have "i + 2 \<le> c_begin r" using ev 3(2) p(2) by presburger
        then show ?thesis using p(6) True by simp
      next
        case False
        then show ?thesis using p(6) by auto
      qed
    qed (use 3 p(2,3) in auto)
    moreover have "seg addr i 16 = [at addr i, at addr (i + 1)] @ seg addr (i + 2) 16"
      using seg_Cons [of i 16 addr] seg_Cons [of "i + 1" 16 addr] 3 p(3) addr by (simp add: add.assoc)
    ultimately show ?thesis using step by simp
  qed
qed

lemma length_hex_words:
  assumes "contraction_ok addr r" "even i" "0 \<le> i" "i \<le> 16"
  shows "len (hex_words addr r i) =
    (16 - i - (if c_len r > 0 \<and> i \<le> c_begin r then c_len r else 0)) div 2"
  using assms
proof (induction "nat (16 - i)" arbitrary: i rule: less_induct)
  case less
  note p = less.prems
  have ev: "c_len r > 0 \<Longrightarrow> zero_run addr r" using p(1) by (simp add: contraction_ok_def)
  have "i = 16 \<or> i \<le> 14" using p(2,4) by presburger
  then consider "i = 16" | "i \<le> 14" "contracts_at r i" | "i \<le> 14" "\<not> contracts_at r i" by blast
  then show ?case
  proof cases
    case 1
    then show ?thesis using ev by (auto simp: hex_words.simps zero_run_def c_end_def)
  next
    case 2
    note zd = zero_runD [OF ev [OF conjunct2 [OF 2(2)]]]
    have "hex_words addr r i = hex_words addr r (c_end r)"
      by (subst hex_words.simps) (use 2 in simp)
    moreover have "len (hex_words addr r (c_end r)) =
      (16 - c_end r - (if c_len r > 0 \<and> c_end r \<le> c_begin r then c_len r else 0)) div 2"
      by (rule less.hyps [OF _ p(1) _ _ zd(5)]) (use 2 zd p(3) in auto)
    ultimately show ?thesis using 2 zd by simp
  next
    case 3
    have "hex_words addr r i = word_at addr i # hex_words addr r (i + 2)"
      by (subst hex_words.simps) (simp only: 3 if_True if_False)
    moreover have "len (hex_words addr r (i + 2)) =
      (16 - (i + 2) - (if c_len r > 0 \<and> i + 2 \<le> c_begin r then c_len r else 0)) div 2"
      by (rule less.hyps [OF _ p(1)]) (use 3 p(2,3) in auto)
    moreover have "c_len r > 0 \<and> i \<le> c_begin r \<longrightarrow> i + 2 \<le> c_begin r"
    proof (intro impI)
      assume c: "c_len r > 0 \<and> i \<le> c_begin r"
      then have "even (c_begin r)" using ev zero_runD(1) by blast
      then show "i + 2 \<le> c_begin r" using c 3(2) p(2) by presburger
    qed
    moreover have "c_len r > 0 \<Longrightarrow> i + 2 \<le> c_begin r \<Longrightarrow> c_len r \<le> 16 - (i + 2)"
      using ev zero_runD(5,7) [of addr r] by fastforce
    ultimately show ?thesis using 3 p(2) by auto
  qed
qed

lemma ipv6_reads_back:
  fixes out :: str
  assumes "length addr = 16" "list_all (\<lambda>b. b < 256) addr"
  defines "t6 \<equiv> push_back CHR '']'' (AppendIPv6Address addr (push_back CHR ''['' out))"
  shows "IPv6AddressToNumber t6 (MakeRange (len out) (len t6)) = Some addr"
proof -
  let ?r = "ChooseIPv6ContractionRange addr" and ?pre = "out @ ''[''"
  let ?t = "ipv6_tail addr (ChooseIPv6ContractionRange addr) 0"
  have addr: "len addr = 16" "byte_list addr" using assms by (simp_all add: byte_list_def)
  have best: "?r = no_component \<or> zero_run addr ?r"
    using contraction_best [of addr] by (simp add: longest_zero_run_def)
  then have ok: "contraction_ok addr ?r" using addr by (auto simp: contraction_ok_def)
  define e where "e = len ?pre + len ?t"
  have t6: "t6 = ?pre @ ?t @ CHR '']'' # []"
    using ipv6_text_writer [of addr ?r 0 ?pre] by (simp add: t6_def push_back_def AppendIPv6Address_def)
  have l: "len t6 = e + 1" "len out + 1 = len ?pre" "len ?pre \<le> e" by (simp_all add: t6 e_def)
  have at: "at t6 (len out) = CHR ''[''" "at t6 e = CHR '']''"
    unfolding t6 e_def by (simp_all add: at_def nth_append nat_add_distrib)
  have pos: "len ?pre < e"
  proof -
    have "?t \<noteq> []"
      using tail_starts_with_digit [OF ok, of 0] ipv6_tail_contraction [of 0 ?r addr] by (cases "contracts_at ?r 0") auto
    then show ?thesis by (simp add: e_def)
  qed
  obtain cs where cs: "ipv6_scan t6 (len ?pre) e (len ?pre) (len ?pre) reset_IPv6Parsed =
      Some (reset_IPv6Parsed\<lparr>hex_components := cs,
        index_of_contraction := (if c_len ?r > 0 then c_begin ?r div 2 else -1)\<rparr>)"
    "list_all2 (spells_hex t6) (hex_words addr ?r 0) cs"
    using ipv6_scan_address [OF ok t6 e_def] by blast
  define p where "p = reset_IPv6Parsed\<lparr>hex_components := cs,
        index_of_contraction := (if c_len ?r > 0 then c_begin ?r div 2 else -1)\<rparr>"
  have comp: "Component (len out + 1) (len t6 - len out - 2) = MakeRange (len ?pre) e"
    using l by (simp add: MakeRange_def)
  have parse: "DoParseIPv6 t6 (MakeRange (len ?pre) e) = Some p"
    using cs(1) pos by (simp add: DoParseIPv6_def p_def is_nonempty_def)
  have sel: "hex_components p = cs" "\<not> is_valid (ipv4_component p)"
    "index_of_contraction p = (if c_len ?r > 0 then c_begin ?r div 2 else -1)"
    by (simp_all add: p_def reset_IPv6Parsed_def)
  have z: "c_len ?r > 0 \<Longrightarrow> even (c_len ?r) \<and> 2 < c_len ?r \<and> c_len ?r \<le> 16 \<and> 0 \<le> c_begin ?r"
    using best zero_runD [of addr ?r] by auto
  have num: "len cs * 2 = 16 - (if c_len ?r > 0 then c_len ?r else 0)"
    using length_hex_words [OF ok, of 0] list_all2_lengthD [OF cs(2)] z by (auto split: if_splits)
  have size: "CheckIPv6ComponentsSize p = Some (if c_len ?r > 0 then c_len ?r else 0)"
    using num z sel by (auto simp: CheckIPv6ComponentsSize_def Let_def)
  have bytes: "ipv6_bytes t6 p (if c_len ?r > 0 then c_len ?r else 0) 0 cs [] = [] @ seg addr 0 16"
    by (rule ipv6_bytes_words [OF ok _ _ _ cs(2)]) (use sel z in auto)
  have all: "seg addr 0 16 = addr" using seg_all [of addr] addr by simp
  have "len t6 - len out - 2 = e - len out - 1" using l by simp
  then have parse': "DoParseIPv6 t6 (Component (len out + 1) (e - len out - 1)) = Some p"
    using parse comp by metis
  show ?thesis
    using l at pos parse' size bytes sel
    by (simp add: IPv6AddressToNumber_def is_nonempty_def all)
qed

text \<open>
  C22. The IPv6 reader inverts the IPv6 writer: the bracketed text of any sixteen bytes, with
  the contraction wherever the writer puts it, is read back as these bytes.
\<close>

theorem ipv6_round_trip:
  fixes out :: str
  assumes "length addr = 16" "list_all (\<lambda>b. b < 256) addr"
  defines "t6 \<equiv> push_back CHR '']'' (AppendIPv6Address addr (push_back CHR ''['' out))"
  shows "IPv6AddressToNumber t6 (MakeRange (len out) (len t6)) = Some addr"
  unfolding assms(3) using assms(1,2) by (rule ipv6_reads_back)

theorem ipv6_round_trip_witness:
  "IPv6AddressToNumber
    (push_back CHR '']'' (AppendIPv6Address [32, 1, 13, 184, 0, 0, 0, 0, 0, 0, 0, 0, 0, 0, 0, 1] (push_back CHR ''['' ''//'')))
    (MakeRange 2 (len (push_back CHR '']'' (AppendIPv6Address [32, 1, 13, 184, 0, 0, 0, 0, 0, 0, 0, 0, 0, 0, 0, 1] (push_back CHR ''['' ''//'')))))
   = Some [32, 1, 13, 184, 0, 0, 0, 0, 0, 0, 0, 0, 0, 0, 0, 1]"
  using ipv6_round_trip [of "[32, 1, 13, 184, 0, 0, 0, 0, 0, 0, 0, 0, 0, 0, 0, 1]" "''//''"] by simp

end
