(* ===== verification/Url_Host.thy ===== *)
theory Url_Host
  imports Url_Ip6_Laws
begin

unbundle bit_operations_syntax

text \<open>
  Host names: \<open>url_canon_host.cc\<close>.  The templates that the code instantiates at both
  widths work on lists of code units here; the unit of a \<open>char\<close> is its byte.
\<close>

section \<open>Character table\<close>

definition kEsc :: nat where "kEsc = 255"

definition kHostCharLookup :: "nat list" where
  "kHostCharLookup =
    replicate 32 0 @
    [kEsc, kEsc, kEsc, kEsc, kEsc, 0, kEsc, kEsc, kEsc, kEsc, kEsc, byte CHR ''+'', kEsc, byte CHR ''-'', byte CHR ''.'', 0]
    @ map (\<lambda>c. byte c) ''0123456789:'' @ [0, kEsc, kEsc, kEsc, 0, kEsc]
    @ map (\<lambda>c. byte c) ''abcdefghijklmnopqrstuvwxyz['' @ [0, byte CHR '']'', 0, byte CHR ''_'', kEsc]
    @ map (\<lambda>c. byte c) ''abcdefghijklmnopqrstuvwxyz'' @ [kEsc, kEsc, kEsc, 0, 0]"

section \<open>Wide characters\<close>

text \<open>\<open>DecodeEscaped\<close> on code units of either width.\<close>

definition decode_units :: "nat list \<Rightarrow> int \<Rightarrow> int \<Rightarrow> (nat \<times> int) option" where
  "decode_units spec b e =
     (if b + 3 > e \<or> at spec (b + 1) > 255 \<or> at spec (b + 2) > 255 then None
      else let first = at spec (b + 1); second = at spec (b + 2)
      in if \<not> IsHexChar first \<or> \<not> IsHexChar second then None
         else Some ((push_bit 4 (HexCharToValue first) + HexCharToValue second) mod 256, b + 2))"

definition escape_units :: "nat \<Rightarrow> nat list \<Rightarrow> nat list" where
  "escape_units ch out =
     out @ [byte CHR ''%'', byte (kHexCharLookup ! (drop_bit 4 ch AND 15)), byte (kHexCharLookup ! (ch AND 15))]"

text \<open>The 16-bit reader of the build fails like the 8-bit one.\<close>

definition ReadUTFChar16 :: "nat list \<Rightarrow> int \<Rightarrow> int \<Rightarrow> bool \<times> nat \<times> int" where
  "ReadUTFChar16 s b l = (False, kUnicodeReplacementCharacter, b)"

function AppendInvalidNarrowString16 :: "nat list \<Rightarrow> int \<Rightarrow> int \<Rightarrow> str \<Rightarrow> str" where
  "AppendInvalidNarrowString16 spec i e out =
     (if i < e then
        (let uch = at spec i
         in if uch \<ge> 0x80
            then (let (success, ch, i') = ReadUTFChar16 spec i e
                  in AppendInvalidNarrowString16 spec (i' + 1) e (AppendUTF8EscapedValue ch out))
            else if uch \<le> byte CHR '' '' \<or> uch = 0x7f
            then AppendInvalidNarrowString16 spec (i + 1) e (AppendEscapedChar uch out)
            else AppendInvalidNarrowString16 spec (i + 1) e (push_back (char_of uch) out))
      else out)"
  by pat_completeness auto
termination
  by (relation "measure (\<lambda>(s, i, e, out). nat (e - i))") (auto simp: ReadUTFChar16_def)

declare AppendInvalidNarrowString16.simps [simp del]

section \<open>Scanning and simple hosts\<close>

text \<open>\<open>has_non_ascii\<close> and \<open>has_escaped\<close>.\<close>

definition ScanHostname :: "str \<Rightarrow> component \<Rightarrow> bool \<times> bool" where
  "ScanHostname spec host =
     (list_ex (\<lambda>c. byte c \<ge> 0x80) (component_str spec host),
      list_ex (\<lambda>c. \<not> byte c \<ge> 0x80 \<and> c = CHR ''%'') (component_str spec host))"

text \<open>
  The loop of \<open>DoSimpleHost\<close> from index \<open>i\<close>: success, \<open>has_non_ascii\<close> and the output.
  \<open>out_max\<close> is the number of values of the output's code unit.
\<close>

function simple_host_scan ::
    "nat \<Rightarrow> nat list \<Rightarrow> int \<Rightarrow> int \<Rightarrow> bool \<Rightarrow> bool \<Rightarrow> nat list \<Rightarrow> bool \<times> bool \<times> nat list" where
  "simple_host_scan out_max host host_len i success has_non_ascii out =
     (if i < host_len then
        (case (if at host i = byte CHR ''%'' then decode_units host i host_len else Some (at host i, i)) of
           None \<Rightarrow> simple_host_scan out_max host host_len (i + 1) False has_non_ascii
                     (escape_units (byte CHR ''%'') out)
         | Some (source, i') \<Rightarrow>
             if source < 0x80 then
               (let replacement = kHostCharLookup ! source
                in if replacement = 0
                   then simple_host_scan out_max host host_len (i' + 1) False has_non_ascii (escape_units source out)
                   else if replacement = kEsc
                   then simple_host_scan out_max host host_len (i' + 1) success has_non_ascii (escape_units source out)
                   else simple_host_scan out_max host host_len (i' + 1) success has_non_ascii (out @ [replacement]))
             else simple_host_scan out_max host host_len (i' + 1) success True (out @ [source mod out_max]))
      else (success, has_non_ascii, out))"
  by pat_completeness auto
termination
  by (relation "measure (\<lambda>(m, h, l, i, s, n, out). nat (l - i))")
    (auto simp: decode_units_def Let_def split: if_splits)

declare simple_host_scan.simps [simp del]

text \<open>
  The 8-bit instance.  The pointer \<open>&spec[host.begin]\<close> and the length that the code passes
  are the string \<open>host\<close> they delimit.
\<close>

definition DoSimpleHost :: "str \<Rightarrow> str \<Rightarrow> bool \<times> bool \<times> str" where
  "DoSimpleHost host out =
     (let (success, has_non_ascii, units) =
            simple_host_scan 256 (map (\<lambda>c. byte c) host) (len host) 0 True False (map (\<lambda>c. byte c) out)
      in (success, has_non_ascii, map char_of units))"

section \<open>International names\<close>

text \<open>
  \<open>IDNToASCII\<close> is the placeholder of \<open>src/url/url_canon.cpp\<close>: it fails on every input.
\<close>

definition IDNToASCII :: "nat list \<Rightarrow> nat list option" where
  "IDNToASCII src = None"

definition DoIDNHost :: "nat list \<Rightarrow> str \<Rightarrow> bool \<times> str" where
  "DoIDNHost src out =
     (let (ok, non_ascii, url_escaped_host) = simple_host_scan 65536 src (len src) 0 True False []
      in case IDNToASCII url_escaped_host of
           None \<Rightarrow> (False, AppendInvalidNarrowString16 src 0 (len src) out)
         | Some wide_output \<Rightarrow>
             (let (success, has_non_ascii, units) =
                    simple_host_scan 256 wide_output (len wide_output) 0 True False (map (\<lambda>c. byte c) out)
              in if has_non_ascii
                 then (False, AppendInvalidNarrowString16 wide_output 0 (len wide_output) out)
                 else (success, map char_of units)))"

text \<open>
  \<open>DoComplexHost\<close> for 8-bit input.  The output may serve as a buffer for the unescaped
  name; \<open>set_length\<close> drops it again.
\<close>

definition DoComplexHost :: "str \<Rightarrow> bool \<Rightarrow> bool \<Rightarrow> str \<Rightarrow> bool \<times> str" where
  "DoComplexHost host has_non_ascii has_escaped out =
     (let begin_length = length out;
          (ok, non_ascii, out1) =
            (if has_escaped then DoSimpleHost host out else (True, has_non_ascii, out))
      in if has_escaped \<and> \<not> ok then (False, out1)
         else if has_escaped \<and> \<not> non_ascii then (True, out1)
         else let utf8_source = (if has_escaped then drop begin_length out1 else host);
                  (converted, utf16) = ConvertUTF8ToUTF16 utf8_source (len utf8_source) 0 True []
         in if \<not> converted
            then (False, AppendInvalidNarrowString utf8_source 0 (len utf8_source) (take begin_length out1))
            else DoIDNHost utf16 (take begin_length out1))"

definition DoHost :: "str \<Rightarrow> component \<Rightarrow> str \<Rightarrow> CanonHostInfo \<Rightarrow> str \<times> CanonHostInfo" where
  "DoHost spec host out info =
     (if c_len host \<le> 0 then (out, info\<lparr>family := NEUTRAL, out_host := no_component\<rparr>)
      else let (has_non_ascii, has_escaped) = ScanHostname spec host;
               output_begin = len out;
               host_text = component_str spec host;
               (success, out1) =
                 (if \<not> has_non_ascii \<and> \<not> has_escaped
                  then (let (ok, non_ascii, o') = DoSimpleHost host_text out in (ok, o'))
                  else DoComplexHost host_text has_non_ascii has_escaped out);
               (out2, info2) =
                 (if \<not> success then (out1, info\<lparr>family := BROKEN\<rparr>)
                  else let (canon_ip, info1) =
                         CanonicalizeIPAddress out1 (MakeRange output_begin (len out1)) [] info
                  in (if IsIPAddress info1 then take (nat output_begin) out1 @ canon_ip else out1, info1))
           in (out2, info2\<lparr>out_host := MakeRange output_begin (len out2)\<rparr>))"

text \<open>Success, the output component and the output.\<close>

definition CanonicalizeHost :: "str \<Rightarrow> component \<Rightarrow> str \<Rightarrow> bool \<times> component \<times> str" where
  "CanonicalizeHost spec host out =
     (let (out', host_info) = DoHost spec host out new_host_info
      in (family host_info \<noteq> BROKEN, out_host host_info, out'))"

end
