(* ===== verification/Url_Host_Laws.thy ===== *)
theory Url_Host_Laws
  imports Url_Host
begin

unbundle bit_operations_syntax

text \<open>
  Host names (\<open>url_canon_host.cc\<close>): what the table of \<open>DoSimpleHost\<close> makes of a
  decoded name, and that an accepted host is a fixed point of the canonicalizer.
\<close>

section \<open>Decoded hosts\<close>

text \<open>What \<open>DoSimpleHost\<close> sees: bytes after unescaping, or a percent sign without digits.\<close>

function host_decode :: "nat list \<Rightarrow> nat option list" where
  "host_decode [] = []"
| "host_decode (c # rest) =
     (if c = 37 then
        (case rest of
           a # b # rest' \<Rightarrow>
             if a \<le> 255 \<and> b \<le> 255 \<and> IsHexChar a \<and> IsHexChar b
             then Some ((push_bit 4 (HexCharToValue a) + HexCharToValue b) mod 256) # host_decode rest'
             else None # host_decode rest
         | _ \<Rightarrow> None # host_decode rest)
      else Some c # host_decode rest)"
  by pat_completeness auto
termination
  by (relation "measure length") auto

declare host_decode.simps(2) [simp del]

fun host_token :: "nat \<Rightarrow> nat option \<Rightarrow> nat list" where
  "host_token m None = map (\<lambda>c. byte c) (escaped 37)"
| "host_token m (Some b) =
     (if b \<ge> 128 then [b mod m]
      else if kHostCharLookup ! b = 0 \<or> kHostCharLookup ! b = kEsc then map (\<lambda>c. byte c) (escaped b)
      else [kHostCharLookup ! b])"

fun token_ok :: "nat option \<Rightarrow> bool" where
  "token_ok None = False"
| "token_ok (Some b) = (b \<ge> 128 \<or> kHostCharLookup ! b \<noteq> 0)"

fun token_wide :: "nat option \<Rightarrow> bool" where
  "token_wide None = False"
| "token_wide (Some b) = (b \<ge> 128)"

lemma escape_units_eq: "escape_units ch out = out @ map (\<lambda>c. byte c) (escaped ch)"
  by (simp add: escape_units_def escaped_def drop_bit_eq_div and_mask)

lemma drop_at: "0 \<le> i \<Longrightarrow> i < len h \<Longrightarrow> drop (nat i) h = at h i # drop (nat (i + 1)) h"
  by (simp add: at_def nat_add_distrib Cons_nth_drop_Suc)

lemma host_decode_drop:
  assumes "0 \<le> i" "i < len h"
  shows "host_decode (drop (nat i) h) =
    (case (if at h i = 37 then decode_units h i (len h) else Some (at h i, i)) of
       None \<Rightarrow> None # host_decode (drop (nat (i + 1)) h)
     | Some (source, i') \<Rightarrow> Some source # host_decode (drop (nat (i' + 1)) h))"
proof -
  have d: "drop (nat i) h = at h i # drop (nat (i + 1)) h" using assms by (rule drop_at)
  show ?thesis
  proof (cases "at h i = 37")
    case False
    then show ?thesis using d by (simp add: host_decode.simps)
  next
    case True
    show ?thesis
    proof (cases "i + 3 > len h")
      case short: True
      then have "length (drop (nat (i + 1)) h) < 2" using assms by (simp add: nat_add_distrib)
      then have "host_decode (drop (nat i) h) = None # host_decode (drop (nat (i + 1)) h)"
        using d True by (cases "drop (nat (i + 1)) h" rule: list.exhaust)
          (auto simp: host_decode.simps split: list.splits)
      then show ?thesis using True short by (simp add: decode_units_def)
    next
      case False
      have "drop (nat (i + 1)) h = at h (i + 1) # at h (i + 2) # drop (nat (i + 3)) h"
        using drop_at [of "i + 1" h] drop_at [of "i + 2" h] assms False by (simp add: add.assoc)
      then show ?thesis using d True False
        by (auto simp: host_decode.simps decode_units_def Let_def add.commute)
    qed
  qed
qed

lemma decode_units_index: "decode_units h i l = Some (s, i') \<Longrightarrow> i' = i + 2"
  by (auto simp: decode_units_def Let_def split: if_splits)

lemma simple_host_eq:
  assumes "0 \<le> i"
  shows "simple_host_scan m h (len h) i success wide out =
    (success \<and> list_all token_ok (host_decode (drop (nat i) h)),
     wide \<or> list_ex token_wide (host_decode (drop (nat i) h)),
     out @ concat (map (host_token m) (host_decode (drop (nat i) h))))"
  using assms
proof (induction "nat (len h - i)" arbitrary: i success wide out rule: less_induct)
  case less
  show ?case
  proof (cases "i < len h")
    case False
    then show ?thesis using less.prems by (simp add: simple_host_scan.simps)
  next
    case True
    note dd = host_decode_drop [OF less.prems True]
    let ?src = "if at h i = 37 then decode_units h i (len h) else Some (at h i, i)"
    have unf: "simple_host_scan m h (len h) i success wide out =
      (case ?src of
         None \<Rightarrow> simple_host_scan m h (len h) (i + 1) False wide (escape_units 37 out)
       | Some (b, i') \<Rightarrow>
           if b < 0x80 then
             (if kHostCharLookup ! b = 0 then simple_host_scan m h (len h) (i' + 1) False wide (escape_units b out)
              else if kHostCharLookup ! b = kEsc then simple_host_scan m h (len h) (i' + 1) success wide (escape_units b out)
              else simple_host_scan m h (len h) (i' + 1) success wide (out @ [kHostCharLookup ! b]))
           else simple_host_scan m h (len h) (i' + 1) success True (out @ [b mod m]))"
    proof -
      have pct: "(of_char CHR ''%'' :: nat) = 37" by simp
      show ?thesis by (subst simple_host_scan.simps) (simp only: True if_True Let_def pct)
    qed
    show ?thesis
    proof (cases ?src)
      case None
      have "nat (len h - (i + 1)) < nat (len h - i)" using True by simp
      from less.hyps [OF this] show ?thesis
        using None dd unf less.prems by (simp add: escape_units_eq)
    next
      case (Some bi)
      then obtain b i' where s: "?src = Some (b, i')" by (cases bi) auto
      have i': "i \<le> i'" using s decode_units_index [of h i "len h" b i'] by (auto split: if_splits)
      then have "nat (len h - (i' + 1)) < nat (len h - i)" using True by simp
      note IH = less.hyps [OF this]
      have "0 \<le> i' + 1" using i' less.prems by simp
      note IH = IH [OF this]
      show ?thesis
        unfolding unf dd unfolding s option.case prod.case
        by (simp add: IH escape_units_eq not_less)
    qed
  qed
qed

abbreviation units :: "str \<Rightarrow> nat list" where "units s \<equiv> map (\<lambda>c. byte c) s"

definition host_tokens :: "str \<Rightarrow> nat option list" where
  "host_tokens host = host_decode (units host)"

definition tokens_text :: "nat option list \<Rightarrow> str" where
  "tokens_text ts = map char_of (concat (map (host_token 256) ts))"

lemma DoSimpleHost_eq:
  "DoSimpleHost host out =
    (list_all token_ok (host_tokens host), list_ex token_wide (host_tokens host),
     out @ tokens_text (host_tokens host))"
  using simple_host_eq [of 0 256 "units host" True False "units out"]
  by (simp add: DoSimpleHost_def host_tokens_def tokens_text_def comp_def)

section \<open>Canonical host characters\<close>

text \<open>A character that the table maps to itself.\<close>

definition host_fixed :: "nat \<Rightarrow> bool" where
  "host_fixed c \<longleftrightarrow> 0 < c \<and> c < 128 \<and> c \<noteq> 37 \<and> kHostCharLookup ! c = c"

lemma lookup_fixed:
  assumes "b < 128" "kHostCharLookup ! b \<noteq> 0" "kHostCharLookup ! b \<noteq> kEsc"
  shows "host_fixed (kHostCharLookup ! b)"
proof -
  have "(\<lambda>f. f = 0 \<or> f = kEsc \<or> host_fixed f) (kHostCharLookup ! b) = (\<lambda>_. True) b"
    by (rule table_nth [OF _ assms(1), where f = "\<lambda>f. f = 0 \<or> f = kEsc \<or> host_fixed f"]) code_simp
  then show ?thesis using assms by simp
qed

lemma host_fixed_nonzero: "host_fixed c \<Longrightarrow> kHostCharLookup ! c \<noteq> 0 \<and> kHostCharLookup ! c \<noteq> kEsc"
  by (simp add: host_fixed_def kEsc_def)

lemma host_fixed_token: "host_fixed c \<Longrightarrow> host_token m (Some c) = [c] \<and> token_ok (Some c) \<and> \<not> token_wide (Some c)"
  using host_fixed_nonzero [of c] by (auto simp: host_fixed_def)

lemma host_decode_fixed: "host_fixed c \<Longrightarrow> host_decode (c # rest) = Some c # host_decode rest"
  by (simp add: host_decode.simps host_fixed_def)

lemma host_decode_escape:
  assumes "b < 256"
  shows "host_decode (units (escaped b) @ rest) = Some b # host_decode rest"
proof -
  have h: "(b div 16 * 16 + b mod 16) mod 256 = b" "b div 16 < 16" using assms by simp_all
  show ?thesis
    using hex_digit [of "b div 16"] hex_digit [of "b mod 16"] h byte_less
    by (simp add: escaped_def host_decode.simps push_bit_eq_mult less_imp_le_nat less_Suc_eq_le [symmetric])
qed

text \<open>The text of a valid name, and what it decodes to.\<close>

definition plain_ok :: "nat option \<Rightarrow> bool" where
  "plain_ok t \<longleftrightarrow> token_ok t \<and> \<not> token_wide t"

fun norm_token :: "nat option \<Rightarrow> nat option" where
  "norm_token None = None"
| "norm_token (Some b) = (if kHostCharLookup ! b = kEsc then Some b else Some (kHostCharLookup ! b))"

lemma token_step:
  assumes "plain_ok t"
  shows "host_decode (host_token 256 t @ rest) = norm_token t # host_decode rest"
    "host_token 256 (norm_token t) = host_token 256 t" "plain_ok (norm_token t)"
proof -
  obtain b where b: "t = Some b" "b < 128" "kHostCharLookup ! b \<noteq> 0"
    using assms by (cases t) (auto simp: plain_ok_def)
  have "host_decode (host_token 256 t @ rest) = norm_token t # host_decode rest \<and>
    host_token 256 (norm_token t) = host_token 256 t \<and> plain_ok (norm_token t)"
  proof (cases "kHostCharLookup ! b = kEsc")
    case True
    then show ?thesis using b host_decode_escape [of b rest]
      by (simp add: plain_ok_def kEsc_def)
  next
    case False
    have f: "host_fixed (kHostCharLookup ! b)" using lookup_fixed b False by blast
    then show ?thesis
      using b False host_fixed_token [OF f, of 256] host_decode_fixed [OF f, of rest]
        host_fixed_nonzero [OF f]
      by (simp add: plain_ok_def del: host_token.simps(2)) (simp add: not_le)
  qed
  then show "host_decode (host_token 256 t @ rest) = norm_token t # host_decode rest"
    "host_token 256 (norm_token t) = host_token 256 t" "plain_ok (norm_token t)" by blast+
qed

lemma tokens_again:
  assumes "list_all plain_ok ts"
  shows "host_decode (concat (map (host_token 256) ts)) = map norm_token ts"
    "concat (map (host_token 256) (map norm_token ts)) = concat (map (host_token 256) ts)"
    "list_all plain_ok (map norm_token ts)"
  using assms by (induction ts) (simp_all add: token_step)

lemma token_bytes: "plain_ok t \<Longrightarrow> b \<in> set (host_token 256 t) \<Longrightarrow> b < 128"
proof -
  assume t: "plain_ok t" "b \<in> set (host_token 256 t)"
  have hex: "d < 16 \<Longrightarrow> byte (kHexCharLookup ! d) < 128" for d
    by (rule upt_all [where m = 0 and n = 16]) (code_simp, simp_all)
  obtain c where c: "t = Some c" "c < 128" "kHostCharLookup ! c \<noteq> 0"
    using t(1) by (cases t) (auto simp: plain_ok_def)
  show ?thesis
  proof (cases "kHostCharLookup ! c = kEsc")
    case True
    then show ?thesis using t(2) c hex by (auto simp: escaped_def)
  next
    case False
    then show ?thesis using t(2) c lookup_fixed [of c] by (auto simp: host_fixed_def)
  qed
qed

lemma units_tokens_text:
  assumes "list_all plain_ok ts"
  shows "units (tokens_text ts) = concat (map (host_token 256) ts)"
proof -
  have "b < 256" if "b \<in> set (concat (map (host_token 256) ts))" for b
    using that assms token_bytes by (force simp: list_all_iff)
  then have "map (\<lambda>b. byte (char_of b)) (concat (map (host_token 256) ts)) = concat (map (host_token 256) ts)"
    by (intro map_idI) simp
  then show ?thesis by (simp add: tokens_text_def comp_def)
qed

lemma simple_host_again:
  assumes "list_all plain_ok ts"
  shows "DoSimpleHost (tokens_text ts) out = (True, False, out @ tokens_text ts)"
proof -
  have t: "host_tokens (tokens_text ts) = map norm_token ts"
    using tokens_again(1) [OF assms] units_tokens_text [OF assms] by (simp add: host_tokens_def)
  have "list_all token_ok (map norm_token ts)" "\<not> list_ex token_wide (map norm_token ts)"
    using tokens_again(3) [OF assms] by (auto simp: plain_ok_def list_all_iff list_ex_iff)
  moreover have "tokens_text (map norm_token ts) = tokens_text ts"
    using tokens_again(2) [OF assms] by (simp add: tokens_text_def)
  ultimately show ?thesis by (simp add: DoSimpleHost_eq t)
qed

lemma plain_tokens: "list_all plain_ok ts \<longleftrightarrow> list_all token_ok ts \<and> \<not> list_ex token_wide ts"
  by (auto simp: plain_ok_def list_all_iff list_ex_iff)

section \<open>Complex hosts\<close>

text \<open>
  The stage of \<open>DoHost\<close> before the IP check.
\<close>

definition host_stage :: "str \<Rightarrow> str \<Rightarrow> bool \<times> str" where
  "host_stage t out =
     (if \<not> list_ex (\<lambda>c. byte c \<ge> 128) t \<and> \<not> list_ex (\<lambda>c. \<not> byte c \<ge> 128 \<and> c = CHR ''%'') t
      then (let (ok, non_ascii, o') = DoSimpleHost t out in (ok, o'))
      else DoComplexHost t (list_ex (\<lambda>c. byte c \<ge> 128) t) (list_ex (\<lambda>c. \<not> byte c \<ge> 128 \<and> c = CHR ''%'') t) out)"

lemma DoIDNHost_fails: "\<exists>o'. DoIDNHost src out = (False, o')"
  by (simp add: DoIDNHost_def IDNToASCII_def split: prod.split)

text \<open>International names are never accepted: only the simple path can succeed.\<close>

lemma DoComplexHost_eq:
  "DoComplexHost t wide esc out =
    (if esc \<and> \<not> list_all token_ok (host_tokens t) then (False, out @ tokens_text (host_tokens t))
     else if esc \<and> \<not> list_ex token_wide (host_tokens t) then (True, out @ tokens_text (host_tokens t))
     else let src = (if esc then tokens_text (host_tokens t) else t);
              conv = ConvertUTF8ToUTF16 src (len src) 0 True []
     in if \<not> fst conv then (False, AppendInvalidNarrowString src 0 (len src) out)
        else DoIDNHost (snd conv) out)"
  by (cases esc) (simp_all add: DoComplexHost_def DoSimpleHost_eq Let_def split_beta)

lemma complex_host:
  assumes "DoComplexHost t wide esc out = (True, o')"
  shows "esc \<and> list_all plain_ok (host_tokens t) \<and> o' = out @ tokens_text (host_tokens t)"
proof -
  have idn: "DoIDNHost u out \<noteq> (True, o')" for u using DoIDNHost_fails [of u out] by auto
  show ?thesis
    using assms unfolding DoComplexHost_eq Let_def plain_tokens
    by (simp add: idn split: if_split_asm)
qed

section \<open>The address of an accepted IPv6 host\<close>

definition index_ok :: "IPv6Parsed \<Rightarrow> bool" where
  "index_ok p \<longleftrightarrow> index_of_contraction p = -1 \<or>
     0 \<le> index_of_contraction p \<and> index_of_contraction p \<le> num_hex_components p"

lemma end_component_index:
  "end_component b e i ic cb p = Some p' \<Longrightarrow> index_ok p \<Longrightarrow> index_ok p'"
  by (auto simp: end_component_def index_ok_def Let_def split: if_splits)

lemma ipv6_scan_index: "ipv6_scan spec b e i cb p = Some p' \<Longrightarrow> index_ok p \<Longrightarrow> index_ok p'"
proof (induction "nat (e + 1 - i)" arbitrary: i cb p rule: less_induct)
  case less
  let ?colon = "at spec i = CHR '':''"
  let ?ic = "?colon \<and> i < e - 1 \<and> at spec (i + 1) = CHR '':''"
  let ?step = "if ?colon \<or> i = e then end_component b e i ?ic cb p else Some p"
  have le: "i \<le> e" using less.prems(1) by (simp add: ipv6_scan.simps [of spec b e i] split: if_splits)
  obtain q where q: "?step = Some q"
    using less.prems(1) le by (cases ?step) (auto simp: ipv6_scan.simps [of spec b e i])
  have iq: "index_ok q"
    using q less.prems(2) end_component_index [of b e i ?ic cb p q] by (auto split: if_splits)
  then have iq': "index_ok (q\<lparr>index_of_contraction := num_hex_components q\<rparr>)" "index_ok (q\<lparr>ipv4_component := x\<rparr>)" for x
    by (simp_all add: index_ok_def)
  have unf: "(if i = e then Some q
     else if ?ic then (if index_of_contraction q \<noteq> -1 then None
       else ipv6_scan spec b e (i + 2) (i + 2) (q\<lparr>index_of_contraction := num_hex_components q\<rparr>))
     else if ?colon then ipv6_scan spec b e (i + 1) (i + 1) q
     else if byte (at spec i) \<ge> 0x80 then None
     else if \<not> IsHexChar (byte (at spec i)) then
       (if IsIPv4Char (byte (at spec i)) then Some (q\<lparr>ipv4_component := Component cb (e - cb)\<rparr>) else None)
     else ipv6_scan spec b e (i + 1) cb q) = Some p'"
    using less.prems(1) le q by (subst (asm) ipv6_scan.simps) (simp only: Let_def not_less [symmetric] if_False option.case)
  have dec: "i \<noteq> e \<Longrightarrow> nat (e + 1 - (i + 1)) < nat (e + 1 - i)" "i \<noteq> e \<Longrightarrow> nat (e + 1 - (i + 2)) < nat (e + 1 - i)"
    using le by auto
  show ?case
    using unf iq iq' less.hyps [OF dec(1)] less.hyps [OF dec(2)] by (auto split: if_splits)
qed

lemma ipv6_bytes_shape:
  "length (ipv6_bytes spec p n k cs acc) =
     length acc + 2 * length cs +
       (if k \<le> index_of_contraction p \<and> index_of_contraction p \<le> k + len cs then nat n else 0)"
  by (induction cs arbitrary: k acc) (auto simp: ipv6_bytes_Nil ipv6_bytes_Cons)

lemma zero_bytes: "list_all (\<lambda>b. b < 256) (replicate m (0::nat))"
  by (simp add: list_all_iff)

lemma ipv6_bytes_bytes:
  "byte_list acc \<Longrightarrow> byte_list (ipv6_bytes spec p n k cs acc)"
proof (induction cs arbitrary: k acc)
  case (Cons c cs)
  have w: "IPv6HexComponentToNumber spec c < 65536" by (simp add: IPv6HexComponentToNumber_def)
  then have "drop_bit 8 (IPv6HexComponentToNumber spec c AND 0xFF00) < 256"
    "IPv6HexComponentToNumber spec c AND 0x00FF < 256"
    by (simp_all only: word_bytes [OF w])
  then show ?case using Cons by (simp add: ipv6_bytes_Cons byte_list_def zero_bytes)
qed (simp add: ipv6_bytes_Nil byte_list_def zero_bytes)

lemma ipv6_shape:
  assumes "IPv6AddressToNumber spec host = Some addr"
  shows "length addr = 16" "byte_list addr"
proof -
  obtain p n where p: "DoParseIPv6 spec (Component (c_begin host + 1) (c_len host - 2)) = Some p"
      "CheckIPv6ComponentsSize p = Some n"
    using assms by (auto simp: IPv6AddressToNumber_def Let_def split: if_splits option.splits)
  let ?a = "ipv6_bytes spec p n 0 (hex_components p) []"
  have ok: "index_ok p"
    using p(1) ipv6_scan_index [of spec _ _ _ _ reset_IPv6Parsed p]
    by (auto simp: DoParseIPv6_def index_ok_def reset_IPv6Parsed_def split: if_splits)
  have n: "2 * num_hex_components p + (if is_valid (ipv4_component p) then 4 else 0) + n = 16" "0 \<le> n"
    "index_of_contraction p = -1 \<longrightarrow> n = 0"
    using p(2) by (auto simp: CheckIPv6ComponentsSize_def Let_def split: if_splits)
  have "len ?a = 2 * num_hex_components p + n"
    using ok n(2,3) by (auto simp: ipv6_bytes_shape index_ok_def)
  then have l: "length ?a = (if is_valid (ipv4_component p) then 12 else 16)" using n(1) by (simp split: if_splits)
  have b: "byte_list ?a" by (rule ipv6_bytes_bytes) (simp add: byte_list_def)
  show "length addr = 16" "byte_list addr"
    using assms p l b ipv4_shape [of spec "ipv4_component p"]
    by (auto simp: IPv6AddressToNumber_def Let_def byte_list_def split: if_splits sum.splits)
qed

section \<open>The text of addresses\<close>

definition fixed_text :: "str \<Rightarrow> bool" where
  "fixed_text t \<longleftrightarrow> list_all (\<lambda>c. host_fixed (byte c)) t"

lemma fixed_bytes:
  "48 \<le> b \<Longrightarrow> b < 58 \<Longrightarrow> host_fixed b" "97 \<le> b \<Longrightarrow> b < 103 \<Longrightarrow> host_fixed b"
  "host_fixed 46" "host_fixed 58" "host_fixed 91" "host_fixed 93"
proof -
  have d: "list_all host_fixed [48..<58]" "list_all host_fixed [97..<103]" by code_simp+
  show "48 \<le> b \<Longrightarrow> b < 58 \<Longrightarrow> host_fixed b" by (rule upt_all [OF d(1)])
  show "97 \<le> b \<Longrightarrow> b < 103 \<Longrightarrow> host_fixed b" by (rule upt_all [OF d(2)])
qed code_simp+

lemma fixed_print:
  "fixed_text (print_nat 10 n)" "fixed_text (print_nat 16 n)"
proof -
  have d: "list_all (\<lambda>d. host_fixed (byte (digit_char d))) [0..<16]" by code_simp
  have "host_fixed (byte (digit_char d))" if "d < 16" for d
    by (rule upt_all [OF d]) (use that in simp_all)
  then show "fixed_text (print_nat 10 n)" "fixed_text (print_nat 16 n)"
    using print_nat_digits [of 10 _ n] print_nat_digits [of 16 _ n]
    by (fastforce simp: fixed_text_def list_all_iff)+
qed

lemma fixed_append [simp]: "fixed_text (s @ t) \<longleftrightarrow> fixed_text s \<and> fixed_text t"
  by (simp add: fixed_text_def)

lemma fixed_ipv4: "list_all (\<lambda>a. a < 256) as \<Longrightarrow> fixed_text out \<Longrightarrow> fixed_text (append_ipv4_from as out)"
proof (induction as arbitrary: out)
  case (Cons a as)
  have "itoa_text a 16 10 = print_nat 10 a" using Cons.prems by (intro itoa_text_dec [of _ 3]) auto
  moreover have "fixed_text ''.''" using fixed_bytes(3) by (simp add: fixed_text_def)
  ultimately show ?case using Cons fixed_print by (simp add: push_back_def Let_def)
qed simp

lemma fixed_ipv6:
  assumes "contraction_ok addr r" "0 \<le> i"
  shows "fixed_text (ipv6_tail addr r i)"
  using assms(2)
proof (induction "nat (16 - i)" arbitrary: i rule: less_induct)
  case less
  have colon: "fixed_text '':''" "fixed_text ''::''" "fixed_text []"
    using fixed_bytes(4) by (simp_all add: fixed_text_def)
  consider "14 < i" | "i \<le> 14" "contracts_at r i" | "i \<le> 14" "\<not> contracts_at r i" by linarith
  then show ?case
  proof cases
    case 2
    have "fixed_text (ipv6_tail addr r (c_end r))"
      by (rule less.hyps) (use 2 less.prems in \<open>auto simp: c_end_def\<close>)
    then show ?thesis using 2 colon ipv6_tail_contraction [of i r addr] by simp
  next
    case 3
    have "ipv6_tail addr r i =
      print_nat 16 (word_at addr i) @ (if i + 2 < 16 then '':'' else []) @ ipv6_tail addr r (i + 2)"
      by (rule ipv6_tail_word [OF 3]) (use assms(1) less.prems in \<open>auto simp: contraction_ok_def\<close>)
    moreover have "fixed_text (ipv6_tail addr r (i + 2))"
      by (rule less.hyps) (use 3 less.prems in auto)
    ultimately show ?thesis using colon fixed_print(2) by simp
  qed (use colon in \<open>simp add: ipv6_tail_end\<close>)
qed

lemma fixed_tokens:
  assumes "fixed_text t"
  shows "list_all plain_ok (host_tokens t)" "tokens_text (host_tokens t) = t"
proof -
  have "host_decode (units t) = map (\<lambda>c. Some (byte c)) t"
    using assms by (induction t) (simp_all add: fixed_text_def host_decode_fixed)
  then have h: "host_tokens t = map (\<lambda>c. Some (byte c)) t" by (simp add: host_tokens_def)
  show "list_all plain_ok (host_tokens t)"
    using assms host_fixed_token by (auto simp: h plain_ok_def list_all_iff fixed_text_def)
  have "concat (map (host_token 256) (map (\<lambda>c. Some (byte c)) t)) = units t"
    using assms by (induction t) (simp_all add: fixed_text_def host_fixed_token del: host_token.simps(2))
  then show "tokens_text (host_tokens t) = t" by (simp add: tokens_text_def h comp_def)
qed

section \<open>Hosts read back\<close>

text \<open>The text before the IP check.\<close>

lemma decode_no_percent: "37 \<notin> set us \<Longrightarrow> host_decode us = map Some us"
  by (induction us) (auto simp: host_decode.simps)

lemma stage_plain:
  assumes "host_stage t out = (True, o')"
  shows "list_all plain_ok (host_tokens t) \<and> o' = out @ tokens_text (host_tokens t)"
proof (cases "\<not> list_ex (\<lambda>c. byte c \<ge> 128) t \<and> \<not> list_ex (\<lambda>c. \<not> byte c \<ge> 128 \<and> c = CHR ''%'') t")
  case True
  have "37 \<notin> set (units t)"
  proof
    assume "37 \<in> set (units t)"
    then obtain c where "c \<in> set t" "byte c = 37" by auto
    moreover then have "c = CHR ''%''" by (simp add: char_eq_byte)
    ultimately show False using True by (auto simp: list_ex_iff)
  qed
  then have h: "host_tokens t = map Some (units t)"
    by (simp add: host_tokens_def decode_no_percent)
  have "\<not> list_ex token_wide (host_tokens t)"
    using True by (auto simp: h list_ex_iff)
  then show ?thesis
    using assms True unfolding host_stage_def plain_tokens by (simp add: DoSimpleHost_eq)
next
  case False
  then have "DoComplexHost t (list_ex (\<lambda>c. byte c \<ge> 128) t) (list_ex (\<lambda>c. \<not> byte c \<ge> 128 \<and> c = CHR ''%'') t) out = (True, o')"
    using assms by (simp only: host_stage_def if_False)
  then show ?thesis using complex_host by blast
qed

lemma stage_again:
  assumes "list_all plain_ok ts"
  shows "host_stage (tokens_text ts) out = (True, out @ tokens_text ts)"
proof -
  have n: "\<not> list_ex (\<lambda>c. byte c \<ge> 128) (tokens_text ts)"
  proof -
    have "b < 128" if "b \<in> set (units (tokens_text ts))" for b
      using that token_bytes assms by (force simp: units_tokens_text [OF assms] list_all_iff)
    then show ?thesis by (force simp: list_ex_iff)
  qed
  have s: "DoSimpleHost (tokens_text ts) out = (True, False, out @ tokens_text ts)" for out
    using simple_host_again [OF assms] .
  then have w: "list_all token_ok (host_tokens (tokens_text ts)) \<and> \<not> list_ex token_wide (host_tokens (tokens_text ts))
      \<and> tokens_text (host_tokens (tokens_text ts)) = tokens_text ts"
    using s [of "[]"] by (simp add: DoSimpleHost_eq)
  show ?thesis
    using n s w by (simp add: host_stage_def DoComplexHost_eq del: not_le)
qed

lemma tokens_nonempty: "t \<noteq> [] \<Longrightarrow> tokens_text (host_tokens t) \<noteq> []"
proof -
  assume "t \<noteq> []"
  then obtain c r where "units t = c # r" by (cases t) auto
  then have "host_decode (units t) \<noteq> []" by (simp add: host_decode.simps split: list.splits)
  then obtain k ks where "host_tokens t = k # ks" by (auto simp: host_tokens_def neq_Nil_conv)
  moreover have "host_token 256 k \<noteq> []" by (cases k) (auto simp: escaped_def)
  ultimately show ?thesis by (simp add: tokens_text_def)
qed

text \<open>The rest of \<open>DoHost\<close>, on the output of the first stage.\<close>

definition host_final :: "str \<Rightarrow> str \<Rightarrow> bool \<times> component \<times> str" where
  "host_final out o1 =
     (let (canon_ip, info) = CanonicalizeIPAddress o1 (MakeRange (len out) (len o1)) [] new_host_info;
          o2 = (if IsIPAddress info then out @ canon_ip else o1)
      in (family info \<noteq> BROKEN, MakeRange (len out) (len o2), o2))"

definition host_result :: "str \<Rightarrow> str \<Rightarrow> bool \<times> component \<times> str" where
  "host_result t out =
     (let (ok, o1) = host_stage t out
      in if \<not> ok then (False, MakeRange (len out) (len o1), o1) else host_final out o1)"

lemma stage_prefix: "host_stage t out = (True, o1) \<Longrightarrow> take (length out) o1 = out"
  using stage_plain [of t out o1] by simp

lemma CanonicalizeHost_eq:
  "CanonicalizeHost spec host out =
    (if c_len host \<le> 0 then (True, no_component, out) else host_result (component_str spec host) out)"
proof (cases "c_len host \<le> 0")
  case True
  then show ?thesis by (simp add: CanonicalizeHost_def DoHost_def)
next
  case False
  let ?t = "component_str spec host"
  obtain ok o1 where st: "host_stage ?t out = (ok, o1)" by (cases "host_stage ?t out")
  obtain ip info where ip: "CanonicalizeIPAddress o1 (MakeRange (len out) (len o1)) [] new_host_info = (ip, info)"
    by (cases "CanonicalizeIPAddress o1 (MakeRange (len out) (len o1)) [] new_host_info")
  have eq: "DoHost spec host out i =
    (let (success, out1) = host_stage ?t out;
         (out2, info2) =
           (if \<not> success then (out1, i\<lparr>family := BROKEN\<rparr>)
            else let (canon_ip, info1) = CanonicalizeIPAddress out1 (MakeRange (len out) (len out1)) [] i
            in (if IsIPAddress info1 then take (nat (len out)) out1 @ canon_ip else out1, info1))
     in (out2, info2\<lparr>out_host := MakeRange (len out) (len out2)\<rparr>))" for i
    using False by (simp only: DoHost_def ScanHostname_def host_stage_def Let_def prod.case if_False)
  show ?thesis
    using False stage_prefix [of ?t out o1] st ip
    by (simp add: CanonicalizeHost_def eq host_result_def host_final_def)
qed

definition ipv4_text :: "nat list \<Rightarrow> str" where
  "ipv4_text addr = AppendIPv4Address addr []"

definition ipv6_text :: "nat list \<Rightarrow> str" where
  "ipv6_text addr = push_back CHR '']'' (AppendIPv6Address addr (push_back CHR ''['' []))"

lemma append_texts:
  "AppendIPv4Address addr out = out @ ipv4_text addr"
  "push_back CHR '']'' (AppendIPv6Address addr (push_back CHR ''['' out)) = out @ ipv6_text addr"
proof -
  show "AppendIPv4Address addr out = out @ ipv4_text addr"
    unfolding ipv4_text_def by (rule ipv4_text.writes)
  show "push_back CHR '']'' (AppendIPv6Address addr (push_back CHR ''['' out)) = out @ ipv6_text addr"
    using ipv6_text.writes [of addr "out @ ''[''"] ipv6_text.writes [of addr "''[''"]
    by (simp add: ipv6_text_def push_back_def)
qed

lemma final_shape:
  assumes "host_final out o1 = (True, c, o2)"
  shows "c = MakeRange (len out) (len o2) \<and>
    (o2 = o1 \<and> host_final out o1 = (True, c, o1)
     \<or> (\<exists>addr. length addr = 4 \<and> byte_list addr \<and> o2 = out @ ipv4_text addr)
     \<or> (\<exists>addr. length addr = 16 \<and> byte_list addr \<and> o2 = out @ ipv6_text addr))"
proof -
  let ?h = "MakeRange (len out) (len o1)"
  have v4: "Inr (addr, n) = IPv4AddressToNumber o1 ?h \<Longrightarrow> length addr = 4 \<and> byte_list addr" for addr n
    using ipv4_shape [of o1 ?h addr n] by (auto simp: byte_list_def)
  have v6: "Some addr = IPv6AddressToNumber o1 ?h \<Longrightarrow> length addr = 16 \<and> byte_list addr" for addr
    using ipv6_shape [of o1 ?h addr] by auto
  show ?thesis
    using assms v4 v6
    by (auto simp: host_final_def CanonicalizeIPAddress_def CanonicalizeIPv4Address_def
        CanonicalizeIPv6Address_def append_texts IsIPAddress_def Let_def
        split: sum.splits option.splits Family.splits if_splits)
qed

lemma final_ipv4:
  assumes "length addr = 4" "byte_list addr"
  shows "host_final out (out @ ipv4_text addr) =
    (True, MakeRange (len out) (len (out @ ipv4_text addr)), out @ ipv4_text addr)"
  using ipv4_reads_back [of addr out] assms
  by (simp add: byte_list_def append_texts host_final_def CanonicalizeIPAddress_def
      CanonicalizeIPv4Address_def IsIPAddress_def Let_def)

lemma ipv4_refuses_bracket:
  assumes "0 \<le> b" "b < e" "at t b = CHR ''[''"
  shows "IPv4AddressToNumber t (MakeRange b e) = Inl NEUTRAL"
proof -
  have "ipv4_scan t e b b [] = None"
    using assms is_ipv4 [of 91] by (subst ipv4_scan.simps) simp
  then show ?thesis
    using assms by (simp add: IPv4AddressToNumber_def FindIPv4Components_def c_end_def MakeRange_def)
qed

lemma final_ipv6:
  assumes "length addr = 16" "byte_list addr"
  shows "host_final out (out @ ipv6_text addr) =
    (True, MakeRange (len out) (len (out @ ipv6_text addr)), out @ ipv6_text addr)"
proof -
  let ?t = "out @ ipv6_text addr"
  have h: "ipv6_text addr = CHR ''['' # AppendIPv6Address addr [] @ '']''"
    using ipv6_text.writes [of addr "''[''"] by (simp add: ipv6_text_def push_back_def)
  have "IPv4AddressToNumber ?t (MakeRange (len out) (len ?t)) = Inl NEUTRAL"
    by (rule ipv4_refuses_bracket) (simp_all add: h at_sep)
  moreover have "IPv6AddressToNumber ?t (MakeRange (len out) (len ?t)) = Some addr"
    using ipv6_reads_back [of addr out] assms by (simp add: byte_list_def append_texts)
  ultimately show ?thesis
    by (simp add: host_final_def CanonicalizeIPAddress_def CanonicalizeIPv4Address_def
      CanonicalizeIPv6Address_def append_texts IsIPAddress_def Let_def)
qed

lemma fixed_ipv6_text:
  assumes "length addr = 16" "byte_list addr"
  shows "fixed_text (ipv6_text addr)"
proof -
  have ok: "contraction_ok addr (ChooseIPv6ContractionRange addr)"
    using contraction_best [of addr] assms by (auto simp: contraction_ok_def longest_zero_run_def)
  have "AppendIPv6Address addr [] = ipv6_tail addr (ChooseIPv6ContractionRange addr) 0"
    by (simp add: AppendIPv6Address_def)
  then show ?thesis
    using fixed_ipv6 [OF ok, of 0] fixed_bytes(5,6) ipv6_text.writes [of addr "''[''"]
    by (simp add: ipv6_text_def push_back_def fixed_text_def)
qed

lemma host_result_again:
  assumes "host_result t out = (True, c, o2)" "t \<noteq> []"
  shows "\<exists>u. u \<noteq> [] \<and> o2 = out @ u \<and> c = MakeRange (len out) (len o2) \<and>
    list_all (\<lambda>c. byte c < 128) u \<and> host_result u out = (True, c, o2)"
proof -
  obtain o1 where s: "host_stage t out = (True, o1)" "host_final out o1 = (True, c, o2)"
    using assms(1) by (cases "host_stage t out") (auto simp: host_result_def split: if_splits)
  let ?ts = "host_tokens t"
  have p: "list_all plain_ok ?ts" "o1 = out @ tokens_text ?ts" using stage_plain [OF s(1)] by auto
  have texts: "host_result (tokens_text ts) out = host_final out (out @ tokens_text ts)"
    "list_all (\<lambda>c. byte c < 128) (tokens_text ts)" if "list_all plain_ok ts" for ts
  proof -
    have "b < 128" if "b \<in> set (units (tokens_text ts))" for b
      using that token_bytes \<open>list_all plain_ok ts\<close>
      by (force simp: units_tokens_text [OF \<open>list_all plain_ok ts\<close>] list_all_iff)
    then show "list_all (\<lambda>c. byte c < 128) (tokens_text ts)" by (simp add: list_all_iff)
  qed (simp add: host_result_def stage_again that)
  have fixed: "host_result u out = host_final out (out @ u)" "list_all (\<lambda>c. byte c < 128) u" if "fixed_text u" for u
    using texts [OF fixed_tokens(1) [OF that]] fixed_tokens(2) [OF that] by simp_all
  have c: "c = MakeRange (len out) (len o2)" using final_shape [OF s(2)] by blast
  consider "o2 = o1" | addr where "length addr = 4" "byte_list addr" "o2 = out @ ipv4_text addr"
    | addr where "length addr = 16" "byte_list addr" "o2 = out @ ipv6_text addr"
    using final_shape [OF s(2)] by blast
  then show ?thesis
  proof cases
    case 1
    then show ?thesis
      using texts [OF p(1)] s(2) p(2) c tokens_nonempty [OF assms(2)] by (intro exI [of _ "tokens_text ?ts"]) simp
  next
    case (2 addr)
    have "fixed_text (ipv4_text addr)"
      using 2 by (auto simp: ipv4_text_def AppendIPv4Address_def byte_list_def fixed_text_def
          intro!: fixed_ipv4 [unfolded fixed_text_def])
    moreover have "ipv4_text addr \<noteq> []"
    proof
      assume "ipv4_text addr = []"
      then have "IPv4AddressToNumber [] (MakeRange 0 0) = Inr (addr, 4)"
        using ipv4_reads_back [of addr "[]"] 2 by (simp add: append_texts byte_list_def)
      then show False by (simp add: IPv4AddressToNumber_def FindIPv4Components_def MakeRange_def)
    qed
    ultimately show ?thesis
      using fixed [of "ipv4_text addr"] final_ipv4 [OF 2(1,2), of out] 2(3) c
      by (intro exI [of _ "ipv4_text addr"]) simp
  next
    case (3 addr)
    moreover have "ipv6_text addr \<noteq> []" by (simp add: ipv6_text_def push_back_def)
    ultimately show ?thesis
      using fixed [OF fixed_ipv6_text [OF 3(1,2)]] final_ipv6 [OF 3(1,2), of out] c
      by (intro exI [of _ "ipv6_text addr"]) simp
  qed
qed

lemma percent_decode:
  assumes "list_all (\<lambda>u. u < 256) us"
  shows "(\<exists>a d r. us = a # d # r \<and> a < 128 \<and> d < 128 \<and> (\<exists>k. host_decode (37 # us) = k # host_decode r))
    \<or> host_decode (37 # us) = None # host_decode us"
proof (cases "\<exists>a d r. us = a # d # r \<and> IsHexChar a \<and> IsHexChar d")
  case True
  then obtain a d r where r: "us = a # d # r" "IsHexChar a" "IsHexChar d" by blast
  then have "a < 128" "d < 128" using assms is_hex [of a] is_hex [of d] by auto
  then show ?thesis using r by (simp add: host_decode.simps)
next
  case False
  then show ?thesis by (auto simp: host_decode.simps split: list.splits)
qed

lemma wide_decode: "b \<in> set us \<Longrightarrow> 128 \<le> b \<Longrightarrow> list_all (\<lambda>u. u < 256) us \<Longrightarrow> list_ex token_wide (host_decode us)"
proof (induction "length us" arbitrary: us rule: less_induct)
  case less
  then obtain c rest where us: "us = c # rest" by (cases us) auto
  have IH: "b \<in> set r \<Longrightarrow> list_all (\<lambda>u. u < 256) r \<Longrightarrow> length r < length us \<Longrightarrow> list_ex token_wide (host_decode r)" for r
    using less by blast
  show ?case
  proof (cases "c = 37")
    case False
    then show ?thesis using us less.prems IH [of rest] by (auto simp: host_decode.simps)
  next
    case True
    have "list_all (\<lambda>u. u < 256) rest" using less.prems us by simp
    from percent_decode [OF this] show ?thesis
      using us True less.prems IH by auto
  qed
qed

text \<open>
  A host with a byte outside ASCII is never accepted: the build's \<open>IDNToASCII\<close> is a
  placeholder that fails, so \<open>CanonicalizeHost\<close> reports a broken host for every
  international name.
\<close>

theorem international_host_rejected:
  assumes "is_nonempty host" "x \<in> set (component_str spec host)" "128 \<le> byte x"
  shows "\<not> fst (CanonicalizeHost spec host out)"
proof
  assume f: "fst (CanonicalizeHost spec host out)"
  let ?t = "component_str spec host"
  have "host_stage ?t out = (True, snd (host_stage ?t out))"
    using f assms(1) by (auto simp: CanonicalizeHost_eq host_result_def is_nonempty_def split: prod.splits if_splits)
  then have "list_all plain_ok (host_tokens ?t)" using stage_plain by blast
  moreover have "list_ex token_wide (host_tokens ?t)"
    unfolding host_tokens_def by (rule wide_decode [of "byte x"]) (use assms in \<open>auto simp: list_all_iff\<close>)
  ultimately show False by (simp add: plain_tokens)
qed

theorem international_host_rejected_witness:
  "\<not> fst (CanonicalizeHost [CHR ''a'', CHR 0xC3, CHR 0xA9] (Component 0 3) [])"
  by (rule international_host_rejected [of _ "CHR 0xC3"]) (simp_all add: is_nonempty_def component_str_def c_end_def seg_def)

text \<open>
  C6. A host that \<open>CanonicalizeHost\<close> accepts is appended to the output as ASCII text, and
  that text is canonical: canonicalizing it again at the same place succeeds with the same
  output and the same output component, whether it is a name, an IPv4 or an IPv6 address.
\<close>

theorem host_canonical:
  assumes "within 0 (len spec) host" "CanonicalizeHost spec host out = (True, c, out')"
  shows "\<exists>u. out' = out @ u \<and> list_all (\<lambda>c. byte c < 128) u \<and>
    CanonicalizeHost u (MakeRange 0 (len u)) out = (True, c, out')"
proof (cases "c_len host \<le> 0")
  case True
  then show ?thesis using assms(2) by (simp add: CanonicalizeHost_eq MakeRange_def)
next
  case False
  let ?t = "component_str spec host"
  have "?t \<noteq> []"
    using False assms(1) seg_Cons [of "c_begin host" "c_end host" spec]
    by (auto simp: component_str_def within_def is_valid_def c_end_def)
  moreover have "host_result ?t out = (True, c, out')"
    using assms(2) False by (simp add: CanonicalizeHost_eq)
  ultimately obtain u where "u \<noteq> []" "out' = out @ u" "list_all (\<lambda>c. byte c < 128) u" "host_result u out = (True, c, out')"
    using host_result_again by blast
  then show ?thesis
    by (intro exI [of _ u]) (simp add: CanonicalizeHost_eq MakeRange_def component_str_def c_end_def)
qed

theorem host_canonical_witness:
  "\<exists>u. ''[::1]'' = u \<and> list_all (\<lambda>c. byte c < 128) u \<and>
    CanonicalizeHost u (MakeRange 0 (len u)) [] = (True, MakeRange 0 5, ''[::1]'')"
proof -
  have "CanonicalizeHost ''[0:0::0:01]'' (MakeRange 0 11) [] = (True, MakeRange 0 5, ''[::1]'')"
    by code_simp
  from host_canonical [OF _ this] show ?thesis by (simp add: MakeRange_def)
qed

end
