(* ===== verification/Url_Path.thy ===== *)
theory Url_Path
  imports Url_Chars
begin

unbundle bit_operations_syntax

text \<open>
  Paths: \<open>url_canon_path.cc\<close> for 8-bit input.  The loop of \<open>DoPartialPath\<close> is one
  function on the index, with the index of the last percent sign that began no escape and
  the output as arguments.
\<close>

section \<open>Character table\<close>

definition SPECIAL :: nat where "SPECIAL = 1"
definition ESCAPE_BIT :: nat where "ESCAPE_BIT = 2"
definition UNESCAPE :: nat where "UNESCAPE = 4"
definition INVALID_BIT :: nat where "INVALID_BIT = 8"

text \<open>\<open>0\<close> is \<open>PASS\<close>, \<open>3\<close> is \<open>ESCAPE\<close> and \<open>9\<close> is \<open>INVALID\<close>.\<close>

definition kPathCharLookup :: "nat list" where
  "kPathCharLookup =
    [9, 3, 3, 3, 3, 3, 3, 3, 3, 3, 3, 3, 3, 3, 3, 3,
     3, 3, 3, 3, 3, 3, 3, 3, 3, 3, 3, 3, 3, 3, 3, 3,
     3, 0, 3, 3, 0, 3, 0, 0, 0, 0, 0, 0, 0, 4, 1, 0,
     4, 4, 4, 4, 4, 4, 4, 4, 4, 4, 0, 0, 3, 0, 3, 3,
     0, 4, 4, 4, 4, 4, 4, 4, 4, 4, 4, 4, 4, 4, 4, 4,
     4, 4, 4, 4, 4, 4, 4, 4, 4, 4, 4, 0, 3, 0, 3, 4,
     3, 4, 4, 4, 4, 4, 4, 4, 4, 4, 4, 4, 4, 4, 4, 4,
     4, 4, 4, 4, 4, 4, 4, 4, 4, 4, 4, 3, 3, 3, 4, 3]
    @ replicate 128 3"

section \<open>Dots\<close>

datatype DotDisposition = NOT_A_DIRECTORY | DIRECTORY_CUR | DIRECTORY_UP

text \<open>The disposition and \<open>consumed_len\<close>.\<close>

definition ClassifyAfterDot :: "str \<Rightarrow> int \<Rightarrow> int \<Rightarrow> DotDisposition \<times> int" where
  "ClassifyAfterDot spec after_dot e =
     (if after_dot = e then (DIRECTORY_CUR, 0)
      else if IsURLSlash (char16_of (at spec after_dot)) then (DIRECTORY_CUR, 1)
      else let second_dot_len = IsDot spec after_dot e;
               after_second_dot = after_dot + second_dot_len
      in if second_dot_len \<noteq> 0 \<and> after_second_dot = e then (DIRECTORY_UP, second_dot_len)
         else if second_dot_len \<noteq> 0 \<and> IsURLSlash (char16_of (at spec after_second_dot))
         then (DIRECTORY_UP, second_dot_len + 1)
         else (NOT_A_DIRECTORY, 0))"

definition BackUpToPreviousSlash :: "int \<Rightarrow> str \<Rightarrow> str" where
  "BackUpToPreviousSlash path_begin_in_output out =
     (let i = len out - 1
      in if i = path_begin_in_output then out
         else take (nat (scan_back (\<lambda>c. c \<noteq> CHR ''/'') out path_begin_in_output (i - 1) + 1)) out)"

section \<open>Escapes\<close>

text \<open>The input character is a signed \<open>char\<close>, so its comparison with \<open>0x80\<close> is never true.\<close>

definition CheckForNestedEscapes :: "str \<Rightarrow> int \<Rightarrow> int \<Rightarrow> int \<Rightarrow> str \<Rightarrow> str" where
  "CheckForNestedEscapes spec next_input_index input_len last_invalid_percent_index out =
     (let last_unescaped_char = at out (len out - 1);
          append_next_char = (last_invalid_percent_index = len out - 2)
      in if append_next_char \<and> (next_input_index = input_len \<or> schar (at spec next_input_index) \<ge> 0x80) then out
         else let out1 = (if append_next_char then push_back (at spec next_input_index) out else out)
         in case DecodeEscaped out1 last_invalid_percent_index (len out1) of
              Some decoded \<Rightarrow>
                (let out2 = (if \<not> append_next_char
                       then push_back (at out1 (last_invalid_percent_index + 1)) out1 else out1)
                 in push_back last_unescaped_char
                      (out2[nat (last_invalid_percent_index + 1) := CHR ''2'',
                            nat (last_invalid_percent_index + 2) := CHR ''5'']))
            | None \<Rightarrow> (if append_next_char then take (length out) out1 else out1))"

section \<open>Paths\<close>

definition kIntMin :: int where "kIntMin = - (2 ^ 31)"

text \<open>An escape at \<open>i\<close> that decodes to \<open>value\<close>, its last byte at \<open>i'\<close>: success and output.\<close>

definition path_escape :: "str \<Rightarrow> int \<Rightarrow> int \<Rightarrow> nat \<Rightarrow> int \<Rightarrow> str \<Rightarrow> bool \<times> str" where
  "path_escape spec e last_invalid unescaped_value i' out =
     (let unescaped_flags = kPathCharLookup ! unescaped_value
      in if unescaped_flags AND UNESCAPE \<noteq> 0
         then (let out1 = push_back (char_of unescaped_value) out
               in (True, if last_invalid \<ge> len out1 - 3
                         then CheckForNestedEscapes spec (i' + 1) e last_invalid out1 else out1))
         else (unescaped_flags AND INVALID_BIT = 0,
               push_back (at spec i') (push_back (at spec (i' - 1)) (push_back CHR ''%'' out))))"

text \<open>A dot of \<open>dotlen\<close> bytes at \<open>i\<close>: the index after what was consumed, and the output.\<close>

definition path_dot :: "str \<Rightarrow> int \<Rightarrow> int \<Rightarrow> int \<Rightarrow> int \<Rightarrow> str \<Rightarrow> int \<times> str" where
  "path_dot spec e path_begin_in_output i dotlen out =
     (if len out > path_begin_in_output \<and> at out (len out - 1) = CHR ''/'' then
        (case ClassifyAfterDot spec (i + dotlen) e of
           (NOT_A_DIRECTORY, consumed_len) \<Rightarrow> (i + dotlen, push_back CHR ''.'' out)
         | (DIRECTORY_CUR, consumed_len) \<Rightarrow> (i + dotlen + consumed_len, out)
         | (DIRECTORY_UP, consumed_len) \<Rightarrow>
             (i + dotlen + consumed_len, BackUpToPreviousSlash path_begin_in_output out))
      else (i + dotlen, push_back CHR ''.'' out))"

lemma IsDot_cases: "IsDot spec i e = 0 \<or> IsDot spec i e = 1 \<or> IsDot spec i e = 3"
  by (simp add: IsDot_def)

lemma path_dot_advances: "dotlen > 0 \<Longrightarrow> path_dot spec e pb i dotlen out = (j, out') \<Longrightarrow> i < j"
  using IsDot_cases [of spec "i + dotlen" e]
  by (auto simp: path_dot_def ClassifyAfterDot_def Let_def split: if_splits DotDisposition.splits prod.splits)

lemma DecodeEscaped_index: "DecodeEscaped spec i e = Some (v, i') \<Longrightarrow> i' = i + 2"
  by (auto simp: DecodeEscaped_def Let_def split: if_splits)

function partial_path_scan :: "str \<Rightarrow> int \<Rightarrow> int \<Rightarrow> int \<Rightarrow> int \<Rightarrow> bool \<Rightarrow> str \<Rightarrow> bool \<times> str" where
  "partial_path_scan spec e path_begin_in_output i last_invalid success out =
     (if i < e then
        (let out_ch = byte (at spec i); flags = kPathCharLookup ! out_ch; dotlen = IsDot spec i e
         in if flags AND SPECIAL = 0
            then partial_path_scan spec e path_begin_in_output (i + 1) last_invalid success (push_back (at spec i) out)
            else if dotlen > 0
            then (let (j, out') = path_dot spec e path_begin_in_output i dotlen out
                  in partial_path_scan spec e path_begin_in_output j last_invalid success out')
            else if out_ch = 0x5C
            then partial_path_scan spec e path_begin_in_output (i + 1) last_invalid success (push_back CHR ''/'' out)
            else if out_ch = byte CHR ''%''
            then (case DecodeEscaped spec i e of
                    Some (unescaped_value, i') \<Rightarrow>
                      (let (ok, out') = path_escape spec e last_invalid unescaped_value i' out
                       in partial_path_scan spec e path_begin_in_output (i' + 1) last_invalid (success \<and> ok) out')
                  | None \<Rightarrow>
                      partial_path_scan spec e path_begin_in_output (i + 1) (len out) success (push_back CHR ''%'' out))
            else if flags AND INVALID_BIT \<noteq> 0
            then partial_path_scan spec e path_begin_in_output (i + 1) last_invalid False (AppendEscapedChar out_ch out)
            else if flags AND ESCAPE_BIT \<noteq> 0
            then partial_path_scan spec e path_begin_in_output (i + 1) last_invalid success (AppendEscapedChar out_ch out)
            else partial_path_scan spec e path_begin_in_output (i + 1) last_invalid success out)
      else (success, out))"
  by pat_completeness auto
termination
  by (relation "measure (\<lambda>(s, e, pb, i, li, b, out). nat (e - i))")
    (auto dest: DecodeEscaped_index path_dot_advances [OF _ sym])

declare partial_path_scan.simps [simp del]

definition DoPartialPath :: "str \<Rightarrow> component \<Rightarrow> int \<Rightarrow> str \<Rightarrow> bool \<times> str" where
  "DoPartialPath spec path path_begin_in_output out =
     partial_path_scan spec (c_end path) path_begin_in_output (c_begin path) kIntMin True out"

text \<open>Success, the output component and the output.\<close>

definition CanonicalizePath :: "str \<Rightarrow> component \<Rightarrow> str \<Rightarrow> bool \<times> component \<times> str" where
  "CanonicalizePath spec path out =
     (let b = len out;
          (success, out') =
            (if c_len path > 0
             then DoPartialPath spec path b
                    (if \<not> IsURLSlash (char16_of (at spec (c_begin path))) then push_back CHR ''/'' out else out)
             else (True, push_back CHR ''/'' out))
      in (success, Component b (len out' - b), out'))"

definition CanonicalizePartialPath :: "str \<Rightarrow> component \<Rightarrow> int \<Rightarrow> str \<Rightarrow> bool \<times> str" where
  "CanonicalizePartialPath spec path path_begin_in_output out =
     DoPartialPath spec path path_begin_in_output out"

end
