(* ===== verification/Url_Path_Laws.thy ===== *)
theory Url_Path_Laws
  imports Url_Path Url_Host_Laws
begin

unbundle bit_operations_syntax

text \<open>
  Paths (\<open>url_canon_path.cc\<close>): the characters that can be written, the loop against a
  reference that removes dot segments from a list of segments, and canonical paths as fixed
  points.
\<close>

section \<open>What a path is made of\<close>

definition path_byte :: "nat \<Rightarrow> bool" where
  "path_byte b \<longleftrightarrow> 32 < b \<and> b < 127 \<and> b \<notin> {34, 35, 60, 62, 63, 92, 94, 96, 123, 124, 125}"

definition path_char :: "char \<Rightarrow> bool" where
  "path_char c \<longleftrightarrow> path_byte (byte c)"

lemma plain_byte:
  assumes "b < 256"
  shows "kPathCharLookup ! b AND SPECIAL = 0 \<longleftrightarrow> path_byte b \<and> b \<noteq> 37 \<and> b \<noteq> 46"
  by (rule table_nth [OF _ assms, where f = "\<lambda>f. f AND SPECIAL = 0"]) code_simp

lemma unescape_byte:
  assumes "b < 256"
  shows "kPathCharLookup ! b AND UNESCAPE \<noteq> 0 \<longleftrightarrow>
    48 \<le> b \<and> b \<le> 57 \<or> 65 \<le> b \<and> b \<le> 90 \<or> 97 \<le> b \<and> b \<le> 122 \<or> b = 45 \<or> b = 95 \<or> b = 126"
  by (rule table_nth [OF _ assms, where f = "\<lambda>f. f AND UNESCAPE \<noteq> 0"]) code_simp

lemma invalid_byte:
  assumes "b < 256"
  shows "kPathCharLookup ! b AND INVALID_BIT = 0 \<longleftrightarrow> b \<noteq> 0"
  by (rule table_nth [OF _ assms, where f = "\<lambda>f. f AND INVALID_BIT = 0"]) code_simp

lemma escape_byte:
  assumes "b < 256"
  shows "kPathCharLookup ! b AND ESCAPE_BIT \<noteq> 0 \<longleftrightarrow> \<not> path_byte b \<and> b \<noteq> 0 \<or> b = 37"
  by (rule table_nth [OF _ assms, where f = "\<lambda>f. f AND ESCAPE_BIT \<noteq> 0"]) code_simp

lemma path_byte_hex: "c < 256 \<Longrightarrow> IsHexChar c \<Longrightarrow> path_byte c"
  using is_hex [of c] by (auto simp: path_byte_def)

lemma escaped_path: "ch < 256 \<Longrightarrow> list_all path_char (escaped ch)"
  using hex_digit [of "ch div 16"] hex_digit [of "ch mod 16"]
  by (simp add: escaped_def path_char_def path_byte_hex less_imp_le_nat) (simp add: path_byte_def)

text \<open>The output while a path is being written after \<open>pre\<close>.\<close>

definition path_state :: "str \<Rightarrow> str \<Rightarrow> bool" where
  "path_state pre out \<longleftrightarrow> (\<exists>p. out = pre @ CHR ''/'' # p \<and> list_all path_char p)"

lemma state_start [intro]: "path_state pre (pre @ ''/'')"
  by (simp add: path_state_def)

lemma state_push [intro]: "path_state pre out \<Longrightarrow> path_char c \<Longrightarrow> path_state pre (push_back c out)"
  by (auto simp: path_state_def push_back_def)

lemma state_append: "path_state pre out \<Longrightarrow> list_all path_char t \<Longrightarrow> path_state pre (out @ t)"
  by (auto simp: path_state_def)

lemma state_escaped [intro]: "path_state pre out \<Longrightarrow> ch < 256 \<Longrightarrow> path_state pre (AppendEscapedChar ch out)"
  by (simp add: AppendEscapedChar_eq state_append escaped_path)

lemma slash_path [simp]: "path_char CHR ''/''" "path_char CHR ''.''" "path_char CHR ''%''"
  "path_char CHR ''2''" "path_char CHR ''5''"
  by (simp_all add: path_char_def path_byte_def)

lemma state_at:
  assumes "path_state pre out" "len pre \<le> i" "i < len out"
  shows "path_char (at out i)"
proof -
  obtain p where p: "out = pre @ CHR ''/'' # p" "list_all path_char p" using assms(1) by (auto simp: path_state_def)
  then have "at out i = (CHR ''/'' # p) ! nat (i - len pre)"
    using at_append_right [OF assms(2), of "CHR ''/'' # p"] by (simp add: at_def)
  moreover have "nat (i - len pre) < length (CHR ''/'' # p)" using p assms(2,3) by auto
  ultimately show ?thesis
    using p(2) by (metis list_all_length list.pred_inject(2) slash_path(1))
qed

lemma state_len: "path_state pre out \<Longrightarrow> len pre < len out"
  by (auto simp: path_state_def)

lemma state_take:
  assumes "path_state pre out" "len pre < int n"
  shows "path_state pre (take n out)"
proof -
  obtain p where p: "out = pre @ CHR ''/'' # p" "list_all path_char p" using assms(1) by (auto simp: path_state_def)
  have "take n out = pre @ CHR ''/'' # take (n - Suc (length pre)) p"
    using assms(2) by (simp add: p(1) take_Cons' Suc_diff_Suc)
  moreover have "list_all path_char (take (n - Suc (length pre)) p)"
    using p(2) by (auto simp: list_all_iff dest: in_set_takeD)
  ultimately show ?thesis by (auto simp: path_state_def)
qed

lemma state_update:
  assumes "path_state pre out" "len pre < i" "path_char c"
  shows "path_state pre (out[nat i := c])"
proof -
  obtain p where p: "out = pre @ CHR ''/'' # p" "list_all path_char p" using assms(1) by (auto simp: path_state_def)
  obtain k where k: "nat i = length pre + Suc k" using assms(2) by (metis less_imp_Suc_add nat_int zless_nat_eq_int_zless add_Suc_right)
  have "out[nat i := c] = pre @ CHR ''/'' # p[k := c]" by (simp add: p(1) k list_update_append)
  moreover have "list_all path_char (p[k := c])"
    using p(2) assms(3) set_update_subset_insert by (fastforce simp: list_all_iff)
  ultimately show ?thesis by (auto simp: path_state_def)
qed

lemma state_backup:
  assumes "path_state pre out"
  shows "path_state pre (BackUpToPreviousSlash (len pre) out)"
proof (cases "len out - 1 = len pre")
  case False
  then have "len pre \<le> len out - 2" using state_len [OF assms] by linarith
  then have "len pre \<le> scan_back (\<lambda>c. c \<noteq> CHR ''/'') out (len pre) (len out - 2)" by (rule scan_back_ge)
  then have "len pre < int (nat (scan_back (\<lambda>c. c \<noteq> CHR ''/'') out (len pre) (len out - 2) + 1))" by linarith
  from state_take [OF assms this] show ?thesis
    using False by (simp add: BackUpToPreviousSlash_def)
qed (use assms in \<open>simp add: BackUpToPreviousSlash_def\<close>)

lemma state_nested:
  assumes "path_state pre out" "len pre < lip"
  shows "path_state pre (CheckForNestedEscapes spec j e lip out)"
proof -
  let ?x = "at spec j" and ?last = "at out (len out - 1)"
  have last: "path_char ?last" using state_at [OF assms(1), of "len out - 1"] state_len [OF assms(1)] by simp
  show ?thesis
  proof (cases "lip = len out - 2")
    case True
    have l: "nat (lip + 1) < length out" "nat (lip + 2) = length out" using True state_len [OF assms(1)] by auto
    have "(out @ [?x])[nat (lip + 1) := CHR ''2'', nat (lip + 2) := CHR ''5'']
        = push_back CHR ''5'' (out[nat (lip + 1) := CHR ''2''])"
      using l by (simp add: list_update_append push_back_def)
    moreover have "path_state pre (push_back CHR ''5'' (out[nat (lip + 1) := CHR ''2'']))"
      by (intro state_push state_update assms(1)) (use assms(2) in simp_all)
    ultimately show ?thesis
      using assms(1) last True by (auto simp: CheckForNestedEscapes_def Let_def push_back_def [of ?x] split: option.splits)
  next
    case False
    show ?thesis
    proof (cases "DecodeEscaped out lip (len out)")
      case None
      then show ?thesis using False assms(1) by (simp add: CheckForNestedEscapes_def)
    next
      case (Some a)
      then have "lip + 3 \<le> len out" by (auto simp: DecodeEscaped_def split: if_splits)
      then have "path_char (at out (lip + 1))" using state_at [OF assms(1), of "lip + 1"] assms(2) by simp
      then show ?thesis using Some False last assms
        by (auto simp: CheckForNestedEscapes_def intro!: state_update)
    qed
  qed
qed

lemma state_scan:
  assumes "path_state pre out" "len pre < lip \<or> lip = kIntMin" "partial_path_scan spec e (len pre) i lip s out = (ok, out')"
  shows "path_state pre out'"
  using assms
proof (induction "nat (e - i)" arbitrary: i lip s out rule: less_induct)
  case less
  show ?case
  proof (cases "i < e")
    case False
    then show ?thesis using less.prems by (simp add: partial_path_scan.simps)
  next
    case True
    let ?c = "at spec i" and ?b = "byte (at spec i)" and ?dot = "IsDot spec i e"
    have IH: "partial_path_scan spec e (len pre) j lip' s' o1 = (ok, out') \<Longrightarrow> i < j \<Longrightarrow> path_state pre o1 \<Longrightarrow>
        len pre < lip' \<or> lip' = kIntMin \<Longrightarrow> path_state pre out'" for j lip' s' o1
      using less.hyps [of j o1 lip' s'] True by auto
    note unf = less.prems(3) [unfolded partial_path_scan.simps [of spec e "len pre" i lip s out] Let_def]
    consider (plain) "kPathCharLookup ! ?b AND SPECIAL = 0"
      | (dot) "kPathCharLookup ! ?b AND SPECIAL \<noteq> 0" "?dot > 0"
      | (percent) "kPathCharLookup ! ?b AND SPECIAL \<noteq> 0" "\<not> ?dot > 0" "?b = 37"
      | (other) "kPathCharLookup ! ?b AND SPECIAL \<noteq> 0" "\<not> ?dot > 0" "?b \<noteq> 37"
      by blast
    then show ?thesis
    proof cases
      case plain
      then have "path_char ?c" using plain_byte [of ?b] by (simp add: path_char_def)
      then show ?thesis using unf plain True less.prems IH [of "i + 1" lip s "push_back ?c out"] by auto
    next
      case dot
      obtain j o1 where d: "path_dot spec e (len pre) i ?dot out = (j, o1)" by fastforce
      have "i < j" using path_dot_advances [OF dot(2) d] .
      moreover have "path_state pre o1"
        using d less.prems(1) state_backup by (auto simp: path_dot_def split: if_splits prod.splits DotDisposition.splits)
      ultimately show ?thesis using unf dot d True less.prems IH [of j lip s o1] by auto
    next
      case percent
      show ?thesis
      proof (cases "DecodeEscaped spec i e")
        case None
        then show ?thesis
          using unf percent True less.prems state_len [of pre out] state_push [of pre out "CHR ''%''"]
            IH [of "i + 1" "len out" s "push_back CHR ''%'' out"] by auto
      next
        case (Some d)
        obtain v i' where d: "d = (v, i')" by fastforce
        have i': "i' = i + 2" using Some d DecodeEscaped_index by blast
        obtain k o1 where esc: "path_escape spec e lip v i' out = (k, o1)" by fastforce
        have v: "v < 256" and hex: "path_char (at spec (i + 1))" "path_char (at spec (i + 2))"
          using Some d path_byte_hex by (auto simp: DecodeEscaped_def Let_def path_char_def split: if_splits)
        have "path_state pre o1"
        proof (cases "kPathCharLookup ! v AND UNESCAPE \<noteq> 0")
          case True
          then have "path_char (char_of v)"
            using unescape_byte [OF v] v by (auto simp: path_char_def path_byte_def)
          then have st: "path_state pre (push_back (char_of v) out)" using less.prems(1) by blast
          show ?thesis
          proof (cases "lip = kIntMin")
            case k: True
            then show ?thesis using esc st True by (simp add: path_escape_def kIntMin_def split: if_splits)
          next
            case False
            then show ?thesis using esc st True less.prems(2) state_nested
              by (auto simp: path_escape_def Let_def split: if_splits)
          qed
        next
          case False
          then show ?thesis
            using esc less.prems(1) i' hex by (auto simp: path_escape_def add.commute intro!: state_push)
        qed
        then show ?thesis
          using unf percent True less.prems Some d esc i' IH [of "i' + 1" lip "s \<and> k" o1] by auto
      qed
    next
      case other
      have esc: "path_state pre (AppendEscapedChar ?b out)" "path_state pre (push_back CHR ''/'' out)"
        using less.prems(1) by auto
      show ?thesis
        using unf other True less.prems esc IH [of "i + 1" lip s] IH [of "i + 1" lip False] by (auto split: if_splits)
    qed
  qed
qed

lemma slash_char16: "IsURLSlash (char16_of c) \<longleftrightarrow> c = CHR ''/'' \<or> c = CHR 0x5C"
  by (simp add: IsURLSlash_def char16_of_def char_eq_byte del: of_char_eq_iff)

lemma scan_slash:
  assumes "i < e" "IsURLSlash (char16_of (at spec i))"
  shows "partial_path_scan spec e pb i lip s out = partial_path_scan spec e pb (i + 1) lip s (push_back CHR ''/'' out)"
proof -
  have t: "kPathCharLookup ! 47 AND SPECIAL = 0" "kPathCharLookup ! 92 AND SPECIAL \<noteq> 0" by code_simp+
  consider "at spec i = CHR ''/''" | "at spec i = CHR 0x5C" using assms(2) slash_char16 by blast
  then show ?thesis
  proof cases
    case 1
    then show ?thesis using assms(1) t
      by (subst partial_path_scan.simps) (simp add: IsDot_def Let_def)
  next
    case 2
    then show ?thesis using assms(1) t
      by (subst partial_path_scan.simps) (simp add: IsDot_def Let_def)
  qed
qed

lemma path_written:
  assumes "CanonicalizePath spec path out = (ok, c, out')"
  shows "\<exists>p. out' = out @ CHR ''/'' # p \<and> list_all path_char p \<and> c = MakeRange (len out) (len out')"
proof -
  have "path_state out out'"
  proof (cases "c_len path > 0")
    case False
    then show ?thesis using assms by (auto simp: CanonicalizePath_def push_back_def path_state_def)
  next
    case True
    have start: "path_state out (push_back CHR ''/'' out)" by (simp add: push_back_def state_start)
    show ?thesis
    proof (cases "IsURLSlash (char16_of (at spec (c_begin path)))")
      case sl: True
      have "c_begin path < c_end path" using True by (simp add: c_end_def)
      from scan_slash [OF this sl]
      have "partial_path_scan spec (c_end path) (len out) (c_begin path + 1) kIntMin True (push_back CHR ''/'' out) = (ok, out')"
        using assms True sl by (auto simp: CanonicalizePath_def DoPartialPath_def Let_def split: prod.splits)
      then show ?thesis using state_scan [OF start] by blast
    next
      case False
      then have "partial_path_scan spec (c_end path) (len out) (c_begin path) kIntMin True (push_back CHR ''/'' out) = (ok, out')"
        using assms True by (auto simp: CanonicalizePath_def DoPartialPath_def Let_def split: prod.splits)
      then show ?thesis using state_scan [OF start] by blast
    qed
  qed
  then show ?thesis using assms
    by (auto simp: path_state_def CanonicalizePath_def MakeRange_def Let_def split: prod.splits)
qed

text \<open>
  C23. Whatever the input, \<open>CanonicalizePath\<close> keeps the output written before it and
  appends a slash and path characters only: printable ASCII without space, quote, hash,
  question mark, backslash and the other bytes that would end or change a path.  The
  component it reports is what it appended.
\<close>

theorem path_is_safe:
  assumes "CanonicalizePath spec path out = (ok, c, out')"
  shows "\<exists>p. out' = out @ CHR ''/'' # p \<and> list_all path_char p \<and> c = MakeRange (len out) (len out')"
  using assms by (rule path_written)

theorem path_is_safe_witness:
  "\<exists>p. ''http://h/%3Fx%23'' = ''http://h'' @ CHR ''/'' # p \<and> list_all path_char p \<and>
    MakeRange 8 16 = MakeRange (len ''http://h'') (len ''http://h/%3Fx%23'')"
proof -
  have "CanonicalizePath ''a b/../?x#'' (Component 0 10) ''http://h'' = (True, MakeRange 8 16, ''http://h/%3Fx%23'')"
    by code_simp
  from path_is_safe [OF this] show ?thesis .
qed

section \<open>A reference for paths\<close>

text \<open>
  The units of a path whose percent signs all begin escapes, with the text that each
  contributes and whether it is accepted.
\<close>

datatype punit = Slash | Dot | Piece str bool

definition plain_piece :: "char \<Rightarrow> punit" where
  "plain_piece c =
     (if path_char c then Piece [c] True else Piece (escaped (byte c)) (byte c \<noteq> 0))"

definition escape_piece :: "char \<Rightarrow> char \<Rightarrow> punit" where
  "escape_piece a b =
     (let v = HexCharToValue (byte a) * 16 + HexCharToValue (byte b)
      in if v = 46 then Dot
         else if kPathCharLookup ! v AND UNESCAPE \<noteq> 0 then Piece [char_of v] True
         else Piece [CHR ''%'', a, b] (v \<noteq> 0))"

fun path_units :: "str \<Rightarrow> punit list option" where
  "path_units [] = Some []"
| "path_units (c # r) =
     (if c = CHR ''/'' \<or> c = CHR 0x5C then map_option ((#) Slash) (path_units r)
      else if c = CHR ''.'' then map_option ((#) Dot) (path_units r)
      else if c = CHR ''%'' then
        (case r of
           a # b # r' \<Rightarrow>
             if IsHexChar (byte a) \<and> IsHexChar (byte b) then map_option ((#) (escape_piece a b)) (path_units r')
             else None
         | _ \<Rightarrow> None)
      else map_option ((#) (plain_piece c)) (path_units r))"

fun unit_ok :: "punit \<Rightarrow> bool" where
  "unit_ok (Piece t ok) = ok"
| "unit_ok u = True"

fun unit_text :: "punit \<Rightarrow> str" where
  "unit_text Slash = ''/''"
| "unit_text Dot = ''.''"
| "unit_text (Piece t ok) = t"

text \<open>Segments, and the removal of dot segments on them.\<close>

fun segments :: "punit list \<Rightarrow> punit list list" where
  "segments [] = [[]]"
| "segments (u # us) = (if u = Slash then [] # segments us else (u # hd (segments us)) # tl (segments us))"

fun remove_dots :: "punit list list \<Rightarrow> punit list list \<Rightarrow> punit list list" where
  "remove_dots D [] = D"
| "remove_dots D [s] =
     (if s = [Dot] then D @ [[]] else if s = [Dot, Dot] then butlast D @ [[]] else D @ [s])"
| "remove_dots D (s # ss) =
     remove_dots (if s = [Dot] then D else if s = [Dot, Dot] then butlast D else D @ [s]) ss"

definition seg_text :: "punit list \<Rightarrow> str" where
  "seg_text s = CHR ''/'' # concat (map unit_text s)"

definition path_text :: "punit list list \<Rightarrow> str" where
  "path_text segs = concat (map seg_text segs)"

fun drop_first_slash :: "punit list \<Rightarrow> punit list" where
  "drop_first_slash (Slash # us) = us"
| "drop_first_slash us = us"

definition path_reference :: "punit list \<Rightarrow> str" where
  "path_reference us = path_text (remove_dots [] (segments (drop_first_slash us)))"

lemma segments_ne [simp]: "segments us \<noteq> []"
  by (induction us) auto

lemma path_text_simps [simp]:
  "path_text [] = []" "path_text (s # ss) = seg_text s @ path_text ss" "path_text (ss @ tt) = path_text ss @ path_text tt"
  by (simp_all add: path_text_def)

section \<open>Units and the input\<close>

text \<open>A unit inside a segment: its text is not empty, has no slash, and is read as the unit.\<close>

definition unit_good :: "punit \<Rightarrow> bool" where
  "unit_good u \<longleftrightarrow> u \<noteq> Slash \<and> unit_text u \<noteq> [] \<and> CHR ''/'' \<notin> set (unit_text u) \<and>
     (\<forall>rest. path_units (unit_text u @ rest) = map_option ((#) u) (path_units rest))"

lemma escaped_reads:
  assumes "c < 256"
  shows "\<exists>a b. escaped c = [CHR ''%'', a, b] \<and> IsHexChar (byte a) \<and> IsHexChar (byte b)
    \<and> HexCharToValue (byte a) * 16 + HexCharToValue (byte b) = c"
  using hex_digit [of "c div 16"] hex_digit [of "c mod 16"] assms
  by (simp add: escaped_def less_imp_le_nat less_Suc_eq_le [symmetric])

lemma hex_value:
  assumes "c < 256" "IsHexChar c"
  shows "HexCharToValue c = (if c \<le> 57 then c - 48 else if c \<le> 70 then c - 55 else c - 87)"
proof -
  let ?P = "\<lambda>c. HexCharToValue c = (if c \<le> 57 then c - 48 else if c \<le> 70 then c - 55 else c - 87)"
  consider "48 \<le> c" "c < 58" | "65 \<le> c" "c < 71" | "97 \<le> c" "c < 103" using assms is_hex [of c] by fastforce
  moreover have d: "list_all ?P [48..<58]" "list_all ?P [65..<71]" "list_all ?P [97..<103]" by code_simp+
  ultimately show ?thesis
    by cases (erule (1) upt_all [OF d(1)], erule (1) upt_all [OF d(2)], erule (1) upt_all [OF d(3)])
qed

lemma hex_value_less: "c < 256 \<Longrightarrow> IsHexChar c \<Longrightarrow> HexCharToValue c < 16"
  using is_hex [of c] by (auto simp: hex_value)

lemma hex_value_dot:
  assumes "IsHexChar (byte a)" "IsHexChar (byte b)"
  shows "HexCharToValue (byte a) * 16 + HexCharToValue (byte b) = 46 \<longleftrightarrow>
    a = CHR ''2'' \<and> (b = CHR ''e'' \<or> b = CHR ''E'')"
proof -
  have v: "HexCharToValue (byte b) < 16" using hex_value_less assms(2) by simp
  have "HexCharToValue (byte a) * 16 + HexCharToValue (byte b) = 46 \<longleftrightarrow>
      HexCharToValue (byte a) = 2 \<and> HexCharToValue (byte b) = 14"
    using v by arith
  also have "\<dots> \<longleftrightarrow> byte a = 50 \<and> (byte b = 101 \<or> byte b = 69)"
    using is_hex [of "byte a"] is_hex [of "byte b"] assms by (auto simp: hex_value)
  finally show ?thesis by (simp add: char_eq_byte del: of_char_eq_iff)
qed

lemma hex_char: "IsHexChar (byte a) \<Longrightarrow> a \<noteq> CHR ''/'' \<and> HexCharToValue (byte a) < 16"
  using hex_value_less [of "byte a"] is_hex [of 47] by auto

lemma good_plain: "c \<noteq> CHR ''/'' \<Longrightarrow> c \<noteq> CHR 0x5C \<Longrightarrow> c \<noteq> CHR ''.'' \<Longrightarrow> c \<noteq> CHR ''%'' \<Longrightarrow> unit_good (plain_piece c)"
proof -
  assume c: "c \<noteq> CHR ''/''" "c \<noteq> CHR 0x5C" "c \<noteq> CHR ''.''" "c \<noteq> CHR ''%''"
  show ?thesis
  proof (cases "path_char c")
    case True
    then show ?thesis using c by (simp add: unit_good_def plain_piece_def)
  next
    case False
    obtain a b where e: "escaped (byte c) = [CHR ''%'', a, b]" "IsHexChar (byte a)" "IsHexChar (byte b)"
      "HexCharToValue (byte a) * 16 + HexCharToValue (byte b) = byte c"
      using escaped_reads [OF byte_less] by blast
    have "kPathCharLookup ! byte c AND UNESCAPE = 0" "byte c \<noteq> 46"
      using False unescape_byte [of "byte c"] by (auto simp: path_char_def path_byte_def)
    then have "escape_piece a b = plain_piece c"
      using e False by (simp add: escape_piece_def plain_piece_def)
    then show ?thesis using e False hex_char by (auto simp: unit_good_def plain_piece_def)
  qed
qed

lemma good_escape:
  assumes "IsHexChar (byte a)" "IsHexChar (byte b)"
  shows "unit_good (escape_piece a b)"
proof -
  let ?v = "HexCharToValue (byte a) * 16 + HexCharToValue (byte b)"
  have v: "?v < 256" using hex_char [OF assms(1)] hex_char [OF assms(2)] by simp
  consider "?v = 46" | "?v \<noteq> 46" "kPathCharLookup ! ?v AND UNESCAPE \<noteq> 0" | "?v \<noteq> 46" "kPathCharLookup ! ?v AND UNESCAPE = 0"
    by blast
  then show ?thesis
  proof cases
    case 1
    then show ?thesis by (simp add: escape_piece_def unit_good_def)
  next
    case 2
    let ?c = "char_of ?v :: char"
    have b: "byte ?c = ?v" using v by simp
    have c: "?c \<noteq> CHR ''/''" "?c \<noteq> CHR 0x5C" "?c \<noteq> CHR ''.''" "?c \<noteq> CHR ''%''" "path_char ?c"
      using 2 unescape_byte [OF v] b by (auto simp: char_eq_byte path_char_def path_byte_def simp del: of_char_eq_iff)
    have "escape_piece a b = plain_piece ?c" using 2 c(5) by (simp add: escape_piece_def plain_piece_def)
    then show ?thesis using good_plain [OF c(1-4)] by simp
  next
    case 3
    then show ?thesis using assms hex_char by (auto simp: escape_piece_def unit_good_def Let_def)
  qed
qed

lemma units_good:
  assumes "path_units t = Some us" "u \<in> set us" "u \<noteq> Slash"
  shows "unit_good u"
  using assms
proof (induction "length t" arbitrary: t us rule: less_induct)
  case less
  obtain c r where t: "t = c # r" using less.prems(1,2) by (cases t) auto
  have IH: "path_units r' = Some us' \<Longrightarrow> u \<in> set us' \<Longrightarrow> length r' < length t \<Longrightarrow> unit_good u" for r' us'
    using less.hyps less.prems(3) by blast
  consider (slash) "c = CHR ''/'' \<or> c = CHR 0x5C" | (dot) "c = CHR ''.''"
    | (pct) "c = CHR ''%''" | (plain) "c \<noteq> CHR ''/''" "c \<noteq> CHR 0x5C" "c \<noteq> CHR ''.''" "c \<noteq> CHR ''%''" by blast
  then show ?case
  proof cases
    case slash
    then obtain us' where "path_units r = Some us'" "us = Slash # us'"
      using less.prems(1) by (auto simp: t)
    then show ?thesis using IH [of r us'] less.prems(2,3) t by simp
  next
    case dot
    then obtain us' where us: "path_units r = Some us'" "us = Dot # us'"
      using less.prems(1) by (auto simp: t)
    have "unit_good Dot" by (simp add: unit_good_def)
    then show ?thesis using IH [of r us'] less.prems(2) t us by auto
  next
    case pct
    then obtain a b r' us' where r: "r = a # b # r'" "IsHexChar (byte a)" "IsHexChar (byte b)"
      "path_units r' = Some us'" "us = escape_piece a b # us'"
      using less.prems(1) by (auto simp: t split: list.splits if_splits)
    show ?thesis using IH [OF r(4)] less.prems(2) t r good_escape [OF r(2,3)] by auto
  next
    case plain
    then obtain us' where us: "path_units r = Some us'" "us = plain_piece c # us'"
      using less.prems(1) by (auto simp: t)
    show ?thesis using IH [OF us(1)] less.prems(2) t us good_plain [OF plain] by auto
  qed
qed

section \<open>Reading one unit\<close>

lemma IsDot_bounds: "0 < IsDot spec i e \<Longrightarrow> i < e \<Longrightarrow> i + IsDot spec i e \<le> e"
  by (auto simp: IsDot_def split: if_splits)

text \<open>What the code sees at the start of a unit.\<close>

lemma unit_at:
  assumes "path_units (seg spec i e) = Some us" "0 \<le> i" "i < e" "e \<le> len spec"
  shows "\<exists>u us' j. us = u # us' \<and> i < j \<and> j \<le> e \<and> path_units (seg spec j e) = Some us' \<and>
    (u = Slash \<longleftrightarrow> IsURLSlash (char16_of (at spec i))) \<and> (u = Dot \<longleftrightarrow> IsDot spec i e > 0) \<and>
    (u = Slash \<longrightarrow> j = i + 1) \<and> (u = Dot \<longrightarrow> j = i + IsDot spec i e) \<and>
    (\<forall>t ok. u = Piece t ok \<longrightarrow>
       (\<forall>pb lip s out. lip = kIntMin \<longrightarrow>
          partial_path_scan spec e pb i lip s out = partial_path_scan spec e pb j lip (s \<and> ok) (out @ t)))"
proof -
  let ?c = "at spec i"
  have s: "seg spec i e = ?c # seg spec (i + 1) e" using assms by (intro seg_Cons) auto
  consider (slash) "?c = CHR ''/'' \<or> ?c = CHR 0x5C" | (dot) "?c = CHR ''.''"
    | (pct) "?c = CHR ''%''" | (plain) "?c \<noteq> CHR ''/''" "?c \<noteq> CHR 0x5C" "?c \<noteq> CHR ''.''" "?c \<noteq> CHR ''%''" by blast
  then show ?thesis
  proof cases
    case slash
    then obtain us' where "path_units (seg spec (i + 1) e) = Some us'" "us = Slash # us'"
      using assms(1) by (auto simp: s)
    moreover have "IsDot spec i e = 0" using slash by (auto simp: IsDot_def)
    ultimately show ?thesis using slash assms by (intro exI [of _ Slash] exI [of _ us'] exI [of _ "i + 1"]) (simp add: slash_char16)
  next
    case dot
    then obtain us' where "path_units (seg spec (i + 1) e) = Some us'" "us = Dot # us'"
      using assms(1) by (auto simp: s)
    moreover have "IsDot spec i e = 1" using dot by (auto simp: IsDot_def)
    ultimately show ?thesis using dot assms by (intro exI [of _ Dot] exI [of _ us'] exI [of _ "i + 1"]) (simp add: slash_char16)
  next
    case plain
    then obtain us' where us: "path_units (seg spec (i + 1) e) = Some us'" "us = plain_piece ?c # us'"
      using assms(1) by (auto simp: s)
    have d: "IsDot spec i e = 0" using plain by (auto simp: IsDot_def)
    have b: "byte ?c \<noteq> 37" "byte ?c \<noteq> 46" "byte ?c \<noteq> 92" using plain by (simp_all add: char_eq_byte del: of_char_eq_iff)
    have "partial_path_scan spec e pb i lip su out = partial_path_scan spec e pb (i + 1) lip (su \<and> ok) (out @ t)"
      if "plain_piece ?c = Piece t ok" for t ok pb lip su out
      using that plain_byte [of "byte ?c"] invalid_byte [of "byte ?c"] escape_byte [of "byte ?c"] d b assms(3)
      by (subst partial_path_scan.simps) (auto simp: Let_def plain_piece_def path_char_def push_back_def AppendEscapedChar_eq split: if_splits)
    moreover have "\<exists>t ok. plain_piece ?c = Piece t ok" by (cases "path_char ?c") (auto simp: plain_piece_def)
    ultimately show ?thesis using us d plain assms(3)
      by (intro exI [of _ "plain_piece ?c"] exI [of _ us'] exI [of _ "i + 1"]) (auto simp: slash_char16)
  next
    case pct
    then obtain a b r us' where r: "seg spec (i + 1) e = a # b # r" "IsHexChar (byte a)" "IsHexChar (byte b)"
      "path_units r = Some us'" "us = escape_piece a b # us'"
      using assms(1) by (auto simp: s split: list.splits if_splits)
    have l: "i + 3 \<le> e" using arg_cong [OF r(1), of len] length_seg [of "i + 1" e spec] assms by simp
    have "seg spec (i + 1) e = at spec (i + 1) # at spec (i + 2) # seg spec (i + 3) e"
      using seg_Cons [of "i + 1" e spec] seg_Cons [of "i + 2" e spec] l assms by (simp add: add.commute)
    then have ab: "a = at spec (i + 1)" "b = at spec (i + 2)" "r = seg spec (i + 3) e" using r(1) by auto
    let ?v = "HexCharToValue (byte a) * 16 + HexCharToValue (byte b)"
    have v: "?v < 256" using hex_char [OF r(2)] hex_char [OF r(3)] by simp
    have dec: "DecodeEscaped spec i e = Some (?v, i + 2)"
      using l r(2,3) ab v by (simp add: DecodeEscaped_def push_bit_eq_mult)
    have dotv: "?v = 46 \<longleftrightarrow> a = CHR ''2'' \<and> (b = CHR ''e'' \<or> b = CHR ''E'')"
      using hex_value_dot r(2,3) by blast
    have d: "IsDot spec i e = (if ?v = 46 then 3 else 0)"
      unfolding dotv using pct l by (simp add: IsDot_def ab)
    have t: "kPathCharLookup ! 37 AND SPECIAL \<noteq> 0" by code_simp
    have b37: "byte ?c = 37" using pct by simp
    have "partial_path_scan spec e pb i lip su out = partial_path_scan spec e pb (i + 3) lip (su \<and> ok) (out @ t)"
      if p: "escape_piece a b = Piece t ok" "lip = kIntMin" for t ok pb lip su out
    proof -
      have ne: "?v \<noteq> 46" using p(1) by (auto simp: escape_piece_def)
      have "path_escape spec e lip ?v (i + 2) out = (ok, out @ t)"
      proof (cases "kPathCharLookup ! ?v AND UNESCAPE \<noteq> 0")
        case True
        then show ?thesis using p ne by (auto simp: path_escape_def escape_piece_def push_back_def kIntMin_def)
      next
        case False
        then show ?thesis using p ne invalid_byte [OF v] by (auto simp: path_escape_def escape_piece_def push_back_def ab add.commute)
      qed
      then show ?thesis
        using b37 assms(3) d ne dec t by (subst partial_path_scan.simps) (simp add: Let_def add.commute)
    qed
    then show ?thesis using r ab d l pct
      by (intro exI [of _ "escape_piece a b"] exI [of _ us'] exI [of _ "i + 3"])
        (auto simp: slash_char16 escape_piece_def Let_def)
  qed
qed

section \<open>The loop against the reference\<close>

definition seg_good :: "punit list \<Rightarrow> bool" where
  "seg_good s \<longleftrightarrow> (\<forall>u\<in>set s. unit_good u)"

lemma seg_text_good:
  assumes "seg_good s"
  shows "CHR ''/'' \<notin> set (tl (seg_text s))" "s \<noteq> [] \<Longrightarrow> tl (seg_text s) \<noteq> []"
  using assms by (auto simp: seg_good_def unit_good_def seg_text_def neq_Nil_conv)

lemma seg_text_snoc: "seg_text (s @ [u]) = seg_text s @ unit_text u"
  by (simp add: seg_text_def)

lemma last_slash:
  assumes "seg_good s"
  shows "last (seg_text s) = CHR ''/'' \<longleftrightarrow> s = []"
proof (cases "s = []")
  case False
  have "tl (seg_text s) \<noteq> []" using seg_text_good assms False by blast
  moreover have "seg_text s = CHR ''/'' # tl (seg_text s)" by (simp add: seg_text_def)
  ultimately have "last (seg_text s) \<in> set (tl (seg_text s))" by (metis last_ConsR last_in_set)
  then show ?thesis using seg_text_good(1) [OF assms] False by metis
qed (simp add: seg_text_def)

lemma at_last: "s \<noteq> [] \<Longrightarrow> at s (len s - 1) = last s"
  by (simp add: at_def last_conv_nth nat_diff_distrib')

lemma backup_segments:
  assumes "\<forall>d\<in>set D. seg_good d"
  shows "BackUpToPreviousSlash (len pre) (pre @ path_text (D @ [[]])) = pre @ path_text (butlast D @ [[]])"
proof (cases D rule: rev_cases)
  case Nil
  then show ?thesis by (simp add: BackUpToPreviousSlash_def seg_text_def)
next
  case (snoc D' d)
  let ?p = "pre @ path_text D'" and ?t = "tl (seg_text d)"
  have st: "seg_text d = CHR ''/'' # ?t" by (simp add: seg_text_def)
  have nt: "CHR ''/'' \<notin> set ?t" using assms snoc seg_text_good by auto
  have out: "pre @ path_text (D @ [[]]) = ?p @ CHR ''/'' # ?t @ ''/''"
    using snoc st by (simp add: seg_text_def)
  have j: "scan_back (\<lambda>c. c \<noteq> CHR ''/'') (?p @ CHR ''/'' # ?t @ ''/'') (len pre) (len ?p + len ?t) = len ?p"
  proof (rule scan_back_eqI)
    fix k assume k: "len ?p < k" "k \<le> len ?p + len ?t"
    then have "at (?p @ CHR ''/'' # ?t @ ''/'') k = (CHR ''/'' # ?t @ ''/'') ! nat (k - len ?p)"
      using at_append_right [of ?p k] by (simp add: at_def)
    also have "nat (k - len ?p) = Suc (nat (k - len ?p - 1))" using k by linarith
    also have "(CHR ''/'' # ?t @ ''/'') ! Suc (nat (k - len ?p - 1)) = ?t ! nat (k - len ?p - 1)"
    proof -
      have "nat (k - len ?p - 1) < length ?t" using k by linarith
      then show ?thesis by (simp only: nth_Cons_Suc nth_append if_True)
    qed
    finally have e: "at (?p @ CHR ''/'' # ?t @ ''/'') k = ?t ! nat (k - len ?p - 1)" .
    have "?t ! nat (k - len ?p - 1) \<in> set ?t" using k by (intro nth_mem) linarith
    then show "at (?p @ CHR ''/'' # ?t @ ''/'') k \<noteq> CHR ''/''" using e nt by metis
  next
    show "\<not> at (?p @ CHR ''/'' # ?t @ ''/'') (len ?p) \<noteq> CHR ''/''" by (simp only: at_sep simp_thms)
  qed simp_all
  have n: "nat (len ?p + 1) = Suc (length ?p)" by simp
  have lo: "len (?p @ CHR ''/'' # ?t @ ''/'') - 1 = len ?p + len ?t + 1" by simp
  have "BackUpToPreviousSlash (len pre) (?p @ CHR ''/'' # ?t @ ''/'') = take (Suc (length ?p)) (?p @ CHR ''/'' # ?t @ ''/'')"
    unfolding BackUpToPreviousSlash_def lo Let_def using j n by simp
  then show ?thesis using snoc out by (simp add: seg_text_def)
qed

definition dots :: "punit list \<Rightarrow> bool" where
  "dots s \<longleftrightarrow> s = [Dot] \<or> s = [Dot, Dot]"

lemma remove_dots_Cons:
  "\<not> dots s \<Longrightarrow> remove_dots D (s # ss) = remove_dots (D @ [s]) ss"
  by (cases ss) (auto simp: dots_def)

lemma remove_cur: "ss \<noteq> [] \<Longrightarrow> remove_dots D ([Dot] # ss) = remove_dots D ss"
  by (cases ss) auto

lemma remove_up: "ss \<noteq> [] \<Longrightarrow> remove_dots D ([Dot, Dot] # ss) = remove_dots (butlast D) ss"
  by (cases ss) auto

lemma classify_units:
  assumes "path_units (seg spec j e) = Some us" "0 \<le> j" "j \<le> e" "e \<le> len spec"
  shows "ClassifyAfterDot spec j e =
    (if us = [] then (DIRECTORY_CUR, 0)
     else if hd us = Slash then (DIRECTORY_CUR, 1)
     else if us = [Dot] then (DIRECTORY_UP, IsDot spec j e)
     else if hd us = Dot \<and> hd (tl us) = Slash then (DIRECTORY_UP, IsDot spec j e + 1)
     else (NOT_A_DIRECTORY, 0))"
proof (cases "j = e")
  case True
  then show ?thesis using assms by (simp add: ClassifyAfterDot_def)
next
  case False
  then have lt: "j < e" using assms(3) by simp
  obtain u us' k where u: "us = u # us'" "j < k" "k \<le> e" "path_units (seg spec k e) = Some us'"
    "u = Slash \<longleftrightarrow> IsURLSlash (char16_of (at spec j))" "u = Dot \<longleftrightarrow> IsDot spec j e > 0" "u = Dot \<longrightarrow> k = j + IsDot spec j e"
    using unit_at [OF assms(1,2) lt assms(4)] by blast
  have nz: "IsDot spec j e \<noteq> 0 \<longleftrightarrow> u = Dot" using u(6) IsDot_cases [of spec j e] by auto
  show ?thesis
  proof (cases "u = Dot")
    case d: True
    then have k: "k = j + IsDot spec j e" using u(7) by blast
    show ?thesis
    proof (cases "k = e")
      case True
      then have "us' = []" using u(4) by simp
      then show ?thesis using lt u(1,5) nz d k True by (simp add: ClassifyAfterDot_def Let_def)
    next
      case False
      then have "k < e" "0 \<le> k" using u(2,3) assms(2) by auto
      then obtain v vs where v: "us' = v # vs" "v = Slash \<longleftrightarrow> IsURLSlash (char16_of (at spec k))"
        using unit_at [OF u(4) _ _ assms(4)] by blast
      then show ?thesis using lt u(1,5) nz d k False by (simp add: ClassifyAfterDot_def Let_def)
    qed
  next
    case False
    then show ?thesis using lt u(1,5) nz by (simp add: ClassifyAfterDot_def Let_def)
  qed
qed

lemma out_slash:
  assumes "seg_good cur"
  shows "(len pre < len (pre @ path_text (D @ [cur])) \<and>
      at (pre @ path_text (D @ [cur])) (len (pre @ path_text (D @ [cur])) - 1) = CHR ''/'') \<longleftrightarrow> cur = []"
proof -
  let ?o = "pre @ path_text (D @ [cur])"
  have ne: "seg_text cur \<noteq> []" by (simp add: seg_text_def)
  then have "at ?o (len ?o - 1) = last (seg_text cur)" using at_last [of ?o] by simp
  then have "at ?o (len ?o - 1) = CHR ''/'' \<longleftrightarrow> cur = []" using last_slash [OF assms] by simp
  moreover have "len pre < len ?o" using ne by (cases "seg_text cur") simp_all
  ultimately show ?thesis by blast
qed

lemma segments_Cons: "u \<noteq> Slash \<Longrightarrow> segments (u # us) = (u # hd (segments us)) # tl (segments us)"
  by simp

lemma dots_piece: "\<not> dots (cur @ Piece t ok # s)"
  by (auto simp: dots_def append_eq_Cons_conv)

text \<open>
  From a state with the directories \<open>D\<close> and the segment \<open>cur\<close> written, the loop writes
  the reference's segments.
\<close>

lemma scan_units:
  assumes "path_units (seg spec i e) = Some us" "0 \<le> i" "i \<le> e" "e \<le> len spec"
    "\<forall>d\<in>set D. seg_good d" "seg_good cur" "cur \<noteq> [] \<longrightarrow> \<not> dots (cur @ hd (segments us))"
  shows "partial_path_scan spec e (len pre) i kIntMin s (pre @ path_text (D @ [cur])) =
    (s \<and> list_all unit_ok us, pre @ path_text (remove_dots D ((cur @ hd (segments us)) # tl (segments us))))"
  using assms
proof (induction "nat (e - i)" arbitrary: i us D cur s rule: less_induct)
  case less
  note prems = less.prems
  have IH: "path_units (seg spec j e) = Some us' \<Longrightarrow> i < j \<Longrightarrow> j \<le> e \<Longrightarrow> i < e \<Longrightarrow>
      \<forall>d\<in>set D'. seg_good d \<Longrightarrow> seg_good cur' \<Longrightarrow> cur' \<noteq> [] \<longrightarrow> \<not> dots (cur' @ hd (segments us')) \<Longrightarrow>
      partial_path_scan spec e (len pre) j kIntMin s' (pre @ path_text (D' @ [cur'])) =
      (s' \<and> list_all unit_ok us', pre @ path_text (remove_dots D' ((cur' @ hd (segments us')) # tl (segments us'))))"
    for j us' D' cur' s'
    using less.hyps [of j us' D' cur' s'] prems(2,4) by simp
  show ?case
  proof (cases "i < e")
    case False
    then have "us = []" using prems(1) by simp
    then show ?thesis using False prems(7) by (simp add: partial_path_scan.simps) (auto simp: dots_def)
  next
    case True
    obtain u us' j where u: "us = u # us'" "i < j" "j \<le> e" "path_units (seg spec j e) = Some us'"
      "u = Slash \<longleftrightarrow> IsURLSlash (char16_of (at spec i))" "u = Dot \<longleftrightarrow> IsDot spec i e > 0"
      "u = Slash \<longrightarrow> j = i + 1" "u = Dot \<longrightarrow> j = i + IsDot spec i e"
      and piece: "\<forall>t ok. u = Piece t ok \<longrightarrow> (\<forall>pb lip s out. lip = kIntMin \<longrightarrow>
        partial_path_scan spec e pb i lip s out = partial_path_scan spec e pb j lip (s \<and> ok) (out @ t))"
      using unit_at [OF prems(1,2) True prems(4)] by blast
    have good: "u \<noteq> Slash \<Longrightarrow> seg_good (cur @ [u])"
      using units_good [OF prems(1)] prems(6) u(1) by (auto simp: seg_good_def)
    have push: "pre @ path_text (D @ [cur @ [u]]) = (pre @ path_text (D @ [cur])) @ unit_text u"
      by (simp add: seg_text_snoc)
    show ?thesis
    proof (cases u)
      case Slash
      have nd: "\<not> dots cur" using prems(7) Slash u(1) by (cases "cur = []") (auto simp: dots_def)
      have "partial_path_scan spec e (len pre) i kIntMin s (pre @ path_text (D @ [cur])) =
          partial_path_scan spec e (len pre) j kIntMin s (pre @ path_text ((D @ [cur]) @ [[]]))"
        using scan_slash [OF True, of spec "len pre" kIntMin s "pre @ path_text (D @ [cur])"] Slash u(5,7)
        by (simp add: push_back_def seg_text_def)
      then show ?thesis
        using IH [OF u(4,2,3) True, of "D @ [cur]" "[]" s] prems(5,6) nd Slash u(1)
        by (simp add: seg_good_def remove_dots_Cons)
    next
      case (Piece t ok)
      have "partial_path_scan spec e (len pre) i kIntMin s (pre @ path_text (D @ [cur])) =
          partial_path_scan spec e (len pre) j kIntMin (s \<and> ok) (pre @ path_text (D @ [cur @ [u]]))"
        using piece Piece push by simp
      then show ?thesis
        using IH [OF u(4,2,3) True prems(5), of "cur @ [u]" "s \<and> ok"] good Piece u(1) dots_piece
        by simp
    next
      case Dot
      let ?out = "pre @ path_text (D @ [cur])"
      have tab: "kPathCharLookup ! byte (at spec i) AND SPECIAL \<noteq> 0"
      proof -
        have "at spec i = CHR ''.'' \<or> at spec i = CHR ''%''"
          using u(6) Dot by (auto simp: IsDot_def split: if_splits)
        then have "byte (at spec i) = 46 \<or> byte (at spec i) = 37" by auto
        then show ?thesis using plain_byte [of 46] plain_byte [of 37] by auto
      qed
      have step: "partial_path_scan spec e (len pre) i kIntMin s ?out =
        (let (k, o') = path_dot spec e (len pre) i (IsDot spec i e) ?out in partial_path_scan spec e (len pre) k kIntMin s o')"
        using True tab u(6) Dot by (subst partial_path_scan.simps) (simp add: Let_def)
      have keep: "partial_path_scan spec e (len pre) i kIntMin s ?out =
          (s \<and> list_all unit_ok us, pre @ path_text (remove_dots D ((cur @ hd (segments us)) # tl (segments us))))"
        if "path_dot spec e (len pre) i (IsDot spec i e) ?out = (j, push_back CHR ''.'' ?out)"
          "\<not> dots (cur @ Dot # hd (segments us'))"
        using IH [OF u(4,2,3) True prems(5), of "cur @ [u]" s] good Dot u(1) that push step
        by (simp add: push_back_def)
      show ?thesis
      proof (cases "cur = []")
        case False
        then have "path_dot spec e (len pre) i (IsDot spec i e) ?out = (j, push_back CHR ''.'' ?out)"
          using out_slash [OF prems(6), of pre D] u(8) Dot unfolding path_dot_def by (simp only: if_False simp_thms)
        then show ?thesis using keep prems(7) False u(1) Dot by simp
      next
        case cur: True
        have j: "j = i + IsDot spec i e" using u(8) Dot by blast
        have dot: "path_dot spec e (len pre) i (IsDot spec i e) ?out =
          (case ClassifyAfterDot spec j e of
             (NOT_A_DIRECTORY, n) \<Rightarrow> (j, push_back CHR ''.'' ?out)
           | (DIRECTORY_CUR, n) \<Rightarrow> (j + n, ?out)
           | (DIRECTORY_UP, n) \<Rightarrow> (j + n, BackUpToPreviousSlash (len pre) ?out))"
          using out_slash [OF prems(6), of pre D] cur unfolding path_dot_def j by (simp only: if_True simp_thms)
        have "0 \<le> j" using u(2) prems(2) by simp
        note cl = classify_units [OF u(4) this u(3) prems(4)]
        have next_unit: "\<exists>k. path_units (seg spec k e) = Some (tl us') \<and> i < k \<and> k \<le> e \<and>
            (hd us' = Slash \<longrightarrow> k = j + 1) \<and> (hd us' = Dot \<longrightarrow> k = j + IsDot spec j e)" if "us' \<noteq> []"
        proof -
          have "j < e" using that u(3,4) by (cases "j = e") auto
          from unit_at [OF u(4) \<open>0 \<le> j\<close> this prems(4)] show ?thesis using u(2) by force
        qed
        have sg: "segments us = (Dot # hd (segments us')) # tl (segments us')"
          using u(1) Dot segments_Cons by simp
        have gb: "\<forall>d\<in>set (butlast D). seg_good d" using prems(5) in_set_butlastD by metis
        have g0: "seg_good []" by (simp add: seg_good_def)
        have nc: "[] \<noteq> [] \<longrightarrow> \<not> dots ([] @ hd (segments x))" for x by simp
        note IH0 = IH [OF _ _ _ True prems(5) g0 nc] and IHu = IH [OF _ _ _ True gb g0 nc]
        have ok: "unit_ok Slash" "unit_ok Dot" by simp_all
        consider (none) "us' = []" | (cur) r where "us' = Slash # r" | (up1) "us' = [Dot]"
          | (up2) r where "us' = Dot # Slash # r"
          | (no) "us' \<noteq> []" "hd us' \<noteq> Slash" "us' \<noteq> [Dot]" "\<not> (hd us' = Dot \<and> hd (tl us') = Slash)"
          by (metis list.collapse list.sel(1,3))
        then show ?thesis
        proof cases
          case none
          then show ?thesis using IH0 [OF u(4,2,3), of s] cl dot step sg cur u(1) Dot by simp
        next
          case (cur r)
          then have k: "path_units (seg spec (j + 1) e) = Some r" "i < j + 1" "j + 1 \<le> e" using next_unit by auto
          show ?thesis
            using IH0 [OF k, of s] cl dot step sg \<open>cur = []\<close> u(1) Dot cur by (simp add: remove_cur)
        next
          case up1
          then have k: "path_units (seg spec (j + IsDot spec j e) e) = Some []" "i < j + IsDot spec j e" "j + IsDot spec j e \<le> e"
            using next_unit by auto
          show ?thesis
            using IHu [OF k, of s] cl dot step sg cur u(1) Dot up1 backup_segments [OF prems(5), of pre] by simp
        next
          case (up2 r)
          then have k: "path_units (seg spec (j + IsDot spec j e) e) = Some (Slash # r)" "i < j + IsDot spec j e"
              "j + IsDot spec j e \<le> e"
            using next_unit by auto
          have "j + IsDot spec j e < e" using k by (cases "j + IsDot spec j e = e") auto
          from unit_at [OF k(1) _ this prems(4)] k(2) prems(2)
          have k2: "path_units (seg spec (j + IsDot spec j e + 1) e) = Some r" "i < j + IsDot spec j e + 1"
              "j + IsDot spec j e + 1 \<le> e" by auto
          show ?thesis
            using IHu [OF k2, of s] cl dot step sg cur u(1) Dot up2 backup_segments [OF prems(5), of pre]
            by (simp add: remove_up add.assoc)
        next
          case no
          then have "ClassifyAfterDot spec j e = (NOT_A_DIRECTORY, 0)" using cl by simp
          moreover have "\<not> dots (Dot # hd (segments us'))"
          proof -
            obtain v vs where v: "us' = v # vs" using no by (cases us') auto
            then show ?thesis using no by (cases vs) (auto simp: dots_def)
          qed
          ultimately show ?thesis using keep dot cur by simp
        qed
      qed
    qed
  qed
qed

lemma path_written_reference:
  assumes "within 0 (len spec) path" "path_units (component_str spec path) = Some us"
  shows "CanonicalizePath spec path out =
    (list_all unit_ok us, MakeRange (len out) (len (out @ path_reference us)), out @ path_reference us)"
proof (cases "c_len path > 0")
  case False
  then have "us = []" using assms(2) by (simp add: component_str_def c_end_def)
  then show ?thesis using False
    by (simp add: CanonicalizePath_def path_reference_def push_back_def MakeRange_def seg_text_def)
next
  case True
  let ?b = "c_begin path" and ?e = "c_end path"
  have b: "0 \<le> ?b" "?b < ?e" "?e \<le> len spec" using assms(1) True by (auto simp: within_def is_valid_def c_end_def)
  have us: "path_units (seg spec ?b ?e) = Some us" using assms(2) by (simp add: component_str_def)
  obtain u us' where u: "us = u # us'" "u = Slash \<longleftrightarrow> IsURLSlash (char16_of (at spec ?b))"
      "u = Slash \<longrightarrow> path_units (seg spec (?b + 1) ?e) = Some us'"
    using unit_at [OF us b] by auto
  have g: "seg_good []" by (simp add: seg_good_def)
  have start: "pre @ path_text ([] @ [[]]) = push_back CHR ''/'' pre" for pre
    by (simp add: push_back_def seg_text_def)
  have run: "path_units (seg spec i ?e) = Some vs \<Longrightarrow> 0 \<le> i \<Longrightarrow> i \<le> ?e \<Longrightarrow>
      partial_path_scan spec ?e (len out) i kIntMin True (push_back CHR ''/'' out) =
      (list_all unit_ok vs, out @ path_text (remove_dots [] (segments vs)))" for i vs
    using scan_units [of spec i ?e vs "[]" "[]" out True] b(3) g start [of out] by simp
  show ?thesis
  proof (cases "u = Slash")
    case sl: True
    then have "partial_path_scan spec ?e (len out) ?b kIntMin True out = (list_all unit_ok us', out @ path_reference us)"
      using scan_slash [OF b(2), of spec "len out" kIntMin True out] run [of "?b + 1" us'] u b
      by (simp add: path_reference_def)
    then show ?thesis using sl True u by (simp add: CanonicalizePath_def DoPartialPath_def MakeRange_def)
  next
    case False
    then have "drop_first_slash us = us" using u(1) by (cases u) auto
    then have "partial_path_scan spec ?e (len out) ?b kIntMin True (push_back CHR ''/'' out) = (list_all unit_ok us, out @ path_reference us)"
      using run [OF us] b by (simp add: path_reference_def)
    then show ?thesis using False True u by (simp add: CanonicalizePath_def DoPartialPath_def MakeRange_def)
  qed
qed

text \<open>
  C3. On a path whose percent signs all begin escapes, the index loop computes the
  reference: split into segments, remove the dot segments on the list of segments, and write
  each remaining segment in canonical characters.
\<close>

theorem path_is_reference:
  assumes "within 0 (len spec) path" "path_units (component_str spec path) = Some us"
  shows "CanonicalizePath spec path out =
    (list_all unit_ok us, MakeRange (len out) (len (out @ path_reference us)), out @ path_reference us)"
  using assms by (rule path_written_reference)

theorem path_is_reference_witness:
  "CanonicalizePath ''/a/%2E/b/../%41 c'' (Component 0 17) ''h'' = (True, MakeRange 1 9, ''h/a/A%20c'')"
proof -
  have "path_units (component_str ''/a/%2E/b/../%41 c'' (Component 0 17)) =
      Some [Slash, Piece ''a'' True, Slash, Dot, Slash, Piece ''b'' True, Slash, Dot, Dot, Slash, Piece ''A'' True,
        Piece ''%20'' True, Piece ''c'' True]"
    by code_simp
  from path_is_reference [OF _ this, of "''h''"] show ?thesis
    by (simp add: path_reference_def seg_text_def)
qed

lemma remove_dots_shape:
  "\<forall>d\<in>set D. \<not> dots d \<Longrightarrow> \<forall>s\<in>set (remove_dots D ss). \<not> dots s \<and> (s \<in> set D \<or> s \<in> set ss \<or> s = [])"
proof (induction D ss rule: remove_dots.induct)
  case (2 D s)
  then show ?case by (auto simp: dots_def dest: in_set_butlastD)
next
  case (3 D s t ss)
  have "\<forall>d\<in>set (if s = [Dot] then D else if s = [Dot, Dot] then butlast D else D @ [s]). \<not> dots d"
    using 3(2) by (auto simp: dots_def dest: in_set_butlastD)
  from 3(1) [OF this] show ?case by (auto simp: dest: in_set_butlastD split: if_splits)
qed auto

lemma remove_dots_ne: "ss \<noteq> [] \<Longrightarrow> remove_dots D ss \<noteq> []"
  by (induction D ss rule: remove_dots.induct) auto

lemma remove_dots_none: "\<forall>s\<in>set ss. \<not> dots s \<Longrightarrow> remove_dots D ss = D @ ss"
  by (induction ss arbitrary: D) (auto simp: remove_dots_Cons)

lemma segments_set: "s \<in> set (segments us) \<Longrightarrow> u \<in> set s \<Longrightarrow> u \<in> set us \<and> u \<noteq> Slash"
proof (induction us arbitrary: s)
  case (Cons v us)
  obtain h t where ht: "segments us = h # t" by (cases "segments us") auto
  show ?case using Cons.prems Cons.IH [of h] Cons.IH [of s] by (auto simp: ht split: if_splits)
qed simp

lemma segments_word: "\<forall>u\<in>set s. u \<noteq> Slash \<Longrightarrow> segments s = [s]"
  by (induction s) auto

lemma segments_join: "\<forall>u\<in>set s. u \<noteq> Slash \<Longrightarrow> segments (s @ Slash # us) = s # segments us"
  by (induction s) auto

lemma segments_concat:
  assumes "ss \<noteq> []" "\<forall>s\<in>set ss. \<forall>u\<in>set s. u \<noteq> Slash"
  shows "segments (drop_first_slash (concat (map ((#) Slash) ss))) = ss"
  using assms
proof (induction ss)
  case (Cons s ss)
  then show ?case by (cases ss) (simp_all add: segments_word segments_join)
qed simp

lemma path_units_good:
  "seg_good s \<Longrightarrow> path_units (concat (map unit_text s) @ rest) = map_option ((@) s) (path_units rest)"
proof (induction s arbitrary: rest)
  case Nil
  then show ?case by (cases "path_units rest") simp_all
next
  case (Cons u s)
  then have "unit_good u" "seg_good s" by (simp_all add: seg_good_def)
  then show ?case using Cons.IH [of rest] by (cases "path_units rest") (simp_all add: unit_good_def)
qed

lemma path_units_text:
  "\<forall>s\<in>set ss. seg_good s \<Longrightarrow> path_units (path_text ss) = Some (concat (map ((#) Slash) ss))"
  by (induction ss) (simp_all add: seg_text_def path_units_good)

lemma path_again:
  assumes "within 0 (len spec) path" "path_units (component_str spec path) = Some us"
    "CanonicalizePath spec path out = (True, c, out')"
  shows "\<exists>p. out' = out @ p \<and> c = MakeRange (len out) (len (out @ p)) \<and>
    (\<forall>spec2 path2 out2. within 0 (len spec2) path2 \<longrightarrow> component_str spec2 path2 = p \<longrightarrow>
      CanonicalizePath spec2 path2 out2 = (True, MakeRange (len out2) (len (out2 @ p)), out2 @ p))"
proof -
  let ?r = "remove_dots [] (segments (drop_first_slash us))"
  let ?p = "path_reference us"
  let ?us = "concat (map ((#) Slash) ?r)"
  have o: "list_all unit_ok us" "out' = out @ ?p" "c = MakeRange (len out) (len (out @ ?p))"
    using assms(3) path_written_reference [OF assms(1,2), of out] by auto
  have sub: "set (drop_first_slash us) \<subseteq> set us" by (cases us rule: drop_first_slash.cases) auto
  have el: "\<not> dots s \<and> (\<forall>u\<in>set s. u \<in> set us \<and> u \<noteq> Slash)" if "s \<in> set ?r" for s
    using remove_dots_shape [of "[]" "segments (drop_first_slash us)"] that segments_set sub by fastforce
  have good: "\<forall>s\<in>set ?r. seg_good s"
    using el units_good [OF assms(2)] unfolding seg_good_def by blast
  have ne: "?r \<noteq> []" using remove_dots_ne by simp
  have segs: "segments (drop_first_slash ?us) = ?r"
    by (rule segments_concat [OF ne]) (use el in blast)
  have units: "path_units ?p = Some ?us"
    using path_units_text [OF good] by (simp add: path_reference_def)
  have ref: "path_reference ?us = ?p"
    using remove_dots_none [of ?r "[]"] el by (simp add: path_reference_def [of ?us] segs path_reference_def [of us])
  have ok: "list_all unit_ok ?us" using el o(1) by (force simp: list_all_iff)
  have "CanonicalizePath spec2 path2 out2 = (True, MakeRange (len out2) (len (out2 @ ?p)), out2 @ ?p)"
    if "within 0 (len spec2) path2" "component_str spec2 path2 = ?p" for spec2 path2 out2
    using path_written_reference [OF that(1), of ?us out2] units that(2) ref ok by simp
  then show ?thesis using o(2,3) by blast
qed

text \<open>
  C24. A path whose percent signs all begin escapes and that is accepted is written in
  canonical form: canonicalizing the text again succeeds with the same output.
\<close>

theorem path_canonical:
  assumes "within 0 (len spec) path" "path_units (component_str spec path) = Some us"
    "CanonicalizePath spec path out = (True, c, out')"
  shows "\<exists>p. out' = out @ p \<and> CanonicalizePath p (MakeRange 0 (len p)) out = (True, c, out')"
proof -
  obtain p where p: "out' = out @ p" "c = MakeRange (len out) (len (out @ p))"
    "\<forall>spec2 path2 out2. within 0 (len spec2) path2 \<longrightarrow> component_str spec2 path2 = p \<longrightarrow>
      CanonicalizePath spec2 path2 out2 = (True, MakeRange (len out2) (len (out2 @ p)), out2 @ p)"
    using path_again [OF assms] by blast
  have "within 0 (len p) (MakeRange 0 (len p))" "component_str p (MakeRange 0 (len p)) = p" by simp_all
  then show ?thesis using p by blast
qed

theorem path_canonical_witness:
  "\<exists>p. ''h/a/A%20c'' = ''h'' @ p \<and>
    CanonicalizePath p (MakeRange 0 (len p)) ''h'' = (True, MakeRange 1 9, ''h/a/A%20c'')"
proof -
  have u: "path_units (component_str ''/a/%2E/b/../%41 c'' (Component 0 17)) =
      Some [Slash, Piece ''a'' True, Slash, Dot, Slash, Piece ''b'' True, Slash, Dot, Dot, Slash, Piece ''A'' True,
        Piece ''%20'' True, Piece ''c'' True]"
    by code_simp
  have "CanonicalizePath ''/a/%2E/b/../%41 c'' (Component 0 17) ''h'' = (True, MakeRange 1 9, ''h/a/A%20c'')"
    by code_simp
  from path_canonical [OF _ u this] show ?thesis by simp
qed

section \<open>A stale percent sign\<close>

text \<open>
  The index of the last invalid percent sign survives a double dot that removes the
  percent sign from the output.  The check for nested escapes then reads two unrelated
  characters as an escape: a segment that should be \<open>ABC\<close> is written \<open>A25BC\<close>, and a
  path whose canonical form is not canonical exists.
\<close>

theorem stale_percent_rewrites_path:
  "CanonicalizePath ''/%/../%41%42C'' (Component 0 13) [] = (True, MakeRange 0 6, ''/A25BC'') \<and>
   CanonicalizePath ''/%41%42C'' (Component 0 8) [] = (True, MakeRange 0 4, ''/ABC'') \<and>
   CanonicalizePath ''/a%/../%3F%41'' (Component 0 13) [] = (True, MakeRange 0 7, ''/%325FA'') \<and>
   CanonicalizePath ''/%325FA'' (Component 0 7) [] = (True, MakeRange 0 5, ''/25FA'')"
  by (intro conjI; code_simp)

end
