(* ===== verification/Url_Canon.thy ===== *)
theory Url_Canon
  imports Url_Path Url_Host
begin

unbundle bit_operations_syntax

text \<open>
  The canonicalizers of the remaining components (\<open>url_canon_etc.cc\<close>,
  \<open>url_canon_query.cc\<close>), the replacements of \<open>url_canon.h\<close>, and the canonicalizers of
  whole URLs: \<open>url_canon_stdurl.cc\<close>, \<open>url_canon_pathurl.cc\<close>, \<open>url_canon_mailtourl.cc\<close>,
  \<open>url_canon_fileurl.cc\<close> (without the Windows drive letters) and
  \<open>url_canon_filesystemurl.cc\<close>.  The result of an operation lists success, the output
  components and the output, in this order.
\<close>

section \<open>Whitespace and schemes\<close>

definition IsRemovableURLWhitespace :: "char \<Rightarrow> bool" where
  "IsRemovableURLWhitespace ch \<longleftrightarrow> ch = CHR 0x0D \<or> ch = CHR 0x0A \<or> ch = CHR 0x09"

definition RemoveURLWhitespace :: "str \<Rightarrow> str" where
  "RemoveURLWhitespace input =
     (if \<not> list_ex IsRemovableURLWhitespace input then input
      else fold (\<lambda>c buffer. if \<not> IsRemovableURLWhitespace c then push_back c buffer else buffer) input [])"

definition kSchemeCanonical :: "nat list" where
  "kSchemeCanonical =
    replicate 32 0
    @ [0, 0, 0, 0, 0, 0, 0, 0, 0, 0, 0, byte CHR ''+'', 0, byte CHR ''-'', byte CHR ''.'', 0]
    @ map (\<lambda>c. byte c) ''0123456789'' @ [0, 0, 0, 0, 0, 0, 0]
    @ map (\<lambda>c. byte c) ''abcdefghijklmnopqrstuvwxyz'' @ [0, 0, 0, 0, 0, 0]
    @ map (\<lambda>c. byte c) ''abcdefghijklmnopqrstuvwxyz'' @ [0, 0, 0, 0, 0]"

definition CanonicalSchemeChar :: "nat \<Rightarrow> nat" where
  "CanonicalSchemeChar ch = (if ch \<ge> 0x80 then 0 else kSchemeCanonical ! ch)"

definition IsSchemeFirstChar :: "nat \<Rightarrow> bool" where
  "IsSchemeFirstChar c \<longleftrightarrow>
     (c \<ge> byte CHR ''a'' \<and> c \<le> byte CHR ''z'') \<or> (c \<ge> byte CHR ''A'' \<and> c \<le> byte CHR ''Z'')"

function scheme_scan :: "str \<Rightarrow> int \<Rightarrow> int \<Rightarrow> int \<Rightarrow> bool \<Rightarrow> str \<Rightarrow> bool \<times> str" where
  "scheme_scan spec scheme_begin e i success out =
     (if i < e then
        (let ch = byte (at spec i);
             replacement =
               (if ch < 0x80 then
                  (if i = scheme_begin then (if IsSchemeFirstChar ch then kSchemeCanonical ! ch else 0)
                   else kSchemeCanonical ! ch)
                else 0)
         in if replacement \<noteq> 0
            then scheme_scan spec scheme_begin e (i + 1) success (push_back (char_of replacement) out)
            else if ch = byte CHR ''%''
            then scheme_scan spec scheme_begin e (i + 1) False (push_back CHR ''%'' out)
            else (let (ok, i', out') = AppendUTF8EscapedChar spec i e out
                  in scheme_scan spec scheme_begin e (i' + 1) False out'))
      else (success, out))"
  by pat_completeness auto
termination
  by (relation "measure (\<lambda>(s, b, e, i, k, out). nat (e - i))") (auto simp: AppendUTF8EscapedChar_eq)

declare scheme_scan.simps [simp del]

definition CanonicalizeScheme :: "str \<Rightarrow> component \<Rightarrow> str \<Rightarrow> bool \<times> component \<times> str" where
  "CanonicalizeScheme spec scheme out =
     (if c_len scheme \<le> 0 then (True, Component (len out) 0, push_back CHR '':'' out)
      else let (success, out') = scheme_scan spec (c_begin scheme) (c_end scheme) (c_begin scheme) True out
      in (success, Component (len out) (len out' - len out), push_back CHR '':'' out'))"

section \<open>User names, ports and references\<close>

definition CanonicalizeUserInfo ::
    "str \<Rightarrow> component \<Rightarrow> str \<Rightarrow> component \<Rightarrow> str \<Rightarrow> bool \<times> component \<times> component \<times> str" where
  "CanonicalizeUserInfo username_spec username password_spec password out =
     (if c_len username \<le> 0 \<and> c_len password \<le> 0 then (True, no_component, no_component, out)
      else let out1 = (if c_len username > 0
                       then AppendStringOfType username_spec username CHAR_USERINFO out else out);
               out_username = Component (len out) (len out1 - len out);
               (out_password, out2) =
                 (if c_len password > 0
                  then (let out' = push_back CHR '':'' out1;
                            out'' = AppendStringOfType password_spec password CHAR_USERINFO out'
                        in (Component (len out') (len out'' - len out'), out''))
                  else (no_component, out1))
      in (True, out_username, out_password, push_back CHR ''@'' out2))"

definition CanonicalizePort :: "str \<Rightarrow> component \<Rightarrow> int \<Rightarrow> str \<Rightarrow> bool \<times> component \<times> str" where
  "CanonicalizePort spec port default_port_for_scheme out =
     (let port_num = ParsePort spec port
      in if port_num = PORT_UNSPECIFIED \<or> port_num = default_port_for_scheme then (True, no_component, out)
         else let out1 = push_back CHR '':'' out
         in if port_num = PORT_INVALID
            then (let out2 = AppendInvalidNarrowString spec (c_begin port) (c_end port) out1
                  in (False, Component (len out1) (len out2 - len out1), out2))
            else (let out2 = out1 @ (case itoa_s port_num 6 10 of Some t \<Rightarrow> t | None \<Rightarrow> [])
                  in (True, Component (len out1) (len out2 - len out1), out2)))"

function ref_scan :: "str \<Rightarrow> int \<Rightarrow> int \<Rightarrow> str \<Rightarrow> str" where
  "ref_scan spec e i out =
     (if i < e then
        (let c = byte (at spec i)
         in if c = 0 then ref_scan spec e (i + 1) out
            else if c < 0x20 then ref_scan spec e (i + 1) (AppendEscapedChar c out)
            else if c < 0x80 then ref_scan spec e (i + 1) (push_back (at spec i) out)
            else (let (success, code_point, i') = ReadUTFChar spec i e
                  in ref_scan spec e (i' + 1) (AppendUTF8Value code_point out)))
      else out)"
  by pat_completeness auto
termination
  by (relation "measure (\<lambda>(s, e, i, out). nat (e - i))") auto

declare ref_scan.simps [simp del]

definition CanonicalizeRef :: "str \<Rightarrow> component \<Rightarrow> str \<Rightarrow> component \<times> str" where
  "CanonicalizeRef spec ref out =
     (if c_len ref < 0 then (no_component, out)
      else let out1 = push_back CHR ''#'' out;
               out2 = ref_scan spec (c_end ref) (c_begin ref) out1
      in (Component (len out1) (len out2 - len out1), out2))"

section \<open>Queries\<close>

text \<open>
  A \<open>CharsetConverter\<close> of the embedder appends the encoding of UTF-16 text to a buffer; the
  code may be given none.
\<close>

type_synonym charset_converter = "(nat list \<Rightarrow> str \<Rightarrow> str) option"

definition IsAllASCII :: "str \<Rightarrow> component \<Rightarrow> bool" where
  "IsAllASCII spec query = (\<not> list_ex (\<lambda>c. byte c \<ge> 0x80) (component_str spec query))"

definition AppendRaw8BitQueryString :: "str \<Rightarrow> str \<Rightarrow> str" where
  "AppendRaw8BitQueryString source out =
     fold (\<lambda>c out. if \<not> IsQueryChar (byte c) then AppendEscapedChar (byte c) out else push_back c out) source out"

definition RunConverter :: "str \<Rightarrow> component \<Rightarrow> (nat list \<Rightarrow> str \<Rightarrow> str) \<Rightarrow> str \<Rightarrow> str" where
  "RunConverter spec query converter out =
     (let (ok, utf16) = ConvertUTF8ToUTF16 (drop (nat (c_begin query)) spec) (c_len query) 0 True []
      in converter utf16 out)"

definition DoConvertToQueryEncoding :: "str \<Rightarrow> component \<Rightarrow> charset_converter \<Rightarrow> str \<Rightarrow> str" where
  "DoConvertToQueryEncoding spec query converter out =
     (if IsAllASCII spec query then AppendRaw8BitQueryString (component_str spec query) out
      else case converter of
             Some conv \<Rightarrow> AppendRaw8BitQueryString (RunConverter spec query conv []) out
           | None \<Rightarrow> AppendStringOfType spec query CHAR_QUERY out)"

definition CanonicalizeQuery :: "str \<Rightarrow> component \<Rightarrow> charset_converter \<Rightarrow> str \<Rightarrow> component \<times> str" where
  "CanonicalizeQuery spec query converter out =
     (if c_len query < 0 then (no_component, out)
      else let out1 = push_back CHR ''?'' out;
               out2 = DoConvertToQueryEncoding spec query converter out1
      in (Component (len out1) (len out2 - len out1), out2))"

section \<open>Sources and replacements\<close>

text \<open>\<open>URLComponentSource\<close>: a string for each component; \<open>None\<close> is the null pointer.\<close>

record 'a URLComponentSource =
  s_scheme :: 'a
  s_username :: 'a
  s_password :: 'a
  s_host :: 'a
  s_port :: 'a
  s_path :: 'a
  s_query :: 'a
  s_ref :: 'a

definition source_of :: "'a \<Rightarrow> 'a URLComponentSource" where
  "source_of v = \<lparr>s_scheme = v, s_username = v, s_password = v, s_host = v, s_port = v, s_path = v,
     s_query = v, s_ref = v\<rparr>"

record Replacements =
  sources :: "str option URLComponentSource"
  components :: parts

definition no_replacements :: Replacements where
  "no_replacements = \<lparr>sources = source_of None, components = no_parts\<rparr>"

text \<open>A source of \<open>None\<close> may be passed to a setter; it cancels the override.\<close>

definition SetScheme :: "str option \<Rightarrow> component \<Rightarrow> Replacements \<Rightarrow> Replacements" where
  "SetScheme s c r = r\<lparr>sources := (sources r)\<lparr>s_scheme := s\<rparr>, components := (components r)\<lparr>p_scheme := c\<rparr>\<rparr>"

definition IsSchemeOverridden :: "Replacements \<Rightarrow> bool" where
  "IsSchemeOverridden r \<longleftrightarrow> s_scheme (sources r) \<noteq> None"

definition SetUsername :: "str option \<Rightarrow> component \<Rightarrow> Replacements \<Rightarrow> Replacements" where
  "SetUsername s c r = r\<lparr>sources := (sources r)\<lparr>s_username := s\<rparr>, components := (components r)\<lparr>p_username := c\<rparr>\<rparr>"

definition ClearUsername :: "Replacements \<Rightarrow> Replacements" where
  "ClearUsername = SetUsername (Some []) no_component"

definition SetPassword :: "str option \<Rightarrow> component \<Rightarrow> Replacements \<Rightarrow> Replacements" where
  "SetPassword s c r = r\<lparr>sources := (sources r)\<lparr>s_password := s\<rparr>, components := (components r)\<lparr>p_password := c\<rparr>\<rparr>"

definition ClearPassword :: "Replacements \<Rightarrow> Replacements" where
  "ClearPassword = SetPassword (Some []) no_component"

definition SetHost :: "str option \<Rightarrow> component \<Rightarrow> Replacements \<Rightarrow> Replacements" where
  "SetHost s c r = r\<lparr>sources := (sources r)\<lparr>s_host := s\<rparr>, components := (components r)\<lparr>p_host := c\<rparr>\<rparr>"

definition ClearHost :: "Replacements \<Rightarrow> Replacements" where
  "ClearHost = SetHost (Some []) no_component"

definition SetPort :: "str option \<Rightarrow> component \<Rightarrow> Replacements \<Rightarrow> Replacements" where
  "SetPort s c r = r\<lparr>sources := (sources r)\<lparr>s_port := s\<rparr>, components := (components r)\<lparr>p_port := c\<rparr>\<rparr>"

definition ClearPort :: "Replacements \<Rightarrow> Replacements" where
  "ClearPort = SetPort (Some []) no_component"

definition SetPath :: "str option \<Rightarrow> component \<Rightarrow> Replacements \<Rightarrow> Replacements" where
  "SetPath s c r = r\<lparr>sources := (sources r)\<lparr>s_path := s\<rparr>, components := (components r)\<lparr>p_path := c\<rparr>\<rparr>"

definition ClearPath :: "Replacements \<Rightarrow> Replacements" where
  "ClearPath = SetPath (Some []) no_component"

definition SetQuery :: "str option \<Rightarrow> component \<Rightarrow> Replacements \<Rightarrow> Replacements" where
  "SetQuery s c r = r\<lparr>sources := (sources r)\<lparr>s_query := s\<rparr>, components := (components r)\<lparr>p_query := c\<rparr>\<rparr>"

definition ClearQuery :: "Replacements \<Rightarrow> Replacements" where
  "ClearQuery = SetQuery (Some []) no_component"

definition SetRef :: "str option \<Rightarrow> component \<Rightarrow> Replacements \<Rightarrow> Replacements" where
  "SetRef s c r = r\<lparr>sources := (sources r)\<lparr>s_ref := s\<rparr>, components := (components r)\<lparr>p_ref := c\<rparr>\<rparr>"

definition ClearRef :: "Replacements \<Rightarrow> Replacements" where
  "ClearRef = SetRef (Some []) no_component"

definition DoOverrideComponent :: "str option \<Rightarrow> component \<Rightarrow> str \<times> component \<Rightarrow> str \<times> component" where
  "DoOverrideComponent override_source override_component dest =
     (case override_source of Some s \<Rightarrow> (s, override_component) | None \<Rightarrow> dest)"

text \<open>The sources and the parsed structure with the replacements filled in.\<close>

definition SetupOverrideComponents ::
    "Replacements \<Rightarrow> str URLComponentSource \<Rightarrow> parsed \<Rightarrow> str URLComponentSource \<times> parsed" where
  "SetupOverrideComponents repl source parsed =
     (let rs = sources repl; rc = components repl;
          (scheme_s, scheme_c) = DoOverrideComponent (s_scheme rs) (p_scheme rc) (s_scheme source, p_scheme parsed);
          (username_s, username_c) = DoOverrideComponent (s_username rs) (p_username rc) (s_username source, p_username parsed);
          (password_s, password_c) = DoOverrideComponent (s_password rs) (p_password rc) (s_password source, p_password parsed);
          (host_s, host_c) = DoOverrideComponent (s_host rs) (p_host rc) (s_host source, p_host parsed);
          host_c' = (if c_len host_c = -1 then host_c\<lparr>c_len := 0\<rparr> else host_c);
          (port_s, port_c) = DoOverrideComponent (s_port rs) (p_port rc) (s_port source, p_port parsed);
          (path_s, path_c) = DoOverrideComponent (s_path rs) (p_path rc) (s_path source, p_path parsed);
          (query_s, query_c) = DoOverrideComponent (s_query rs) (p_query rc) (s_query source, p_query parsed);
          (ref_s, ref_c) = DoOverrideComponent (s_ref rs) (p_ref rc) (s_ref source, p_ref parsed)
      in (\<lparr>s_scheme = scheme_s, s_username = username_s, s_password = password_s, s_host = host_s,
            s_port = port_s, s_path = path_s, s_query = query_s, s_ref = ref_s\<rparr>,
          \<lparr>p_scheme = scheme_c, p_username = username_c, p_password = password_c, p_host = host_c',
            p_port = port_c, p_path = path_c, p_query = query_c, p_ref = ref_c,
            inner_parsed = inner_parsed parsed\<rparr>))"

section \<open>Standard URLs\<close>

definition DefaultPortForScheme :: "str \<Rightarrow> int" where
  "DefaultPortForScheme scheme =
     (if length scheme = 4 then (if scheme = ''http'' then 80 else PORT_UNSPECIFIED)
      else if length scheme = 5 then (if scheme = ''https'' then 443 else PORT_UNSPECIFIED)
      else if length scheme = 3 then
        (if scheme = ''ftp'' then 21 else if scheme = ''wss'' then 443 else PORT_UNSPECIFIED)
      else if length scheme = 6 then (if scheme = ''gopher'' then 70 else PORT_UNSPECIFIED)
      else if length scheme = 2 then (if scheme = ''ws'' then 80 else PORT_UNSPECIFIED)
      else PORT_UNSPECIFIED)"

text \<open>The authority of \<open>DoCanonicalizeStandardURL\<close>, written when there is one.\<close>

definition standard_authority ::
    "str URLComponentSource \<Rightarrow> 'a parts_scheme \<Rightarrow> component \<Rightarrow> str \<Rightarrow>
     bool \<times> component \<times> component \<times> component \<times> component \<times> str" where
  "standard_authority source parsed new_scheme out =
     (let out1 = (if is_valid (p_scheme parsed) then push_back CHR ''/'' (push_back CHR ''/'' out) else out);
          (ok_user, username, password, out2) =
            CanonicalizeUserInfo (s_username source) (p_username parsed) (s_password source) (p_password parsed) out1;
          (ok_host, host, out3) = CanonicalizeHost (s_host source) (p_host parsed) out2;
          default_port = DefaultPortForScheme (component_str out3 new_scheme);
          (ok_port, port, out4) = CanonicalizePort (s_port source) (p_port parsed) default_port out3
      in (ok_user \<and> ok_host \<and> is_nonempty (p_host parsed) \<and> ok_port, username, password, host, port, out4))"

definition DoCanonicalizeStandardURL ::
    "str URLComponentSource \<Rightarrow> 'a parts_scheme \<Rightarrow> charset_converter \<Rightarrow> str \<Rightarrow> bool \<times> parts \<times> str" where
  "DoCanonicalizeStandardURL source parsed query_converter out =
     (let (ok_scheme, scheme, out1) = CanonicalizeScheme (s_scheme source) (p_scheme parsed) out;
          have_authority =
            (is_valid (p_username parsed) \<or> is_valid (p_password parsed) \<or>
             is_nonempty (p_host parsed) \<or> is_valid (p_port parsed));
          (ok_authority, username, password, host, port, out2) =
            (if have_authority then standard_authority source parsed scheme out1
             else (False, no_component, no_component, no_component, no_component, out1));
          (ok_path, path, out3) =
            (if is_valid (p_path parsed) then CanonicalizePath (s_path source) (p_path parsed) out2
             else if have_authority \<or> is_valid (p_query parsed) \<or> is_valid (p_ref parsed)
             then (True, Component (len out2) 1, push_back CHR ''/'' out2)
             else (True, no_component, out2));
          (query, out4) = CanonicalizeQuery (s_query source) (p_query parsed) query_converter out3;
          (ref, out5) = CanonicalizeRef (s_ref source) (p_ref parsed) out4
      in (ok_scheme \<and> ok_authority \<and> ok_path,
          \<lparr>p_scheme = scheme, p_username = username, p_password = password, p_host = host,
            p_port = port, p_path = path, p_query = query, p_ref = ref\<rparr>, out5))"

section \<open>Path and mailto URLs\<close>

text \<open>The copy loop that \<open>DoCanonicalizePathComponent\<close> and the mailto path share.\<close>

function lax_scan :: "str \<Rightarrow> int \<Rightarrow> int \<Rightarrow> bool \<Rightarrow> str \<Rightarrow> bool \<times> str" where
  "lax_scan source e i success out =
     (if i < e then
        (let uch = byte (at source i)
         in if uch < 0x20 \<or> uch \<ge> 0x80
            then (let (ok, i', out') = AppendUTF8EscapedChar source i e out
                  in lax_scan source e (i' + 1) (success \<and> ok) out')
            else lax_scan source e (i + 1) success (push_back (at source i) out))
      else (success, out))"
  by pat_completeness auto
termination
  by (relation "measure (\<lambda>(s, e, i, k, out). nat (e - i))") (auto simp: AppendUTF8EscapedChar_eq)

declare lax_scan.simps [simp del]

definition DoCanonicalizePathComponent ::
    "str \<Rightarrow> component \<Rightarrow> str \<Rightarrow> str \<Rightarrow> bool \<times> component \<times> str" where
  "DoCanonicalizePathComponent source c separator out =
     (if is_valid c then
        (let out1 = out @ separator;
             (success, out2) = lax_scan source (c_end c) (c_begin c) True out1
         in (success, Component (len out1) (len out2 - len out1), out2))
      else (True, no_component, out))"

definition DoCanonicalizePathURL ::
    "str URLComponentSource \<Rightarrow> 'a parts_scheme \<Rightarrow> str \<Rightarrow> bool \<times> parts \<times> str" where
  "DoCanonicalizePathURL source parsed out =
     (let (ok_scheme, scheme, out1) = CanonicalizeScheme (s_scheme source) (p_scheme parsed) out;
          (ok_path, path, out2) = DoCanonicalizePathComponent (s_path source) (p_path parsed) [] out1;
          (ok_query, query, out3) = DoCanonicalizePathComponent (s_query source) (p_query parsed) ''?'' out2;
          (ok_ref, ref, out4) = DoCanonicalizePathComponent (s_ref source) (p_ref parsed) ''#'' out3
      in (ok_scheme \<and> ok_path \<and> ok_query \<and> ok_ref,
          no_parts\<lparr>p_scheme := scheme, p_path := path, p_query := query, p_ref := ref\<rparr>, out4))"

definition DoCanonicalizeMailtoURL ::
    "str URLComponentSource \<Rightarrow> 'a parts_scheme \<Rightarrow> str \<Rightarrow> bool \<times> parts \<times> str" where
  "DoCanonicalizeMailtoURL source parsed out =
     (let scheme = Component (len out) 6;
          out1 = out @ ''mailto:'';
          (success, path, out2) =
            (if is_valid (p_path parsed)
             then (let (ok, o') = lax_scan (s_path source) (c_end (p_path parsed)) (c_begin (p_path parsed)) True out1
                   in (ok, Component (len out1) (len o' - len out1), o'))
             else (True, no_component, out1));
          (query, out3) = CanonicalizeQuery (s_query source) (p_query parsed) None out2
      in (success, no_parts\<lparr>p_scheme := scheme, p_path := path, p_query := query\<rparr>, out3))"

section \<open>File and filesystem URLs\<close>

definition FileCanonicalizePath :: "str \<Rightarrow> component \<Rightarrow> str \<Rightarrow> bool \<times> component \<times> str" where
  "FileCanonicalizePath spec path out =
     (let after_drive = c_begin path;
          (success, out') =
            (if after_drive < c_end path
             then (let (ok, fake_output_path, o') = CanonicalizePath spec (MakeRange after_drive (c_end path)) out
                   in (ok, o'))
             else (True, push_back CHR ''/'' out))
      in (success, Component (len out) (len out' - len out), out'))"

definition DoCanonicalizeFileURL ::
    "str URLComponentSource \<Rightarrow> 'a parts_scheme \<Rightarrow> charset_converter \<Rightarrow> str \<Rightarrow> bool \<times> parts \<times> str" where
  "DoCanonicalizeFileURL source parsed query_converter out =
     (let scheme = Component (len out) 4;
          out1 = out @ ''file://'';
          (ok_host, host, out2) = CanonicalizeHost (s_host source) (p_host parsed) out1;
          (ok_path, path, out3) = FileCanonicalizePath (s_path source) (p_path parsed) out2;
          (query, out4) = CanonicalizeQuery (s_query source) (p_query parsed) query_converter out3;
          (ref, out5) = CanonicalizeRef (s_ref source) (p_ref parsed) out4
      in (ok_host \<and> ok_path,
          no_parts\<lparr>p_scheme := scheme, p_host := host, p_path := path, p_query := query, p_ref := ref\<rparr>, out5))"

text \<open>
  The inner URL of a filesystem URL: success, its components and the output; \<open>None\<close> is the
  early return for other schemes.
\<close>

definition filesystem_inner ::
    "schemes \<Rightarrow> str \<Rightarrow> parts \<Rightarrow> charset_converter \<Rightarrow> str \<Rightarrow> (bool \<times> parts \<times> str) option" where
  "filesystem_inner schemes spec inner charset_converter out =
     (if CompareSchemeComponent spec (p_scheme inner) ''file'' then
        (let (ok, path, out') = CanonicalizePath spec (p_path inner) (out @ ''file://'')
         in Some (ok, no_parts\<lparr>p_scheme := Component (len out) 4, p_path := path\<rparr>, out'))
      else if DoIsStandard schemes spec (p_scheme inner) \<noteq> None
      then Some (DoCanonicalizeStandardURL (source_of spec) inner charset_converter out)
      else None)"

text \<open>
  On an early return the path, query and reference of the caller's structure
  \<open>new_parsed\<close> stay as they were.
\<close>

definition DoCanonicalizeFileSystemURL ::
    "schemes \<Rightarrow> str \<Rightarrow> str URLComponentSource \<Rightarrow> parsed \<Rightarrow> charset_converter \<Rightarrow> str \<Rightarrow> parsed \<Rightarrow>
     bool \<times> parsed \<times> str" where
  "DoCanonicalizeFileSystemURL schemes spec source parsed charset_converter out new_parsed =
     (let np = new_parsed\<lparr>p_username := no_component, p_password := no_component,
                 p_host := no_component, p_port := no_component, p_scheme := Component (len out) 10\<rparr>;
          out1 = out @ ''filesystem:''
      in case inner_parsed parsed of
           None \<Rightarrow> (False, np, out1)
         | Some inner \<Rightarrow>
             if \<not> is_valid (p_scheme inner) then (False, np, out1)
             else case filesystem_inner schemes spec inner charset_converter out1 of
               None \<Rightarrow> (False, np, out1)
             | Some (ok_inner, new_inner, out2) \<Rightarrow>
                 (let (ok_path, path, out3) = CanonicalizePath (s_path source) (p_path parsed) out2;
                      (query, out4) = CanonicalizeQuery (s_query source) (p_query parsed) charset_converter out3;
                      (ref, out5) = CanonicalizeRef (s_ref source) (p_ref parsed) out4;
                      success = (ok_inner \<and> c_len (p_path inner) > 1 \<and> ok_path);
                      np' = np\<lparr>p_path := path, p_query := query, p_ref := ref\<rparr>
                  in (success, if success then np'\<lparr>inner_parsed := Some new_inner\<rparr> else np', out5)))"

section \<open>Replacing components\<close>

text \<open>\<open>new_parsed\<close> is the caller's structure, whose inner URL only \<open>set_inner_parsed\<close> changes.\<close>

definition with_parts :: "bool \<times> parts \<times> str \<Rightarrow> parsed \<Rightarrow> bool \<times> parsed \<times> str" where
  "with_parts r new_parsed = (let (ok, p, out) = r in (ok, to_parsed p (inner_parsed new_parsed), out))"

definition ReplaceStandardURL ::
    "str \<Rightarrow> parsed \<Rightarrow> Replacements \<Rightarrow> charset_converter \<Rightarrow> str \<Rightarrow> parsed \<Rightarrow> bool \<times> parsed \<times> str" where
  "ReplaceStandardURL base base_parsed replacements query_converter out new_parsed =
     (let (source, parsed) = SetupOverrideComponents replacements (source_of base) base_parsed
      in with_parts (DoCanonicalizeStandardURL source parsed query_converter out) new_parsed)"

definition ReplaceFileURL ::
    "str \<Rightarrow> parsed \<Rightarrow> Replacements \<Rightarrow> charset_converter \<Rightarrow> str \<Rightarrow> parsed \<Rightarrow> bool \<times> parsed \<times> str" where
  "ReplaceFileURL base base_parsed replacements query_converter out new_parsed =
     (let (source, parsed) = SetupOverrideComponents replacements (source_of base) base_parsed
      in with_parts (DoCanonicalizeFileURL source parsed query_converter out) new_parsed)"

definition ReplaceMailtoURL :: "str \<Rightarrow> parsed \<Rightarrow> Replacements \<Rightarrow> str \<Rightarrow> parsed \<Rightarrow> bool \<times> parsed \<times> str" where
  "ReplaceMailtoURL base base_parsed replacements out new_parsed =
     (let (source, parsed) = SetupOverrideComponents replacements (source_of base) base_parsed
      in with_parts (DoCanonicalizeMailtoURL source parsed out) new_parsed)"

definition ReplacePathURL :: "str \<Rightarrow> parsed \<Rightarrow> Replacements \<Rightarrow> str \<Rightarrow> parsed \<Rightarrow> bool \<times> parsed \<times> str" where
  "ReplacePathURL base base_parsed replacements out new_parsed =
     (let (source, parsed) = SetupOverrideComponents replacements (source_of base) base_parsed
      in with_parts (DoCanonicalizePathURL source parsed out) new_parsed)"

definition ReplaceFileSystemURL ::
    "schemes \<Rightarrow> str \<Rightarrow> parsed \<Rightarrow> Replacements \<Rightarrow> charset_converter \<Rightarrow> str \<Rightarrow> parsed \<Rightarrow> bool \<times> parsed \<times> str" where
  "ReplaceFileSystemURL schemes base base_parsed replacements charset_converter out new_parsed =
     (let (source, parsed) = SetupOverrideComponents replacements (source_of base) base_parsed
      in DoCanonicalizeFileSystemURL schemes base source parsed charset_converter out new_parsed)"

end
