(* ===== verification/Url_Canon_Laws.thy ===== *)
theory Url_Canon_Laws
  imports Url_Canon Url_Path_Laws Url_Host_Laws
begin

unbundle bit_operations_syntax

text \<open>
  What the component canonicalizers of \<open>Url_Canon\<close> write: each appends a text of a
  class of its own, and writes such a text unchanged.
\<close>

section \<open>Schemes\<close>

definition scheme_char :: "nat \<Rightarrow> bool" where
  "scheme_char b \<longleftrightarrow> b = 43 \<or> b = 45 \<or> b = 46 \<or> 48 \<le> b \<and> b \<le> 57 \<or> 97 \<le> b \<and> b \<le> 122"

lemma scheme_table:
  assumes "b < 128"
  shows "kSchemeCanonical ! b = (if 65 \<le> b \<and> b \<le> 90 then b + 32 else if scheme_char b then b else 0)"
  by (rule table_nth [OF _ assms, where f = "\<lambda>x. x"]) code_simp

text \<open>What one character of a scheme becomes.\<close>

definition scheme_piece :: "bool \<Rightarrow> char \<Rightarrow> str" where
  "scheme_piece first c =
     (if byte c < 128 \<and> kSchemeCanonical ! byte c \<noteq> 0 \<and> (first \<longrightarrow> IsSchemeFirstChar (byte c))
      then [char_of (kSchemeCanonical ! byte c)] else if c = CHR ''%'' then ''%'' else ''%EF%BF%BD'')"

definition scheme_good :: "bool \<Rightarrow> char \<Rightarrow> bool" where
  "scheme_good first c \<longleftrightarrow>
     byte c < 128 \<and> kSchemeCanonical ! byte c \<noteq> 0 \<and> (first \<longrightarrow> IsSchemeFirstChar (byte c))"

lemma scheme_step:
  assumes "i < e"
  shows "scheme_scan spec b e i s out =
    scheme_scan spec b e (i + 1) (s \<and> scheme_good (i = b) (at spec i)) (out @ scheme_piece (i = b) (at spec i))"
proof -
  have p: "at spec i = CHR ''%'' \<longleftrightarrow> byte (at spec i) = 37" by (simp add: char_eq_byte del: of_char_eq_iff)
  have k: "kSchemeCanonical ! 37 = 0" by code_simp
  show ?thesis
    using assms p k
    by (subst scheme_scan.simps)
      (simp add: Let_def scheme_good_def scheme_piece_def AppendUTF8EscapedChar_eq replacement_escaped push_back_def)
qed

lemma scheme_rest:
  "b < i \<Longrightarrow> 0 \<le> i \<Longrightarrow> e \<le> len spec \<Longrightarrow> scheme_scan spec b e i s out =
    (s \<and> list_all (scheme_good False) (seg spec i e), out @ concat (map (scheme_piece False) (seg spec i e)))"
proof (induction i arbitrary: s out rule: upto_induct [where e = e])
  case (past i)
  then show ?case by (simp add: scheme_scan.simps)
next
  case (step i)
  have "seg spec i e = at spec i # seg spec (i + 1) e" using step by (intro seg_Cons) auto
  then show ?case using step scheme_step [of i e spec b s out] by simp
qed

lemma scheme_scan_text:
  assumes "0 \<le> b" "b < e" "e \<le> len spec"
  shows "scheme_scan spec b e b s out =
    (s \<and> scheme_good True (at spec b) \<and> list_all (scheme_good False) (seg spec (b + 1) e),
     out @ scheme_piece True (at spec b) @ concat (map (scheme_piece False) (seg spec (b + 1) e)))"
  using scheme_step [OF assms(2), of spec b s out] scheme_rest [of b "b + 1" e spec] assms by simp

definition canonical_scheme :: "str \<Rightarrow> bool" where
  "canonical_scheme t \<longleftrightarrow> t \<noteq> [] \<and> 97 \<le> byte (hd t) \<and> byte (hd t) \<le> 122 \<and> list_all (\<lambda>c. scheme_char (byte c)) t"

lemma scheme_char_less: "scheme_char b \<Longrightarrow> b < 128"
  by (auto simp: scheme_char_def)

lemma piece_good:
  "scheme_good f c \<Longrightarrow> \<exists>d. scheme_piece f c = [d] \<and> scheme_char (byte d) \<and> (f \<longrightarrow> 97 \<le> byte d \<and> byte d \<le> 122)"
proof -
  assume g: "scheme_good f c"
  then have b: "byte c < 128" by (simp add: scheme_good_def)
  have "kSchemeCanonical ! byte c < 256" using b by (simp add: scheme_table scheme_char_def)
  then show ?thesis using g b
    by (auto simp: scheme_good_def scheme_piece_def scheme_table scheme_char_def IsSchemeFirstChar_def split: if_splits)
qed

lemma scheme_fixed: "scheme_char (byte c) \<Longrightarrow> scheme_good False c \<and> scheme_piece False c = [c]"
  using scheme_table [of "byte c"] scheme_char_less [of "byte c"]
  by (auto simp: scheme_good_def scheme_piece_def scheme_char_def)

lemma scheme_fixed_first: "97 \<le> byte c \<Longrightarrow> byte c \<le> 122 \<Longrightarrow> scheme_good True c \<and> scheme_piece True c = [c]"
  using scheme_table [of "byte c"]
  by (auto simp: scheme_good_def scheme_piece_def scheme_char_def IsSchemeFirstChar_def)

lemma scheme_pieces: "list_all (scheme_good False) s \<Longrightarrow> list_all (\<lambda>c. scheme_char (byte c)) (concat (map (scheme_piece False) s))"
  using piece_good by (induction s) force+

lemma scheme_writes:
  assumes "within 0 (len spec) c"
  shows "\<exists>t. CanonicalizeScheme spec c out = (fst (CanonicalizeScheme spec c []), Component (len out) (len t), out @ t @ '':'')
    \<and> (fst (CanonicalizeScheme spec c []) \<longrightarrow> is_nonempty c \<longrightarrow> canonical_scheme t)"
proof (cases "c_len c \<le> 0")
  case True
  then show ?thesis by (intro exI [of _ "[]"]) (simp add: CanonicalizeScheme_def push_back_def is_nonempty_def)
next
  case False
  then have b: "0 \<le> c_begin c" "c_begin c < c_end c" "c_end c \<le> len spec"
    using assms by (auto simp: within_def is_valid_def c_end_def)
  let ?t = "scheme_piece True (at spec (c_begin c)) @ concat (map (scheme_piece False) (seg spec (c_begin c + 1) (c_end c)))"
  have "scheme_good True (at spec (c_begin c)) \<Longrightarrow> list_all (scheme_good False) (seg spec (c_begin c + 1) (c_end c)) \<Longrightarrow> canonical_scheme ?t"
    using piece_good [of True "at spec (c_begin c)"] scheme_pieces by (force simp: canonical_scheme_def)
  then show ?thesis using False
    by (intro exI [of _ ?t]) (simp add: CanonicalizeScheme_def scheme_scan_text [OF b] push_back_def)
qed

lemma scheme_fixed_all:
  "list_all (\<lambda>c. scheme_char (byte c)) s \<Longrightarrow>
   list_all (scheme_good False) s \<and> concat (map (scheme_piece False) s) = s"
  using scheme_fixed by (induction s) auto

lemma scheme_again:
  assumes "canonical_scheme t"  "component_str spec c = t" "within 0 (len spec) c"
  shows "CanonicalizeScheme spec c out = (True, Component (len out) (len t), out @ t @ '':'')"
proof -
  have ne: "c_len c > 0"
    using assms by (auto simp: canonical_scheme_def component_str_def c_end_def dest: seg_empty [of "c_begin c + c_len c"])
      (metis add.right_neutral add_le_cancel_left not_less seg_empty)
  then have b: "0 \<le> c_begin c" "c_begin c < c_end c" "c_end c \<le> len spec"
    using assms(3) by (auto simp: within_def is_valid_def c_end_def)
  have s: "t = at spec (c_begin c) # seg spec (c_begin c + 1) (c_end c)"
    using assms(2) seg_Cons [OF b] by (simp add: component_str_def)
  let ?r = "seg spec (c_begin c + 1) (c_end c)"
  have f: "scheme_good True (at spec (c_begin c)) \<and> scheme_piece True (at spec (c_begin c)) = [at spec (c_begin c)]"
    using assms(1) s scheme_fixed_first by (simp add: canonical_scheme_def)
  have "list_all (\<lambda>c. scheme_char (byte c)) ?r" using assms(1) s by (simp add: canonical_scheme_def)
  then have r: "list_all (scheme_good False) ?r \<and> concat (map (scheme_piece False) ?r) = ?r"
    by (rule scheme_fixed_all)
  show ?thesis
    using ne f r s by (simp add: CanonicalizeScheme_def scheme_scan_text [OF b] push_back_def)
qed

section \<open>References\<close>

definition ref_piece :: "char \<Rightarrow> str" where
  "ref_piece c =
     (if byte c = 0 then [] else if byte c < 32 then escaped (byte c)
      else if byte c < 128 then [c] else map char_of [0xEF, 0xBF, 0xBD::nat])"

lemma ref_scan_eq:
  "0 \<le> i \<Longrightarrow> e \<le> len spec \<Longrightarrow> ref_scan spec e i out = out @ concat (map ref_piece (seg spec i e))"
proof (induction i arbitrary: out rule: upto_induct [where e = e])
  case (past i)
  then show ?case by (simp add: ref_scan.simps)
next
  case (step i)
  have s: "seg spec i e = at spec i # seg spec (i + 1) e" using step by (intro seg_Cons) auto
  show ?case
    using step s by (subst ref_scan.simps)
      (simp add: Let_def ref_piece_def [of "at spec i"] AppendEscapedChar_eq push_back_def replacement_utf8)
qed

lemma ref_writes:
  assumes "within 0 (len spec) c"
  shows "CanonicalizeRef spec c out =
    (if is_valid c
     then (let t = concat (map ref_piece (component_str spec c))
           in (Component (len out + 1) (len t), out @ ''#'' @ t))
     else (no_component, out))"
proof (cases "c_len c < 0")
  case True
  then show ?thesis using assms by (auto simp: CanonicalizeRef_def within_def is_valid_def)
next
  case False
  then have b: "0 \<le> c_begin c" "c_end c \<le> len spec" "is_valid c"
    using assms by (auto simp: within_def is_valid_def)
  then show ?thesis using False
    by (simp add: CanonicalizeRef_def ref_scan_eq component_str_def push_back_def Let_def)
qed

section \<open>Queries\<close>

definition raw_char :: "char \<Rightarrow> str" where
  "raw_char c = (if IsQueryChar (byte c) then [c] else escaped (byte c))"

lemma AppendRaw_eq: "AppendRaw8BitQueryString s out = out @ concat (map raw_char s)"
  by (induction s arbitrary: out)
    (simp_all add: AppendRaw8BitQueryString_def raw_char_def AppendEscapedChar_eq push_back_def)

lemma raw_ascii: "byte c < 128 \<Longrightarrow> raw_char c = typed_char CHAR_QUERY c"
  by (simp add: raw_char_def typed_char_def IsQueryChar_def)

definition query_text :: "str \<Rightarrow> bool" where
  "query_text t \<longleftrightarrow> list_all (\<lambda>c. byte c < 128 \<and> IsCharOfType (byte c) CHAR_QUERY) t"

lemma query_byte_less: "c < 256 \<Longrightarrow> IsCharOfType c CHAR_QUERY \<Longrightarrow> c < 128"
  using typed_ascii [of c CHAR_QUERY] by simp

lemma escaped_typed: "query_text (escaped b)"
proof -
  have h: "d < 16 \<Longrightarrow> byte (kHexCharLookup ! d) < 128 \<and> IsCharOfType (byte (kHexCharLookup ! d)) CHAR_QUERY" for d
    by (rule upt_all [where m = 0 and n = 16]) (code_simp, simp_all)
  have p: "IsCharOfType 37 CHAR_QUERY" by (rule percent_typed)
  show ?thesis
    using h [of "b div 16 mod 16"] h [of "b mod 16"] p by (simp add: escaped_def query_text_def)
qed

lemma raw_typed: "query_text (raw_char c)"
proof (cases "IsQueryChar (byte c)")
  case True
  then show ?thesis using query_byte_less [of "byte c"]
    by (simp add: raw_char_def query_text_def IsQueryChar_def)
qed (simp add: raw_char_def escaped_typed)

lemma query_text_concat: "(\<And>c. c \<in> set s \<Longrightarrow> query_text (f c)) \<Longrightarrow> query_text (concat (map f s))"
  by (auto simp: query_text_def list_all_iff)

definition query_out :: "str \<Rightarrow> charset_converter \<Rightarrow> str" where
  "query_out s conv =
     (if \<not> list_ex (\<lambda>c. byte c \<ge> 128) s then concat (map raw_char s)
      else case conv of None \<Rightarrow> concat (map (typed_char CHAR_QUERY) s)
        | Some f \<Rightarrow> concat (map raw_char (f (snd (ConvertUTF8ToUTF16 s (len s) 0 True [])) [])))"

lemma convert_prefix:
  "l \<le> len s \<Longrightarrow> ConvertUTF8ToUTF16 s l i ok out = ConvertUTF8ToUTF16 (take (nat l) s) l i ok out"
proof (induction i arbitrary: ok out rule: upto_induct [where e = l])
  case (past i)
  then show ?case by (simp add: ConvertUTF8ToUTF16.simps)
next
  case (step i)
  show ?case
    using step by (subst (1 2) ConvertUTF8ToUTF16.simps) simp
qed

lemma query_writes:
  assumes "within 0 (len spec) c"
  shows "CanonicalizeQuery spec c conv out =
    (if is_valid c
     then (let t = query_out (component_str spec c) conv in (Component (len out + 1) (len t), out @ ''?'' @ t))
     else (no_component, out))"
proof (cases "c_len c < 0")
  case True
  then show ?thesis using assms by (auto simp: CanonicalizeQuery_def within_def is_valid_def)
next
  case False
  then have b: "0 \<le> c_begin c" "0 \<le> c_len c" "c_begin c + c_len c \<le> len spec" "is_valid c"
    using assms by (auto simp: within_def is_valid_def c_end_def)
  have l: "len (component_str spec c) = c_len c" using b by (simp add: component_str_def c_end_def length_seg)
  have "ConvertUTF8ToUTF16 (drop (nat (c_begin c)) spec) (c_len c) 0 True []
      = ConvertUTF8ToUTF16 (component_str spec c) (c_len c) 0 True []"
    using convert_prefix [of "c_len c" "drop (nat (c_begin c)) spec"] b
    by (simp add: component_str_def c_end_def seg_def)
  then show ?thesis using False b assms l
    by (auto simp: CanonicalizeQuery_def DoConvertToQueryEncoding_def IsAllASCII_def query_out_def AppendRaw_eq
        AppendStringOfType_eq push_back_def Let_def RunConverter_def split_beta split: option.splits)
qed

lemma query_out_text: "query_text (query_out s conv)"
proof -
  have "query_text (concat (map (typed_char CHAR_QUERY) s))" for s
    using typed_chars_typed by (simp add: query_text_def)
  then show ?thesis by (auto simp: query_out_def raw_typed intro!: query_text_concat split: option.splits)
qed

lemma query_out_again: "query_text t \<Longrightarrow> query_out t conv = t"
proof -
  assume q: "query_text t"
  have "concat (map raw_char t) = t"
    using q by (induction t) (auto simp: query_text_def raw_char_def IsQueryChar_def)
  moreover have "\<not> list_ex (\<lambda>c. byte c \<ge> 128) t" using q by (force simp: query_text_def list_all_iff list_ex_iff)
  ultimately show ?thesis by (simp add: query_out_def)
qed

section \<open>User names\<close>

definition user_out :: "str \<Rightarrow> str" where
  "user_out s = concat (map (typed_char CHAR_USERINFO) s)"

definition user_text :: "str \<Rightarrow> bool" where
  "user_text t \<longleftrightarrow> list_all (\<lambda>c. byte c < 128 \<and> IsCharOfType (byte c) CHAR_USERINFO) t"

lemma user_out_text: "user_text (user_out s)"
  unfolding user_text_def user_out_def by (rule typed_chars_typed) simp

lemma user_out_again: "user_text t \<Longrightarrow> user_out t = t"
  by (simp add: user_text_def user_out_def typed_chars_id)

lemma user_writes:
  assumes "within 0 (len us) u" "within 0 (len ps) p"
  shows "CanonicalizeUserInfo us u ps p out =
    (if \<not> is_nonempty u \<and> \<not> is_nonempty p then (True, no_component, no_component, out)
     else let ut = user_out (component_str us u);
              pt = user_out (component_str ps p)
     in (True, Component (len out) (len ut),
         if is_nonempty p then Component (len out + len ut + 1) (len pt) else no_component,
         out @ ut @ (if is_nonempty p then '':'' @ pt else []) @ ''@''))"
proof -
  have n: "c_len c \<le> 0 \<longleftrightarrow> \<not> is_nonempty c" "0 < c_len c \<longleftrightarrow> is_nonempty c" for c by (auto simp: is_nonempty_def)
  have v: "is_nonempty c \<Longrightarrow> is_valid c" for c by (auto simp: is_nonempty_def is_valid_def)
  have e: "\<not> is_nonempty c \<Longrightarrow> component_str s c = []" for s c
    by (simp add: is_nonempty_def component_str_def c_end_def)
  show ?thesis
    using assms v [of u] v [of p] e [of u us]
    by (simp add: CanonicalizeUserInfo_def n AppendStringOfType_eq push_back_def user_out_def Let_def)
qed

section \<open>Ports\<close>

lemma atoi_value:
  "list_all (\<lambda>ch. IsPortDigit (char16_of ch)) ds \<Longrightarrow> atoi_digits ds = int (digits_value 10 ds)"
proof (induction ds rule: rev_induct)
  case (snoc d ds)
  then have "48 \<le> byte d" "byte d \<le> 57" by (simp_all add: port_digit_iff)
  then show ?case using snoc hex_value_dec [of "byte d"]
    by (simp add: atoi_digits_def digits_value_def)
qed (simp add: atoi_digits_def digits_value_def)

lemma print_port_digits: "list_all (\<lambda>ch. IsPortDigit (char16_of ch)) (print_nat 10 n)"
  using print_nat_dec [of _ n] by (auto simp: list_all_iff port_digit_iff)

lemma port_of_print:
  assumes "within 0 (len spec) c" "component_str spec c = print_nat 10 n" "n < 65536"
  shows "ParsePort spec c = int n"
proof -
  have "is_nonempty c"
  proof (rule ccontr)
    assume "\<not> is_nonempty c"
    then have "component_str spec c = []" by (simp add: is_nonempty_def component_str_def c_end_def)
    then show False using assms(2) print_nat_nonempty by simp
  qed
  moreover have "atoi_digits (print_nat 10 n) = int n"
    by (simp add: atoi_value print_port_digits digits_value_print)
  ultimately show ?thesis using assms print_port_digits by (simp add: port_value)
qed

lemma ParsePort_range:
  assumes "within 0 (len spec) c"
  shows "ParsePort spec c = PORT_UNSPECIFIED \<or> ParsePort spec c = PORT_INVALID \<or>
    (\<exists>n<65536. ParsePort spec c = int n)"
proof -
  let ?d = "component_str spec c"
  have "0 \<le> atoi_digits ?d" if "list_all (\<lambda>ch. IsPortDigit (char16_of ch)) ?d"
    using atoi_value [OF that] by simp
  then show ?thesis
    by (auto simp: port_value [OF assms] intro!: exI [of _ "nat (atoi_digits ?d)"])
qed

lemma port_itoa: "n < 65536 \<Longrightarrow> itoa_s (int n) 6 10 = Some (print_nat 10 n)"
  using length_print_nat [of 10 n 5] by (simp add: itoa_s_def snprintf_d_def)

lemma port_writes:
  assumes "within 0 (len spec) c"
  shows "\<exists>t. CanonicalizePort spec c dflt out =
      (ParsePort spec c \<noteq> PORT_INVALID \<or> ParsePort spec c = dflt,
       if t = None then no_component else Component (len out + 1) (len (the t)),
       out @ (case t of None \<Rightarrow> [] | Some s \<Rightarrow> '':'' @ s)) \<and>
    (ParsePort spec c \<noteq> PORT_INVALID \<longrightarrow> (\<forall>s. t = Some s \<longrightarrow> (\<exists>n<65536. s = print_nat 10 n \<and> int n \<noteq> dflt)))"
proof -
  let ?p = "ParsePort spec c"
  consider (none) "?p = PORT_UNSPECIFIED \<or> ?p = dflt" | (bad) "?p = PORT_INVALID" "?p \<noteq> dflt"
    | (num) n where "?p = int n" "n < 65536" "?p \<noteq> dflt"
    using ParsePort_range [OF assms] by blast
  then show ?thesis
  proof cases
    case none
    then show ?thesis
      by (intro exI [of _ None]) (auto simp: CanonicalizePort_def PORT_UNSPECIFIED_def PORT_INVALID_def)
  next
    case bad
    have "c_begin c \<ge> 0 \<and> c_end c \<le> len spec"
    proof -
      have "is_valid c" using bad(1) assms by (auto simp: is_valid_def port_value is_nonempty_def PORT_UNSPECIFIED_def PORT_INVALID_def split: if_splits)
      then show ?thesis using assms by (simp add: within_def)
    qed
    then show ?thesis using bad
      by (intro exI [of _ "Some (concat (map invalid_char (component_str spec c)))"])
        (simp add: CanonicalizePort_def PORT_UNSPECIFIED_def PORT_INVALID_def push_back_def
          AppendInvalidNarrowString_eq component_str_def Let_def)
  next
    case (num n)
    then show ?thesis
      by (intro exI [of _ "Some (print_nat 10 n)"])
        (auto simp: CanonicalizePort_def PORT_UNSPECIFIED_def PORT_INVALID_def push_back_def port_itoa Let_def)
  qed
qed

lemma port_again:
  assumes "within 0 (len spec) c" "component_str spec c = print_nat 10 n" "n < 65536" "int n \<noteq> dflt"
  shows "CanonicalizePort spec c dflt out =
    (True, Component (len out + 1) (len (print_nat 10 n)), out @ '':'' @ print_nat 10 n)"
  using assms port_of_print [OF assms(1-3)]
  by (simp add: CanonicalizePort_def PORT_UNSPECIFIED_def PORT_INVALID_def push_back_def port_itoa Let_def)

section \<open>Hosts\<close>

text \<open>
  The text of an accepted host: no delimiter of an authority, and colons or brackets only as
  an address in brackets.
\<close>

definition host_text :: "str \<Rightarrow> bool" where
  "host_text t \<longleftrightarrow> t \<noteq> [] \<and> list_all (\<lambda>c. byte c < 128 \<and> 32 < byte c) t \<and>
     set t \<inter> {CHR ''/'', CHR 0x5C, CHR ''?'', CHR ''#'', CHR ''@''} = {} \<and>
     (set t \<inter> {CHR '':'', CHR ''['', CHR '']''} = {} \<or>
      (\<exists>m. t = CHR ''['' # m @ '']'' \<and> CHR '']'' \<notin> set m))"

definition safe_byte :: "nat \<Rightarrow> bool" where
  "safe_byte b \<longleftrightarrow> 32 < b \<and> b < 128 \<and> b \<noteq> 47 \<and> b \<noteq> 92 \<and> b \<noteq> 63 \<and> b \<noteq> 35 \<and> b \<noteq> 64"

lemma table_indexed:
  assumes "list_all (\<lambda>(i, x). P i x) (zip [0..<length T] T)" "c < length T"
  shows "P c (T ! c)"
proof -
  have "zip [0..<length T] T ! c \<in> set (zip [0..<length T] T)" using assms(2) by (intro nth_mem) simp
  then show ?thesis using assms by (auto simp: list_all_iff)
qed

lemma fixed_byte_safe:
  assumes "host_fixed b"
  shows "safe_byte b"
proof -
  have l: "length kHostCharLookup = 128" by code_simp
  have "(if kHostCharLookup ! b = b then b = 0 \<or> b = 37 \<or> safe_byte b else True)"
    by (rule table_indexed [where P = "\<lambda>b f. if f = b then b = 0 \<or> b = 37 \<or> safe_byte b else True"])
      (code_simp, use assms l in \<open>simp add: host_fixed_def\<close>)
  then show ?thesis using assms by (auto simp: host_fixed_def)
qed

lemma safe_char:
  assumes "safe_byte (byte c)"
  shows "c \<notin> {CHR ''/'', CHR 0x5C, CHR ''?'', CHR ''#'', CHR ''@''}"
  using assms by (auto simp: safe_byte_def)

lemma token_safe:
  assumes "plain_ok t" "b \<in> set (host_token 256 t)"
  shows "safe_byte b"
proof -
  obtain c where c: "t = Some c" "c < 128" "kHostCharLookup ! c \<noteq> 0"
    using assms(1) by (cases t) (auto simp: plain_ok_def)
  show ?thesis
  proof (cases "kHostCharLookup ! c = kEsc")
    case True
    have hex: "d < 16 \<Longrightarrow> safe_byte (byte (kHexCharLookup ! d))" for d
      by (rule upt_all [where m = 0 and n = 16]) (code_simp, simp_all)
    have p: "safe_byte 37" by (simp add: safe_byte_def)
    have "b = 37 \<or> b = byte (kHexCharLookup ! (c div 16 mod 16)) \<or> b = byte (kHexCharLookup ! (c mod 16))"
      using assms(2) c True by (auto simp: escaped_def)
    moreover have "c div 16 mod 16 < 16" "c mod 16 < 16" by simp_all
    ultimately show ?thesis using hex p by metis
  next
    case False
    then have "b = kHostCharLookup ! c" using assms(2) c by simp
    then show ?thesis using False c lookup_fixed [of c] fixed_byte_safe by simp
  qed
qed

lemma text_safe:
  assumes "list_all plain_ok ts" "x \<in> set (tokens_text ts)"
  shows "safe_byte (byte x)"
proof -
  have "byte x \<in> set (units (tokens_text ts))" using assms(2) by simp
  then obtain t where "t \<in> set ts" "byte x \<in> set (host_token 256 t)"
    by (auto simp only: units_tokens_text [OF assms(1)] set_concat set_map)
  then show ?thesis using token_safe assms(1) by (auto simp: list_all_iff)
qed

lemma fixed_safe: "fixed_text t \<Longrightarrow> x \<in> set t \<Longrightarrow> safe_byte (byte x)"
  using fixed_byte_safe by (auto simp: fixed_text_def list_all_iff)

lemma ipv6_tail_chars:
  assumes "contraction_ok addr r" "0 \<le> i"
  shows "CHR '']'' \<notin> set (ipv6_tail addr r i)"
  using assms(2)
proof (induction "nat (16 - i)" arbitrary: i rule: less_induct)
  case less
  consider "14 < i" | "i \<le> 14" "contracts_at r i" | "i \<le> 14" "\<not> contracts_at r i" by linarith
  then show ?case
  proof cases
    case 2
    have "CHR '']'' \<notin> set (ipv6_tail addr r (c_end r))"
      by (rule less.hyps) (use 2 less.prems in \<open>auto simp: c_end_def\<close>)
    then show ?thesis using 2 ipv6_tail_contraction [of i r addr] by simp
  next
    case 3
    have "ipv6_tail addr r i =
      print_nat 16 (word_at addr i) @ (if i + 2 < 16 then '':'' else []) @ ipv6_tail addr r (i + 2)"
      by (rule ipv6_tail_word [OF 3]) (use assms(1) less.prems in \<open>auto simp: contraction_ok_def\<close>)
    moreover have "CHR '']'' \<notin> set (ipv6_tail addr r (i + 2))"
      by (rule less.hyps) (use 3 less.prems in auto)
    moreover have "CHR '']'' \<notin> set (print_nat 16 n)" for n
      using print_nat_hex [of "CHR '']''" n] is_hex [of 93] by auto
    ultimately show ?thesis by simp
  qed (simp add: ipv6_tail_end)
qed

lemma host_final_eq:
  "host_final out o1 =
    (let h = MakeRange (len out) (len o1);
         six = (case IPv6AddressToNumber o1 h of
            Some addr \<Rightarrow> (True, MakeRange (len out) (len (out @ ipv6_text addr)), out @ ipv6_text addr)
          | None \<Rightarrow> (\<not> list_ex (\<lambda>c. c = CHR ''['' \<or> c = CHR '']'' \<or> c = CHR '':'') (component_str o1 h), h, o1))
     in case IPv4AddressToNumber o1 h of
          Inr (addr, n) \<Rightarrow> (True, MakeRange (len out) (len (out @ ipv4_text addr)), out @ ipv4_text addr)
        | Inl f \<Rightarrow> if f = BROKEN then (False, h, o1) else six)"
proof (cases "IPv4AddressToNumber o1 (MakeRange (len out) (len o1))")
  case (Inr a)
  then obtain addr n where "IPv4AddressToNumber o1 (MakeRange (len out) (len o1)) = Inr (addr, n)" by (cases a) simp
  then show ?thesis
    by (simp add: host_final_def CanonicalizeIPAddress_def CanonicalizeIPv4Address_def append_texts IsIPAddress_def Let_def)
next
  case (Inl f)
  have ip4: "f \<noteq> BROKEN \<Longrightarrow> CanonicalizeIPv4Address o1 (MakeRange (len out) (len o1)) [] new_host_info =
      (False, [], new_host_info\<lparr>family := f\<rparr>)"
    using Inl by (cases f) (simp_all add: CanonicalizeIPv4Address_def)
  show ?thesis
  proof (cases "f = BROKEN")
    case True
    then show ?thesis using Inl
      by (simp add: host_final_def CanonicalizeIPAddress_def CanonicalizeIPv4Address_def IsIPAddress_def Let_def)
  next
    case False
    then show ?thesis using Inl ip4
      by (cases "IPv6AddressToNumber o1 (MakeRange (len out) (len o1))")
        (simp_all add: host_final_def CanonicalizeIPAddress_def CanonicalizeIPv6Address_def append_texts IsIPAddress_def Let_def)
  qed
qed

text \<open>What an accepted host may be.\<close>

lemma final_cases:
  assumes "host_final out o1 = (True, c, o2)" "o1 = out @ t"
  shows "c = MakeRange (len out) (len o2) \<and>
    (o2 = o1 \<and> set t \<inter> {CHR '':'', CHR ''['', CHR '']''} = {}
     \<or> (\<exists>addr. length addr = 4 \<and> byte_list addr \<and> o2 = out @ ipv4_text addr)
     \<or> (\<exists>addr. length addr = 16 \<and> byte_list addr \<and> o2 = out @ ipv6_text addr))"
proof -
  let ?h = "MakeRange (len out) (len o1)"
  have s: "component_str o1 ?h = t" using assms(2) by (simp add: index_simps)
  note eq = assms(1) [unfolded host_final_eq Let_def s]
  show ?thesis
  proof (cases "IPv4AddressToNumber o1 ?h")
    case (Inr a)
    obtain addr n where a: "a = (addr, n)" by fastforce
    have "o2 = out @ ipv4_text addr" "c = MakeRange (len out) (len o2)"
      using eq by (auto simp: Inr a)
    moreover have "length addr = 4" "byte_list addr"
      using ipv4_shape [of o1 ?h addr n] Inr a by (auto simp: byte_list_def)
    ultimately show ?thesis by blast
  next
    case (Inl f)
    then have nb: "f \<noteq> BROKEN" using eq by (auto simp: Inl)
    show ?thesis
    proof (cases "IPv6AddressToNumber o1 ?h")
      case None
      have "\<not> list_ex (\<lambda>c. c = CHR ''['' \<or> c = CHR '']'' \<or> c = CHR '':'') t" "c = MakeRange (len out) (len o2)" "o2 = o1"
        using eq nb by (auto simp: Inl None)
      then show ?thesis by (simp add: list_ex_iff) blast
    next
      case (Some addr)
      have "o2 = out @ ipv6_text addr" "c = MakeRange (len out) (len o2)"
        using eq nb by (auto simp: Inl Some)
      then show ?thesis using ipv6_shape [OF Some] by blast
    qed
  qed
qed

lemma ipv4_chars:
  "list_all (\<lambda>a. a < 256) as \<Longrightarrow> list_all (\<lambda>c. c = CHR ''.'' \<or> 48 \<le> byte c \<and> byte c \<le> 57) out \<Longrightarrow>
   list_all (\<lambda>c. c = CHR ''.'' \<or> 48 \<le> byte c \<and> byte c \<le> 57) (append_ipv4_from as out)"
proof (induction as arbitrary: out)
  case (Cons a as)
  have "itoa_text a 16 10 = print_nat 10 a" using Cons.prems by (intro itoa_text_dec [of _ 3]) auto
  moreover have "list_all (\<lambda>c. c = CHR ''.'' \<or> 48 \<le> byte c \<and> byte c \<le> 57) (print_nat 10 a)"
    using print_nat_dec [of _ a] by (auto simp: list_all_iff)
  ultimately show ?case using Cons by (simp add: push_back_def Let_def)
qed simp

lemma ipv4_text_ne:
  assumes "length addr = 4" "byte_list addr"
  shows "ipv4_text addr \<noteq> []"
proof
  assume "ipv4_text addr = []"
  then have "IPv4AddressToNumber [] (MakeRange 0 0) = Inr (addr, 4)"
    using ipv4_reads_back [of addr "[]"] assms by (simp add: append_texts byte_list_def)
  then show False by (simp add: IPv4AddressToNumber_def FindIPv4Components_def MakeRange_def)
qed

lemma fixed_ipv4_text:
  assumes "length addr = 4" "byte_list addr"
  shows "fixed_text (ipv4_text addr)"
  using assms by (auto simp: ipv4_text_def AppendIPv4Address_def byte_list_def fixed_text_def
      intro!: fixed_ipv4 [unfolded fixed_text_def])

lemma host_textI:
  assumes "t \<noteq> []" "\<And>x. x \<in> set t \<Longrightarrow> safe_byte (byte x)"
    "set t \<inter> {CHR '':'', CHR ''['', CHR '']''} = {} \<or> (\<exists>m. t = CHR ''['' # m @ '']'' \<and> CHR '']'' \<notin> set m)"
  shows "host_text t"
proof -
  have "set t \<inter> {CHR ''/'', CHR 0x5C, CHR ''?'', CHR ''#'', CHR ''@''} = {}"
    using assms(2) safe_char by blast
  moreover have "list_all (\<lambda>c. byte c < 128 \<and> 32 < byte c) t"
    using assms(2) by (simp add: list_all_iff safe_byte_def)
  ultimately show ?thesis using assms(1,3) by (simp add: host_text_def)
qed

lemma host_text_ipv4:
  assumes "length addr = 4" "byte_list addr"
  shows "host_text (ipv4_text addr)"
proof -
  have "list_all (\<lambda>a. a < 256) addr" using assms(2) by (simp add: byte_list_def)
  then have "list_all (\<lambda>c. c = CHR ''.'' \<or> 48 \<le> byte c \<and> byte c \<le> 57) (append_ipv4_from addr [])"
    by (rule ipv4_chars) simp
  then have "list_all (\<lambda>c. c = CHR ''.'' \<or> 48 \<le> byte c \<and> byte c \<le> 57) (ipv4_text addr)"
    using assms(1) by (simp only: ipv4_text_def AppendIPv4Address_def take_all order_refl)
  then have n: "x = CHR ''.'' \<or> 48 \<le> byte x \<and> byte x \<le> 57" if "x \<in> set (ipv4_text addr)" for x
    using that by (simp add: list_all_iff)
  have d: "CHR '':'' \<notin> set (ipv4_text addr)" "CHR ''['' \<notin> set (ipv4_text addr)" "CHR '']'' \<notin> set (ipv4_text addr)"
    using n [of "CHR '':''"] n [of "CHR ''[''"] n [of "CHR '']''"] by auto
  then have "set (ipv4_text addr) \<inter> {CHR '':'', CHR ''['', CHR '']''} = {}" by simp
  then show ?thesis
    using host_textI [OF ipv4_text_ne [OF assms] fixed_safe [OF fixed_ipv4_text [OF assms]]] by blast
qed

lemma ipv6_text_eq: "ipv6_text addr = CHR ''['' # AppendIPv6Address addr [] @ '']''"
  using ipv6_text.writes [of addr "''[''"] by (simp add: ipv6_text_def push_back_def)

lemma host_text_ipv6:
  assumes "length addr = 16" "byte_list addr"
  shows "host_text (ipv6_text addr)"
proof -
  have ok: "contraction_ok addr (ChooseIPv6ContractionRange addr)"
    using contraction_best [of addr] assms by (auto simp: contraction_ok_def longest_zero_run_def)
  have "CHR '']'' \<notin> set (AppendIPv6Address addr [])"
    using ipv6_tail_chars [OF ok, of 0] by (simp add: AppendIPv6Address_def)
  moreover have "ipv6_text addr \<noteq> []" by (simp add: ipv6_text_eq)
  ultimately show ?thesis
    using host_textI [OF _ fixed_safe [OF fixed_ipv6_text [OF assms]]] ipv6_text_eq by blast
qed

lemma host_result_ok:
  assumes "host_result t out = (True, c, o2)" "t \<noteq> []"
  shows "\<exists>u. o2 = out @ u \<and> c = Component (len out) (len u) \<and> host_text u \<and> host_result u out = (True, c, o2)"
proof -
  obtain o1 where s: "host_stage t out = (True, o1)" "host_final out o1 = (True, c, o2)"
    using assms(1) by (cases "host_stage t out") (auto simp: host_result_def split: if_splits)
  let ?ts = "host_tokens t"
  have p: "list_all plain_ok ?ts" "o1 = out @ tokens_text ?ts" using stage_plain [OF s(1)] by auto
  obtain u where u: "u \<noteq> []" "o2 = out @ u" "c = MakeRange (len out) (len o2)" "host_result u out = (True, c, o2)"
    using host_result_again [OF assms] by blast
  have "host_text u"
  proof -
    consider "o2 = o1" "set (tokens_text ?ts) \<inter> {CHR '':'', CHR ''['', CHR '']''} = {}"
      | addr where "length addr = 4" "byte_list addr" "o2 = out @ ipv4_text addr"
      | addr where "length addr = 16" "byte_list addr" "o2 = out @ ipv6_text addr"
      using final_cases [OF s(2) p(2)] by blast
    then show ?thesis
    proof cases
      case 1
      then have "u = tokens_text ?ts" using u(2) p(2) by simp
      then show ?thesis using 1(2) u(1) text_safe [OF p(1)] by (intro host_textI) auto
    next
      case (2 addr)
      then show ?thesis using u(2) host_text_ipv4 by simp
    next
      case (3 addr)
      then show ?thesis using u(2) host_text_ipv6 by simp
    qed
  qed
  then show ?thesis using u by (intro exI [of _ u]) (simp add: MakeRange_def)
qed

lemma component_str_ne:
  assumes "within 0 (len spec) c" "is_nonempty c"
  shows "component_str spec c \<noteq> []"
  using assms seg_Cons [of "c_begin c" "c_end c" spec]
  by (auto simp: component_str_def within_def is_valid_def is_nonempty_def c_end_def)

lemma component_nonempty: "component_str spec c \<noteq> [] \<Longrightarrow> is_nonempty c"
  by (rule ccontr) (simp add: is_nonempty_def component_str_def c_end_def)

text \<open>An accepted nonempty host: what is written, and that it is canonical.\<close>

lemma host_writes:
  assumes "CanonicalizeHost spec h out = (True, c, out')" "within 0 (len spec) h" "is_nonempty h"
  shows "\<exists>t. out' = out @ t \<and> c = Component (len out) (len t) \<and> host_text t \<and>
    (\<forall>spec2 h2. component_str spec2 h2 = t \<longrightarrow> CanonicalizeHost spec2 h2 out = (True, c, out'))"
proof -
  have "\<not> c_len h \<le> 0" using assms(3) by (simp add: is_nonempty_def)
  then have "host_result (component_str spec h) out = (True, c, out')"
    using assms(1) by (simp add: CanonicalizeHost_eq)
  from host_result_ok [OF this component_str_ne [OF assms(2,3)]]
  obtain u where u: "out' = out @ u" "c = Component (len out) (len u)" "host_text u" "host_result u out = (True, c, out')"
    by blast
  have "CanonicalizeHost spec2 h2 out = (True, c, out')" if "component_str spec2 h2 = u" for spec2 h2
  proof -
    have "is_nonempty h2" using that u(3) component_nonempty [of spec2 h2] by (auto simp: host_text_def)
    then show ?thesis using that u(4) by (simp add: CanonicalizeHost_eq is_nonempty_def)
  qed
  then show ?thesis using u by blast
qed

end
