(* ===== verification/Url_Standard_Laws.thy ===== *)
theory Url_Standard_Laws
  imports Url_Canon_Laws
begin

unbundle bit_operations_syntax

text \<open>
  Standard URLs as a whole: the shape of what \<open>DoCanonicalizeStandardURL\<close> writes, and
  what \<open>ParseStandardURL\<close> finds in a text of that shape.
\<close>

section \<open>The shape of a canonical URL\<close>

record pieces =
  t_scheme :: str
  t_user :: "str option"
  t_pass :: "str option"
  t_host :: str
  t_port :: "str option"
  t_path :: str
  t_query :: "str option"
  t_ref :: "str option"

definition ostr :: "str \<Rightarrow> str option \<Rightarrow> str" where
  "ostr pre o1 = (case o1 of None \<Rightarrow> [] | Some t \<Rightarrow> pre @ t)"

lemma ostr_simps [simp]: "ostr pre None = []" "ostr pre (Some t) = pre @ t"
  by (simp_all add: ostr_def)

definition user_part :: "pieces \<Rightarrow> str" where
  "user_part p = (case t_user p of None \<Rightarrow> [] | Some u \<Rightarrow> u @ ostr '':'' (t_pass p) @ ''@'')"

definition auth_part :: "pieces \<Rightarrow> str" where
  "auth_part p = user_part p @ t_host p @ ostr '':'' (t_port p)"

definition url_string :: "pieces \<Rightarrow> str" where
  "url_string p = t_scheme p @ ''://'' @ auth_part p @ t_path p @ ostr ''?'' (t_query p) @ ostr ''#'' (t_ref p)"

definition orange :: "int \<Rightarrow> str option \<Rightarrow> component" where
  "orange b o1 = (case o1 of None \<Rightarrow> no_component | Some t \<Rightarrow> Component b (len t))"

lemma orange_simps [simp]: "orange b None = no_component" "orange b (Some t) = Component b (len t)"
  by (simp_all add: orange_def)

text \<open>Where the pieces are when the text is written at \<open>n\<close>.\<close>

definition url_ranges :: "int \<Rightarrow> pieces \<Rightarrow> parts" where
  "url_ranges n p =
     (let user = n + len (t_scheme p) + 3;
          host = user + len (user_part p);
          path = host + len (t_host p) + len (ostr '':'' (t_port p));
          query = path + len (t_path p);
          ref = query + len (ostr ''?'' (t_query p))
      in \<lparr>p_scheme = Component n (len (t_scheme p)), p_username = orange user (t_user p),
          p_password = (case t_user p of None \<Rightarrow> no_component | Some u \<Rightarrow> orange (user + len u + 1) (t_pass p)),
          p_host = Component host (len (t_host p)), p_port = orange (host + len (t_host p) + 1) (t_port p),
          p_path = Component path (len (t_path p)), p_query = orange (query + 1) (t_query p),
          p_ref = orange (ref + 1) (t_ref p)\<rparr>)"

definition pieces_ok :: "pieces \<Rightarrow> bool" where
  "pieces_ok p \<longleftrightarrow>
     canonical_scheme (t_scheme p) \<and>
     (case t_user p of None \<Rightarrow> t_pass p = None | Some u \<Rightarrow> user_text u \<and> (u = [] \<longrightarrow> t_pass p \<noteq> None)) \<and>
     (\<forall>w. t_pass p = Some w \<longrightarrow> w \<noteq> [] \<and> user_text w) \<and>
     host_text (t_host p) \<and>
     (\<forall>w. t_port p = Some w \<longrightarrow>
        (\<exists>n<65536. w = print_nat 10 n \<and> int n \<noteq> DefaultPortForScheme (t_scheme p))) \<and>
     (\<exists>r. t_path p = CHR ''/'' # r \<and> list_all path_char r) \<and>
     (\<forall>w. t_query p = Some w \<longrightarrow> query_text w) \<and>
     (\<forall>w. t_ref p = Some w \<longrightarrow> list_all (\<lambda>c. 32 \<le> byte c) w)"

lemma user_out_ne: "s \<noteq> [] \<Longrightarrow> user_out s \<noteq> []"
  by (cases s) (auto simp: user_out_def typed_char_def escaped_def)

lemma ref_out_ge: "list_all (\<lambda>c. 32 \<le> byte c) (concat (map ref_piece s))"
proof -
  have "d < 16 \<Longrightarrow> 32 \<le> byte (kHexCharLookup ! d)" for d
    by (rule upt_all [where m = 0 and n = 16]) (code_simp, simp_all)
  then have "list_all (\<lambda>c. 32 \<le> byte c) (ref_piece c)" for c
    by (simp add: ref_piece_def escaped_def)
  then show ?thesis by (induction s) auto
qed

definition source_within :: "str URLComponentSource \<Rightarrow> 'a parts_scheme \<Rightarrow> bool" where
  "source_within s p \<longleftrightarrow>
     within 0 (len (s_scheme s)) (p_scheme p) \<and> within 0 (len (s_username s)) (p_username p) \<and>
     within 0 (len (s_password s)) (p_password p) \<and> within 0 (len (s_host s)) (p_host p) \<and>
     within 0 (len (s_port s)) (p_port p) \<and> within 0 (len (s_path s)) (p_path p) \<and>
     within 0 (len (s_query s)) (p_query p) \<and> within 0 (len (s_ref s)) (p_ref p)"

text \<open>A host that is written unchanged after the text \<open>out\<close>.\<close>

definition host_again :: "str \<Rightarrow> str \<Rightarrow> bool" where
  "host_again t out \<longleftrightarrow> (\<forall>spec h. component_str spec h = t \<longrightarrow>
     CanonicalizeHost spec h out = (True, Component (len out) (len t), out @ t))"

text \<open>The authority.\<close>

lemma user_shape:
  assumes "within 0 (len us) u" "within 0 (len ps) p"
  shows "\<exists>ut pt. CanonicalizeUserInfo us u ps p out =
      (True, orange (len out) ut, case ut of None \<Rightarrow> no_component | Some w \<Rightarrow> orange (len out + len w + 1) pt,
       out @ (case ut of None \<Rightarrow> [] | Some w \<Rightarrow> w @ ostr '':'' pt @ ''@'')) \<and>
    (case ut of None \<Rightarrow> pt = None | Some w \<Rightarrow> user_text w \<and> (w = [] \<longrightarrow> pt \<noteq> None)) \<and>
    (\<forall>w. pt = Some w \<longrightarrow> w \<noteq> [] \<and> user_text w)"
proof (cases "\<not> is_nonempty u \<and> \<not> is_nonempty p")
  case True
  then show ?thesis
    by (intro exI [of _ None]) (simp add: user_writes [OF assms])
next
  case False
  let ?u = "user_out (component_str us u)" and ?p = "user_out (component_str ps p)"
  have e: "\<not> is_nonempty c \<Longrightarrow> component_str s c = []" for s c
    by (simp add: is_nonempty_def component_str_def c_end_def)
  have ne: "is_nonempty u \<Longrightarrow> ?u \<noteq> []" "is_nonempty p \<Longrightarrow> ?p \<noteq> []"
    using component_str_ne user_out_ne assms by blast+
  show ?thesis
    using False ne e [of u us]
    by (intro exI [of _ "Some ?u"] exI [of _ "if is_nonempty p then Some ?p else None"])
      (auto simp: user_writes [OF assms] user_out_text Let_def)
qed

lemma default_port_range: "DefaultPortForScheme s \<noteq> PORT_INVALID"
  by (simp add: DefaultPortForScheme_def PORT_UNSPECIFIED_def PORT_INVALID_def)

lemma authority_shape:
  assumes "standard_authority source parsed sc out1 = (True, us, ps, hs, pts, out2)"
    "source_within source parsed" "is_valid (p_scheme parsed)" "within 0 (len out1) sc"
  shows "\<exists>ut pt ht pp. out2 = out1 @ ''//'' @ (case ut of None \<Rightarrow> [] | Some w \<Rightarrow> w @ ostr '':'' pt @ ''@'') @ ht @ ostr '':'' pp \<and>
    (let ub = len out1 + 2; hb = ub + len (case ut of None \<Rightarrow> [] | Some w \<Rightarrow> w @ ostr '':'' pt @ ''@'')
     in us = orange ub ut \<and> ps = (case ut of None \<Rightarrow> no_component | Some w \<Rightarrow> orange (ub + len w + 1) pt) \<and>
        hs = Component hb (len ht) \<and> pts = orange (hb + len ht + 1) pp) \<and>
    (case ut of None \<Rightarrow> pt = None | Some w \<Rightarrow> user_text w \<and> (w = [] \<longrightarrow> pt \<noteq> None)) \<and>
    (\<forall>w. pt = Some w \<longrightarrow> w \<noteq> [] \<and> user_text w) \<and> host_text ht \<and>
    (\<forall>w. pp = Some w \<longrightarrow> (\<exists>n<65536. w = print_nat 10 n \<and> int n \<noteq> DefaultPortForScheme (component_str out1 sc))) \<and>
    host_again ht (out1 @ ''//'' @ (case ut of None \<Rightarrow> [] | Some w \<Rightarrow> w @ ostr '':'' pt @ ''@''))"
proof -
  note w = assms(2) [unfolded source_within_def]
  define o1 where "o1 = out1 @ ''//''"
  obtain ut pt where U: "CanonicalizeUserInfo (s_username source) (p_username parsed) (s_password source) (p_password parsed) o1 =
      (True, orange (len o1) ut, case ut of None \<Rightarrow> no_component | Some w \<Rightarrow> orange (len o1 + len w + 1) pt,
       o1 @ (case ut of None \<Rightarrow> [] | Some w \<Rightarrow> w @ ostr '':'' pt @ ''@''))"
      "case ut of None \<Rightarrow> pt = None | Some w \<Rightarrow> user_text w \<and> (w = [] \<longrightarrow> pt \<noteq> None)"
      "\<forall>w. pt = Some w \<longrightarrow> w \<noteq> [] \<and> user_text w"
    using user_shape [of "s_username source" "p_username parsed" "s_password source" "p_password parsed" o1] w by blast
  define ux where "ux = (case ut of None \<Rightarrow> [] | Some w \<Rightarrow> w @ ostr '':'' pt @ ''@'')"
  define ou where "ou = o1 @ ux"
  obtain okh h oh where H: "CanonicalizeHost (s_host source) (p_host parsed) ou = (okh, h, oh)" by (metis prod_cases3)
  define dflt where "dflt = DefaultPortForScheme (component_str oh sc)"
  obtain pp where P: "CanonicalizePort (s_port source) (p_port parsed) dflt oh =
      (ParsePort (s_port source) (p_port parsed) \<noteq> PORT_INVALID \<or> ParsePort (s_port source) (p_port parsed) = dflt,
       if pp = None then no_component else Component (len oh + 1) (len (the pp)),
       oh @ (case pp of None \<Rightarrow> [] | Some s \<Rightarrow> '':'' @ s))"
      "ParsePort (s_port source) (p_port parsed) \<noteq> PORT_INVALID \<Longrightarrow> (\<forall>s. pp = Some s \<longrightarrow> (\<exists>n<65536. s = print_nat 10 n \<and> int n \<noteq> dflt))"
    using port_writes [of "s_port source" "p_port parsed" dflt oh] w by blast
  have s1: "(if is_valid (p_scheme parsed) then push_back CHR ''/'' (push_back CHR ''/'' out1) else out1) = o1"
    using assms(3) by (simp add: push_back_def o1_def)
  note eq = assms(1) [unfolded standard_authority_def s1 Let_def U(1) prod.case ux_def [symmetric] ou_def [symmetric] H
      dflt_def [symmetric] P(1)]
  have ok: "okh" "is_nonempty (p_host parsed)" "ParsePort (s_port source) (p_port parsed) \<noteq> PORT_INVALID"
    using eq default_port_range [of "component_str oh sc"] by (auto simp: dflt_def)
  obtain ht where ht: "oh = ou @ ht" "h = Component (len ou) (len ht)" "host_text ht" "host_again ht ou"
    using host_writes [of "s_host source" "p_host parsed" ou h oh] H ok(1,2) w unfolding host_again_def by auto
  have pc: "(if pp = None then no_component else Component (len oh + 1) (len (the pp))) = orange (len oh + 1) pp"
    "oh @ (case pp of None \<Rightarrow> [] | Some s \<Rightarrow> '':'' @ s) = oh @ ostr '':'' pp"
    by (cases pp; simp)+
  have sc: "component_str oh sc = component_str out1 sc"
    using assms(4) by (auto simp: ht(1) ou_def o1_def component_str_def within_def index_simps c_end_def is_valid_def)
  have e: "us = orange (len o1) ut" "ps = (case ut of None \<Rightarrow> no_component | Some w \<Rightarrow> orange (len o1 + len w + 1) pt)"
    "hs = h" "pts = orange (len oh + 1) pp" "out2 = oh @ ostr '':'' pp"
    using eq [unfolded pc] by blast+
  have l: "len o1 = len out1 + 2" "len ou = len out1 + 2 + len ux" "len oh = len out1 + 2 + len ux + len ht"
    by (simp_all add: o1_def ou_def ht(1))
  have r: "us = orange (len out1 + 2) ut \<and> ps = (case ut of None \<Rightarrow> no_component | Some w \<Rightarrow> orange (len out1 + 2 + len w + 1) pt) \<and>
        hs = Component (len out1 + 2 + len ux) (len ht) \<and> pts = orange (len out1 + 2 + len ux + len ht + 1) pp"
    by (simp only: e ht(2) l simp_thms)
  have o: "out2 = out1 @ ''//'' @ ux @ ht @ ostr '':'' pp"
    by (simp only: e(5) ht(1) ou_def o1_def append.assoc)
  have q: "\<forall>w. pp = Some w \<longrightarrow> (\<exists>n<65536. w = print_nat 10 n \<and> int n \<noteq> DefaultPortForScheme (component_str out1 sc))"
    using P(2) [OF ok(3)] by (simp only: dflt_def sc)
  have h: "host_again ht (out1 @ ''//'' @ ux)" using ht(4) by (simp only: ou_def o1_def append.assoc)
  show ?thesis
    unfolding Let_def
    by (rule exI [of _ ut], rule exI [of _ pt], rule exI [of _ ht], rule exI [of _ pp])
      (use o [unfolded ux_def] r [unfolded ux_def] U(2,3) ht(3) q h [unfolded ux_def] in blast)
qed

lemma path_range:
  "CanonicalizePath spec path out = (ok, c, out') \<Longrightarrow>
   \<exists>r. out' = out @ CHR ''/'' # r \<and> list_all path_char r \<and> c = Component (len out) (len (CHR ''/'' # r))"
  using path_written [of spec path out ok c out'] by (auto simp: MakeRange_def)

lemma standard_shape:
  assumes "DoCanonicalizeStandardURL source parsed conv out = (True, np, out')"
    "source_within source parsed" "is_nonempty (p_scheme parsed)"
  shows "\<exists>p. pieces_ok p \<and> out' = out @ url_string p \<and> np = url_ranges (len out) p \<and>
    (if is_valid (p_path parsed)
     then \<exists>o1. CanonicalizePath (s_path source) (p_path parsed) o1 = (True, p_path np, o1 @ t_path p)
     else t_path p = ''/'') \<and>
    t_ref p = (if is_valid (p_ref parsed) then Some (concat (map ref_piece (component_str (s_ref source) (p_ref parsed)))) else None) \<and>
    host_again (t_host p) (out @ t_scheme p @ ''://'' @ user_part p) \<and>
    CanonicalizeScheme (s_scheme source) (p_scheme parsed) out =
      (True, Component (len out) (len (t_scheme p)), out @ t_scheme p @ '':'')"
proof -
  note w = assms(2) [unfolded source_within_def]
  obtain st where st: "CanonicalizeScheme (s_scheme source) (p_scheme parsed) out =
      (fst (CanonicalizeScheme (s_scheme source) (p_scheme parsed) []), Component (len out) (len st), out @ st @ '':'')"
      "fst (CanonicalizeScheme (s_scheme source) (p_scheme parsed) []) \<Longrightarrow> canonical_scheme st"
    using scheme_writes [of "s_scheme source" "p_scheme parsed" out] w assms(3) by blast
  define ok1 where "ok1 = fst (CanonicalizeScheme (s_scheme source) (p_scheme parsed) [])"
  define sc where "sc = Component (len out) (len st)"
  define out1 where "out1 = out @ st @ '':''"
  have v: "is_valid (p_scheme parsed)" using assms(3) by (auto simp: is_nonempty_def is_valid_def)
  define auth where "auth \<longleftrightarrow> is_valid (p_username parsed) \<or> is_valid (p_password parsed) \<or>
             is_nonempty (p_host parsed) \<or> is_valid (p_port parsed)"
  obtain oka us ps hs pts out2 where A: "(if auth then standard_authority source parsed sc out1
      else (False, no_component, no_component, no_component, no_component, out1)) = (oka, us, ps, hs, pts, out2)"
    by (metis prod_cases6)
  obtain okp pth out3 where P: "(if is_valid (p_path parsed) then CanonicalizePath (s_path source) (p_path parsed) out2
             else if auth \<or> is_valid (p_query parsed) \<or> is_valid (p_ref parsed)
             then (True, Component (len out2) 1, push_back CHR ''/'' out2)
             else (True, no_component, out2)) = (okp, pth, out3)"
    by (metis prod_cases3)
  obtain q out4 where Q: "CanonicalizeQuery (s_query source) (p_query parsed) conv out3 = (q, out4)" by fastforce
  obtain r out5 where R: "CanonicalizeRef (s_ref source) (p_ref parsed) out4 = (r, out5)" by fastforce
  have all: "DoCanonicalizeStandardURL source parsed conv out =
    (ok1 \<and> oka \<and> okp, \<lparr>p_scheme = sc, p_username = us, p_password = ps, p_host = hs,
       p_port = pts, p_path = pth, p_query = q, p_ref = r\<rparr>, out5)"
    unfolding DoCanonicalizeStandardURL_def st(1) [folded ok1_def out1_def sc_def] auth_def [symmetric] Let_def prod.case A P Q R
    by simp
  then have ok: "ok1" "oka" "okp" "out' = out5" and np: "np = \<lparr>p_scheme = sc, p_username = us, p_password = ps, p_host = hs,
       p_port = pts, p_path = pth, p_query = q, p_ref = r\<rparr>"
    using assms(1) by auto
  have au: "auth" using A ok(2) by (cases auth) auto
  have scw: "within 0 (len out1) sc" "component_str out1 sc = st"
    by (simp_all add: out1_def sc_def index_simps)
  have A': "standard_authority source parsed sc out1 = (True, us, ps, hs, pts, out2)"
    using A au ok(2) by simp
  obtain ut pt ht pp where auth: "out2 = out1 @ ''//'' @ (case ut of None \<Rightarrow> [] | Some w \<Rightarrow> w @ ostr '':'' pt @ ''@'') @ ht @ ostr '':'' pp"
    "(let ub = len out1 + 2; hb = ub + len (case ut of None \<Rightarrow> [] | Some w \<Rightarrow> w @ ostr '':'' pt @ ''@'')
     in us = orange ub ut \<and> ps = (case ut of None \<Rightarrow> no_component | Some w \<Rightarrow> orange (ub + len w + 1) pt) \<and>
        hs = Component hb (len ht) \<and> pts = orange (hb + len ht + 1) pp)"
    "case ut of None \<Rightarrow> pt = None | Some w \<Rightarrow> user_text w \<and> (w = [] \<longrightarrow> pt \<noteq> None)"
    "\<forall>w. pt = Some w \<longrightarrow> w \<noteq> [] \<and> user_text w" "host_text ht"
    "\<forall>w. pp = Some w \<longrightarrow> (\<exists>n<65536. w = print_nat 10 n \<and> int n \<noteq> DefaultPortForScheme st)"
    "host_again ht (out1 @ ''//'' @ (case ut of None \<Rightarrow> [] | Some w \<Rightarrow> w @ ostr '':'' pt @ ''@''))"
    using authority_shape [OF A' assms(2) v scw(1)] unfolding scw(2) by blast
  obtain x where x: "out3 = out2 @ CHR ''/'' # x" "list_all path_char x" "pth = Component (len out2) (len (CHR ''/'' # x))"
    "if is_valid (p_path parsed) then CanonicalizePath (s_path source) (p_path parsed) out2 = (True, pth, out2 @ CHR ''/'' # x)
     else CHR ''/'' # x = ''/''"
  proof (cases "is_valid (p_path parsed)")
    case True
    then have c: "CanonicalizePath (s_path source) (p_path parsed) out2 = (True, pth, out3)" using P ok(3) by simp
    from path_range [OF this] show ?thesis using that True c by auto
  next
    case False
    then have "out3 = out2 @ CHR ''/'' # []" "pth = Component (len out2) 1" using P au by (auto simp: push_back_def)
    then show ?thesis using that [of "[]"] False by simp
  qed
  define tq where "tq = (if is_valid (p_query parsed) then Some (query_out (component_str (s_query source) (p_query parsed)) conv) else None)"
  define tr where "tr = (if is_valid (p_ref parsed) then Some (concat (map ref_piece (component_str (s_ref source) (p_ref parsed)))) else None)"
  have q: "q = orange (len out3 + 1) tq" "out4 = out3 @ ostr ''?'' tq"
    using Q w by (auto simp: query_writes Let_def tq_def)
  have r: "r = orange (len out4 + 1) tr" "out5 = out4 @ ostr ''#'' tr"
    using R w by (auto simp: ref_writes Let_def tr_def)
  have qr: "\<forall>w. tq = Some w \<longrightarrow> query_text w" "\<forall>w. tr = Some w \<longrightarrow> list_all (\<lambda>c. 32 \<le> byte c) w"
    using query_out_text ref_out_ge by (simp_all add: tq_def tr_def)
  define p where "p = \<lparr>t_scheme = st, t_user = ut, t_pass = pt, t_host = ht, t_port = pp, t_path = CHR ''/'' # x,
    t_query = tq, t_ref = tr\<rparr>"
  have sel: "t_scheme p = st" "t_user p = ut" "t_pass p = pt" "t_host p = ht" "t_port p = pp" "t_path p = CHR ''/'' # x"
    "t_query p = tq" "t_ref p = tr"
    by (simp_all add: p_def)
  have "pieces_ok p"
    using st(2) ok(1) auth(3-6) x(2) qr unfolding pieces_ok_def sel ok1_def by blast
  moreover have u: "user_part p = (case ut of None \<Rightarrow> [] | Some w \<Rightarrow> w @ ostr '':'' pt @ ''@'')"
    by (simp only: user_part_def sel)
  have "out' = out @ url_string p"
    by (simp add: ok(4) r(2) q(2) x(1) auth(1) out1_def url_string_def auth_part_def u sel)
  moreover have "np = url_ranges (len out) p"
    using auth(2)
    by (cases ut) (simp_all add: np url_ranges_def u q(1) r(1) x(3) sc_def Let_def sel out1_def x(1) auth(1) q(2) algebra_simps)
  moreover have "if is_valid (p_path parsed)
     then \<exists>o1. CanonicalizePath (s_path source) (p_path parsed) o1 = (True, p_path np, o1 @ t_path p)
     else t_path p = ''/''"
  proof -
    have "p_path np = pth" by (simp add: np)
    then show ?thesis using x(4) sel(6) by auto
  qed
  moreover have "t_ref p = (if is_valid (p_ref parsed)
      then Some (concat (map ref_piece (component_str (s_ref source) (p_ref parsed)))) else None)"
    by (simp only: sel tr_def)
  moreover have "host_again (t_host p) (out @ t_scheme p @ ''://'' @ user_part p)"
    using auth(7) by (simp add: sel u out1_def)
  moreover have "CanonicalizeScheme (s_scheme source) (p_scheme parsed) out =
      (True, Component (len out) (len (t_scheme p)), out @ t_scheme p @ '':'')"
    using st(1) ok(1) unfolding ok1_def sel(1) by simp
  ultimately show ?thesis by blast
qed

section \<open>Host and port\<close>

lemma server_scan_plain:
  assumes "u = pre @ t @ rest" "CHR '']'' \<notin> set t"
  shows "server_scan u (len pre) (len pre + len t) t0 c0 = (t0, snd (server_scan u (len pre) (len pre + len t) t0 c0))"
  using assms
proof (induction t arbitrary: pre c0)
  case Nil
  then show ?case by (simp add: server_scan.simps)
next
  case (Cons c t)
  have at: "at u (len pre) = c" using at_next [of u pre "[]" c "t @ rest"] Cons.prems(1) by simp
  have "u = (pre @ [c]) @ t @ rest" using Cons.prems(1) by simp
  from Cons.IH [OF this] Cons.prems(2)
  have IH: "server_scan u (len pre + 1) (len pre + 1 + len t) t0 k = (t0, snd (server_scan u (len pre + 1) (len pre + 1 + len t) t0 k))" for k
    by (simp add: add.commute)
  have e: "len pre + len (c # t) = len pre + 1 + len t" by simp
  have lt: "len pre < len pre + 1 + len t" by simp
  have nc: "c \<noteq> CHR '']''" using Cons.prems(2) by auto
  have step: "server_scan u (len pre) (len pre + 1 + len t) t0 c0 =
      server_scan u (len pre + 1) (len pre + 1 + len t) t0 (if c = CHR '':'' then len pre else c0)"
    using lt nc by (subst server_scan.simps) (simp add: at)
  show ?case unfolding e step by (rule IH)
qed

lemma server_scan_split:
  "i \<le> m \<Longrightarrow> m \<le> e \<Longrightarrow> server_scan u i e t0 c0 =
    (case server_scan u i m t0 c0 of (t, c) \<Rightarrow> server_scan u m e t c)"
proof (induction i arbitrary: t0 c0 rule: upto_induct [where e = m])
  case (past i)
  then show ?case by (simp add: server_scan.simps [of u i i])
next
  case (step i)
  then show ?case by (subst (1 2) server_scan.simps) simp
qed

text \<open>The loop over an accepted host leaves no colon after the bracket.\<close>

lemma bracket_scan:
  assumes "u = pre @ h @ x" "host_text h" "len h \<le> k"
  shows "\<exists>t1 c1. server_scan u (len pre) (len pre + len h)
      (if at u (len pre) = CHR ''['' then len pre + k else -1) (-1) = (t1, c1) \<and> t1 < len pre + len h \<and> c1 \<le> t1"
proof -
  let ?b = "len pre" and ?m = "len pre + len h"
  let ?t0 = "if at u ?b = CHR ''['' then ?b + k else -1"
  have hne: "h \<noteq> []" using assms(2) by (simp add: host_text_def)
  have at0: "at u ?b = hd h" using at_next [of u pre "[]" "hd h" "tl h @ x"] assms(1) hne by simp
  consider (plain) "set h \<inter> {CHR '':'', CHR ''['', CHR '']''} = {}"
    | (bracket) m where "h = CHR ''['' # m @ '']''" "CHR '']'' \<notin> set m"
    using assms(2) unfolding host_text_def by blast
  then show ?thesis
  proof cases
    case plain
    have nb: "CHR '']'' \<notin> set h" and nc: "CHR '':'' \<notin> set h" and "CHR ''['' \<notin> set h" using plain by blast+
    then have t0: "?t0 = -1" using at0 hd_in_set [OF hne] by metis
    obtain c1 where c1: "server_scan u ?b ?m (-1) (-1) = (-1, c1)"
      using server_scan_plain [OF assms(1) nb] by blast
    have "c1 = -1"
    proof (rule ccontr)
      assume "c1 \<noteq> -1"
      then have "?b \<le> c1" "c1 < ?m" "at u c1 = CHR '':''" using server_scan_colon [OF c1] by blast+
      then show False using at_mid [OF assms(1), of c1] nc by simp
    qed
    then show ?thesis using c1 by (simp add: t0)
  next
    case (bracket m)
    have u': "u = pre @ (CHR ''['' # m) @ CHR '']'' # x" using assms(1) bracket by simp
    let ?k = "?b + len (CHR ''['' # m)"
    have m: "?m = ?k + 1" using bracket by simp
    have nb: "CHR '']'' \<notin> set (CHR ''['' # m)" using bracket(2) by simp
    obtain c2 where c2: "server_scan u ?b ?k ?t0 (-1) = (?t0, c2)"
      using server_scan_plain [OF u' nb] by blast
    have c2k: "c2 < ?k" using server_scan_colon [OF c2] by auto
    have at: "at u ?k = CHR '']''" by (rule at_next [OF u'])
    have close: "server_scan u j (j + 1) t c = (j, c)" if "at u j = CHR '']''" for j t c
      using that by (simp add: server_scan.simps [of u j] server_scan.simps [of u "j + 1"])
    note s2 = close [OF at]
    have le: "?b \<le> ?k" "?k \<le> ?k + 1" by simp_all
    have "server_scan u ?b (?k + 1) ?t0 (-1) = (?k, c2)"
      unfolding server_scan_split [OF le, of u ?t0 "-1"] c2 prod.case by (rule s2)
    moreover have "?k < ?k + 1" by simp
    ultimately show ?thesis using c2k unfolding m by (blast intro: less_imp_le)
  qed
qed

lemma server_info_scan:
  assumes "server_scan u b (b + l) (if at u b = CHR ''['' then b + l else -1) (-1) = (t, c)" "l \<noteq> 0"
  shows "ParseServerInfo u (Component b l) =
    (if c > t then (if c = b then no_component else MakeRange b c, MakeRange (c + 1) (b + l))
     else (Component b l, no_component))"
  using assms(2) unfolding ParseServerInfo_def component_sel assms(1) Let_def prod.case by simp

lemma colon_scan:
  assumes "u = pre @ h @ CHR '':'' # w @ rest" "CHR '':'' \<notin> set w" "CHR '']'' \<notin> set w"
  shows "server_scan u (len pre + len h) (len pre + len h + (1 + len w)) t0 c0 = (t0, len pre + len h)"
proof -
  define m e where "m = len pre + len h" and "e = len pre + len h + (1 + len w)"
  have me: "m < e" "e = len (pre @ h @ '':'') + len w" "m + 1 = len (pre @ h @ '':'')" "m = len (pre @ h)" by (simp_all add: m_def e_def)
  have u1: "u = (pre @ h) @ (CHR '':'' # w) @ rest" and u2: "u = (pre @ h @ '':'') @ w @ rest" using assms(1) by simp_all
  have "CHR '']'' \<notin> set (CHR '':'' # w)" using assms(3) by simp
  from server_scan_plain [OF u1 this, of t0 c0]
  obtain c where c: "server_scan u m e t0 c0 = (t0, c)" by (simp add: m_def e_def add.assoc)
  have at: "at u m = CHR '':''" using at_next [of u pre h "CHR '':''" "w @ rest"] assms(1) by (simp add: m_def)
  have no: "at u k \<noteq> CHR '':''" if "m < k" "k < e" for k
    using at_mid [OF u2, of k] that assms(2) me(2,3) by auto
  have "c = m"
  proof (rule ccontr)
    assume n: "c \<noteq> m"
    note col = server_scan_colon [OF c]
    show False using col no at n me(1) by (metis linorder_neqE_linordered_idom linorder_not_less)
  qed
  then show ?thesis using c by (simp only: m_def e_def)
qed

lemma server_parse:
  assumes "u = pre @ h @ ostr '':'' pp @ rest" "host_text h"
    "\<And>w. pp = Some w \<Longrightarrow> CHR '':'' \<notin> set w \<and> CHR '']'' \<notin> set w"
  shows "ParseServerInfo u (Component (len pre) (len h + len (ostr '':'' pp))) =
    (Component (len pre) (len h), orange (len pre + len h + 1) pp)"
proof -
  define b m l where "b = len pre" and "m = b + len h" and "l = len h + len (ostr '':'' pp)"
  have "0 < length h" using assms(2) by (simp add: host_text_def)
  then have hne: "b < m" "m \<le> b + l" "l \<noteq> 0" unfolding m_def l_def by linarith+
  have l: "len h \<le> l" by (simp add: l_def)
  define t0 where "t0 = (if at u b = CHR ''['' then b + l else -1)"
  obtain t1 c1 where s1: "server_scan u b m t0 (-1) = (t1, c1)" "t1 < m" "c1 \<le> t1"
    using bracket_scan [OF assms(1,2) l] unfolding b_def [symmetric] m_def [symmetric] t0_def [symmetric] by blast
  have sc: "server_scan u b (b + l) t0 (-1) = server_scan u m (b + l) t1 c1"
    using server_scan_split [of b m "b + l" u t0 "-1"] s1(1) hne by simp
  show ?thesis
  proof (cases pp)
    case None
    then have em: "b + l = m" by (simp add: l_def m_def)
    have "server_scan u m m t1 c1 = (t1, c1)" by (subst server_scan.simps) simp
    then have "server_scan u b (b + l) t0 (-1) = (t1, c1)"
      using sc unfolding em by (rule trans [rotated])
    from server_info_scan [OF this [unfolded t0_def] hne(3)] s1(3)
    have "ParseServerInfo u (Component b l) = (Component b l, no_component)" by simp
    then show ?thesis using None by (simp add: b_def l_def)
  next
    case (Some w)
    have bl: "b + l = m + (1 + len w)" using Some by (simp add: l_def m_def)
    have "u = pre @ h @ CHR '':'' # w @ rest" using assms(1) Some by simp
    from colon_scan [OF this, of t1 c1, folded b_def, folded m_def] assms(3) [OF Some]
    have cs: "server_scan u m (m + (1 + len w)) t1 c1 = (t1, m)" by blast
    have "server_scan u b (b + l) t0 (-1) = (t1, m)" unfolding sc unfolding bl by (rule cs)
    from server_info_scan [OF this [unfolded t0_def] hne(3)] s1(2) hne(1)
    have "ParseServerInfo u (Component b l) = (MakeRange b m, MakeRange (m + 1) (b + l))" by simp
    then show ?thesis using Some by (simp add: b_def l_def m_def MakeRange_def)
  qed
qed

section \<open>The bytes of the pieces\<close>

lemma user_chars:
  assumes "user_text t" "x \<in> set t"
  shows "safe_byte (byte x) \<and> x \<noteq> CHR '':''"
proof -
  have l: "length kSharedCharTypeTable = 256" by code_simp
  have "if kSharedCharTypeTable ! b AND 2 \<noteq> 0 then safe_byte b \<and> b \<noteq> 58 else True" if "b < 256" for b
    by (rule table_indexed [where P = "\<lambda>b f. if f AND 2 \<noteq> 0 then safe_byte b \<and> b \<noteq> 58 else True"])
      (code_simp, use that l in simp)
  from this [of "byte x"] assms show ?thesis
    by (auto simp: user_text_def list_all_iff IsCharOfType_def split: if_splits)
qed

lemma query_chars:
  assumes "query_text t" "x \<in> set t"
  shows "32 < byte x \<and> byte x < 128 \<and> x \<noteq> CHR ''#''"
  using assms typed_ascii [of "byte x" CHAR_QUERY] by (auto simp: query_text_def list_all_iff)

lemma path_chars:
  assumes "list_all path_char t" "x \<in> set t"
  shows "32 < byte x \<and> byte x < 128 \<and> x \<notin> {CHR ''?'', CHR ''#'', CHR 0x5C}"
  using assms by (auto simp: path_char_def path_byte_def list_all_iff)

lemma port_chars: "x \<in> set (print_nat 10 n) \<Longrightarrow> 48 \<le> byte x \<and> byte x < 58"
  using print_nat_dec [of x n] is_dec [of "byte x"] by auto

lemma scheme_chars:
  assumes "canonical_scheme t" "x \<in> set t"
  shows "32 < byte x \<and> byte x < 128 \<and> x \<noteq> CHR '':''"
  using assms by (auto simp: canonical_scheme_def list_all_iff scheme_char_def)

lemma host_chars: "host_text t \<Longrightarrow> x \<in> set t \<Longrightarrow> safe_byte (byte x)"
  by (simp add: host_text_def safe_byte_def list_all_iff char_eq_byte disjoint_iff)

lemma safe_char16: "safe_byte (byte c) \<Longrightarrow> \<not> IsAuthorityTerminator (char16_of c)"
  by (auto simp: safe_byte_def IsAuthorityTerminator_def IsURLSlash_def char16_of_ascii)

lemma safe_slash: "safe_byte (byte c) \<Longrightarrow> \<not> url_slash c"
  using safe_char16 [of c] by (auto simp: IsAuthorityTerminator_def)

lemma untrimmed: "32 < byte c \<Longrightarrow> \<not> trimmed_char c"
  by (auto simp: ShouldTrimFromURL_def char16_of_def)

section \<open>Parsing the pieces\<close>

lemma user_parse:
  assumes "u = pre @ w @ ostr '':'' pt @ rest" "CHR '':'' \<notin> set w"
  shows "ParseUserInfo u (Component (len pre) (len w + len (ostr '':'' pt))) =
    (Component (len pre) (len w), orange (len pre + len w + 1) pt)"
proof -
  have "scan_fwd (\<lambda>c. c \<noteq> CHR '':'') u (len pre) (len pre + (len w + len (ostr '':'' pt))) = len pre + len w"
    by (rule scan_fwd_text [where rest = "ostr '':'' pt @ rest"]) (use assms in \<open>cases pt; auto\<close>)+
  then show ?thesis
    by (cases pt) (simp_all add: ParseUserInfo_def MakeRange_def Let_def)
qed

lemma pieces_okD:
  assumes "pieces_ok p"
  shows "canonical_scheme (t_scheme p)" "t_user p = None \<Longrightarrow> t_pass p = None"
    "t_user p = Some w \<Longrightarrow> user_text w" "t_user p = Some [] \<Longrightarrow> t_pass p \<noteq> None"
    "t_pass p = Some w \<Longrightarrow> w \<noteq> [] \<and> user_text w" "host_text (t_host p)" "t_host p \<noteq> []"
    "t_port p = Some w \<Longrightarrow> \<exists>n<65536. w = print_nat 10 n \<and> int n \<noteq> DefaultPortForScheme (t_scheme p)"
    "\<exists>r. t_path p = CHR ''/'' # r \<and> list_all path_char r"
    "t_query p = Some w \<Longrightarrow> query_text w" "t_ref p = Some w \<Longrightarrow> list_all (\<lambda>c. 32 \<le> byte c) w"
  using assms by (simp_all add: pieces_ok_def host_text_def)

lemma port_text:
  assumes "pieces_ok p" "t_port p = Some w" "x \<in> set w"
  shows "48 \<le> byte x \<and> byte x < 58"
  using pieces_okD(8) [OF assms(1,2)] assms(3) port_chars by blast

lemma host_port_chars:
  assumes "pieces_ok p" "x \<in> set (t_host p @ ostr '':'' (t_port p))"
  shows "safe_byte (byte x)"
proof (cases "t_port p")
  case None
  then show ?thesis using assms(2) host_chars [OF pieces_okD(6) [OF assms(1)]] by simp
next
  case (Some w)
  have "safe_byte 58" "\<And>x. 48 \<le> byte x \<and> byte x < 58 \<Longrightarrow> safe_byte (byte x)" by (auto simp: safe_byte_def)
  then show ?thesis
    using Some assms(2) host_chars [OF pieces_okD(6) [OF assms(1)]] port_text [OF assms(1) Some] by auto
qed

lemma authority_parse:
  assumes "u = pre @ auth_part p @ rest" "pieces_ok p"
  shows "DoParseAuthority u (Component (len pre) (len (auth_part p))) =
    (orange (len pre) (t_user p), case t_user p of None \<Rightarrow> no_component | Some w \<Rightarrow> orange (len pre + len w + 1) (t_pass p),
     Component (len pre + len (user_part p)) (len (t_host p)),
     orange (len pre + len (user_part p) + len (t_host p) + 1) (t_port p))"
proof -
  let ?hp = "t_host p @ ostr '':'' (t_port p)"
  have port: "CHR '':'' \<notin> set w \<and> CHR '']'' \<notin> set w" if "t_port p = Some w" for w
    using port_text [OF assms(2) that, of "CHR '':''"] port_text [OF assms(2) that, of "CHR '']''"] by auto
  have noat: "x \<noteq> CHR ''@''" if "x \<in> set ?hp" for x
    using safe_char [OF host_port_chars [OF assms(2) that]] by blast
  have ne: "?hp \<noteq> []" using pieces_okD(7) [OF assms(2)] by simp
  have server: "ParseServerInfo u (Component (len q) (len (t_host p) + len (ostr '':'' (t_port p)))) =
    (Component (len q) (len (t_host p)), orange (len q + len (t_host p) + 1) (t_port p))"
    if "u = q @ ?hp @ rest" for q
  proof -
    from that have uq: "u = q @ t_host p @ ostr '':'' (t_port p) @ rest" by simp
    show ?thesis by (rule server_parse [OF uq pieces_okD(6) [OF assms(2)] port])
  qed
  show ?thesis
  proof (cases "t_user p")
    case None
    have u: "u = pre @ ?hp @ rest" using assms(1) None by (simp add: auth_part_def user_part_def)
    have l: "len (auth_part p) = len ?hp" using None by (simp add: auth_part_def user_part_def)
    have "scan_back (\<lambda>c. c \<noteq> CHR ''@'') u (len pre) (len pre + len ?hp - 1) = len pre"
      by (rule scan_back_none [OF u _ ne]) (rule noat)
    moreover have "at u (len pre) \<noteq> CHR ''@''"
      using at_next [of u pre "[]" "hd ?hp" "tl ?hp @ rest"] u noat [OF hd_in_set [OF ne]] ne by simp
    moreover have "len ?hp \<noteq> 0" using ne by (simp only: of_nat_eq_0_iff length_0_conv not_False_eq_True)
    ultimately have "DoParseAuthority u (Component (len pre) (len ?hp)) =
      (let (hostname, port_num) = ParseServerInfo u (Component (len pre) (len ?hp))
       in (no_component, no_component, hostname, port_num))"
      by (simp only: DoParseAuthority_def component_sel Let_def if_False)
    then show ?thesis unfolding l using server [OF u] None by (simp add: user_part_def)
  next
    case (Some w)
    define body where "body = w @ ostr '':'' (t_pass p)"
    have u: "u = (pre @ body) @ CHR ''@'' # ?hp @ rest" using assms(1) Some by (simp add: auth_part_def user_part_def body_def)
    have u2: "u = (pre @ body @ ''@'') @ ?hp @ rest" using u by simp
    have u3: "u = pre @ w @ ostr '':'' (t_pass p) @ CHR ''@'' # ?hp @ rest" using u by (simp add: body_def)
    have l: "len (auth_part p) = len body + 1 + len ?hp" "len (user_part p) = len body + 1"
      using Some by (simp_all add: auth_part_def user_part_def body_def)
    define i where "i = len pre + len body"
    have i: "i = len (pre @ body)" "i + 1 = len (pre @ body @ ''@'')" "len pre \<le> i" by (simp_all add: i_def)
    have "scan_back (\<lambda>c. c \<noteq> CHR ''@'') u (len pre) (len (pre @ body) + len ?hp) = len (pre @ body)"
      by (rule scan_back_text [OF u]) (use noat in auto)
    then have sb: "scan_back (\<lambda>c. c \<noteq> CHR ''@'') u (len pre) (len pre + (len body + 1 + len ?hp) - 1) = i"
      by (simp add: i_def algebra_simps)
    have at: "at u i = CHR ''@''" using at_next [of u pre body "CHR ''@''" "?hp @ rest"] u by (simp add: i_def)
    have "CHR '':'' \<notin> set w" using user_chars [OF pieces_okD(3) [OF assms(2) Some]] by blast
    from user_parse [OF u3 this]
    have user: "ParseUserInfo u (Component (len pre) (i - len pre)) = (Component (len pre) (len w), orange (len pre + len w + 1) (t_pass p))"
      by (simp add: i_def body_def)
    have range: "MakeRange (i + 1) (len pre + (len body + 1 + len ?hp)) = Component (i + 1) (len (t_host p) + len (ostr '':'' (t_port p)))"
      by (simp add: MakeRange_def i_def)
    have "len body + 1 + len ?hp \<noteq> 0" by linarith
    then have "DoParseAuthority u (Component (len pre) (len body + 1 + len ?hp)) =
      (let (username, password) = ParseUserInfo u (Component (len pre) (i - len pre));
           (hostname, port_num) = ParseServerInfo u (MakeRange (i + 1) (len pre + (len body + 1 + len ?hp)))
       in (username, password, hostname, port_num))"
      by (simp only: DoParseAuthority_def component_sel Let_def if_False sb at simp_thms if_True)
    then show ?thesis unfolding l user range server [OF u2, folded i(2)] using Some by (simp add: i_def)
  qed
qed

lemma path_parse:
  assumes "u = pre @ t @ ostr ''?'' q @ ostr ''#'' r" "t \<noteq> []"
    "\<And>x. x \<in> set t \<Longrightarrow> x \<noteq> CHR ''?'' \<and> x \<noteq> CHR ''#''" "\<And>w. q = Some w \<Longrightarrow> CHR ''#'' \<notin> set w"
  shows "ParsePath u (Component (len pre) (len u - len pre)) =
    (Component (len pre) (len t), orange (len pre + len t + 1) q, orange (len pre + len t + len (ostr ''?'' q) + 1) r)"
proof -
  define m n e where "m = len pre + len t" and "n = m + len (ostr ''?'' q)" and "e = len u"
  have e: "e = n + len (ostr ''#'' r)" by (simp add: e_def n_def m_def assms(1))
  have le: "0 \<le> len pre" "len pre < m" "m \<le> n" "n \<le> e" "(m < n) = (q \<noteq> None)" "(n < e) = (r \<noteq> None)"
    unfolding e n_def m_def using assms(2) by (cases q; cases r; simp)+
  have refs: "scan_fwd (\<lambda>c. c \<noteq> CHR ''#'') u (len pre) e = n"
  proof -
    have "scan_fwd (\<lambda>c. c \<noteq> CHR ''#'') u (len pre) e = len pre + len (t @ ostr ''?'' q)"
      by (rule scan_fwd_text [where rest = "ostr ''#'' r"])
        (use assms(1,3,4) le in \<open>cases q; cases r; auto simp: n_def m_def e\<close>)+
    then show ?thesis by (simp add: n_def m_def)
  qed
  have queries: "scan_fwd (\<lambda>c. c \<noteq> CHR ''?'' \<and> c \<noteq> CHR ''#'') u (len pre) e = m"
    unfolding m_def
    by (rule scan_fwd_text [where rest = "ostr ''?'' q @ ostr ''#'' r"])
      (use assms(1,3) le in \<open>cases q; cases r; auto simp: n_def m_def e\<close>)+
  have atm: "at u m = CHR ''?'' \<longleftrightarrow> q \<noteq> None" if "m < e"
    using that at_next [of u pre t] assms(1) by (cases q; cases r; auto simp: m_def n_def e)
  have sr: "snd (path_scan u (len pre) e (-1) (-1)) = (if r = None then -1 else n)"
    using path_scan_ref [of "len pre" "-1" u e "-1"] refs le by (simp add: Let_def)
  have sq: "fst (path_scan u (len pre) e (-1) (-1)) = (if q = None then -1 else m)"
    using path_scan_query [of "len pre" "-1" u e "-1"] queries le atm by (auto simp: Let_def)
  have sc: "path_scan u (len pre) e (-1) (-1) = (if q = None then -1 else m, if r = None then -1 else n)"
    using sr sq by (simp add: prod_eq_iff)
  have pe: "len pre + (len u - len pre) = e" by (simp add: e_def)
  have ne: "len u - len pre \<noteq> -1" using le by (simp add: e_def)
  have "ParsePath u (Component (len pre) (len u - len pre)) =
    (MakeRange (len pre) m, orange (m + 1) q, orange (n + 1) r)"
    using ne le e unfolding ParsePath_def component_sel pe sc Let_def prod.case
    by (cases q; cases r) (simp_all add: MakeRange_def n_def)
  then show ?thesis by (simp add: m_def n_def MakeRange_def)
qed

section \<open>Parsing a canonical URL\<close>

lemma auth_chars:
  assumes "pieces_ok p" "x \<in> set (auth_part p)"
  shows "\<not> IsAuthorityTerminator (char16_of x)"
proof -
  have sep: "\<not> IsAuthorityTerminator (char16_of CHR ''@'')" "\<not> IsAuthorityTerminator (char16_of CHR '':'')"
    by code_simp+
  have user: "\<not> IsAuthorityTerminator (char16_of x)" if "user_text w" "x \<in> set w" for w
    using safe_char16 user_chars [OF that] by blast
  consider "x \<in> set (user_part p)" | "x \<in> set (t_host p @ ostr '':'' (t_port p))"
    using assms(2) by (auto simp: auth_part_def)
  then show ?thesis
  proof cases
    case 1
    then obtain w where w: "t_user p = Some w" "x \<in> set w \<or> x \<in> set (ostr '':'' (t_pass p)) \<or> x = CHR ''@''"
      by (cases "t_user p") (auto simp: user_part_def)
    consider "x \<in> set w" | "x = CHR '':''" | v where "t_pass p = Some v" "x \<in> set v" | "x = CHR ''@''"
      using w(2) by (cases "t_pass p") auto
    then show ?thesis
      using sep user pieces_okD(3) [OF assms(1) w(1)] pieces_okD(5) [OF assms(1)] by cases blast+
  next
    case 2
    then show ?thesis using safe_char16 host_port_chars [OF assms(1)] by blast
  qed
qed

lemma auth_ne: "pieces_ok p \<Longrightarrow> auth_part p \<noteq> []"
  using pieces_okD(7) [of p] by (simp add: auth_part_def)

lemma url_tail_chars:
  assumes "pieces_ok p"
  shows "\<And>x. x \<in> set (t_path p) \<Longrightarrow> x \<noteq> CHR ''?'' \<and> x \<noteq> CHR ''#'' \<and> 32 < byte x"
    "\<And>w. t_query p = Some w \<Longrightarrow> CHR ''#'' \<notin> set w" "t_path p \<noteq> []"
proof -
  obtain r where r: "t_path p = CHR ''/'' # r" "list_all path_char r" using pieces_okD(9) [OF assms] by blast
  then show "\<And>x. x \<in> set (t_path p) \<Longrightarrow> x \<noteq> CHR ''?'' \<and> x \<noteq> CHR ''#'' \<and> 32 < byte x"
    using path_chars [OF r(2)] by auto
  show "t_path p \<noteq> []" using r by simp
  show "\<And>w. t_query p = Some w \<Longrightarrow> CHR ''#'' \<notin> set w"
    using query_chars [OF pieces_okD(10) [OF assms]] by blast
qed

lemma after_scheme_parse:
  assumes "u = pre @ ''//'' @ auth_part p @ t_path p @ ostr ''?'' (t_query p) @ ostr ''#'' (t_ref p)" "pieces_ok p"
    "len (t_scheme p) + 1 = len pre" "sc = Component 0 (len (t_scheme p))"
  shows "DoParseAfterScheme u (len u) (len pre) (no_parts\<lparr>p_scheme := sc\<rparr>) = url_ranges 0 p"
proof -
  define tail where "tail = t_path p @ ostr ''?'' (t_query p) @ ostr ''#'' (t_ref p)"
  define a where "a = len pre + 2"
  define q where "q = a + len (auth_part p)"
  have u0: "u = pre @ ''//'' @ auth_part p @ tail" using assms(1) by (simp add: tail_def)
  have u1: "u = (pre @ ''//'') @ auth_part p @ tail" using u0 by simp
  have u2: "u = (pre @ ''//'' @ auth_part p) @ t_path p @ ostr ''?'' (t_query p) @ ostr ''#'' (t_ref p)"
    using assms(1) by simp
  have a: "a = len (pre @ ''//'')" and q: "q = len (pre @ ''//'' @ auth_part p)" by (simp_all add: a_def q_def)
  obtain r where r: "t_path p = CHR ''/'' # r" using pieces_okD(9) [OF assms(2)] by blast
  have tl: "tail \<noteq> []" "hd tail = CHR ''/''" by (simp_all add: tail_def r)
  have qu: "q < len u" "a \<le> len u" unfolding q a u1 using tl by simp_all
  have sl: "url_slash CHR ''/''" by code_simp
  have slashes: "CountConsecutiveSlashes u (len pre) (len u) = 2"
  proof -
    have "scan_fwd url_slash u (len pre) (len u) = len pre + len ''//''"
    proof (rule scan_fwd_text [OF u0])
      show "\<And>c. c \<in> set ''//'' \<Longrightarrow> url_slash c" using sl by auto
      show "len pre + len ''//'' \<le> len u" using u0 by simp
      have "\<not> url_slash (hd (auth_part p))"
        using auth_chars [OF assms(2) hd_in_set [OF auth_ne [OF assms(2)]]] by (simp add: IsAuthorityTerminator_def)
      then show "auth_part p @ tail \<noteq> [] \<and> \<not> url_slash (hd (auth_part p @ tail))"
        using auth_ne [OF assms(2)] by simp
    qed
    then show ?thesis by (simp add: CountConsecutiveSlashes_def)
  qed
  have ends: "FindNextAuthorityTerminator u a (len u) = q"
  proof -
    have "scan_fwd (\<lambda>c. \<not> IsAuthorityTerminator (char16_of c)) u (len (pre @ ''//'')) (len u) = len (pre @ ''//'') + len (auth_part p)"
    proof (rule scan_fwd_text [OF u1])
      show "\<And>c. c \<in> set (auth_part p) \<Longrightarrow> \<not> IsAuthorityTerminator (char16_of c)" by (rule auth_chars [OF assms(2)])
      show "len (pre @ ''//'') + len (auth_part p) \<le> len u" using u1 by simp
      show "tail \<noteq> [] \<and> \<not> \<not> IsAuthorityTerminator (char16_of (hd tail))"
        using tl sl by (simp add: IsAuthorityTerminator_def)
    qed
    then have "scan_fwd (\<lambda>c. \<not> IsAuthorityTerminator (char16_of c)) u a (len u) = q" unfolding a q_def .
    then show ?thesis using qu by (simp add: FindNextAuthorityTerminator_def Let_def)
  qed
  have auth: "DoParseAuthority u (Component a (q - a)) =
    (orange a (t_user p), case t_user p of None \<Rightarrow> no_component | Some w \<Rightarrow> orange (a + len w + 1) (t_pass p),
     Component (a + len (user_part p)) (len (t_host p)), orange (a + len (user_part p) + len (t_host p) + 1) (t_port p))"
  proof -
    have "q - a = len (auth_part p)" by (simp add: q_def)
    then show ?thesis using authority_parse [OF u1 assms(2), folded a] by simp
  qed
  have path: "ParsePath u (Component q (len u - q)) = (Component q (len (t_path p)), orange (q + len (t_path p) + 1) (t_query p),
      orange (q + len (t_path p) + len (ostr ''?'' (t_query p)) + 1) (t_ref p))"
    unfolding q by (rule path_parse [OF u2]) (use url_tail_chars [OF assms(2)] in blast)+
  have al: "q = a + len (user_part p) + len (t_host p) + len (ostr '':'' (t_port p))"
    by (simp add: q_def auth_part_def)
  have a': "a = len (t_scheme p) + 3" using assms(3) by (simp add: a_def)
  have "DoParseAfterScheme u (len u) (len pre) (no_parts\<lparr>p_scheme := sc\<rparr>) =
    \<lparr>p_scheme = sc, p_username = orange a (t_user p),
     p_password = (case t_user p of None \<Rightarrow> no_component | Some w \<Rightarrow> orange (a + len w + 1) (t_pass p)),
     p_host = Component (a + len (user_part p)) (len (t_host p)),
     p_port = orange (a + len (user_part p) + len (t_host p) + 1) (t_port p),
     p_path = Component q (len (t_path p)), p_query = orange (q + len (t_path p) + 1) (t_query p),
     p_ref = orange (q + len (t_path p) + len (ostr ''?'' (t_query p)) + 1) (t_ref p)\<rparr>"
    using qu(1) unfolding DoParseAfterScheme_def slashes a_def [symmetric] Let_def ends auth prod.case
    by (simp add: path no_parts_def)
  also have "\<dots> = url_ranges 0 p"
    unfolding url_ranges_def Let_def assms(4) al a' by (simp only: add_0)
  finally show ?thesis .
qed

lemma reparse:
  assumes "pieces_ok p" "\<And>w. t_ref p = Some w \<Longrightarrow> w \<noteq> [] \<Longrightarrow> last w \<noteq> CHR '' ''"
  shows "ParseStandardURL (url_string p) (len (url_string p)) = url_ranges 0 p"
proof -
  define u where "u = url_string p"
  define tail where "tail = ''//'' @ auth_part p @ t_path p @ ostr ''?'' (t_query p) @ ostr ''#'' (t_ref p)"
  note sc = pieces_okD(1) [OF assms(1)]
  have u: "u = t_scheme p @ CHR '':'' # tail" by (simp add: u_def url_string_def tail_def)
  have ne: "t_scheme p \<noteq> []" using sc by (simp add: canonical_scheme_def)
  have ub: "0 < len u" using ne u by simp
  have at0: "\<not> trimmed_char (at u 0)"
    using at_next [of u "[]" "[]" "hd u" "tl u"] u ne untrimmed scheme_chars [OF sc hd_in_set [OF ne]] by simp
  have start: "scan_fwd trimmed_char u 0 e = 0" if "0 < e" for e
    using scan_fwd_eqI [of 0 0 e trimmed_char u] at0 that by simp
  have last: "32 < byte (last u)"
  proof (cases "t_ref p")
    case (Some w)
    show ?thesis
    proof (cases "w = []")
      case True
      then show ?thesis using Some by (simp add: u tail_def)
    next
      case False
      have "32 \<le> byte (last w)" using pieces_okD(11) [OF assms(1) Some] False by (simp add: list_all_iff)
      moreover have "byte (last w) \<noteq> 32" using assms(2) [OF Some False] by (simp add: char_eq_byte)
      ultimately show ?thesis using Some False by (simp add: u tail_def)
    qed
  next
    case None
    show ?thesis
    proof (cases "t_query p")
      case (Some w)
      then show ?thesis
        using None query_chars [OF pieces_okD(10) [OF assms(1) Some]] by (cases "w = []") (simp_all add: u tail_def)
    next
      case no: None
      show ?thesis
        using None no url_tail_chars(1,3) [OF assms(1)] last_in_set [of "t_path p"] by (simp add: u tail_def)
    qed
  qed
  have "nat (len u - 1) = length u - 1" by linarith
  then have "at u (len u - 1) = last u"
    using ub by (simp add: at_def last_conv_nth)
  then have stop: "scan_back trimmed_char u (-1) (len u - 1) = len u - 1"
    by (intro scan_back_eqI) (use last untrimmed ub in auto)
  have trim: "TrimURL u 0 (len u) True = (0, len u)"
    using start [OF ub] stop by (simp add: TrimURL_def)
  have colon: "scan_fwd (\<lambda>c. c \<noteq> CHR '':'') u 0 (len u) = len (t_scheme p)"
    using scan_fwd_text [of u "[]" "t_scheme p" "CHR '':'' # tail" "\<lambda>c. c \<noteq> CHR '':''" "len u"] u scheme_chars [OF sc] by auto
  have lt: "len (t_scheme p) < len u" using u by simp
  have scheme: "ExtractScheme u (len u) = Some (Component 0 (len (t_scheme p)))"
    using start [OF ub] colon lt ub by (simp add: ExtractScheme_def MakeRange_def)
  have "ParseStandardURL u (len u) = DoParseAfterScheme u (len u) (len (t_scheme p @ '':'')) (no_parts\<lparr>p_scheme := Component 0 (len (t_scheme p))\<rparr>)"
    by (simp add: ParseStandardURL_def trim scheme add.commute)
  also have "\<dots> = url_ranges 0 p"
    by (rule after_scheme_parse) (use u assms(1) in \<open>simp_all add: tail_def\<close>)
  finally show ?thesis by (simp add: u_def)
qed

end
