(* ===== verification/Url_Standard_Again.thy ===== *)
theory Url_Standard_Again
  imports Url_Standard_Laws
begin

unbundle bit_operations_syntax

text \<open>
  The theorems on whole standard URLs: the canonical text parses to the components the
  canonicalizer reported, and is canonicalized to itself.
\<close>

section \<open>Canonical URLs are canonical\<close>

lemma component_at: "u = pre @ t @ rest \<Longrightarrow> component_str u (Component (len pre) (len t)) = t"
  by (simp add: component_str_def index_simps)

lemma orange_at:
  "u = pre @ ostr [c] o1 @ rest \<Longrightarrow> o1 = Some t \<Longrightarrow> component_str u (orange (len pre + 1) o1) = t"
  using component_at [of u "pre @ [c]" t rest] by (simp add: add.commute)

lemma within_orange: "0 \<le> b \<Longrightarrow> (\<And>t. o1 = Some t \<Longrightarrow> b + len t \<le> n) \<Longrightarrow> within 0 n (orange b o1)"
  by (cases o1) simp_all

lemma scheme_of_again:
  assumes "canonical_scheme t" "u = t @ rest"
  shows "CanonicalizeScheme u (Component 0 (len t)) [] = (True, Component 0 (len t), t @ '':'')"
  using scheme_again [OF assms(1), of u "Component 0 (len t)" "[]"] component_at [of u "[]" t rest] assms(2) by simp

lemma user_again:
  assumes "u = pre @ user_part p @ rest" "pieces_ok p" "len out = len pre"
  defines "uc \<equiv> orange (len pre) (t_user p)"
    and "pc \<equiv> (case t_user p of None \<Rightarrow> no_component | Some w \<Rightarrow> orange (len pre + len w + 1) (t_pass p))"
  shows "CanonicalizeUserInfo u uc u pc out = (True, uc, pc, out @ user_part p)"
proof (cases "t_user p")
  case None
  then show ?thesis using pieces_okD(2) [OF assms(2)] by (simp add: CanonicalizeUserInfo_def user_part_def uc_def pc_def)
next
  case (Some w)
  have u1: "u = pre @ w @ ostr '':'' (t_pass p) @ CHR ''@'' # rest"
    using assms(1) Some by (simp add: user_part_def)
  note wt = pieces_okD(3) [OF assms(2) Some]
  have w: "within 0 (len u) uc" "component_str u uc = w"
    using component_at [OF u1] Some by (simp_all add: uc_def u1)
  have uo: "user_out w = w" by (rule user_out_again [OF wt])
  show ?thesis
  proof (cases "t_pass p")
    case None
    have "w \<noteq> []" using pieces_okD(4) [OF assms(2)] Some None by auto
    moreover have pc: "pc = no_component" by (simp add: pc_def Some None)
    ultimately show ?thesis
      using user_writes [OF w(1), of u pc out] Some None w(2) uo assms(3)
      by (simp add: uc_def Let_def user_part_def)
  next
    case pass: (Some v)
    note vt = pieces_okD(5) [OF assms(2) pass]
    have u2: "u = (pre @ w @ '':'') @ v @ CHR ''@'' # rest" using u1 pass by simp
    have pc: "pc = Component (len pre + len w + 1) (len v)" by (simp add: pc_def Some pass)
    have l: "len (pre @ w @ '':'') = len pre + len w + 1" by simp
    have v: "within 0 (len u) pc" "component_str u pc = v"
      using component_at [OF u2] unfolding l pc by (simp_all add: u1 pass)
    have vo: "user_out v = v" using user_out_again vt by blast
    have ne: "is_nonempty pc" using vt by (simp add: pc)
    show ?thesis
      using user_writes [OF w(1) v(1), of out] ne Some pass w(2) v(2) uo vo assms(3)
      by (simp add: uc_def pc Let_def user_part_def)
  qed
qed

lemma port_part_again:
  assumes "u = pre @ ostr '':'' o1 @ rest" "len out = len pre"
    "\<And>w. o1 = Some w \<Longrightarrow> \<exists>n<65536. w = print_nat 10 n \<and> int n \<noteq> dflt"
  shows "CanonicalizePort u (orange (len pre + 1) o1) dflt out = (True, orange (len pre + 1) o1, out @ ostr '':'' o1)"
proof (cases o1)
  case None
  then show ?thesis by (simp add: CanonicalizePort_def ParsePort_def is_nonempty_def PORT_UNSPECIFIED_def)
next
  case (Some w)
  obtain n where n: "n < 65536" "w = print_nat 10 n" "int n \<noteq> dflt" using assms(3) [OF Some] by blast
  have "within 0 (len u) (orange (len pre + 1) o1)" using assms(1) by (simp add: Some)
  from port_again [OF this _ n(1,3), of out] show ?thesis
    using orange_at [OF assms(1) Some] n(2) Some assms(2) by simp
qed

lemma query_part_again:
  assumes "u = pre @ ostr ''?'' o1 @ rest" "len out = len pre" "\<And>w. o1 = Some w \<Longrightarrow> query_text w"
  shows "CanonicalizeQuery u (orange (len pre + 1) o1) conv out = (orange (len pre + 1) o1, out @ ostr ''?'' o1)"
proof (cases o1)
  case (Some w)
  have "within 0 (len u) (orange (len pre + 1) o1)" using assms(1) by (simp add: Some)
  from query_writes [OF this, of conv out] show ?thesis
    using orange_at [OF assms(1) Some] query_out_again [OF assms(3) [OF Some]] Some assms(2) by (simp add: Let_def)
qed (simp add: CanonicalizeQuery_def)

lemma ref_part_again:
  assumes "u = pre @ ostr ''#'' o1 @ rest" "len out = len pre" "\<And>w. o1 = Some w \<Longrightarrow> concat (map ref_piece w) = w"
  shows "CanonicalizeRef u (orange (len pre + 1) o1) out = (orange (len pre + 1) o1, out @ ostr ''#'' o1)"
proof (cases o1)
  case (Some w)
  have "within 0 (len u) (orange (len pre + 1) o1)" using assms(1) by (simp add: Some)
  from ref_writes [OF this, of out] show ?thesis
    using orange_at [OF assms(1) Some] assms(3) [OF Some] Some assms(2) by (simp add: Let_def)
qed (simp add: CanonicalizeRef_def)

lemma standard_again:
  assumes "pieces_ok p" "host_again (t_host p) (t_scheme p @ ''://'' @ user_part p)"
    "\<And>spec path out. within 0 (len spec) path \<Longrightarrow> component_str spec path = t_path p \<Longrightarrow>
       CanonicalizePath spec path out = (True, MakeRange (len out) (len (out @ t_path p)), out @ t_path p)"
    "\<And>w. t_ref p = Some w \<Longrightarrow> concat (map ref_piece w) = w"
  shows "DoCanonicalizeStandardURL (source_of (url_string p)) (url_ranges 0 p) conv [] = (True, url_ranges 0 p, url_string p)"
proof -
  define u where "u = url_string p"
  define o1 where "o1 = t_scheme p @ ''://''"
  define o2 where "o2 = o1 @ user_part p"
  define o3 where "o3 = o2 @ t_host p"
  define o4 where "o4 = o3 @ ostr '':'' (t_port p)"
  define o5 where "o5 = o4 @ t_path p"
  define o6 where "o6 = o5 @ ostr ''?'' (t_query p)"
  note o = o6_def o5_def o4_def o3_def o2_def o1_def
  have u: "u = o6 @ ostr ''#'' (t_ref p)" by (simp add: u_def url_string_def auth_part_def o)
  define sc uc pc hc tc ac qc rc where "sc = Component 0 (len (t_scheme p))" and "uc = orange (len o1) (t_user p)"
    and "pc = (case t_user p of None \<Rightarrow> no_component | Some w \<Rightarrow> orange (len o1 + len w + 1) (t_pass p))"
    and "hc = Component (len o2) (len (t_host p))" and "tc = orange (len o3 + 1) (t_port p)"
    and "ac = Component (len o4) (len (t_path p))" and "qc = orange (len o5 + 1) (t_query p)"
    and "rc = orange (len o6 + 1) (t_ref p)"
  have ranges: "url_ranges 0 p = \<lparr>p_scheme = sc, p_username = uc, p_password = pc, p_host = hc, p_port = tc,
      p_path = ac, p_query = qc, p_ref = rc\<rparr>"
    by (cases "t_user p")
      (simp_all add: url_ranges_def Let_def sc_def uc_def pc_def hc_def tc_def ac_def qc_def rc_def o algebra_simps)
  have scheme: "CanonicalizeScheme u sc [] = (True, sc, t_scheme p @ '':'')"
    unfolding sc_def by (rule scheme_of_again [OF pieces_okD(1) [OF assms(1)]]) (simp add: u_def url_string_def)
  have user: "CanonicalizeUserInfo u uc u pc o1 = (True, uc, pc, o2)"
    unfolding uc_def pc_def o2_def
    by (rule user_again [OF _ assms(1) refl, where rest = "t_host p @ ostr '':'' (t_port p) @ t_path p @ ostr ''?'' (t_query p) @ ostr ''#'' (t_ref p)"])
      (simp add: u o)
  have host: "CanonicalizeHost u hc o2 = (True, hc, o3)"
  proof -
    have "component_str u hc = t_host p"
      unfolding hc_def by (rule component_at) (simp add: u o6_def o5_def o4_def o3_def)
    then show ?thesis using assms(2) by (simp add: host_again_def o hc_def)
  qed
  have schemestr: "component_str o3 sc = t_scheme p"
    using component_at [of o3 "[]" "t_scheme p"] by (simp add: o sc_def)
  have port: "CanonicalizePort u tc (DefaultPortForScheme (t_scheme p)) o3 = (True, tc, o4)"
    unfolding tc_def o4_def
    by (rule port_part_again [where rest = "t_path p @ ostr ''?'' (t_query p) @ ostr ''#'' (t_ref p)"])
      (use pieces_okD(8) [OF assms(1)] in \<open>simp_all add: u o6_def o5_def o4_def\<close>)
  have path: "CanonicalizePath u ac o4 = (True, ac, o5)"
  proof -
    have "component_str u ac = t_path p" unfolding ac_def by (rule component_at) (simp add: u o6_def o5_def)
    moreover have "within 0 (len u) ac" by (simp add: ac_def u o6_def o5_def)
    moreover have "MakeRange (len o4) (len (o4 @ t_path p)) = ac" by (simp add: ac_def MakeRange_def)
    ultimately show ?thesis using assms(3) by (simp add: o5_def)
  qed
  have query: "CanonicalizeQuery u qc conv o5 = (qc, o6)"
    unfolding qc_def o6_def
    by (rule query_part_again [where rest = "ostr ''#'' (t_ref p)"]) (use pieces_okD(10) [OF assms(1)] in \<open>simp_all add: u o6_def\<close>)
  have ref: "CanonicalizeRef u rc o6 = (rc, u)"
    unfolding rc_def u by (rule ref_part_again [where rest = "[]"]) (use assms(4) in \<open>simp_all add: u\<close>)
  have auth: "is_nonempty hc" using pieces_okD(7) [OF assms(1)] by (cases "t_host p") (simp_all add: hc_def)
  have so: "push_back CHR ''/'' (push_back CHR ''/'' (t_scheme p @ '':'')) = o1" by (simp add: push_back_def o1_def)
  have v: "is_valid sc" "is_valid ac" by (simp_all add: sc_def ac_def)
  have authority: "standard_authority (source_of u) (url_ranges 0 p) sc (t_scheme p @ '':'') = (True, uc, pc, hc, tc, o4)"
    using auth v by (simp add: standard_authority_def ranges source_of_def so user host schemestr port)
  show ?thesis
    unfolding u_def [symmetric] using auth v authority
    by (simp add: DoCanonicalizeStandardURL_def ranges source_of_def scheme path query ref)
qed

section \<open>The last byte\<close>

lemma kept_byte: "\<not> trimmed_char c \<Longrightarrow> 32 < byte c"
  by (auto simp: ShouldTrimFromURL_def char16_of_def split: if_splits)

lemma trim_last:
  assumes "TrimURL spec 0 (len spec) True = (b, e)" "b < e"
  shows "\<not> trimmed_char (last (seg spec b e))"
proof -
  note tb = trim_bounds [OF assms(1)]
  have "e - 1 = scan_back trimmed_char spec (b - 1) (len spec - 1)"
    using assms(1) by (auto simp: TrimURL_def Let_def)
  then have "\<not> trimmed_char (at spec (e - 1))"
    using scan_back_stop [of "b - 1" trimmed_char spec "len spec - 1"] assms(2) by simp
  then show ?thesis using seg_snoc [of b e spec] tb assms(2) by simp
qed

lemma ref_last:
  fixes spec :: str
  defines "p \<equiv> ParseStandardURL spec (len spec)"
  assumes "is_valid (p_ref p)" "component_str spec (p_ref p) \<noteq> []"
  shows "32 < byte (last (component_str spec (p_ref p)))"
proof -
  obtain b e where t: "TrimURL spec 0 (len spec) True = (b, e)" by fastforce
  obtain a sch where p: "p = DoParseAfterScheme spec e a (no_parts\<lparr>p_scheme := sch\<rparr>)"
    and a: "0 \<le> a" "a \<le> e" "e \<le> len spec" "seg spec b e = scheme_text spec sch @ seg spec a e"
    using standard_url_split [OF t] by (metis p_def)
  obtain x where "seg spec a e = x @ opt_str ''#'' spec (p_ref p)"
    using after_scheme_parts(1) [OF a(1-3) p] by (metis append_assoc)
  then have l: "seg spec b e = scheme_text spec sch @ x @ ''#'' @ component_str spec (p_ref p)"
    using a(4) assms(2) by (simp add: opt_str_def)
  then have "b < e" using seg_empty [of e b spec] by (metis append_is_Nil_conv assms(3) linorder_not_less)
  from trim_last [OF t this] l assms(3) show ?thesis by (simp add: kept_byte)
qed

lemma ref_piece_last: "32 < byte c \<Longrightarrow> ref_piece c \<noteq> [] \<and> last (ref_piece c) \<noteq> CHR '' ''"
  by (auto simp: ref_piece_def char_eq_byte)

lemma ref_text_last:
  assumes "s \<noteq> []" "32 < byte (last s)"
  shows "last (concat (map ref_piece s)) \<noteq> CHR '' ''"
proof -
  obtain t c where s: "s = t @ [c]" using assms(1) by (metis append_butlast_last_id)
  then show ?thesis using ref_piece_last [of c] assms(2) by simp
qed

lemma escaped_chars: "x \<in> set (escaped b) \<Longrightarrow> 32 \<le> byte x \<and> byte x < 128"
proof -
  have "d < 16 \<Longrightarrow> 32 \<le> byte (kHexCharLookup ! d) \<and> byte (kHexCharLookup ! d) < 128" for d
    by (rule upt_all [where m = 0 and n = 16]) (code_simp, simp_all)
  then show "x \<in> set (escaped b) \<Longrightarrow> ?thesis" by (auto simp: escaped_def)
qed

lemma ref_ascii_again:
  assumes "list_all (\<lambda>c. byte c < 128) s"
  shows "concat (map ref_piece (concat (map ref_piece s))) = concat (map ref_piece s)"
proof -
  have fix_text: "concat (map ref_piece t) = t" if "\<forall>x\<in>set t. 32 \<le> byte x \<and> byte x < 128" for t
    using that by (induction t) (auto simp: ref_piece_def)
  have "\<forall>x\<in>set (ref_piece c). 32 \<le> byte x \<and> byte x < 128" if "c \<in> set s" for c
    using that assms escaped_chars [of _ "byte c"] by (auto simp: ref_piece_def list_all_iff)
  then show ?thesis by (intro fix_text) auto
qed

lemma slash_alone:
  assumes "within 0 (len s) c" "component_str s c = ''/''"
  shows "CanonicalizePath s c out = (True, MakeRange (len out) (len (out @ ''/'')), out @ ''/'')"
proof -
  have "path_units (component_str s c) = Some [Slash]" unfolding assms(2) by code_simp
  from path_written_reference [OF assms(1) this, of out] show ?thesis
    by (simp add: path_reference_def seg_text_def)
qed

section \<open>The theorems on whole URLs\<close>

lemma parsed_within: "source_within (source_of spec) (ParseStandardURL spec (len spec))"
  using standard_url_within [of spec] by (simp add: source_within_def source_of_def)

lemma canonical_pieces:
  assumes "DoCanonicalizeStandardURL (source_of spec) (ParseStandardURL spec (len spec)) conv [] = (True, np, out)"
    "is_nonempty (p_scheme (ParseStandardURL spec (len spec)))"
  shows "\<exists>p. pieces_ok p \<and> out = url_string p \<and> np = url_ranges 0 p \<and> ParseStandardURL out (len out) = np \<and>
    (if is_valid (p_path (ParseStandardURL spec (len spec)))
     then \<exists>o1. CanonicalizePath spec (p_path (ParseStandardURL spec (len spec))) o1 = (True, p_path np, o1 @ t_path p)
     else t_path p = ''/'') \<and>
    (\<forall>w. t_ref p = Some w \<longrightarrow> w = concat (map ref_piece (component_str spec (p_ref (ParseStandardURL spec (len spec)))))) \<and>
    host_again (t_host p) (t_scheme p @ ''://'' @ user_part p) \<and>
    CanonicalizeScheme spec (p_scheme (ParseStandardURL spec (len spec))) [] = (True, Component 0 (len (t_scheme p)), t_scheme p @ '':'')"
proof -
  let ?q = "ParseStandardURL spec (len spec)"
  have so: "s_path (source_of spec) = spec" "s_ref (source_of spec) = spec"
    "s_scheme (source_of spec) = spec" by (simp_all add: source_of_def)
  obtain p where p: "pieces_ok p" "out = url_string p" "np = url_ranges 0 p"
    "if is_valid (p_path ?q)
     then \<exists>o1. CanonicalizePath spec (p_path ?q) o1 = (True, p_path np, o1 @ t_path p)
     else t_path p = ''/''"
    "t_ref p = (if is_valid (p_ref ?q) then Some (concat (map ref_piece (component_str spec (p_ref ?q)))) else None)"
    "host_again (t_host p) (t_scheme p @ ''://'' @ user_part p)"
    "CanonicalizeScheme spec (p_scheme ?q) [] = (True, Component 0 (len (t_scheme p)), t_scheme p @ '':'')"
    using standard_shape [OF assms(1) parsed_within assms(2)] unfolding so append_Nil list.size(3) int_ops(1)
    by (elim exE conjE) (rule that)
  have "last w \<noteq> CHR '' ''" if w: "t_ref p = Some w" "w \<noteq> []" for w
  proof -
    have v: "is_valid (p_ref ?q)" "w = concat (map ref_piece (component_str spec (p_ref ?q)))"
      using p(5) w(1) by (auto split: if_splits)
    then have ne: "component_str spec (p_ref ?q) \<noteq> []" using w(2) by auto
    show ?thesis unfolding v(2) by (rule ref_text_last [OF ne ref_last [OF v(1) ne]])
  qed
  then have again: "ParseStandardURL out (len out) = np" unfolding p(2,3) by (rule reparse [OF p(1)])
  have ref: "\<forall>w. t_ref p = Some w \<longrightarrow> w = concat (map ref_piece (component_str spec (p_ref ?q)))"
    unfolding p(5) by simp
  show ?thesis by (rule exI [of _ p]) (intro conjI p(1-4) again ref p(6,7))
qed

lemma sample_canonicalized:
  "DoCanonicalizeStandardURL (source_of '' HTTP:/u@A%42:80/x/../y#r '') (ParseStandardURL '' HTTP:/u@A%42:80/x/../y#r '' (len '' HTTP:/u@A%42:80/x/../y#r '')) None [] =
    (True, \<lparr>p_scheme = Component 0 4, p_username = Component 7 1, p_password = no_component, p_host = Component 9 2,
     p_port = no_component, p_path = Component 11 2, p_query = no_component, p_ref = Component 14 1\<rparr>, ''http://u@ab/y#r'')"
  by code_simp

lemma sample_scheme: "is_nonempty (p_scheme (ParseStandardURL '' HTTP:/u@A%42:80/x/../y#r '' (len '' HTTP:/u@A%42:80/x/../y#r '')))"
  by code_simp

text \<open>
  C1. Round trip of whole URLs: when a standard URL is canonicalized with success, parsing
  the text that was written finds exactly the components that the canonicalizer reported:
  every begin and length, and which components are absent.
\<close>

theorem canonical_url_reparses:
  assumes "DoCanonicalizeStandardURL (source_of spec) (ParseStandardURL spec (len spec)) conv [] = (True, np, out)"
    "is_nonempty (p_scheme (ParseStandardURL spec (len spec)))"
  shows "ParseStandardURL out (len out) = np"
  using canonical_pieces [OF assms] by blast

theorem canonical_url_reparses_witness:
  "ParseStandardURL ''http://u@ab/y#r'' (len ''http://u@ab/y#r'') =
    \<lparr>p_scheme = Component 0 4, p_username = Component 7 1, p_password = no_component, p_host = Component 9 2,
     p_port = no_component, p_path = Component 11 2, p_query = no_component, p_ref = Component 14 1\<rparr>"
  by (rule canonical_url_reparses [OF sample_canonicalized sample_scheme])

text \<open>
  C2. Canonical URLs are canonical: the text written for a standard URL with a scheme, whose
  path has well-formed escapes and whose reference is ASCII, is canonicalized to itself, with
  success, the same components and under every character set converter.  Both conditions are
  needed: a stray percent sign in a path that backs up over a segment can form a new escape,
  and other bytes of a reference grow at each run.
\<close>

theorem canonical_url_fixed:
  assumes "DoCanonicalizeStandardURL (source_of spec) (ParseStandardURL spec (len spec)) conv [] = (True, np, out)"
    "is_nonempty (p_scheme (ParseStandardURL spec (len spec)))"
    "path_units (component_str spec (p_path (ParseStandardURL spec (len spec)))) = Some us"
    "list_all (\<lambda>c. byte c < 128) (component_str spec (p_ref (ParseStandardURL spec (len spec))))"
  shows "DoCanonicalizeStandardURL (source_of out) (ParseStandardURL out (len out)) conv' [] = (True, np, out)"
proof -
  let ?q = "ParseStandardURL spec (len spec)"
  obtain p where p: "pieces_ok p" "out = url_string p" "np = url_ranges 0 p" "ParseStandardURL out (len out) = np"
    "if is_valid (p_path ?q)
     then \<exists>o1. CanonicalizePath spec (p_path ?q) o1 = (True, p_path np, o1 @ t_path p)
     else t_path p = ''/''"
    "\<forall>w. t_ref p = Some w \<longrightarrow> w = concat (map ref_piece (component_str spec (p_ref ?q)))"
    "host_again (t_host p) (t_scheme p @ ''://'' @ user_part p)"
    using canonical_pieces [OF assms(1,2)] by blast
  have path: "CanonicalizePath s c o1 = (True, MakeRange (len o1) (len (o1 @ t_path p)), o1 @ t_path p)"
    if "within 0 (len s) c" "component_str s c = t_path p" for s c o1
  proof (cases "is_valid (p_path ?q)")
    case True
    have w: "within 0 (len spec) (p_path ?q)" using parsed_within [of spec] by (simp add: source_within_def source_of_def)
    from True p(5) obtain o2 where "CanonicalizePath spec (p_path ?q) o2 = (True, p_path np, o2 @ t_path p)" by auto
    from path_again [OF w assms(3) this] that show ?thesis by auto
  next
    case False
    then show ?thesis using p(5) that slash_alone by simp
  qed
  have ref: "concat (map ref_piece w) = w" if "t_ref p = Some w" for w
    using p(6) that ref_ascii_again [OF assms(4)] by simp
  show ?thesis unfolding p(4) unfolding p(2,3) by (rule standard_again [OF p(1,7) path ref])
qed

theorem canonical_url_fixed_witness:
  "DoCanonicalizeStandardURL (source_of ''http://u@ab/y#r'') (ParseStandardURL ''http://u@ab/y#r'' (len ''http://u@ab/y#r''))
     (Some (\<lambda>u out. out)) [] =
    (True, \<lparr>p_scheme = Component 0 4, p_username = Component 7 1, p_password = no_component, p_host = Component 9 2,
     p_port = no_component, p_path = Component 11 2, p_query = no_component, p_ref = Component 14 1\<rparr>, ''http://u@ab/y#r'')"
proof (rule canonical_url_fixed [OF sample_canonicalized sample_scheme])
  show "path_units (component_str '' HTTP:/u@A%42:80/x/../y#r '' (p_path (ParseStandardURL '' HTTP:/u@A%42:80/x/../y#r '' (len '' HTTP:/u@A%42:80/x/../y#r '')))) =
    Some [Slash, Piece ''x'' True, Slash, Dot, Dot, Slash, Piece ''y'' True]"
    by code_simp
qed code_simp

section \<open>References that grow\<close>

lemma wide_pieces:
  assumes "list_all (\<lambda>c. 128 \<le> byte c) s"
  shows "length (concat (map ref_piece s)) = 3 * length s \<and> list_all (\<lambda>c. 128 \<le> byte c) (concat (map ref_piece s))"
  using assms by (induction s) (auto simp: ref_piece_def byte_char_of)

text \<open>
  C38. The build's reader of UTF-8 accepts no character, and a reference that is not ASCII is
  not escaped: each byte becomes the three bytes of U+FFFD, which are not ASCII themselves.
  The canonical form of such a reference therefore has no fixed point: canonicalizing a
  reference of \<open>n\<close> such bytes \<open>k\<close> times writes \<open>n * 3 ^ k\<close> of them.
\<close>

theorem wide_reference_grows:
  assumes "list_all (\<lambda>c. 128 \<le> byte c) s"
  shows "\<exists>t. ((\<lambda>r. drop 1 (snd (CanonicalizeRef r (Component 0 (len r)) []))) ^^ k) s = t \<and>
    length t = length s * 3 ^ k \<and> list_all (\<lambda>c. 128 \<le> byte c) t"
proof (induction k)
  case 0
  then show ?case using assms by simp
next
  case (Suc k)
  then obtain t where t: "((\<lambda>r. drop 1 (snd (CanonicalizeRef r (Component 0 (len r)) []))) ^^ k) s = t"
    "length t = length s * 3 ^ k" "list_all (\<lambda>c. 128 \<le> byte c) t"
    by blast
  have "CanonicalizeRef t (Component 0 (len t)) [] =
      (Component 1 (len (concat (map ref_piece t))), ''#'' @ concat (map ref_piece t))"
    using ref_writes [of t "Component 0 (len t)" "[]"] by (simp add: Let_def)
  then show ?case using t wide_pieces [OF t(3)] by simp
qed

theorem wide_reference_grows_witness:
  "\<exists>t. ((\<lambda>r. drop 1 (snd (CanonicalizeRef r (Component 0 (len r)) []))) ^^ 10) [CHR 0xE9] = t \<and>
    length t = 59049 \<and> list_all (\<lambda>c. 128 \<le> byte c) t"
  using wide_reference_grows [of "[CHR 0xE9]" 10] by simp

end
