(* ===== verification/Url_Util.thy ===== *)
theory Url_Util
  imports Url_Canon
begin

unbundle bit_operations_syntax

text \<open>
  Relative URLs (\<open>url_canon_relative.cc\<close>, without the Windows branches) and the entry points
  of \<open>url_util.cc\<close>: canonicalizing, resolving and replacing with the scheme deciding the
  kind of URL, and the escaping of URI components.  \<open>schemes\<close> is the list of registered
  standard schemes.  The lengths that accompany a string in the code are the length of the string.
\<close>

section \<open>Relative URLs\<close>

definition AreSchemesEqual :: "str \<Rightarrow> component \<Rightarrow> str \<Rightarrow> component \<Rightarrow> bool" where
  "AreSchemesEqual base base_scheme cmp cmp_scheme =
     (if c_len base_scheme \<noteq> c_len cmp_scheme then False
      else list_all2 (\<lambda>b c. char_of (CanonicalSchemeChar (char16_of c)) = b)
             (component_str base base_scheme) (component_str cmp cmp_scheme))"

text \<open>The result, \<open>is_relative\<close> and the relative component.\<close>

definition IsRelativeURL ::
    "str \<Rightarrow> 'a parts_scheme \<Rightarrow> str \<Rightarrow> bool \<Rightarrow> bool \<times> bool \<times> component" where
  "IsRelativeURL base base_parsed url is_base_hierarchical =
     (let (b, url_len) = TrimURL url 0 (len url) True
      in if b \<ge> url_len then
           (if \<not> is_base_hierarchical then (False, False, no_component) else (True, True, Component b 0))
         else
           (let scheme = (case ExtractScheme url url_len of Some s \<Rightarrow> s | None \<Rightarrow> no_component);
                scheme_is_empty = (ExtractScheme url url_len = None \<or> c_len scheme = 0)
            in if scheme_is_empty then
                 (if at url b \<noteq> CHR ''#'' \<and> \<not> is_base_hierarchical then (False, False, no_component)
                  else (True, True, MakeRange b url_len))
               else if list_ex (\<lambda>c. CanonicalSchemeChar (char16_of c) = 0) (component_str url scheme) then
                 (if \<not> is_base_hierarchical then (False, False, no_component)
                  else (True, True, MakeRange b url_len))
               else if \<not> AreSchemesEqual base (p_scheme base_parsed) url scheme then (True, False, no_component)
               else if \<not> is_base_hierarchical then (True, False, no_component)
               else let colon_offset = c_end scheme
               in if CompareSchemeComponent url scheme ''filesystem'' then (True, False, no_component)
                  else let num_slashes = CountConsecutiveSlashes url (colon_offset + 1) url_len
                  in if num_slashes = 0 \<or> num_slashes = 1
                     then (True, True, MakeRange (colon_offset + 1) url_len)
                     else (True, False, no_component)))"

definition CopyToLastSlash :: "str \<Rightarrow> int \<Rightarrow> int \<Rightarrow> str \<Rightarrow> str" where
  "CopyToLastSlash spec b e out =
     (let last_slash = scan_back (\<lambda>c. \<not> (c = CHR ''/'' \<or> c = CHR 0x5C)) spec (b - 1) (e - 1)
      in if last_slash < b then out else out @ seg spec b (last_slash + 1))"

definition CopyOneComponent :: "str \<Rightarrow> component \<Rightarrow> str \<Rightarrow> component \<times> str" where
  "CopyOneComponent source source_component out =
     (if c_len source_component < 0 then (no_component, out)
      else let out' = out @ component_str source source_component
           in (Component (len out) (len out' - len out), out'))"

definition DoResolveRelativePath ::
    "str \<Rightarrow> parsed \<Rightarrow> str \<Rightarrow> component \<Rightarrow> charset_converter \<Rightarrow> str \<Rightarrow> parsed \<Rightarrow> bool \<times> parsed \<times> str" where
  "DoResolveRelativePath base_url base_parsed relative_url relative_component query_converter out out_parsed =
     (let (path, query, ref) = ParsePath relative_url relative_component;
          out1 = out @ take (nat (c_begin (p_path base_parsed))) base_url
      in if c_len path > 0 then
           (let (success, new_path, out2) =
                  (if IsURLSlash (char16_of (at relative_url (c_begin path)))
                   then CanonicalizePath relative_url path out1
                   else let path_begin = len out1;
                            copied = CopyToLastSlash base_url (c_begin (p_path base_parsed))
                                       (c_end (p_path base_parsed)) out1;
                            (ok, o') = CanonicalizePartialPath relative_url path path_begin copied
                        in (ok, MakeRange path_begin (len o'), o'));
                (new_query, out3) = CanonicalizeQuery relative_url query query_converter out2;
                (new_ref, out4) = CanonicalizeRef relative_url ref out3
            in (success,
                out_parsed\<lparr>p_path := MakeRange (len out1) (c_end new_path), p_query := new_query, p_ref := new_ref\<rparr>,
                out4))
         else
           (let (new_path, out2) = CopyOneComponent base_url (p_path base_parsed) out1
            in if is_valid query then
                 (let (new_query, out3) = CanonicalizeQuery relative_url query query_converter out2;
                      (new_ref, out4) = CanonicalizeRef relative_url ref out3
                  in (True, out_parsed\<lparr>p_path := new_path, p_query := new_query, p_ref := new_ref\<rparr>, out4))
               else
                 (let out3 = (if is_valid (p_query base_parsed) then push_back CHR ''?'' out2 else out2);
                      (new_query, out4) = CopyOneComponent base_url (p_query base_parsed) out3;
                      op = out_parsed\<lparr>p_path := new_path, p_query := new_query\<rparr>
                  in if is_valid ref
                     then (let (new_ref, out5) = CanonicalizeRef relative_url ref out4
                           in (True, op\<lparr>p_ref := new_ref\<rparr>, out5))
                     else (True, op, out4))))"

definition DoResolveRelativeHost ::
    "str \<Rightarrow> parsed \<Rightarrow> str \<Rightarrow> component \<Rightarrow> charset_converter \<Rightarrow> str \<Rightarrow> parsed \<Rightarrow> bool \<times> parsed \<times> str" where
  "DoResolveRelativeHost base_url base_parsed relative_url relative_component query_converter out out_parsed =
     (let rp = DoParseAfterScheme relative_url (c_end relative_component) (c_begin relative_component) no_parts;
          rel = Some relative_url;
          replacements =
            SetRef rel (p_ref rp) (SetQuery rel (p_query rp) (SetPath rel (p_path rp) (SetPort rel (p_port rp)
              (SetHost rel (p_host rp) (SetPassword rel (p_password rp) (SetUsername rel (p_username rp) no_replacements))))))
      in ReplaceStandardURL base_url base_parsed replacements query_converter out out_parsed)"

definition DoResolveAbsoluteFile ::
    "str \<Rightarrow> component \<Rightarrow> charset_converter \<Rightarrow> str \<Rightarrow> parsed \<Rightarrow> bool \<times> parsed \<times> str" where
  "DoResolveAbsoluteFile relative_url relative_component query_converter out out_parsed =
     (let rel = component_str relative_url relative_component
      in with_parts (DoCanonicalizeFileURL (source_of rel) (ParseFileURL rel (len rel)) query_converter out) out_parsed)"

definition ResolveRelativeURL ::
    "str \<Rightarrow> parsed \<Rightarrow> bool \<Rightarrow> str \<Rightarrow> component \<Rightarrow> charset_converter \<Rightarrow> str \<Rightarrow> bool \<times> parsed \<times> str" where
  "ResolveRelativeURL base_url base_parsed base_is_file relative_url relative_component query_converter out =
     (if c_len (p_path base_parsed) \<le> 0
      then (False, base_parsed, out @ take (nat (Parsed_Length base_parsed)) base_url)
      else if c_len relative_component \<le> 0
      then (True, base_parsed\<lparr>p_ref := no_component\<rparr>,
            out @ take (nat (Parsed_Length base_parsed - (c_len (p_ref base_parsed) + 1))) base_url)
      else let num_slashes =
                 CountConsecutiveSlashes relative_url (c_begin relative_component) (c_end relative_component)
      in if base_is_file \<and> (num_slashes \<ge> 2 \<or> num_slashes = c_len relative_component)
         then DoResolveAbsoluteFile relative_url relative_component query_converter out base_parsed
         else if num_slashes \<ge> 2
         then DoResolveRelativeHost base_url base_parsed relative_url relative_component query_converter out base_parsed
         else DoResolveRelativePath base_url base_parsed relative_url relative_component query_converter out base_parsed)"

section \<open>Entry points\<close>

text \<open>The comparison and the scheme found.\<close>

definition FindAndCompareScheme :: "str \<Rightarrow> str \<Rightarrow> bool \<times> component" where
  "FindAndCompareScheme s compare =
     (let spec = RemoveURLWhitespace s
      in case ExtractScheme spec (len spec) of
           None \<Rightarrow> (False, no_component)
         | Some our_scheme \<Rightarrow> (CompareSchemeComponent spec our_scheme compare, our_scheme))"

text \<open>
  \<open>DoCanonicalize\<close>.  \<open>output_parsed\<close> is the caller's structure; it is left alone when there
  is no scheme.
\<close>

definition Canonicalize ::
    "schemes \<Rightarrow> str \<Rightarrow> bool \<Rightarrow> charset_converter \<Rightarrow> str \<Rightarrow> parsed \<Rightarrow> bool \<times> parsed \<times> str" where
  "Canonicalize schemes in_spec trim_path_end charset_converter out output_parsed =
     (let spec = RemoveURLWhitespace in_spec; spec_len = len spec
      in case ExtractScheme spec spec_len of
           None \<Rightarrow> (False, output_parsed, out)
         | Some scheme \<Rightarrow>
             if CompareSchemeComponent spec scheme ''file''
             then with_parts (DoCanonicalizeFileURL (source_of spec) (ParseFileURL spec spec_len) charset_converter out)
                    output_parsed
             else if CompareSchemeComponent spec scheme ''filesystem''
             then DoCanonicalizeFileSystemURL schemes spec (source_of spec) (ParseFileSystemURL schemes spec spec_len)
                    charset_converter out output_parsed
             else if DoIsStandard schemes spec scheme \<noteq> None
             then with_parts (DoCanonicalizeStandardURL (source_of spec) (ParseStandardURL spec spec_len)
                    charset_converter out) output_parsed
             else if CompareSchemeComponent spec scheme ''mailto''
             then with_parts (DoCanonicalizeMailtoURL (source_of spec) (ParseMailtoURL spec spec_len) out) output_parsed
             else with_parts (DoCanonicalizePathURL (source_of spec) (ParsePathURL spec spec_len trim_path_end) out)
                    output_parsed)"

definition ResolveRelative ::
    "schemes \<Rightarrow> str \<Rightarrow> parsed \<Rightarrow> str \<Rightarrow> charset_converter \<Rightarrow> str \<Rightarrow> parsed \<Rightarrow> bool \<times> parsed \<times> str" where
  "ResolveRelative schemes base_spec base_parsed in_relative charset_converter out output_parsed =
     (let relative = RemoveURLWhitespace in_relative;
          has_scheme = is_nonempty (p_scheme base_parsed);
          num_slashes = CountConsecutiveSlashes base_spec (c_end (p_scheme base_parsed) + 1) (len base_spec);
          base_is_authority_based = (has_scheme \<and> num_slashes > 1);
          base_is_hierarchical = (has_scheme \<and> num_slashes > 0);
          standard_base_scheme = (has_scheme \<and> DoIsStandard schemes base_spec (p_scheme base_parsed) \<noteq> None);
          (ok, is_relative, relative_component) =
            IsRelativeURL base_spec base_parsed relative (base_is_hierarchical \<or> standard_base_scheme);
          absolute = Canonicalize schemes relative True charset_converter out output_parsed
      in if \<not> ok then (False, output_parsed, out)
         else if is_relative \<and> base_is_authority_based \<and> \<not> standard_base_scheme then
           (let base_parsed_authority = to_parsed (ParseStandardURL base_spec (len base_spec)) None
            in if is_nonempty (p_host base_parsed_authority)
               then (let (did_resolve_succeed, parsed1, temporary_output) =
                           ResolveRelativeURL base_spec base_parsed_authority False relative relative_component
                             charset_converter [];
                         (ignored, parsed2, out') = Canonicalize schemes temporary_output True charset_converter out parsed1
                     in (did_resolve_succeed, parsed2, out'))
               else absolute)
         else if is_relative
         then ResolveRelativeURL base_spec base_parsed
                (has_scheme \<and> CompareSchemeComponent base_spec (p_scheme base_parsed) ''file'')
                relative relative_component charset_converter out
         else absolute)"

text \<open>\<open>DoReplaceComponents\<close> once the scheme is not overridden.\<close>

definition replace_in_scheme ::
    "schemes \<Rightarrow> str \<Rightarrow> parsed \<Rightarrow> Replacements \<Rightarrow> charset_converter \<Rightarrow> str \<Rightarrow> parsed \<Rightarrow> bool \<times> parsed \<times> str" where
  "replace_in_scheme schemes spec parsed replacements charset_converter out out_parsed =
     (if CompareSchemeComponent spec (p_scheme parsed) ''file''
      then ReplaceFileURL spec parsed replacements charset_converter out out_parsed
      else if CompareSchemeComponent spec (p_scheme parsed) ''filesystem''
      then ReplaceFileSystemURL schemes spec parsed replacements charset_converter out out_parsed
      else if DoIsStandard schemes spec (p_scheme parsed) \<noteq> None
      then ReplaceStandardURL spec parsed replacements charset_converter out out_parsed
      else if CompareSchemeComponent spec (p_scheme parsed) ''mailto''
      then ReplaceMailtoURL spec parsed replacements out out_parsed
      else ReplacePathURL spec parsed replacements out out_parsed)"

definition ReplaceComponents ::
    "schemes \<Rightarrow> str \<Rightarrow> parsed \<Rightarrow> Replacements \<Rightarrow> charset_converter \<Rightarrow> str \<Rightarrow> parsed \<Rightarrow> bool \<times> parsed \<times> str" where
  "ReplaceComponents schemes spec parsed replacements charset_converter out out_parsed =
     (case s_scheme (sources replacements) of
        Some scheme_source \<Rightarrow>
          (let (ok, scheme_c, scheme_replaced) =
                 CanonicalizeScheme scheme_source (p_scheme (components replacements)) [];
               spec_after_colon = (if is_valid (p_scheme parsed) then c_end (p_scheme parsed) + 1 else 1);
               replaced = (if len spec - spec_after_colon > 0
                           then scheme_replaced @ drop (nat spec_after_colon) spec else scheme_replaced);
               (ok', recanonicalized_parsed, recanonicalized) =
                 Canonicalize schemes replaced True charset_converter [] (to_parsed no_parts None)
           in replace_in_scheme schemes recanonicalized recanonicalized_parsed
                (SetScheme None no_component replacements) charset_converter out out_parsed)
      | None \<Rightarrow> replace_in_scheme schemes spec parsed replacements charset_converter out out_parsed)"

section \<open>Escape sequences\<close>

function unescape_scan :: "str \<Rightarrow> int \<Rightarrow> str \<Rightarrow> str" where
  "unescape_scan input i unescaped_chars =
     (if i < len input then
        (if at input i = CHR ''%'' then
           (case DecodeEscaped input i (len input) of
              Some (ch, i') \<Rightarrow> unescape_scan input (i' + 1) (push_back (char_of ch) unescaped_chars)
            | None \<Rightarrow> unescape_scan input (i + 1) (push_back CHR ''%'' unescaped_chars))
         else unescape_scan input (i + 1) (push_back (at input i) unescaped_chars))
      else unescaped_chars)"
  by pat_completeness auto
termination
  by (relation "measure (\<lambda>(s, i, out). nat (len s - i))") (auto dest: DecodeEscaped_index)

declare unescape_scan.simps [simp del]

text \<open>An invalid sequence is copied unit by unit up to the index where the reader stopped.\<close>

function widen_scan :: "str \<Rightarrow> int \<Rightarrow> nat list \<Rightarrow> nat list" where
  "widen_scan unescaped_chars i out =
     (if i < len unescaped_chars then
        (let uch = byte (at unescaped_chars i)
         in if uch < 0x80 then widen_scan unescaped_chars (i + 1) (out @ [uch])
            else (let (ok, code_point, next_character) = ReadUTFChar unescaped_chars i (len unescaped_chars)
                  in if ok then widen_scan unescaped_chars (next_character + 1) (AppendUTF16Value code_point out)
                     else widen_scan unescaped_chars (next_character + 1)
                            (out @ map (\<lambda>c. byte c) (seg unescaped_chars i (next_character + 1)))))
      else out)"
  by pat_completeness auto
termination
  by (relation "measure (\<lambda>(s, i, out). nat (len s - i))") auto

declare widen_scan.simps [simp del]

definition DecodeURLEscapeSequences :: "str \<Rightarrow> nat list \<Rightarrow> nat list" where
  "DecodeURLEscapeSequences input out = widen_scan (unescape_scan input 0 []) 0 out"

definition EncodeURIComponent :: "str \<Rightarrow> str \<Rightarrow> str" where
  "EncodeURIComponent input out =
     fold (\<lambda>c out. if IsComponentChar (byte c) then push_back c out else AppendEscapedChar (byte c) out) input out"

end
