(* ===== verification/Cookie_Parse.thy ===== *)
theory Cookie_Parse
  imports Base_Strings
begin

text \<open>
  \<open>net/cookies/parsed_cookie.cc\<close> and \<open>cookie_constants.cc\<close>: the line of a
  \<open>Set-Cookie\<close> header as an object.  Iterators into a string are positions; an operation
  that moves the caller's iterator returns its new position last.
\<close>

section \<open>Priorities\<close>

datatype CookiePriority = COOKIE_PRIORITY_LOW | COOKIE_PRIORITY_MEDIUM | COOKIE_PRIORITY_HIGH

definition COOKIE_PRIORITY_DEFAULT :: CookiePriority where
  "COOKIE_PRIORITY_DEFAULT = COOKIE_PRIORITY_MEDIUM"

text \<open>The values of the enumeration, and its order.\<close>

fun priority_value :: "CookiePriority \<Rightarrow> nat" where
  "priority_value COOKIE_PRIORITY_LOW = 0"
| "priority_value COOKIE_PRIORITY_MEDIUM = 1"
| "priority_value COOKIE_PRIORITY_HIGH = 2"

lemma priority_value_inj: "priority_value p = priority_value q \<longleftrightarrow> p = q"
  by (cases p; cases q) simp_all

instantiation CookiePriority :: linorder
begin

definition less_eq_CookiePriority :: "CookiePriority \<Rightarrow> CookiePriority \<Rightarrow> bool" where
  "less_eq_CookiePriority p q \<longleftrightarrow> priority_value p \<le> priority_value q"

definition less_CookiePriority :: "CookiePriority \<Rightarrow> CookiePriority \<Rightarrow> bool" where
  "less_CookiePriority p q \<longleftrightarrow> priority_value p < priority_value q"

instance
  by standard (auto simp: less_eq_CookiePriority_def less_CookiePriority_def priority_value_inj)

end

fun CookiePriorityToString :: "CookiePriority \<Rightarrow> str" where
  "CookiePriorityToString COOKIE_PRIORITY_HIGH = ''high''"
| "CookiePriorityToString COOKIE_PRIORITY_MEDIUM = ''medium''"
| "CookiePriorityToString COOKIE_PRIORITY_LOW = ''low''"

definition StringToCookiePriority :: "str \<Rightarrow> CookiePriority" where
  "StringToCookiePriority priority =
     (let priority_comp = map ToLowerASCII priority
      in if priority_comp = ''high'' then COOKIE_PRIORITY_HIGH
         else if priority_comp = ''medium'' then COOKIE_PRIORITY_MEDIUM
         else if priority_comp = ''low'' then COOKIE_PRIORITY_LOW
         else COOKIE_PRIORITY_DEFAULT)"

section \<open>Scanning\<close>

text \<open>\<open>strchr\<close> also finds the terminator of the set.\<close>

definition CharIsA :: "char \<Rightarrow> str \<Rightarrow> bool" where
  "CharIsA c chars \<longleftrightarrow> c \<in> set chars \<or> c = CHR 0x00"

definition kTerminator :: str where "kTerminator = [CHR 0x0A, CHR 0x0D, CHR 0x00]"
definition kWhitespace :: str where "kWhitespace = [CHR '' '', CHR 0x09]"
definition kValueSeparator :: str where "kValueSeparator = '';''"
definition kTokenSeparator :: str where "kTokenSeparator = '';=''"

definition SeekTo :: "str \<Rightarrow> int \<Rightarrow> int \<Rightarrow> str \<Rightarrow> int" where
  "SeekTo s it e chars = scan_fwd (\<lambda>c. \<not> CharIsA c chars) s it e"

definition SeekPast :: "str \<Rightarrow> int \<Rightarrow> int \<Rightarrow> str \<Rightarrow> int" where
  "SeekPast s it e chars = scan_fwd (\<lambda>c. CharIsA c chars) s it e"

definition SeekBackPast :: "str \<Rightarrow> int \<Rightarrow> int \<Rightarrow> str \<Rightarrow> int" where
  "SeekBackPast s it e chars = scan_back (\<lambda>c. CharIsA c chars) s e it"

definition FindFirstTerminator :: "str \<Rightarrow> int" where
  "FindFirstTerminator s = scan_fwd (\<lambda>c. c \<notin> set kTerminator) s 0 (len s)"

section \<open>Validation\<close>

text \<open>\<open>char\<close> is signed: a byte from 128 on is negative and passes the test for control characters.\<close>

definition IsValidToken :: "str \<Rightarrow> bool" where
  "IsValidToken value =
     (value \<noteq> [] \<and>
      \<not> list_ex (\<lambda>c. c \<in> set (''()<>@,;:'' @ [CHR 0x5C, CHR 0x22] @ ''/[]?={} '' @ [CHR 0x09])) value \<and>
      \<not> list_ex (\<lambda>c. (schar c \<ge> 0 \<and> schar c \<le> 31) \<or> schar c \<ge> 127) value)"

definition IsValidCookieValue :: "str \<Rightarrow> bool" where
  "IsValidCookieValue value =
     (let skip = (if length value \<ge> 2 \<and> hd value = CHR 0x22 \<and> last value = CHR 0x22 then 1 else 0)
      in list_all (\<lambda>c. let i = schar c
            in i = 0x21 \<or> (i \<ge> 0x23 \<and> i \<le> 0x2B) \<or> (i \<ge> 0x2D \<and> i \<le> 0x3A) \<or>
               (i \<ge> 0x3C \<and> i \<le> 0x5B) \<or> (i \<ge> 0x5D \<and> i \<le> 0x7E))
           (seg value skip (len value - skip)))"

definition IsControlCharacter :: "nat \<Rightarrow> bool" where
  "IsControlCharacter c \<longleftrightarrow> c \<le> 31"

definition IsValidCookieAttributeValue :: "str \<Rightarrow> bool" where
  "IsValidCookieAttributeValue value =
     (\<not> list_ex (\<lambda>c. IsControlCharacter (byte c) \<or> c = CHR '';'') value)"

section \<open>Tokens and values\<close>

text \<open>The start and end of the token and the position of what ends it; \<open>None\<close> without a token.\<close>

definition ParseToken :: "str \<Rightarrow> int \<Rightarrow> int \<Rightarrow> (int \<times> int \<times> int) option" where
  "ParseToken s it e =
     (let token_start = SeekPast s it e kWhitespace
      in if token_start = e then None
         else let token_real_end = SeekTo s token_start e kTokenSeparator;
                  token_end = (if token_real_end \<noteq> token_start
                    then SeekBackPast s (token_real_end - 1) token_start kWhitespace + 1 else token_real_end)
              in Some (token_start, token_end, token_real_end))"

definition ParseValue :: "str \<Rightarrow> int \<Rightarrow> int \<Rightarrow> int \<times> int \<times> int" where
  "ParseValue s it e =
     (let value_start = SeekPast s it e kWhitespace;
          value_end = SeekTo s value_start e kValueSeparator
      in (value_start,
          if value_end \<noteq> value_start then SeekBackPast s (value_end - 1) value_start kWhitespace + 1 else value_end,
          value_end))"

definition ParseTokenString :: "str \<Rightarrow> str" where
  "ParseTokenString token =
     (case ParseToken token 0 (FindFirstTerminator token) of
        Some (token_start, token_end, it) \<Rightarrow> seg token token_start token_end
      | None \<Rightarrow> [])"

definition ParseValueString :: "str \<Rightarrow> str" where
  "ParseValueString value =
     (let (value_start, value_end, it) = ParseValue value 0 (FindFirstTerminator value)
      in seg value value_start value_end)"

section \<open>The pairs of a line\<close>

type_synonym TokenValuePair = "str \<times> str"

definition kMaxCookieSize :: nat where "kMaxCookieSize = 4096"
definition kMaxPairs :: nat where "kMaxPairs = 16"

text \<open>The name of the pair at a token, and where its value is looked for.\<close>

definition pair_name :: "str \<Rightarrow> int \<Rightarrow> nat \<Rightarrow> int \<times> int \<times> int \<Rightarrow> str \<times> int" where
  "pair_name s e pair_num t =
     (let (token_start, token_end, it) = t
      in if it = e \<or> at s it \<noteq> CHR ''='' then
           (if pair_num = 0 then ([], token_start) else (seg s token_start token_end, it))
         else (seg s token_start token_end, it + 1))"

function pairs_scan :: "str \<Rightarrow> int \<Rightarrow> nat \<Rightarrow> int \<Rightarrow> TokenValuePair list \<Rightarrow> TokenValuePair list" where
  "pairs_scan s e pair_num it acc =
     (if pair_num < kMaxPairs \<and> it \<noteq> e then
        (case ParseToken s it e of
           None \<Rightarrow> acc
         | Some t \<Rightarrow>
             (let (name, it1) = pair_name s e pair_num t;
                  (value_start, value_end, it2) = ParseValue s it1 e;
                  value = seg s value_start value_end;
                  name' = (if pair_num \<noteq> 0 then map ToLowerASCII name else name)
              in if \<not> IsValidCookieAttributeValue name' \<or> \<not> IsValidCookieAttributeValue value then []
                 else pairs_scan s e (pair_num + 1) (if it2 \<noteq> e then it2 + 1 else it2) (acc @ [(name', value)])))
      else acc)"
  by pat_completeness auto
termination
  by (relation "measure (\<lambda>(s, e, n, it, acc). kMaxPairs - n)") auto

declare pairs_scan.simps [simp del]

definition ParseTokenValuePairs :: "str \<Rightarrow> TokenValuePair list" where
  "ParseTokenValuePairs cookie_line = pairs_scan cookie_line (FindFirstTerminator cookie_line) 0 0 []"

section \<open>The object\<close>

record ParsedCookie =
  pairs :: "TokenValuePair list"
  path_index :: nat
  domain_index :: nat
  expires_index :: nat
  maxage_index :: nat
  secure_index :: nat
  httponly_index :: nat
  firstpartyonly_index :: nat
  priority_index :: nat

definition empty_cookie :: ParsedCookie where
  "empty_cookie = \<lparr>pairs = [], path_index = 0, domain_index = 0, expires_index = 0, maxage_index = 0,
     secure_index = 0, httponly_index = 0, firstpartyonly_index = 0, priority_index = 0\<rparr>"

text \<open>The attributes: which of the index members a pointer \<open>index\<close> of the code refers to.\<close>

datatype attribute =
  APath | ADomain | AExpires | AMaxAge | ASecure | AHttpOnly | AFirstPartyOnly | APriority

fun token_name :: "attribute \<Rightarrow> str" where
  "token_name APath = ''path''"
| "token_name ADomain = ''domain''"
| "token_name AExpires = ''expires''"
| "token_name AMaxAge = ''max-age''"
| "token_name ASecure = ''secure''"
| "token_name AHttpOnly = ''httponly''"
| "token_name AFirstPartyOnly = ''first-party-only''"
| "token_name APriority = ''priority''"

fun index_of :: "attribute \<Rightarrow> ParsedCookie \<Rightarrow> nat" where
  "index_of APath c = path_index c"
| "index_of ADomain c = domain_index c"
| "index_of AExpires c = expires_index c"
| "index_of AMaxAge c = maxage_index c"
| "index_of ASecure c = secure_index c"
| "index_of AHttpOnly c = httponly_index c"
| "index_of AFirstPartyOnly c = firstpartyonly_index c"
| "index_of APriority c = priority_index c"

fun set_index :: "attribute \<Rightarrow> nat \<Rightarrow> ParsedCookie \<Rightarrow> ParsedCookie" where
  "set_index APath i c = c\<lparr>path_index := i\<rparr>"
| "set_index ADomain i c = c\<lparr>domain_index := i\<rparr>"
| "set_index AExpires i c = c\<lparr>expires_index := i\<rparr>"
| "set_index AMaxAge i c = c\<lparr>maxage_index := i\<rparr>"
| "set_index ASecure i c = c\<lparr>secure_index := i\<rparr>"
| "set_index AHttpOnly i c = c\<lparr>httponly_index := i\<rparr>"
| "set_index AFirstPartyOnly i c = c\<lparr>firstpartyonly_index := i\<rparr>"
| "set_index APriority i c = c\<lparr>priority_index := i\<rparr>"

definition IsValid :: "ParsedCookie \<Rightarrow> bool" where
  "IsValid c \<longleftrightarrow> pairs c \<noteq> []"

text \<open>The body of the loop of \<open>SetupAttributes\<close>.\<close>

definition setup_pair :: "nat \<Rightarrow> ParsedCookie \<Rightarrow> ParsedCookie" where
  "setup_pair i c =
     (let name = fst (pairs c ! i)
      in if name = ''path'' then c\<lparr>path_index := i\<rparr>
         else if name = ''domain'' then c\<lparr>domain_index := i\<rparr>
         else if name = ''expires'' then c\<lparr>expires_index := i\<rparr>
         else if name = ''max-age'' then c\<lparr>maxage_index := i\<rparr>
         else if name = ''secure'' then c\<lparr>secure_index := i\<rparr>
         else if name = ''httponly'' then c\<lparr>httponly_index := i\<rparr>
         else if name = ''first-party-only'' then c\<lparr>firstpartyonly_index := i\<rparr>
         else if name = ''priority'' then c\<lparr>priority_index := i\<rparr>
         else c)"

definition SetupAttributes :: "ParsedCookie \<Rightarrow> ParsedCookie" where
  "SetupAttributes c =
     (if fst (pairs c ! 0) = [] \<and> snd (pairs c ! 0) = [] then c\<lparr>pairs := []\<rparr>
      else fold setup_pair [1..<length (pairs c)] c)"

text \<open>The constructor.\<close>

definition ParseCookie :: "str \<Rightarrow> ParsedCookie" where
  "ParseCookie cookie_line =
     (if length cookie_line > kMaxCookieSize then empty_cookie
      else let c = empty_cookie\<lparr>pairs := ParseTokenValuePairs cookie_line\<rparr>
           in if pairs c \<noteq> [] then SetupAttributes c else c)"

section \<open>Reading\<close>

definition Name :: "ParsedCookie \<Rightarrow> str" where "Name c = fst (pairs c ! 0)"
definition Value :: "ParsedCookie \<Rightarrow> str" where "Value c = snd (pairs c ! 0)"

text \<open>\<open>HasPath\<close>, \<open>IsSecure\<close> and their like, and \<open>Path\<close> and its like.\<close>

definition Has :: "attribute \<Rightarrow> ParsedCookie \<Rightarrow> bool" where
  "Has a c \<longleftrightarrow> index_of a c \<noteq> 0"

definition Attr :: "attribute \<Rightarrow> ParsedCookie \<Rightarrow> str" where
  "Attr a c = snd (pairs c ! index_of a c)"

definition Priority :: "ParsedCookie \<Rightarrow> CookiePriority" where
  "Priority c = (if priority_index c = 0 then COOKIE_PRIORITY_DEFAULT
     else StringToCookiePriority (snd (pairs c ! priority_index c)))"

definition NumberOfAttributes :: "ParsedCookie \<Rightarrow> nat" where
  "NumberOfAttributes c = length (pairs c) - 1"

definition line_piece :: "TokenValuePair \<Rightarrow> str" where
  "line_piece p =
     fst p @ (if fst p \<noteq> ''secure'' \<and> fst p \<noteq> ''httponly'' \<and> fst p \<noteq> ''first-party-only''
              then ''='' @ snd p else [])"

definition ToCookieLine :: "ParsedCookie \<Rightarrow> str" where
  "ToCookieLine c = fold (\<lambda>p out. (if out \<noteq> [] then out @ ''; '' else out) @ line_piece p) (pairs c) []"

section \<open>Writing\<close>

text \<open>Each operation returns its result and the object.\<close>

definition with_first_pair :: "ParsedCookie \<Rightarrow> ParsedCookie" where
  "with_first_pair c = (if pairs c = [] then c\<lparr>pairs := [([], [])]\<rparr> else c)"

definition SetName :: "str \<Rightarrow> ParsedCookie \<Rightarrow> bool \<times> ParsedCookie" where
  "SetName name c =
     (if \<not> IsValidToken name then (False, c)
      else let c' = with_first_pair c
           in (True, c'\<lparr>pairs := (pairs c')[0 := (name, snd (pairs c' ! 0))]\<rparr>))"

definition SetValue :: "str \<Rightarrow> ParsedCookie \<Rightarrow> bool \<times> ParsedCookie" where
  "SetValue value c =
     (if \<not> IsValidCookieValue value then (False, c)
      else let c' = with_first_pair c
           in (True, c'\<lparr>pairs := (pairs c')[0 := (fst (pairs c' ! 0), value)]\<rparr>))"

definition SetAttributePair :: "attribute \<Rightarrow> str \<Rightarrow> str \<Rightarrow> ParsedCookie \<Rightarrow> bool \<times> ParsedCookie" where
  "SetAttributePair a key value c =
     (if \<not> (IsValidToken key \<and> IsValidCookieAttributeValue value) then (False, c)
      else if \<not> IsValid c then (False, c)
      else if index_of a c \<noteq> 0
      then (True, c\<lparr>pairs := (pairs c)[index_of a c := (fst (pairs c ! index_of a c), value)]\<rparr>)
      else let c' = c\<lparr>pairs := pairs c @ [(key, value)]\<rparr>
           in (True, set_index a (length (pairs c') - 1) c'))"

definition clear_index :: "nat \<Rightarrow> attribute \<Rightarrow> ParsedCookie \<Rightarrow> ParsedCookie" where
  "clear_index index a c =
     (if index_of a c = index then set_index a 0 c
      else if index_of a c > index then set_index a (index_of a c - 1) c
      else c)"

definition ClearAttributePair :: "nat \<Rightarrow> ParsedCookie \<Rightarrow> ParsedCookie" where
  "ClearAttributePair index c =
     (if index = 0 then c
      else let c' = fold (clear_index index)
                      [APath, ADomain, AExpires, AMaxAge, ASecure, AHttpOnly, AFirstPartyOnly, APriority] c
           in c'\<lparr>pairs := take index (pairs c') @ drop (index + 1) (pairs c')\<rparr>)"

definition SetString :: "attribute \<Rightarrow> str \<Rightarrow> str \<Rightarrow> ParsedCookie \<Rightarrow> bool \<times> ParsedCookie" where
  "SetString a key value c =
     (if value = [] then (True, ClearAttributePair (index_of a c) c) else SetAttributePair a key value c)"

definition SetBool :: "attribute \<Rightarrow> str \<Rightarrow> bool \<Rightarrow> ParsedCookie \<Rightarrow> bool \<times> ParsedCookie" where
  "SetBool a key value c =
     (if \<not> value then (True, ClearAttributePair (index_of a c) c) else SetAttributePair a key [] c)"

definition SetCookiePath :: "str \<Rightarrow> ParsedCookie \<Rightarrow> bool \<times> ParsedCookie" where
  "SetCookiePath path = SetString APath ''path'' path"

definition SetDomain :: "str \<Rightarrow> ParsedCookie \<Rightarrow> bool \<times> ParsedCookie" where
  "SetDomain domain = SetString ADomain ''domain'' domain"

definition SetExpires :: "str \<Rightarrow> ParsedCookie \<Rightarrow> bool \<times> ParsedCookie" where
  "SetExpires expires = SetString AExpires ''expires'' expires"

definition SetMaxAge :: "str \<Rightarrow> ParsedCookie \<Rightarrow> bool \<times> ParsedCookie" where
  "SetMaxAge maxage = SetString AMaxAge ''max-age'' maxage"

definition SetIsSecure :: "bool \<Rightarrow> ParsedCookie \<Rightarrow> bool \<times> ParsedCookie" where
  "SetIsSecure is_secure = SetBool ASecure ''secure'' is_secure"

definition SetIsHttpOnly :: "bool \<Rightarrow> ParsedCookie \<Rightarrow> bool \<times> ParsedCookie" where
  "SetIsHttpOnly is_http_only = SetBool AHttpOnly ''httponly'' is_http_only"

definition SetIsFirstPartyOnly :: "bool \<Rightarrow> ParsedCookie \<Rightarrow> bool \<times> ParsedCookie" where
  "SetIsFirstPartyOnly is_first_party_only = SetBool AFirstPartyOnly ''first-party-only'' is_first_party_only"

definition SetPriority :: "str \<Rightarrow> ParsedCookie \<Rightarrow> bool \<times> ParsedCookie" where
  "SetPriority priority = SetString APriority ''priority'' priority"

end
