(* ===== verification/Dictionary.thy ===== *)
theory Dictionary
  imports Main
begin

text \<open>
  The interface of the program's string dictionaries: HTTP header maps and the attributes of
  a cookie.  A client stores values under keys, some of which the provider identifies
  (\<open>same\<close>), and looks them up; values that are not \<open>fit\<close> are refused.  What a client needs
  of a sequence of operations is proved here once, from the laws of a single one.
\<close>

locale dictionary =
  fixes inv :: "'s \<Rightarrow> bool"
    and same :: "'k \<Rightarrow> 'k \<Rightarrow> bool"
    and fit :: "'v \<Rightarrow> bool"
    and lookup :: "'s \<Rightarrow> 'k \<Rightarrow> 'v option"
    and store :: "'k \<Rightarrow> 'v \<Rightarrow> 's \<Rightarrow> 's"
  assumes inv_store: "inv s \<Longrightarrow> inv (store k v s)"
    and lookup_store: "inv s \<Longrightarrow> fit v \<Longrightarrow> lookup (store k v s) j = (if same k j then Some v else lookup s j)"
    and store_unfit: "inv s \<Longrightarrow> \<not> fit v \<Longrightarrow> lookup (store k v s) = lookup s"
begin

lemma inv_fold: "inv s \<Longrightarrow> inv (fold (\<lambda>(k, v). store k v) kvs s)"
  by (induction kvs arbitrary: s) (auto intro: inv_store)

text \<open>After storing a list of pairs, the last fit value stored under a key is found.\<close>

lemma lookup_fold:
  assumes "inv s"
  shows "lookup (fold (\<lambda>(k, v). store k v) kvs s) j =
    (case find (\<lambda>(k, v). fit v \<and> same k j) (rev kvs) of Some (k, v) \<Rightarrow> Some v | None \<Rightarrow> lookup s j)"
  using assms
proof (induction kvs rule: rev_induct)
  case (snoc kv kvs)
  obtain k v where kv: "kv = (k, v)" by fastforce
  have i: "inv (fold (\<lambda>(k, v). store k v) kvs s)" using snoc.prems by (rule inv_fold)
  show ?case
  proof (cases "fit v")
    case True
    then show ?thesis using snoc.IH [OF snoc.prems] lookup_store [OF i True] by (simp add: kv)
  next
    case False
    then show ?thesis using snoc.IH [OF snoc.prems] store_unfit [OF i False] by (simp add: kv)
  qed
qed simp

lemma lookup_stored: "inv s \<Longrightarrow> fit v \<Longrightarrow> same k k \<Longrightarrow> lookup (store k v s) k = Some v"
  by (simp add: lookup_store)

lemma store_other: "inv s \<Longrightarrow> \<not> same k j \<Longrightarrow> lookup (store k v s) j = lookup s j"
  by (cases "fit v") (simp_all add: lookup_store store_unfit)

end

text \<open>A dictionary whose keys can be erased again.\<close>

locale erasing_dictionary = dictionary +
  fixes erase :: "'k \<Rightarrow> 's \<Rightarrow> 's"
  assumes inv_erase: "inv s \<Longrightarrow> inv (erase k s)"
    and lookup_erase: "inv s \<Longrightarrow> lookup (erase k s) j = (if same k j then None else lookup s j)"
begin

lemma erase_stored: "inv s \<Longrightarrow> fit v \<Longrightarrow> lookup (erase k (store k v s)) = lookup (erase k s)"
  by (rule ext) (simp add: lookup_erase inv_store lookup_store)

lemma store_erased: "inv s \<Longrightarrow> fit v \<Longrightarrow> lookup (store k v (erase k s)) = lookup (store k v s)"
  by (rule ext) (simp add: inv_erase lookup_erase lookup_store)

end

end
