(* ===== verification/Cookie_Laws.thy ===== *)
theory Cookie_Laws
  imports Cookie_Parse Dictionary
begin

text \<open>
  What holds of \<open>ParsedCookie\<close>: the index members point to pairs with their names; the
  attributes are an erasing dictionary and the whole object refines a name, a value and a
  partial map; printing and parsing a line.
\<close>

section \<open>The members that point into the pairs\<close>

lemma index_of_set_index [simp]: "index_of b (set_index a i c) = (if a = b then i else index_of b c)"
  by (cases a; cases b) simp_all

lemma pairs_set_index [simp]: "pairs (set_index a i c) = pairs c"
  by (cases a) simp_all

lemma index_of_pairs [simp]: "index_of a (c\<lparr>pairs := ps\<rparr>) = index_of a c"
  by (cases a) simp_all

lemma index_of_empty [simp]: "index_of a empty_cookie = 0" "pairs empty_cookie = []"
  by (cases a) (simp_all add: empty_cookie_def)

lemma cookie_eqI: "pairs c = pairs d \<Longrightarrow> (\<And>a. index_of a c = index_of a d) \<Longrightarrow> c = d"
proof -
  assume p: "pairs c = pairs d" and i: "\<And>a. index_of a c = index_of a d"
  show "c = d"
    using p i [of APath] i [of ADomain] i [of AExpires] i [of AMaxAge] i [of ASecure] i [of AHttpOnly]
      i [of AFirstPartyOnly] i [of APriority]
    by (cases c; cases d) simp
qed

lemma token_name_inj: "token_name a = token_name b \<longleftrightarrow> a = b"
  by (cases a; cases b) simp_all

lemma all_attributes: "list_all P [APath, ADomain, AExpires, AMaxAge, ASecure, AHttpOnly, AFirstPartyOnly, APriority] \<Longrightarrow> P a"
  by (cases a) simp_all

lemma token_name_valid: "IsValidToken (token_name a)" "map ToLowerASCII (token_name a) = token_name a"
  "token_name a \<noteq> []"
  by (rule all_attributes [of _ a]; code_simp)+

lemma setup_pair_eq:
  "setup_pair i c = (case find (\<lambda>a. token_name a = fst (pairs c ! i))
      [APath, ADomain, AExpires, AMaxAge, ASecure, AHttpOnly, AFirstPartyOnly, APriority] of
     Some a \<Rightarrow> set_index a i c | None \<Rightarrow> c)"
  by (simp add: setup_pair_def Let_def eq_commute)

lemma setup_pair_index:
  "index_of a (setup_pair i c) = (if token_name a = fst (pairs c ! i) then i else index_of a c)"
  by (cases a) (auto simp: setup_pair_def Let_def)

lemma setup_pair_pairs [simp]: "pairs (setup_pair i c) = pairs c"
  by (auto simp: setup_pair_def Let_def)

lemma fold_setup_pairs [simp]: "pairs (fold setup_pair is c) = pairs c"
  by (induction "is" arbitrary: c) simp_all

lemma clear_index_index:
  "index_of b (clear_index i a c) =
     (if a = b then (if index_of b c = i then 0 else if index_of b c > i then index_of b c - 1 else index_of b c)
      else index_of b c)"
  by (simp add: clear_index_def)

lemma clear_index_pairs [simp]: "pairs (clear_index i a c) = pairs c"
  by (simp add: clear_index_def)

lemma ClearAttributePair_index:
  "i \<noteq> 0 \<Longrightarrow> index_of b (ClearAttributePair i c) =
     (if index_of b c = i then 0 else if index_of b c > i then index_of b c - 1 else index_of b c)"
  by (cases b) (simp_all add: ClearAttributePair_def Let_def clear_index_index)

lemma ClearAttributePair_pairs:
  "i \<noteq> 0 \<Longrightarrow> pairs (ClearAttributePair i c) = take i (pairs c) @ drop (i + 1) (pairs c)"
  by (simp add: ClearAttributePair_def Let_def)

section \<open>The invariant\<close>

text \<open>A member that is not zero is the position of a pair, not the first, with the name it stands for.\<close>

definition cookie_ok :: "ParsedCookie \<Rightarrow> bool" where
  "cookie_ok c \<longleftrightarrow> (\<forall>a. index_of a c \<noteq> 0 \<longrightarrow>
     index_of a c < length (pairs c) \<and> fst (pairs c ! index_of a c) = token_name a)"

lemma cookie_okD: "cookie_ok c \<Longrightarrow> index_of a c \<noteq> 0 \<Longrightarrow>
    index_of a c < length (pairs c) \<and> fst (pairs c ! index_of a c) = token_name a"
  by (simp add: cookie_ok_def)

lemma index_inj:
  assumes "cookie_ok c" "index_of a c \<noteq> 0" "index_of a c = index_of b c"
  shows "a = b"
  using cookie_okD [OF assms(1), of a] cookie_okD [OF assms(1), of b] assms(2,3) token_name_inj by metis

lemma setup_ok:
  assumes "cookie_ok c" "\<forall>i\<in>set is. 0 < i \<and> i < length (pairs c)"
  shows "cookie_ok (fold setup_pair is c)"
  using assms
proof (induction "is" arbitrary: c)
  case (Cons i "is")
  have "cookie_ok (setup_pair i c)"
    using Cons.prems unfolding cookie_ok_def by (simp add: setup_pair_index)
  then show ?case using Cons by simp
qed simp

lemma empty_ok: "cookie_ok (empty_cookie\<lparr>pairs := ps\<rparr>)" "cookie_ok empty_cookie"
  by (simp_all add: cookie_ok_def)

lemma parsed_ok: "cookie_ok (ParseCookie line)"
proof (cases "length line > kMaxCookieSize \<or> ParseTokenValuePairs line = []")
  case True
  then show ?thesis using empty_ok by (auto simp: ParseCookie_def Let_def)
next
  case False
  then have c: "ParseCookie line = SetupAttributes (empty_cookie\<lparr>pairs := ParseTokenValuePairs line\<rparr>)"
    by (simp add: ParseCookie_def Let_def)
  show ?thesis
  proof (cases "fst (ParseTokenValuePairs line ! 0) = [] \<and> snd (ParseTokenValuePairs line ! 0) = []")
    case True
    then show ?thesis using empty_ok(1) [of "[]"] by (simp add: c SetupAttributes_def)
  next
    case False
    then have "ParseCookie line = fold setup_pair [1..<length (ParseTokenValuePairs line)]
        (empty_cookie\<lparr>pairs := ParseTokenValuePairs line\<rparr>)"
      unfolding c SetupAttributes_def by auto
    then show ?thesis using setup_ok [OF empty_ok(1)] by simp
  qed
qed

lemma clear_ok:
  assumes "cookie_ok c"
  shows "cookie_ok (ClearAttributePair i c)"
proof (cases "i = 0")
  case False
  show ?thesis
    unfolding cookie_ok_def
  proof (intro allI impI)
    fix a assume "index_of a (ClearAttributePair i c) \<noteq> 0"
    then have n: "index_of a c \<noteq> 0" "index_of a c \<noteq> i"
      using False by (auto simp: ClearAttributePair_index split: if_splits)
    note k = cookie_okD [OF assms n(1)]
    show "index_of a (ClearAttributePair i c) < length (pairs (ClearAttributePair i c)) \<and>
      fst (pairs (ClearAttributePair i c) ! index_of a (ClearAttributePair i c)) = token_name a"
      using k n False by (auto simp: ClearAttributePair_index ClearAttributePair_pairs nth_append)
  qed
qed (simp add: assms ClearAttributePair_def)

lemma set_pair_ok:
  assumes "cookie_ok c"
  shows "cookie_ok (snd (SetAttributePair a (token_name a) v c))"
proof (cases "IsValidCookieAttributeValue v \<and> IsValid c")
  case True
  show ?thesis
  proof (cases "index_of a c = 0")
    case z: True
    have l: "0 < length (pairs c)" using True by (simp add: IsValid_def)
    have "cookie_ok (set_index a (length (pairs c)) (c\<lparr>pairs := pairs c @ [(token_name a, v)]\<rparr>))"
      unfolding cookie_ok_def
    proof (intro allI impI)
      fix b
      let ?d = "set_index a (length (pairs c)) (c\<lparr>pairs := pairs c @ [(token_name a, v)]\<rparr>)"
      assume "index_of b ?d \<noteq> 0"
      then show "index_of b ?d < length (pairs ?d) \<and> fst (pairs ?d ! index_of b ?d) = token_name b"
        using cookie_okD [OF assms, of b] by (auto simp: nth_append)
    qed
    then show ?thesis using True z by (simp add: SetAttributePair_def token_name_valid Let_def)
  next
    case False
    note k = cookie_okD [OF assms False]
    have "cookie_ok (c\<lparr>pairs := (pairs c)[index_of a c := (fst (pairs c ! index_of a c), v)]\<rparr>)"
      unfolding cookie_ok_def
    proof (intro allI impI)
      fix b
      let ?d = "c\<lparr>pairs := (pairs c)[index_of a c := (fst (pairs c ! index_of a c), v)]\<rparr>"
      assume "index_of b ?d \<noteq> 0"
      then show "index_of b ?d < length (pairs ?d) \<and> fst (pairs ?d ! index_of b ?d) = token_name b"
        using cookie_okD [OF assms, of b] k by (cases "index_of a c = index_of b c") auto
    qed
    then show ?thesis using True False by (simp add: SetAttributePair_def token_name_valid)
  qed
qed (auto simp: SetAttributePair_def assms)

section \<open>Attributes as a dictionary\<close>

definition cookie_inv :: "ParsedCookie \<Rightarrow> bool" where
  "cookie_inv c \<longleftrightarrow> cookie_ok c \<and> IsValid c"

definition attrs :: "ParsedCookie \<Rightarrow> attribute \<Rightarrow> str option" where
  "attrs c a = (if Has a c then Some (Attr a c) else None)"

definition store_attr :: "attribute \<Rightarrow> str \<Rightarrow> ParsedCookie \<Rightarrow> ParsedCookie" where
  "store_attr a v c = snd (SetAttributePair a (token_name a) v c)"

definition erase_attr :: "attribute \<Rightarrow> ParsedCookie \<Rightarrow> ParsedCookie" where
  "erase_attr a c = ClearAttributePair (index_of a c) c"

lemma store_attr_eq:
  "store_attr a v c =
     (if \<not> IsValidCookieAttributeValue v \<or> \<not> IsValid c then c
      else if index_of a c \<noteq> 0
      then c\<lparr>pairs := (pairs c)[index_of a c := (fst (pairs c ! index_of a c), v)]\<rparr>
      else set_index a (length (pairs c)) (c\<lparr>pairs := pairs c @ [(token_name a, v)]\<rparr>))"
  by (simp add: store_attr_def SetAttributePair_def token_name_valid Let_def)

lemma store_first: "cookie_inv c \<Longrightarrow> pairs (store_attr a v c) ! 0 = pairs c ! 0"
  by (simp add: store_attr_eq cookie_inv_def IsValid_def nth_append)

lemma erase_first: "cookie_inv c \<Longrightarrow> pairs (erase_attr a c) ! 0 = pairs c ! 0"
  by (cases "index_of a c = 0")
    (simp_all add: erase_attr_def ClearAttributePair_pairs nth_append ClearAttributePair_def cookie_inv_def IsValid_def)

lemma store_inv: "cookie_inv c \<Longrightarrow> cookie_inv (store_attr a v c)"
  using set_pair_ok [of c a v] by (auto simp: cookie_inv_def store_attr_def [symmetric]) (simp add: store_attr_eq IsValid_def)

lemma erase_inv:
  assumes "cookie_inv c"
  shows "cookie_inv (erase_attr a c)"
proof (cases "index_of a c = 0")
  case False
  have "pairs (erase_attr a c) \<noteq> []"
    using False assms by (simp add: erase_attr_def ClearAttributePair_pairs cookie_inv_def IsValid_def)
  then show ?thesis using clear_ok [of c] assms by (simp add: cookie_inv_def erase_attr_def IsValid_def)
qed (simp add: erase_attr_def ClearAttributePair_def assms)

lemma attrs_store:
  assumes "cookie_inv c" "IsValidCookieAttributeValue v"
  shows "attrs (store_attr a v c) b = (if a = b then Some v else attrs c b)"
proof (cases "index_of a c = 0")
  case True
  have "index_of b c \<noteq> 0 \<Longrightarrow> index_of b c < length (pairs c)"
    using assms(1) cookie_okD [of c b] by (simp add: cookie_inv_def)
  then show ?thesis
    using True assms by (auto simp: store_attr_eq attrs_def Has_def Attr_def cookie_inv_def IsValid_def nth_append)
next
  case False
  then show ?thesis
    using assms index_inj [of c a b] cookie_okD [of c a]
    by (auto simp: store_attr_eq attrs_def Has_def Attr_def cookie_inv_def nth_list_update)
qed

lemma attrs_erase:
  assumes "cookie_inv c"
  shows "attrs (erase_attr a c) b = (if a = b then None else attrs c b)"
proof (cases "index_of a c = 0")
  case True
  then show ?thesis by (auto simp: erase_attr_def ClearAttributePair_def attrs_def Has_def)
next
  case False
  have k: "index_of b c \<noteq> 0 \<Longrightarrow> index_of b c < length (pairs c)" "index_of a c < length (pairs c)"
    using assms cookie_okD [of c] False by (simp_all add: cookie_inv_def)
  have "a \<noteq> b \<Longrightarrow> index_of a c \<noteq> index_of b c"
    using assms index_inj [of c a b] False by (auto simp: cookie_inv_def)
  then show ?thesis
    using False k
    by (cases "a = b") (auto simp: erase_attr_def attrs_def Has_def Attr_def ClearAttributePair_index ClearAttributePair_pairs nth_append)
qed

lemma store_unfit: "\<not> IsValidCookieAttributeValue v \<Longrightarrow> store_attr a v c = c"
  by (simp add: store_attr_eq)

interpretation cookie: erasing_dictionary cookie_inv "(=)" IsValidCookieAttributeValue attrs store_attr erase_attr
  by unfold_locales (simp_all add: store_inv attrs_store erase_inv attrs_erase store_unfit)

section \<open>The abstract cookie\<close>

record cookie_spec =
  spec_name :: str
  spec_value :: str
  spec_attrs :: "attribute \<Rightarrow> str option"

definition cookie_abs :: "ParsedCookie \<Rightarrow> cookie_spec option" where
  "cookie_abs c = (if IsValid c then Some \<lparr>spec_name = Name c, spec_value = Value c, spec_attrs = attrs c\<rparr> else None)"

datatype cookie_op =
  OpName str | OpValue str | OpPath str | OpDomain str | OpExpires str | OpMaxAge str | OpPriority str
  | OpSecure bool | OpHttpOnly bool | OpFirstPartyOnly bool

fun apply_op :: "cookie_op \<Rightarrow> ParsedCookie \<Rightarrow> bool \<times> ParsedCookie" where
  "apply_op (OpName s) = SetName s"
| "apply_op (OpValue s) = SetValue s"
| "apply_op (OpPath s) = SetCookiePath s"
| "apply_op (OpDomain s) = SetDomain s"
| "apply_op (OpExpires s) = SetExpires s"
| "apply_op (OpMaxAge s) = SetMaxAge s"
| "apply_op (OpPriority s) = SetPriority s"
| "apply_op (OpSecure b) = SetIsSecure b"
| "apply_op (OpHttpOnly b) = SetIsHttpOnly b"
| "apply_op (OpFirstPartyOnly b) = SetIsFirstPartyOnly b"

text \<open>What the operations promise: names and values replace each other, an attribute is a map entry.\<close>

definition spec_attr :: "attribute \<Rightarrow> str option \<Rightarrow> cookie_spec option \<Rightarrow> bool \<times> cookie_spec option" where
  "spec_attr a v s =
     (case v of
        None \<Rightarrow> (True, map_option (\<lambda>c. c\<lparr>spec_attrs := (spec_attrs c)(a := None)\<rparr>) s)
      | Some w \<Rightarrow> if s \<noteq> None \<and> IsValidCookieAttributeValue w
                  then (True, map_option (\<lambda>c. c\<lparr>spec_attrs := (spec_attrs c)(a := Some w)\<rparr>) s) else (False, s))"

definition spec_first :: "cookie_spec option \<Rightarrow> cookie_spec" where
  "spec_first s = (case s of Some c \<Rightarrow> c | None \<Rightarrow> \<lparr>spec_name = [], spec_value = [], spec_attrs = Map.empty\<rparr>)"

abbreviation text_arg :: "str \<Rightarrow> str option" where
  "text_arg s \<equiv> if s = [] then None else Some s"

abbreviation flag_arg :: "bool \<Rightarrow> str option" where
  "flag_arg b \<equiv> if b then Some [] else None"

fun spec_op :: "cookie_op \<Rightarrow> cookie_spec option \<Rightarrow> bool \<times> cookie_spec option" where
  "spec_op (OpName n) s = (if IsValidToken n then (True, Some ((spec_first s)\<lparr>spec_name := n\<rparr>)) else (False, s))"
| "spec_op (OpValue v) s = (if IsValidCookieValue v then (True, Some ((spec_first s)\<lparr>spec_value := v\<rparr>)) else (False, s))"
| "spec_op (OpPath v) s = spec_attr APath (text_arg v) s"
| "spec_op (OpDomain v) s = spec_attr ADomain (text_arg v) s"
| "spec_op (OpExpires v) s = spec_attr AExpires (text_arg v) s"
| "spec_op (OpMaxAge v) s = spec_attr AMaxAge (text_arg v) s"
| "spec_op (OpPriority v) s = spec_attr APriority (text_arg v) s"
| "spec_op (OpSecure b) s = spec_attr ASecure (flag_arg b) s"
| "spec_op (OpHttpOnly b) s = spec_attr AHttpOnly (flag_arg b) s"
| "spec_op (OpFirstPartyOnly b) s = spec_attr AFirstPartyOnly (flag_arg b) s"

lemma abs_store:
  assumes "cookie_ok c"
  shows "(fst (SetAttributePair a (token_name a) v c), cookie_abs (snd (SetAttributePair a (token_name a) v c))) =
    spec_attr a (Some v) (cookie_abs c)"
proof (cases "IsValid c \<and> IsValidCookieAttributeValue v")
  case True
  then have i: "cookie_inv c" using assms by (simp add: cookie_inv_def)
  have f: "fst (SetAttributePair a (token_name a) v c)" using True by (simp add: SetAttributePair_def token_name_valid Let_def)
  have "attrs (store_attr a v c) = (attrs c)(a := Some v)"
    using attrs_store [OF i] True by (intro ext) auto
  moreover have "IsValid (store_attr a v c)" using store_inv [OF i] by (simp add: cookie_inv_def)
  ultimately show ?thesis
    using True f store_first [OF i]
    by (simp add: cookie_abs_def spec_attr_def Name_def Value_def store_attr_def [symmetric])
qed (auto simp: SetAttributePair_def spec_attr_def cookie_abs_def token_name_valid)

lemma abs_erase:
  assumes "cookie_ok c"
  shows "(True, cookie_abs (ClearAttributePair (index_of a c) c)) = spec_attr a None (cookie_abs c)"
proof (cases "IsValid c")
  case True
  then have i: "cookie_inv c" using assms by (simp add: cookie_inv_def)
  have "attrs (erase_attr a c) = (attrs c)(a := None)"
    using attrs_erase [OF i] by (intro ext) auto
  moreover have "IsValid (erase_attr a c)" using erase_inv [OF i] by (simp add: cookie_inv_def)
  ultimately show ?thesis
    using True erase_first [OF i]
    by (simp add: cookie_abs_def spec_attr_def Name_def Value_def erase_attr_def [symmetric])
next
  case False
  then have "index_of a c = 0" using cookie_okD [OF assms, of a] by (auto simp: IsValid_def)
  then show ?thesis using False by (simp add: ClearAttributePair_def spec_attr_def cookie_abs_def)
qed

lemma abs_string:
  "cookie_ok c \<Longrightarrow> (fst (SetString a (token_name a) v c), cookie_abs (snd (SetString a (token_name a) v c))) =
     spec_attr a (text_arg v) (cookie_abs c)"
  using abs_store [of c a v] abs_erase [of c a] by (simp add: SetString_def)

lemma abs_bool:
  "cookie_ok c \<Longrightarrow> (fst (SetBool a (token_name a) b c), cookie_abs (snd (SetBool a (token_name a) b c))) =
     spec_attr a (flag_arg b) (cookie_abs c)"
  using abs_store [of c a "[]"] abs_erase [of c a] by (simp add: SetBool_def)

lemma string_ok: "cookie_ok c \<Longrightarrow> cookie_ok (snd (SetString a (token_name a) v c))"
  using set_pair_ok clear_ok by (simp add: SetString_def)

lemma bool_ok: "cookie_ok c \<Longrightarrow> cookie_ok (snd (SetBool a (token_name a) b c))"
  using set_pair_ok clear_ok by (simp add: SetBool_def)

lemma first_ok:
  assumes "cookie_ok c"
  shows "cookie_ok ((with_first_pair c)\<lparr>pairs := (pairs (with_first_pair c))[0 := p]\<rparr>)"
proof -
  show ?thesis
    unfolding cookie_ok_def
  proof (intro allI impI)
    fix a
    let ?d = "(with_first_pair c)\<lparr>pairs := (pairs (with_first_pair c))[0 := p]\<rparr>"
    assume "index_of a ?d \<noteq> 0"
    then have "index_of a c \<noteq> 0" by (simp add: with_first_pair_def split: if_splits)
    from cookie_okD [OF assms this] this
    show "index_of a ?d < length (pairs ?d) \<and> fst (pairs ?d ! index_of a ?d) = token_name a"
      by (auto simp: with_first_pair_def)
  qed
qed

lemmas setters = SetCookiePath_def SetDomain_def SetExpires_def SetMaxAge_def SetPriority_def
  SetIsSecure_def SetIsHttpOnly_def SetIsFirstPartyOnly_def

lemma op_ok:
  assumes "cookie_ok c"
  shows "cookie_ok (snd (apply_op op c))"
proof (cases op)
  case (OpName s)
  then show ?thesis using first_ok [OF assms] assms by (simp add: SetName_def Let_def)
next
  case (OpValue s)
  then show ?thesis using first_ok [OF assms] assms by (simp add: SetValue_def Let_def)
qed (use string_ok [OF assms, of APath] string_ok [OF assms, of ADomain] string_ok [OF assms, of AExpires]
    string_ok [OF assms, of AMaxAge] string_ok [OF assms, of APriority] bool_ok [OF assms, of ASecure]
    bool_ok [OF assms, of AHttpOnly] bool_ok [OF assms, of AFirstPartyOnly] in \<open>simp_all add: setters\<close>)

lemma abs_first:
  assumes "cookie_ok c"
  shows "cookie_abs ((with_first_pair c)\<lparr>pairs := (pairs (with_first_pair c))[0 := p]\<rparr>) =
    Some ((spec_first (cookie_abs c))\<lparr>spec_name := fst p, spec_value := snd p\<rparr>)"
proof (cases "pairs c = []")
  case True
  then have z: "index_of a c = 0" for a using cookie_okD [OF assms, of a] by auto
  then have "attrs (c\<lparr>pairs := [p]\<rparr>) = Map.empty" by (intro ext) (simp add: attrs_def Has_def)
  then show ?thesis using True
    by (simp add: with_first_pair_def cookie_abs_def IsValid_def spec_first_def Name_def Value_def)
next
  case False
  have "attrs (c\<lparr>pairs := (pairs c)[0 := p]\<rparr>) = attrs c"
    by (intro ext) (simp add: attrs_def Has_def Attr_def)
  then show ?thesis using False
    by (simp add: with_first_pair_def cookie_abs_def IsValid_def spec_first_def Name_def Value_def)
qed

lemma first_pair: "pairs (with_first_pair c) ! 0 = (spec_name (spec_first (cookie_abs c)), spec_value (spec_first (cookie_abs c)))"
  by (simp add: with_first_pair_def cookie_abs_def IsValid_def spec_first_def Name_def Value_def)

lemma op_refines:
  assumes "cookie_ok c"
  shows "(fst (apply_op op c), cookie_abs (snd (apply_op op c))) = spec_op op (cookie_abs c)"
proof (cases op)
  case (OpName s)
  then show ?thesis using abs_first [OF assms] first_pair [of c] by (simp add: SetName_def Let_def)
next
  case (OpValue s)
  then show ?thesis using abs_first [OF assms] first_pair [of c] by (simp add: SetValue_def Let_def)
qed (use abs_string [OF assms, of APath] abs_string [OF assms, of ADomain] abs_string [OF assms, of AExpires]
    abs_string [OF assms, of AMaxAge] abs_string [OF assms, of APriority] abs_bool [OF assms, of ASecure]
    abs_bool [OF assms, of AHttpOnly] abs_bool [OF assms, of AFirstPartyOnly] in \<open>simp_all add: setters\<close>)

section \<open>Parsing a printed line\<close>

definition flag_name :: "str \<Rightarrow> bool" where
  "flag_name n \<longleftrightarrow> n = ''secure'' \<or> n = ''httponly'' \<or> n = ''first-party-only''"

text \<open>Text without control characters, semicolons and blanks at its ends.\<close>

definition field_ok :: "str \<Rightarrow> bool" where
  "field_ok t \<longleftrightarrow> IsValidCookieAttributeValue t \<and>
     (t \<noteq> [] \<longrightarrow> hd t \<noteq> CHR '' '' \<and> last t \<noteq> CHR '' '')"

definition pair_fine :: "bool \<Rightarrow> TokenValuePair \<Rightarrow> bool" where
  "pair_fine first p \<longleftrightarrow> field_ok (fst p) \<and> field_ok (snd p) \<and> CHR ''='' \<notin> set (fst p) \<and>
     (if first then \<not> flag_name (fst p)
      else map ToLowerASCII (fst p) = fst p \<and> (flag_name (fst p) \<longrightarrow> snd p = []))"

lemma attribute_chars: "IsValidCookieAttributeValue t \<longleftrightarrow> (\<forall>c\<in>set t. 32 \<le> byte c \<and> c \<noteq> CHR '';'')"
proof -
  have "32 \<le> byte c \<longleftrightarrow> \<not> byte c \<le> 31" for c by linarith
  then show ?thesis unfolding IsValidCookieAttributeValue_def IsControlCharacter_def list_ex_iff by blast
qed

lemma field_char:
  assumes "field_ok t" "c \<in> set t"
  shows "32 \<le> byte c" "c \<noteq> CHR '';''" "c \<noteq> CHR 0x00" "c \<noteq> CHR 0x09"
proof -
  show b: "32 \<le> byte c" and "c \<noteq> CHR '';''" using assms by (simp_all add: field_ok_def attribute_chars)
  show "c \<noteq> CHR 0x00" "c \<noteq> CHR 0x09" using b by auto
qed

lemma CharIsA_simps:
  "CharIsA c kWhitespace \<longleftrightarrow> c = CHR '' '' \<or> c = CHR 0x09 \<or> c = CHR 0x00"
  "CharIsA c kValueSeparator \<longleftrightarrow> c = CHR '';'' \<or> c = CHR 0x00"
  "CharIsA c kTokenSeparator \<longleftrightarrow> c = CHR '';'' \<or> c = CHR ''='' \<or> c = CHR 0x00"
  by (auto simp: CharIsA_def kWhitespace_def kValueSeparator_def kTokenSeparator_def)

lemma field_ends:
  assumes "field_ok t" "t \<noteq> []"
  shows "\<not> CharIsA (hd t) kWhitespace" "\<not> CharIsA (last t) kWhitespace"
  using assms field_char [OF assms(1) hd_in_set] field_char [OF assms(1) last_in_set]
  by (auto simp: field_ok_def CharIsA_simps)

lemma seek_blanks:
  assumes "u = pre @ lead @ t" "set lead \<subseteq> {CHR '' ''}" "t = [] \<or> \<not> CharIsA (hd t) kWhitespace"
  shows "SeekPast u (len pre) (len u) kWhitespace = len pre + len lead"
  unfolding SeekPast_def
  by (rule scan_fwd_text [OF assms(1)]) (use assms in \<open>auto simp: CharIsA_simps\<close>)

lemma back_trim:
  assumes "u = pre @ t @ rest" "field_ok t" "t \<noteq> []"
  shows "SeekBackPast u (len pre + len t - 1) (len pre) kWhitespace = len pre + len t - 1"
proof -
  have "u = (pre @ butlast t) @ last t # rest" using assms(1,3) by simp
  then have "at u (len (pre @ butlast t)) = last t" using at_sep by metis
  moreover have "len (pre @ butlast t) = len pre + len t - 1" using assms(3) by (cases t) simp_all
  ultimately have "\<not> CharIsA (at u (len pre + len t - 1)) kWhitespace" using field_ends(2) [OF assms(2,3)] by metis
  then show ?thesis unfolding SeekBackPast_def by (subst scan_back.simps) simp
qed

lemma token_at:
  assumes "u = pre @ lead @ n @ rest" "set lead \<subseteq> {CHR '' ''}" "field_ok n" "CHR ''='' \<notin> set n" "n @ rest \<noteq> []"
    "rest \<noteq> [] \<Longrightarrow> hd rest = CHR ''='' \<or> hd rest = CHR '';''"
  defines "b \<equiv> len pre + len lead"
  shows "ParseToken u (len pre) (len u) = Some (b, b + len n, b + len n)"
proof -
  have u: "u = (pre @ lead) @ n @ rest" and b: "b = len (pre @ lead)" using assms(1) by (simp_all add: b_def)
  have "n @ rest = [] \<or> \<not> CharIsA (hd (n @ rest)) kWhitespace"
  proof (cases "n = []")
    case True
    then show ?thesis using assms(5,6) by (auto simp: CharIsA_simps)
  qed (use field_ends(1) [OF assms(3)] in simp)
  from seek_blanks [OF assms(1,2) this] have s: "SeekPast u (len pre) (len u) kWhitespace = b" by (simp add: b_def)
  have "0 < length (n @ rest)" using assms(5) by blast
  then have bu: "b \<noteq> len u" unfolding u b length_append by linarith
  have t: "SeekTo u b (len u) kTokenSeparator = b + len n"
    unfolding SeekTo_def b
    by (rule scan_fwd_text [OF u]) (use assms(4,6) field_char [OF assms(3)] u in \<open>auto simp: CharIsA_simps\<close>)
  show ?thesis
  proof (cases "n = []")
    case False
    have "SeekBackPast u (b + len n - 1) b kWhitespace + 1 = b + len n"
      using back_trim [OF u assms(3) False] by (simp add: b)
    then show ?thesis using s bu t False by (simp add: ParseToken_def Let_def)
  qed (use s bu t in \<open>simp add: ParseToken_def Let_def\<close>)
qed

lemma value_at:
  assumes "u = pre @ v @ rest" "field_ok v" "rest \<noteq> [] \<Longrightarrow> hd rest = CHR '';''"
  shows "ParseValue u (len pre) (len u) = (len pre, len pre + len v, len pre + len v)"
proof -
  have s: "SeekPast u (len pre) (len u) kWhitespace = len pre"
  proof -
    have "v @ rest = [] \<or> \<not> CharIsA (hd (v @ rest)) kWhitespace"
      using field_ends(1) [OF assms(2)] assms(3) by (cases v; cases rest) (auto simp: CharIsA_simps)
    from seek_blanks [of u pre "[]", OF _ _ this] show ?thesis using assms(1) by simp
  qed
  have t: "SeekTo u (len pre) (len u) kValueSeparator = len pre + len v"
    unfolding SeekTo_def
    by (rule scan_fwd_text [OF assms(1)]) (use assms(3) field_char [OF assms(2)] assms(1) in \<open>auto simp: CharIsA_simps\<close>)
  show ?thesis
  proof (cases "v = []")
    case False
    then show ?thesis using s t back_trim [OF assms(1,2) False] by (simp add: ParseValue_def Let_def)
  qed (use s t in \<open>simp add: ParseValue_def Let_def\<close>)
qed

lemma line_piece_eq:
  "line_piece p = (if flag_name (fst p) then fst p else fst p @ CHR ''='' # snd p)"
  by (simp add: line_piece_def flag_name_def)

lemma line_piece_ne: "line_piece p \<noteq> []"
  by (auto simp: line_piece_eq flag_name_def)

lemma seg_at: "u = pre @ t @ rest \<Longrightarrow> seg u (len pre) (len pre + len t) = t"
  by (simp add: index_simps)

lemma piece_parse:
  assumes "u = pre @ lead @ line_piece p @ rest" "set lead \<subseteq> {CHR '' ''}" "rest \<noteq> [] \<Longrightarrow> hd rest = CHR '';''"
    "pair_fine (k = 0) p" "k < kMaxPairs"
  defines "e2 \<equiv> len pre + len lead + len (line_piece p)"
  shows "pairs_scan u (len u) k (len pre) acc =
    pairs_scan u (len u) (k + 1) (if e2 \<noteq> len u then e2 + 1 else e2) (acc @ [p])"
proof -
  obtain n v where p: "p = (n, v)" by fastforce
  note fine = assms(4) [unfolded pair_fine_def p fst_conv snd_conv]
  have valid: "IsValidCookieAttributeValue n" "IsValidCookieAttributeValue v" using fine by (simp_all add: field_ok_def)
  have name: "(if k \<noteq> 0 then map ToLowerASCII n else n) = n" using fine by auto
  have "0 < length (line_piece p)" using line_piece_ne by blast
  then have start: "len pre \<noteq> len u" unfolding assms(1) length_append by linarith
  let ?b = "len pre + len lead"
  have parsed: "\<exists>t it1. ParseToken u (len pre) (len u) = Some t \<and> pair_name u (len u) k t = (n, it1) \<and>
      (\<exists>vs. ParseValue u it1 (len u) = (vs, e2, e2) \<and> seg u vs e2 = v)"
  proof (cases "flag_name n")
    case True
    then have k: "k \<noteq> 0" "v = []" using fine by metis+
    have "n \<noteq> []" using True by (auto simp: flag_name_def)
    note k = k this
    have u: "u = pre @ lead @ n @ rest" using assms(1) True by (simp add: line_piece_eq p)
    have e2: "e2 = len (pre @ lead @ n)" using True by (simp add: e2_def line_piece_eq p)
    have t: "ParseToken u (len pre) (len u) = Some (?b, ?b + len n, ?b + len n)"
      by (rule token_at [OF u assms(2)]) (use fine k assms(3) in auto)
    have "?b + len n = len u \<or> at u (?b + len n) \<noteq> CHR ''=''"
    proof (cases rest)
      case (Cons c r)
      then show ?thesis using at_next [of u "pre @ lead" n c r] u assms(3) by simp
    qed (use u in simp)
    moreover have "seg u ?b (?b + len n) = n" unfolding u by (simp add: index_simps)
    ultimately have nm: "pair_name u (len u) k (?b, ?b + len n, ?b + len n) = (n, e2)"
      using k by (auto simp: pair_name_def e2)
    have "ParseValue u (len (pre @ lead @ n)) (len u) = (len (pre @ lead @ n), len (pre @ lead @ n), len (pre @ lead @ n))"
      using value_at [of u "pre @ lead @ n" "[]" rest] u assms(3) by (simp add: field_ok_def attribute_chars)
    then have "ParseValue u e2 (len u) = (e2, e2, e2) \<and> seg u e2 e2 = v" by (simp add: e2 k)
    then show ?thesis using t nm by blast
  next
    case False
    have u: "u = pre @ lead @ n @ CHR ''='' # v @ rest" using assms(1) False by (simp add: line_piece_eq p)
    have u2: "u = (pre @ lead @ n @ ''='') @ v @ rest" using u by simp
    have t: "ParseToken u (len pre) (len u) = Some (?b, ?b + len n, ?b + len n)"
      by (rule token_at [OF u assms(2)]) (use fine in auto)
    have "at u (?b + len n) = CHR ''=''" using at_next [of u "pre @ lead" n "CHR ''=''" "v @ rest"] u by simp
    moreover have "?b + len n \<noteq> len u" using u by simp
    moreover have "seg u ?b (?b + len n) = n" unfolding u by (simp add: index_simps)
    moreover have l: "len (pre @ lead @ n @ ''='') = ?b + len n + 1" by simp
    ultimately have nm: "pair_name u (len u) k (?b, ?b + len n, ?b + len n) = (n, len (pre @ lead @ n @ ''=''))"
      by (simp add: pair_name_def)
    have e2: "e2 = len (pre @ lead @ n @ ''='') + len v" using False by (simp add: e2_def line_piece_eq p)
    have "ParseValue u (len (pre @ lead @ n @ ''='')) (len u) = (len (pre @ lead @ n @ ''=''), e2, e2)"
      unfolding e2 by (rule value_at [OF u2]) (use fine assms(3) in auto)
    moreover have "seg u (len (pre @ lead @ n @ ''='')) e2 = v"
      unfolding e2 by (rule seg_at [OF u2])
    ultimately show ?thesis using t nm by blast
  qed
  then obtain t it1 vs where "ParseToken u (len pre) (len u) = Some t" "pair_name u (len u) k t = (n, it1)"
    "ParseValue u it1 (len u) = (vs, e2, e2)" "seg u vs e2 = v"
    by blast
  then show ?thesis
    using start assms(5) name valid by (subst pairs_scan.simps) (simp add: Let_def p)
qed

definition rest_text :: "TokenValuePair list \<Rightarrow> str" where
  "rest_text ps = concat (map (\<lambda>p. ''; '' @ line_piece p) ps)"

lemma rest_text_simps [simp]: "rest_text [] = []" "rest_text (p # ps) = CHR '';'' # CHR '' '' # line_piece p @ rest_text ps"
  by (simp_all add: rest_text_def)

lemma rest_text_hd: "rest_text ps \<noteq> [] \<Longrightarrow> hd (rest_text ps) = CHR '';''"
  by (cases ps) simp_all

lemma rest_parse:
  assumes "u = pre @ rest_text ps" "list_all (pair_fine False) ps" "0 < k" "k + length ps \<le> kMaxPairs"
  shows "pairs_scan u (len u) k (if len pre \<noteq> len u then len pre + 1 else len pre) acc = acc @ ps"
  using assms
proof (induction ps arbitrary: pre k acc)
  case Nil
  then show ?case by (subst pairs_scan.simps) simp
next
  case (Cons p ps)
  let ?pre = "pre @ '';''"
  have u: "u = ?pre @ '' '' @ line_piece p @ rest_text ps" using Cons.prems(1) by simp
  let ?e = "len ?pre + len '' '' + len (line_piece p)"
  let ?q = "?pre @ '' '' @ line_piece p"
  have e: "?e = len ?q" by simp
  have start: "(if len pre \<noteq> len u then len pre + 1 else len pre) = len ?pre" using u by simp
  have "pairs_scan u (len u) k (len ?pre) acc =
    pairs_scan u (len u) (k + 1) (if ?e \<noteq> len u then ?e + 1 else ?e) (acc @ [p])"
    by (rule piece_parse [OF u]) (use Cons.prems rest_text_hd in auto)
  also have "\<dots> = (acc @ [p]) @ ps"
    unfolding e by (rule Cons.IH) (use u Cons.prems(2-4) in simp_all)
  finally show ?case unfolding start by simp
qed

lemma ToCookieLine_eq:
  "ToCookieLine c = (case pairs c of [] \<Rightarrow> [] | p # ps \<Rightarrow> line_piece p @ rest_text ps)"
proof -
  have "fold (\<lambda>p out. (if out \<noteq> [] then out @ ''; '' else out) @ line_piece p) ps out = out @ rest_text ps"
    if "out \<noteq> []" for out ps
    using that by (induction ps arbitrary: out) simp_all
  then show ?thesis using line_piece_ne by (cases "pairs c") (simp_all only: ToCookieLine_def list.case fold_simps append_Nil simp_thms if_False)
qed

lemma printed_chars:
  assumes "\<forall>p\<in>set ps. field_ok (fst p) \<and> field_ok (snd p)" "c \<in> set (line_piece p)" "p \<in> set ps"
  shows "c \<notin> set kTerminator"
proof -
  have f: "field_ok (fst p)" "field_ok (snd p)" using assms(1,3) by blast+
  have "c \<in> set (fst p) \<or> c = CHR ''='' \<or> c \<in> set (snd p)" using assms(2) by (auto simp: line_piece_eq split: if_splits)
  then have "32 \<le> byte c" using field_char(1) [OF f(1)] field_char(1) [OF f(2)] by auto
  then show ?thesis by (auto simp: kTerminator_def)
qed

lemma rest_text_chars: "x \<in> set (rest_text ps) \<Longrightarrow> x = CHR '';'' \<or> x = CHR '' '' \<or> (\<exists>p\<in>set ps. x \<in> set (line_piece p))"
  by (induction ps) auto

lemma no_terminator: "(\<And>c. c \<in> set s \<Longrightarrow> c \<notin> set kTerminator) \<Longrightarrow> FindFirstTerminator s = len s"
  using scan_fwd_text [of s "[]" s "[]" "\<lambda>c. c \<notin> set kTerminator" "len s"] by (simp add: FindFirstTerminator_def)

lemma print_parse:
  assumes "pairs c = p # ps" "pair_fine True p" "list_all (pair_fine False) ps" "length (pairs c) \<le> kMaxPairs"
  shows "ParseTokenValuePairs (ToCookieLine c) = pairs c"
proof -
  let ?u = "line_piece p @ rest_text ps"
  have f: "\<forall>q\<in>set (p # ps). field_ok (fst q) \<and> field_ok (snd q)"
    using assms(2,3) by (auto simp: pair_fine_def list_all_iff)
  have "x \<notin> set kTerminator" if "x \<in> set ?u" for x
  proof -
    have sep: "CHR '';'' \<notin> set kTerminator" "CHR '' '' \<notin> set kTerminator" by (simp_all add: kTerminator_def)
    have piece: "x \<notin> set kTerminator" if "q \<in> set (p # ps)" "x \<in> set (line_piece q)" for q
      using printed_chars [OF f that(2,1)] .
    have "x \<in> set (line_piece p) \<or> x \<in> set (rest_text ps)" using that by simp
    then show ?thesis using sep piece rest_text_chars by (metis list.set_intros(1,2))
  qed
  then have e: "FindFirstTerminator ?u = len ?u" by (rule no_terminator)
  let ?e = "len (line_piece p)"
  have "pairs_scan ?u (len ?u) 0 0 [] = pairs_scan ?u (len ?u) 1 (if ?e \<noteq> len ?u then ?e + 1 else ?e) [p]"
    using piece_parse [of ?u "[]" "[]" p "rest_text ps" 0 "[]"] assms rest_text_hd [of ps]
    by (simp only: kMaxPairs_def append_Nil list.size of_nat_0 add_0 add_0_right) simp
  also have "\<dots> = [p] @ ps"
    by (rule rest_parse) (use assms in simp_all)
  finally show ?thesis using e assms(1) by (simp add: ParseTokenValuePairs_def ToCookieLine_eq)
qed

section \<open>What the parser produces\<close>

lemma seek_past: "it \<le> e \<Longrightarrow> it \<le> SeekPast s it e cs \<and> SeekPast s it e cs \<le> e \<and>
    (SeekPast s it e cs < e \<longrightarrow> \<not> CharIsA (at s (SeekPast s it e cs)) cs)"
  unfolding SeekPast_def using scan_fwd_between scan_fwd_stop by blast

lemma seek_to: "it \<le> e \<Longrightarrow> it \<le> SeekTo s it e cs \<and> SeekTo s it e cs \<le> e \<and>
    (\<forall>k. it \<le> k \<longrightarrow> k < SeekTo s it e cs \<longrightarrow> \<not> CharIsA (at s k) cs)"
  unfolding SeekTo_def using scan_fwd_between scan_fwd_run by blast

text \<open>The text between a first position that is no blank and the result of the backward loop.\<close>

lemma trimmed_seg:
  assumes "0 \<le> b" "b < m" "m \<le> len s" "\<not> CharIsA (at s b) kWhitespace"
  defines "j \<equiv> SeekBackPast s (m - 1) b kWhitespace + 1"
  shows "b < j" "j \<le> m" "hd (seg s b j) \<noteq> CHR '' ''" "last (seg s b j) \<noteq> CHR '' ''"
proof -
  have k: "b \<le> j - 1" "j - 1 \<le> m - 1"
    using scan_back_between [of b "m - 1" "\<lambda>c. CharIsA c kWhitespace" s] assms(2) by (simp_all add: j_def SeekBackPast_def)
  then show j: "b < j" "j \<le> m" by simp_all
  have "\<not> CharIsA (at s (j - 1)) kWhitespace"
  proof (cases "b < j - 1")
    case True
    then show ?thesis using scan_back_stop [of b "\<lambda>c. CharIsA c kWhitespace" s "m - 1"] by (simp add: j_def SeekBackPast_def)
  next
    case False
    then have "j - 1 = b" using k by simp
    then show ?thesis using assms(4) by simp
  qed
  then have "at s b \<noteq> CHR '' ''" "at s (j - 1) \<noteq> CHR '' ''" using assms(4) by (auto simp: CharIsA_simps)
  moreover have "seg s b j = at s b # seg s (b + 1) j" "seg s b j = seg s b (j - 1) @ [at s (j - 1)]"
    using seg_Cons [of b j s] seg_snoc [of b j s] assms(1,3) j by simp_all
  ultimately show "hd (seg s b j) \<noteq> CHR '' ''" "last (seg s b j) \<noteq> CHR '' ''" by (metis list.sel(1), metis last_snoc)
qed

lemma token_seg:
  assumes "ParseToken s it e = Some (b, te, re)" "0 \<le> it" "it \<le> e" "e \<le> len s"
  shows "it \<le> b" "b \<le> te" "te \<le> re" "re \<le> e" "b < e" "CHR ''='' \<notin> set (seg s b te)"
    "seg s b te \<noteq> [] \<Longrightarrow> hd (seg s b te) \<noteq> CHR '' '' \<and> last (seg s b te) \<noteq> CHR '' ''"
proof -
  have b: "b = SeekPast s it e kWhitespace" "b \<noteq> e" and re: "re = SeekTo s b e kTokenSeparator"
    and te: "te = (if re \<noteq> b then SeekBackPast s (re - 1) b kWhitespace + 1 else re)"
    using assms(1) by (auto simp: ParseToken_def Let_def split: if_splits)
  have b2: "it \<le> b" "b < e" "\<not> CharIsA (at s b) kWhitespace" using seek_past [OF assms(3), of s kWhitespace] b by auto
  have r: "b \<le> re" "re \<le> e" "\<And>k. b \<le> k \<Longrightarrow> k < re \<Longrightarrow> \<not> CharIsA (at s k) kTokenSeparator"
    using seek_to [of b e s kTokenSeparator] b2 re by auto
  have t: "b \<le> te" "te \<le> re" "seg s b te \<noteq> [] \<longrightarrow> hd (seg s b te) \<noteq> CHR '' '' \<and> last (seg s b te) \<noteq> CHR '' ''"
    using trimmed_seg [of b re s] assms(2,4) b2 r te by (cases "re = b"; force)+
  show "it \<le> b" "b \<le> te" "te \<le> re" "re \<le> e" "b < e"
    "seg s b te \<noteq> [] \<Longrightarrow> hd (seg s b te) \<noteq> CHR '' '' \<and> last (seg s b te) \<noteq> CHR '' ''"
    using b2 r t by auto
  show "CHR ''='' \<notin> set (seg s b te)"
  proof
    assume "CHR ''='' \<in> set (seg s b te)"
    then obtain k where "b \<le> k" "k < te" "at s k = CHR ''=''"
      using in_set_seg [of "CHR ''=''" s b te] assms(2,4) b2 r t by auto
    then show False using r(3) [of k] t(2) by (simp add: CharIsA_simps)
  qed
qed

lemma value_seg:
  assumes "ParseValue s it e = (vs, ve, it2)" "0 \<le> it" "it \<le> e" "e \<le> len s"
  shows "it2 \<le> e" "it \<le> it2" "seg s vs ve \<noteq> [] \<Longrightarrow> hd (seg s vs ve) \<noteq> CHR '' '' \<and> last (seg s vs ve) \<noteq> CHR '' ''"
proof -
  have vs: "vs = SeekPast s it e kWhitespace" and i2: "it2 = SeekTo s vs e kValueSeparator"
    and ve: "ve = (if it2 \<noteq> vs then SeekBackPast s (it2 - 1) vs kWhitespace + 1 else it2)"
    using assms(1) by (auto simp: ParseValue_def Let_def)
  have v: "it \<le> vs" "vs \<le> e" "vs < e \<Longrightarrow> \<not> CharIsA (at s vs) kWhitespace" using seek_past [OF assms(3), of s kWhitespace] vs by auto
  have i: "vs \<le> it2" "it2 \<le> e" using seek_to [OF v(2)] i2 by auto
  then show "it2 \<le> e" "it \<le> it2" using v by simp_all
  show "hd (seg s vs ve) \<noteq> CHR '' '' \<and> last (seg s vs ve) \<noteq> CHR '' ''" if n: "seg s vs ve \<noteq> []"
  proof (cases "it2 = vs")
    case True
    then show ?thesis using n ve by simp
  next
    case False
    then show ?thesis using trimmed_seg(3,4) [of vs it2 s] assms(2,4) v i ve by simp
  qed
qed

definition pairs_fine :: "TokenValuePair list \<Rightarrow> bool" where
  "pairs_fine ps \<longleftrightarrow> list_all (\<lambda>p. field_ok (fst p) \<and> field_ok (snd p) \<and> CHR ''='' \<notin> set (fst p)) ps \<and>
     list_all (\<lambda>p. map ToLowerASCII (fst p) = fst p) (tl ps)"

lemma lower_char: "ToLowerASCII c = CHR '' '' \<longleftrightarrow> c = CHR '' ''" "ToLowerASCII c = CHR ''='' \<longleftrightarrow> c = CHR ''=''"
  by (auto simp: char_eq_byte byte_ToLower simp del: of_char_eq_iff)

lemma lower_free: "CHR ''='' \<notin> set n \<Longrightarrow> CHR ''='' \<notin> set (map ToLowerASCII n)"
  by (simp add: image_iff) (metis lower_char(2))

lemma pairs_scan_fine:
  assumes "0 \<le> it" "it \<le> e" "e \<le> len s" "k = length acc" "k \<le> kMaxPairs" "pairs_fine acc"
  shows "pairs_fine (pairs_scan s e k it acc) \<and> length (pairs_scan s e k it acc) \<le> kMaxPairs"
  using assms
proof (induction s e k it acc rule: pairs_scan.induct)
  case (1 s e k it acc)
  show ?case
  proof (cases "k < kMaxPairs \<and> it \<noteq> e \<and> ParseToken s it e \<noteq> None")
    case False
    then have "pairs_scan s e k it acc = acc"
      by (subst pairs_scan.simps) (cases "ParseToken s it e"; auto)
    then show ?thesis using "1.prems" by simp
  next
    case True
    then obtain b te re where t: "ParseToken s it e = Some (b, te, re)" by (metis not_None_eq prod_cases3)
    obtain n it1 where n: "pair_name s e k (b, te, re) = (n, it1)" by fastforce
    obtain vs ve it2 where v: "ParseValue s it1 e = (vs, ve, it2)" by (metis prod_cases3)
    note tk = token_seg [OF t "1.prems"(1-3)]
    have name: "CHR ''='' \<notin> set n" "n \<noteq> [] \<Longrightarrow> hd n \<noteq> CHR '' '' \<and> last n \<noteq> CHR '' ''" and it1: "0 \<le> it1" "it1 \<le> e"
      using n tk "1.prems"(1) by (auto simp: pair_name_def split: if_splits)
    note val = value_seg [OF v it1 "1.prems"(3)]
    let ?n = "if k \<noteq> 0 then map ToLowerASCII n else n"
    let ?v = "seg s vs ve"
    have step: "pairs_scan s e k it acc =
      (if \<not> IsValidCookieAttributeValue ?n \<or> \<not> IsValidCookieAttributeValue ?v then []
       else pairs_scan s e (k + 1) (if it2 \<noteq> e then it2 + 1 else it2) (acc @ [(?n, ?v)]))"
      using True by (subst pairs_scan.simps) (simp add: t n v Let_def)
    show ?thesis
    proof (cases "IsValidCookieAttributeValue ?n \<and> IsValidCookieAttributeValue ?v")
      case False
      then show ?thesis unfolding step by (auto simp: pairs_fine_def)
    next
      case valid: True
      have "?n \<noteq> [] \<Longrightarrow> hd ?n \<noteq> CHR '' '' \<and> last ?n \<noteq> CHR '' ''"
        using name(2) by (auto simp: hd_map last_map lower_char)
      then have f: "field_ok ?n" "field_ok ?v" unfolding field_ok_def using valid val(3) by (blast, blast)
      have "CHR ''='' \<notin> set ?n" using name(1) lower_free by simp
      then have fine: "pairs_fine (acc @ [(?n, ?v)])"
        using f "1.prems"(4,6) by (cases acc) (auto simp: pairs_fine_def)
      have "pairs_fine (pairs_scan s e (k + 1) (if it2 \<noteq> e then it2 + 1 else it2) (acc @ [(?n, ?v)])) \<and>
          length (pairs_scan s e (k + 1) (if it2 \<noteq> e then it2 + 1 else it2) (acc @ [(?n, ?v)])) \<le> kMaxPairs"
        by (rule "1.IH" [OF _ t n [symmetric] refl v [symmetric] refl refl refl])
          (use True n v valid val it1 fine "1.prems"(3-5) in \<open>simp_all split: if_splits\<close>)
      then show ?thesis unfolding step using valid by simp
    qed
  qed
qed

lemma terminator_bounds: "0 \<le> FindFirstTerminator s" "FindFirstTerminator s \<le> len s"
  unfolding FindFirstTerminator_def using scan_fwd_between [of 0 "len s" "\<lambda>c. c \<notin> set kTerminator" s] by simp_all

lemma parsed_pairs: "pairs_fine (ParseTokenValuePairs line)" "length (ParseTokenValuePairs line) \<le> kMaxPairs"
  using pairs_scan_fine [of 0 "FindFirstTerminator line" line 0 "[]"] terminator_bounds [of line]
  by (simp_all add: ParseTokenValuePairs_def pairs_fine_def)

lemma parsed_cases:
  "pairs (ParseCookie line) = [] \<or>
   pairs (ParseCookie line) = ParseTokenValuePairs line \<and>
   ParseCookie line = SetupAttributes (empty_cookie\<lparr>pairs := ParseTokenValuePairs line\<rparr>) \<and>
   ParseTokenValuePairs line \<noteq> []"
  by (auto simp: ParseCookie_def Let_def SetupAttributes_def)

section \<open>Theorems\<close>

text \<open>
  C19. Members of a cookie object: whatever line it was parsed from and whatever setters were
  called, an index member is zero, or it is the position of an existing pair whose name is
  that of the attribute, so no reader leaves the pairs.
\<close>

theorem cookie_members_valid:
  fixes line :: str and ops :: "cookie_op list" and a :: attribute
  defines "c \<equiv> fold (\<lambda>op c. snd (apply_op op c)) ops (ParseCookie line)"
  shows "index_of a c = 0 \<or> index_of a c < length (pairs c) \<and> fst (pairs c ! index_of a c) = token_name a"
proof -
  have "cookie_ok (fold (\<lambda>op c. snd (apply_op op c)) ops d)" if "cookie_ok d" for d
    using that by (induction ops arbitrary: d) (simp_all add: op_ok)
  then show ?thesis using parsed_ok cookie_okD [of c a] by (auto simp: c_def)
qed

text \<open>
  C5. Refinement: a cookie object behaves as a record of a name, a value and a partial map
  of attributes.  Every sequence of setters applied to a parsed cookie has the effect, and
  every further setter the result, that the same sequence has on the record.
\<close>

theorem cookie_refines_map:
  fixes line :: str and ops :: "cookie_op list" and op :: cookie_op
  defines "c \<equiv> fold (\<lambda>op c. snd (apply_op op c)) ops (ParseCookie line)"
    and "s \<equiv> fold (\<lambda>op s. snd (spec_op op s)) ops (cookie_abs (ParseCookie line))"
  shows "cookie_abs c = s \<and> fst (apply_op op c) = fst (spec_op op s)"
proof -
  have run: "cookie_ok (fold (\<lambda>op c. snd (apply_op op c)) ops d) \<and>
      cookie_abs (fold (\<lambda>op c. snd (apply_op op c)) ops d) = fold (\<lambda>op s. snd (spec_op op s)) ops (cookie_abs d)"
    if "cookie_ok d" for d
    using that
  proof (induction ops arbitrary: d)
    case (Cons op ops)
    have "cookie_abs (snd (apply_op op d)) = snd (spec_op op (cookie_abs d))"
      using op_refines [OF Cons.prems, of op] by (metis snd_conv)
    then show ?case using Cons.IH [OF op_ok [OF Cons.prems]] by simp
  qed simp
  from run [OF parsed_ok [of line]] have r: "cookie_ok c" "cookie_abs c = s" by (simp_all add: c_def s_def)
  then show ?thesis using op_refines [OF r(1), of op] by (metis fst_conv)
qed

text \<open>
  C31. The type of a parsed line: at most 16 pairs; names and values without control
  characters, semicolons and blanks at their ends; names without equals signs; and the names
  of the attributes in lower case.
\<close>

theorem parsed_cookie_fields:
  fixes line :: str
  defines "ps \<equiv> pairs (ParseCookie line)"
  shows "length ps \<le> 16 \<and>
    list_all (\<lambda>p. list_all (\<lambda>c. 32 \<le> byte c \<and> c \<noteq> CHR '';'') (fst p @ snd p) \<and> CHR ''='' \<notin> set (fst p)) ps \<and>
    list_all (\<lambda>p. map ToLowerASCII (fst p) = fst p) (tl ps)"
proof -
  have "pairs_fine ps \<and> length ps \<le> kMaxPairs"
    using parsed_cases [of line] parsed_pairs [of line] by (auto simp: ps_def pairs_fine_def)
  then show ?thesis
    by (auto simp: pairs_fine_def field_ok_def attribute_chars list_all_iff kMaxPairs_def)
qed

text \<open>
  C25. Round trip: printing a parsed cookie and parsing the line gives the same object,
  provided that its name is not that of a flag attribute, its flags carry no values and the
  printed line, which may be longer than the original, is within the size limit.
\<close>

theorem cookie_line_round_trip:
  assumes "IsValid (ParseCookie line)" "\<not> flag_name (Name (ParseCookie line))"
    "list_all (\<lambda>p. flag_name (fst p) \<longrightarrow> snd p = []) (tl (pairs (ParseCookie line)))"
    "length (ToCookieLine (ParseCookie line)) \<le> kMaxCookieSize"
  shows "ParseCookie (ToCookieLine (ParseCookie line)) = ParseCookie line"
proof -
  let ?c = "ParseCookie line"
  have p: "pairs ?c = ParseTokenValuePairs line" "?c = SetupAttributes (empty_cookie\<lparr>pairs := pairs ?c\<rparr>)"
    using parsed_cases [of line] assms(1) by (auto simp: IsValid_def)
  obtain q ps where q: "pairs ?c = q # ps" using assms(1) by (auto simp: IsValid_def neq_Nil_conv)
  have fine: "pairs_fine (q # ps)" "length (pairs ?c) \<le> kMaxPairs" using parsed_pairs [of line] p(1) q by simp_all
  have "ParseTokenValuePairs (ToCookieLine ?c) = pairs ?c"
    by (rule print_parse [OF q _ _ fine(2)])
      (use fine(1) assms(2,3) q in \<open>auto simp: pairs_fine_def pair_fine_def list_all_iff Name_def\<close>)
  then show ?thesis using assms(1,4) p(2) by (simp add: ParseCookie_def [of "ToCookieLine ?c"] IsValid_def)
qed

theorem cookie_line_round_trip_witness:
  "ParseCookie ''a=b c; path=/x; secure; foo='' = ParseCookie '' a =b c ;Path=/x; SECURE ;foo''"
proof -
  let ?l = "'' a =b c ;Path=/x; SECURE ;foo''"
  have l: "ToCookieLine (ParseCookie ?l) = ''a=b c; path=/x; secure; foo=''" by code_simp
  have "ParseCookie (ToCookieLine (ParseCookie ?l)) = ParseCookie ?l"
    by (rule cookie_line_round_trip; code_simp)
  then show ?thesis unfolding l .
qed

text \<open>
  A cookie named like a flag loses its value when it is printed: the line of
  \<open>secure=1\<close> is \<open>secure\<close>, which is read back as a cookie without a name.
\<close>

theorem flag_named_cookie_lost:
  "Name (ParseCookie ''secure=1'') = ''secure'' \<and> Value (ParseCookie ''secure=1'') = ''1'' \<and>
   ToCookieLine (ParseCookie ''secure=1'') = ''secure'' \<and>
   Name (ParseCookie ''secure'') = [] \<and> Value (ParseCookie ''secure'') = ''secure''"
  by (intro conjI; code_simp)

text \<open>
  Clearing an attribute that the line gave twice leaves the first occurrence in the
  pairs: the object reports that the path is gone, but the printed line sets it again.
\<close>

theorem cleared_path_comes_back:
  "let c = snd (SetCookiePath [] (ParseCookie ''a=b; path=/x; path=/y''))
   in \<not> Has APath c \<and> ToCookieLine c = ''a=b; path=/x'' \<and>
      Has APath (ParseCookie (ToCookieLine c)) \<and> Attr APath (ParseCookie (ToCookieLine c)) = ''/x''"
  unfolding Let_def by (intro conjI; code_simp)

end
