(* ===== verification/Bk_Url.thy ===== *)
theory Bk_Url
  imports Url_Util
begin

text \<open>
  \<open>blinkit/common/bk_url.cpp\<close>: the URL class of the crawler.  A \<open>BkURL\<close> made from a string
  keeps the string as it is and the components that the standard parser finds in it; only
  \<open>Resolve\<close> canonicalizes.
\<close>

record BkURL =
  m_isValid :: bool
  m_string :: str
  m_parsed :: parsed

definition empty_url :: BkURL where
  "empty_url = \<lparr>m_isValid = False, m_string = [], m_parsed = to_parsed no_parts None\<rparr>"

definition MakeBkURL :: "str \<Rightarrow> BkURL" where
  "MakeBkURL URLString =
     (let parsed = to_parsed (ParseStandardURL URLString (len URLString)) None
      in \<lparr>m_isValid = is_valid (p_scheme parsed), m_string = URLString, m_parsed = parsed\<rparr>)"

text \<open>\<open>ComponentString\<close> and \<open>ComponentStringView\<close>, and the accessors that return them.\<close>

definition ComponentString :: "BkURL \<Rightarrow> component \<Rightarrow> str" where
  "ComponentString u c = (if is_nonempty c then component_str (m_string u) c else [])"

definition Scheme :: "BkURL \<Rightarrow> str" where "Scheme u = ComponentString u (p_scheme (m_parsed u))"
definition Host :: "BkURL \<Rightarrow> str" where "Host u = ComponentString u (p_host (m_parsed u))"
definition Username :: "BkURL \<Rightarrow> str" where "Username u = ComponentString u (p_username (m_parsed u))"
definition Password :: "BkURL \<Rightarrow> str" where "Password u = ComponentString u (p_password (m_parsed u))"
definition Path :: "BkURL \<Rightarrow> str" where "Path u = ComponentString u (p_path (m_parsed u))"
definition HasRef :: "BkURL \<Rightarrow> bool" where "HasRef u \<longleftrightarrow> is_nonempty (p_ref (m_parsed u))"
definition IsEmpty :: "BkURL \<Rightarrow> bool" where "IsEmpty u \<longleftrightarrow> m_string u = []"

definition SchemeIs :: "BkURL \<Rightarrow> str \<Rightarrow> bool" where
  "SchemeIs u scheme \<longleftrightarrow> ComponentString u (p_scheme (m_parsed u)) = scheme"

definition SchemeIsData :: "BkURL \<Rightarrow> bool" where "SchemeIsData u = SchemeIs u ''data''"
definition SchemeIsFile :: "BkURL \<Rightarrow> bool" where "SchemeIsFile u = SchemeIs u ''file''"

definition SchemeIsHTTPOrHTTPS :: "BkURL \<Rightarrow> bool" where
  "SchemeIsHTTPOrHTTPS u \<longleftrightarrow> SchemeIs u ''http'' \<or> SchemeIs u ''https''"

definition EffectiveIntPort :: "BkURL \<Rightarrow> int" where
  "EffectiveIntPort u =
     (if is_nonempty (p_port (m_parsed u)) then ParsePort (m_string u) (p_port (m_parsed u))
      else if SchemeIs u ''http'' then 80
      else if SchemeIs u ''https'' then 443
      else PORT_UNSPECIFIED)"

definition PathForRequest :: "BkURL \<Rightarrow> str" where
  "PathForRequest u =
     (let path = p_path (m_parsed u); query = p_query (m_parsed u); ref = p_ref (m_parsed u)
      in if is_valid ref then seg (m_string u) (c_begin path) (c_begin path + (c_begin ref - c_begin path - 1))
         else if \<not> is_valid path then ''/''
         else let pathLen = (if is_valid query then c_end query - c_begin path else c_len path)
              in seg (m_string u) (c_begin path) (c_begin path + pathLen))"

text \<open>The output of \<open>Resolve\<close> starts empty; a null charset converter stands for UTF-8.\<close>

definition Resolve :: "schemes \<Rightarrow> BkURL \<Rightarrow> str \<Rightarrow> BkURL" where
  "Resolve schemes u relative =
     (if \<not> m_isValid u then empty_url
      else let (ok, parsed, out) =
                 ResolveRelative schemes (m_string u) (m_parsed u) relative None [] (m_parsed empty_url)
           in if \<not> ok then empty_url else \<lparr>m_isValid = True, m_string = out, m_parsed = parsed\<rparr>)"

text \<open>The branches that would drop credentials and fragments are assertions that release builds leave out.\<close>

definition StrippedForUseAsHref :: "BkURL \<Rightarrow> str" where "StrippedForUseAsHref u = m_string u"

definition StrippedForUseAsReferrer :: "BkURL \<Rightarrow> str" where
  "StrippedForUseAsReferrer u = (if \<not> SchemeIsHTTPOrHTTPS u then [] else m_string u)"

definition StripFragmentIdentifier :: "BkURL \<Rightarrow> BkURL" where "StripFragmentIdentifier u = u"

definition EqualIgnoringFragmentIdentifier :: "BkURL \<Rightarrow> BkURL \<Rightarrow> bool" where
  "EqualIgnoringFragmentIdentifier a b =
     (let al = (if c_len (p_ref (m_parsed a)) \<ge> 0 then c_begin (p_ref (m_parsed a)) - 1 else len (m_string a));
          bl = (if c_len (p_ref (m_parsed b)) \<ge> 0 then c_begin (p_ref (m_parsed b)) - 1 else len (m_string b))
      in if al \<noteq> bl then False else list_all (\<lambda>i. at (m_string a) i = at (m_string b) i) [0..al - 1])"

end
