(* ===== verification/Http_Message.thy ===== *)
theory Http_Message
  imports Base_String_Edit Dictionary Bk_Url
begin

text \<open>
  HTTP messages: the header map (\<open>bk_http_header_map.cpp\<close>), responses
  (\<open>response_impl.cpp\<close>), the state of requests (\<open>request_impl.cpp\<close>, \<open>curl_request.cpp\<close>) and
  the reading of content types (\<open>net/http/http_util.cpp\<close>).
\<close>

datatype BkError =
  BK_ERR_SUCCESS | BK_ERR_UNKNOWN | BK_ERR_FORBIDDEN | BK_ERR_NOT_FOUND | BK_ERR_NETWORK |
  BK_ERR_CANCELLED | BK_ERR_EXCEPTION | BK_ERR_EVAL | BK_ERR_RANGE | BK_ERR_REFERENCE |
  BK_ERR_SYNTAX | BK_ERR_TYPE | BK_ERR_URI

section \<open>Header maps\<close>

text \<open>The \<open>unordered_map\<close> of canonical names to values.\<close>

type_synonym BkHTTPHeaderMap = "str \<rightharpoonup> str"

definition CRLF :: str where "CRLF = [CHR 0x0D, CHR 0x0A]"

definition Clear :: BkHTTPHeaderMap where "Clear = Map.empty"

fun canonize_chars :: "bool \<Rightarrow> str \<Rightarrow> str" where
  "canonize_chars upperNext [] = []"
| "canonize_chars upperNext (ch # ret) =
     (let (ch, upperNext) = (if upperNext then (ToUpperASCII ch, False) else (ToLowerASCII ch, upperNext))
      in ch # canonize_chars (if ch = CHR ''-'' then True else upperNext) ret)"

definition CanonizeHeaderName :: "str \<Rightarrow> str" where
  "CanonizeHeaderName header =
     (if EqualsCaseInsensitiveASCII header ''ETag'' then ''ETag'' else canonize_chars True header)"

definition HeaderGet :: "BkHTTPHeaderMap \<Rightarrow> str \<Rightarrow> str" where
  "HeaderGet m_headers name =
     (case m_headers (CanonizeHeaderName name) of None \<Rightarrow> [] | Some val \<Rightarrow> val)"

definition HeaderSet :: "str \<Rightarrow> str \<Rightarrow> BkHTTPHeaderMap \<Rightarrow> BkHTTPHeaderMap" where
  "HeaderSet name val m_headers = m_headers(CanonizeHeaderName name \<mapsto> val)"

definition HeaderRemove :: "str \<Rightarrow> BkHTTPHeaderMap \<Rightarrow> BkHTTPHeaderMap" where
  "HeaderRemove name m_headers = m_headers(name := None)"

text \<open>The entries come in the order in which the map iterates over them.\<close>

definition GetAllForRequest :: "(str \<times> str) list \<Rightarrow> str" where
  "GetAllForRequest entries = fold (\<lambda>(k, v) ret. (((ret @ k) @ '': '') @ v) @ CRLF) entries []"

section \<open>Responses\<close>

record ResponseImpl =
  m_originURL :: str
  m_URL :: str
  m_errorCode :: BkError
  m_statusCode :: int
  m_headers :: BkHTTPHeaderMap
  m_cookies :: "str list"
  m_body :: str

definition MakeResponse :: "str \<Rightarrow> ResponseImpl" where
  "MakeResponse URL = \<lparr>m_originURL = URL, m_URL = URL, m_errorCode = BK_ERR_SUCCESS, m_statusCode = 0,
     m_headers = Clear, m_cookies = [], m_body = []\<rparr>"

definition AppendData :: "str \<Rightarrow> ResponseImpl \<Rightarrow> ResponseImpl" where
  "AppendData dat r = r\<lparr>m_body := m_body r @ dat\<rparr>"

definition AppendHeader :: "str \<Rightarrow> str \<Rightarrow> ResponseImpl \<Rightarrow> ResponseImpl" where
  "AppendHeader name val r = r\<lparr>m_headers := HeaderSet name val (m_headers r)\<rparr>"

text \<open>The readers return an error code and what is put into the buffer.\<close>

definition GetCookie :: "nat \<Rightarrow> ResponseImpl \<Rightarrow> BkError \<times> str option" where
  "GetCookie index r =
     (if length (m_cookies r) \<le> index then (BK_ERR_NOT_FOUND, None)
      else (BK_ERR_SUCCESS, Some (m_cookies r ! index)))"

definition CookiesCount :: "ResponseImpl \<Rightarrow> nat" where "CookiesCount r = length (m_cookies r)"

definition BK_RE_CURRENT_URL :: int where "BK_RE_CURRENT_URL = 0"
definition BK_RE_ORIGINAL_URL :: int where "BK_RE_ORIGINAL_URL = 1"
definition BK_RE_BODY :: int where "BK_RE_BODY = 2"

definition GetData :: "int \<Rightarrow> ResponseImpl \<Rightarrow> BkError \<times> str option" where
  "GetData dat r =
     (if dat = BK_RE_CURRENT_URL then (BK_ERR_SUCCESS, Some (m_URL r))
      else if dat = BK_RE_ORIGINAL_URL then (BK_ERR_SUCCESS, Some (m_originURL r))
      else if dat = BK_RE_BODY then (BK_ERR_SUCCESS, Some (m_body r))
      else (BK_ERR_NOT_FOUND, None))"

definition GetHeader :: "str \<Rightarrow> ResponseImpl \<Rightarrow> BkError \<times> str option" where
  "GetHeader name r =
     (let ret = HeaderGet (m_headers r) name
      in if ret = [] then (BK_ERR_NOT_FOUND, None) else (BK_ERR_SUCCESS, Some ret))"

text \<open>A null body keeps the bytes that \<open>resize\<close> leaves.\<close>

definition Hijack :: "str option \<Rightarrow> nat \<Rightarrow> ResponseImpl \<Rightarrow> ResponseImpl" where
  "Hijack newBody n r =
     (let body = str_resize (m_body r) n
      in r\<lparr>m_body := (case newBody of Some b \<Rightarrow> take n b | None \<Rightarrow> body)\<rparr>)"

definition ResetForRedirection :: "ResponseImpl \<Rightarrow> ResponseImpl" where
  "ResetForRedirection r =
     r\<lparr>m_errorCode := BK_ERR_SUCCESS, m_statusCode := 0, m_headers := Clear, m_cookies := [], m_body := []\<rparr>"

text \<open>The result is the URL that is left behind.\<close>

definition ResolveRedirection :: "schemes \<Rightarrow> ResponseImpl \<Rightarrow> str \<times> ResponseImpl" where
  "ResolveRedirection schemes r =
     (let location = HeaderGet (m_headers r) ''Location''
      in if location \<noteq> [] then (m_URL r, r\<lparr>m_URL := m_string (Resolve schemes (MakeBkURL (m_URL r)) location)\<rparr>)
         else ([], r))"

text \<open>
  The search for \<open>HTTP\/[\d+\.]+\s+(\d+)\<close>: the length of the match and its group.  The
  classes of neighbouring parts are disjoint, so the greedy choice is the only one.
\<close>

definition is_space :: "char \<Rightarrow> bool" where
  "is_space c \<longleftrightarrow> c \<in> {CHR '' '', CHR 0x09, CHR 0x0A, CHR 0x0B, CHR 0x0C, CHR 0x0D}"

definition version_char :: "char \<Rightarrow> bool" where
  "version_char c \<longleftrightarrow> is_digit c \<or> c = CHR ''+'' \<or> c = CHR ''.''"

definition status_at :: "str \<Rightarrow> (nat \<times> str) option" where
  "status_at s =
     (let version = takeWhile version_char (drop 5 s);
          s1 = dropWhile version_char (drop 5 s);
          space = takeWhile is_space s1;
          code = takeWhile is_digit (dropWhile is_space s1)
      in if take 5 s = ''HTTP/'' \<and> version \<noteq> [] \<and> space \<noteq> [] \<and> code \<noteq> []
         then Some (5 + length version + length space + length code, code) else None)"

fun search_status :: "str \<Rightarrow> (nat \<times> str) option" where
  "search_status [] = status_at []"
| "search_status (c # s) = (case status_at (c # s) of Some m \<Rightarrow> Some m | None \<Rightarrow> search_status s)"

text \<open>\<open>std::stoi\<close> of digits throws when the value is no \<open>int\<close>.\<close>

definition stoi :: "str \<Rightarrow> int option" where
  "stoi digits =
     (let n = fold (\<lambda>c n. n * 10 + int (byte c - byte CHR ''0'')) digits 0
      in if n \<le> 2147483647 then Some n else None)"

text \<open>The body of the loop over the key and value pairs; a C string ends at its first null character.\<close>

definition add_header :: "str \<times> str \<Rightarrow> ResponseImpl \<Rightarrow> ResponseImpl" where
  "add_header kv r =
     (let k = snd (TrimWhitespaceASCII (fst kv) TRIM_ALL); v = snd (TrimWhitespaceASCII (snd kv) TRIM_ALL)
      in if EqualsCaseInsensitiveASCII (takeWhile (\<lambda>c. c \<noteq> CHR 0x00) k) ''Set-Cookie''
         then r\<lparr>m_cookies := m_cookies r @ [v]\<rparr>
         else r\<lparr>m_headers := HeaderSet k v (m_headers r)\<rparr>)"

text \<open>\<open>None\<close> when an exception leaves the function.\<close>

definition ParseHeaders :: "str \<Rightarrow> ResponseImpl \<Rightarrow> ResponseImpl option" where
  "ParseHeaders rawHeaders r =
     (case search_status rawHeaders of
        None \<Rightarrow> Some r
      | Some (match_length, code) \<Rightarrow>
          (case stoi code of
             None \<Rightarrow> None
           | Some status \<Rightarrow>
               let r = r\<lparr>m_statusCode := status\<rparr>
               in case find_first_of rawHeaders [CHR 0x0A] match_length of
                    None \<Rightarrow> Some r
                  | Some p \<Rightarrow>
                      let (ok, headers) = SplitStringIntoKeyValuePairs (drop (p + 1) rawHeaders) CHR '':'' CHR 0x0A
                      in if \<not> ok then Some r else Some (fold add_header headers r)))"

section \<open>Requests\<close>

record RequestImpl =
  r_URL :: str
  r_method :: str
  r_headers :: BkHTTPHeaderMap
  r_body :: str
  r_refCount :: nat
  r_timeoutInMs :: "64 word"
  r_proxy :: "str option"

definition DefaultTimeoutInMs :: "64 word" where "DefaultTimeoutInMs = 30000"

definition MakeRequest :: "str \<Rightarrow> RequestImpl" where
  "MakeRequest URL = \<lparr>r_URL = URL, r_method = ''GET'', r_headers = HeaderSet ''Accept'' ''*/*'' Clear,
     r_body = [], r_refCount = 1, r_timeoutInMs = DefaultTimeoutInMs, r_proxy = None\<rparr>"

definition SetMethod :: "str \<Rightarrow> RequestImpl \<Rightarrow> RequestImpl" where "SetMethod m q = q\<lparr>r_method := m\<rparr>"
definition SetHeaders :: "BkHTTPHeaderMap \<Rightarrow> RequestImpl \<Rightarrow> RequestImpl" where "SetHeaders h q = q\<lparr>r_headers := h\<rparr>"

definition SetHeader :: "str \<Rightarrow> str \<Rightarrow> RequestImpl \<Rightarrow> RequestImpl" where
  "SetHeader name val q = q\<lparr>r_headers := HeaderSet name val (r_headers q)\<rparr>"

definition SetBody :: "str \<Rightarrow> RequestImpl \<Rightarrow> RequestImpl" where "SetBody dat q = q\<lparr>r_body := dat\<rparr>"

text \<open>The product is computed on the caller's 32 bits before it is widened.\<close>

definition SetTimeout :: "32 word \<Rightarrow> RequestImpl \<Rightarrow> RequestImpl" where
  "SetTimeout timeout q = q\<lparr>r_timeoutInMs := ucast (timeout * 1000)\<rparr>"

text \<open>Both branches go through the pointer of an optional; it is undefined without a value: \<open>None\<close>.\<close>

definition SetProxy :: "str option \<Rightarrow> RequestImpl \<Rightarrow> RequestImpl option" where
  "SetProxy proxy q =
     (case r_proxy q of
        None \<Rightarrow> None
      | Some old \<Rightarrow> Some (q\<lparr>r_proxy := Some (case proxy of None \<Rightarrow> [] | Some p \<Rightarrow> p)\<rparr>))"

text \<open>\<open>Release\<close>: whether the object is deleted.\<close>

definition Release :: "RequestImpl \<Rightarrow> bool \<times> RequestImpl" where
  "Release q = (let n = r_refCount q - 1 in (n = 0, q\<lparr>r_refCount := n\<rparr>))"

datatype CURLoption = CURLOPT_COOKIE | CURLOPT_REFERER | CURLOPT_USERAGENT | CURLOPT_HTTPHEADER

definition TranslateOption :: "str \<Rightarrow> CURLoption" where
  "TranslateOption name =
     (if EqualsCaseInsensitiveASCII name ''Cookie'' then CURLOPT_COOKIE
      else if EqualsCaseInsensitiveASCII name ''Referer'' then CURLOPT_REFERER
      else if EqualsCaseInsensitiveASCII name ''User-Agent'' then CURLOPT_USERAGENT
      else CURLOPT_HTTPHEADER)"

text \<open>
  What \<open>Perform\<close> hands to the library, for the headers in the order of the map: whether to
  post, the list of header lines, the separate options, and the timeout; \<open>None\<close> for a URL
  that is not HTTP.
\<close>

definition curl_headers :: "(str \<times> str) list \<Rightarrow> str list \<times> (CURLoption \<times> str) list" where
  "curl_headers entries =
     fold (\<lambda>(name, val) (headersList, options).
         let opt = TranslateOption name
         in if opt = CURLOPT_HTTPHEADER then (headersList @ [(name @ '': '') @ val], options)
            else (headersList, options @ [(opt, val)])) entries ([], [])"

definition curl_setup ::
    "RequestImpl \<Rightarrow> (str \<times> str) list \<Rightarrow> (bool \<times> str list \<times> (CURLoption \<times> str) list \<times> 64 word) option" where
  "curl_setup q entries =
     (if \<not> SchemeIsHTTPOrHTTPS (MakeBkURL (r_URL q)) then None
      else let (headersList, options) = curl_headers entries
           in Some (EqualsCaseInsensitiveASCII (r_method q) ''POST'', headersList, options, r_timeoutInMs q))"

section \<open>Content types\<close>

definition HTTP_LWS :: str where "HTTP_LWS = [CHR '' '', CHR 0x09]"

definition IsLWS :: "char \<Rightarrow> bool" where "IsLWS c \<longleftrightarrow> c \<in> set HTTP_LWS"

definition TrimLWS :: "str \<Rightarrow> str" where
  "TrimLWS s = rev (dropWhile IsLWS (rev (dropWhile IsLWS s)))"

text \<open>A quoted value from after its opening quote: the unescaped text and where the loop stops.\<close>

function quoted_scan :: "str \<Rightarrow> nat \<Rightarrow> str \<Rightarrow> str \<times> nat" where
  "quoted_scan s offset paramValue =
     (if offset < length s \<and> s ! offset \<noteq> CHR 0x22 then
        let offset = (if s ! offset = CHR 0x5C \<and> offset + 1 < length s then offset + 1 else offset)
        in quoted_scan s (offset + 1) (paramValue @ [s ! offset])
      else (paramValue, offset))"
  by pat_completeness auto
termination
  by (relation "measure (\<lambda>(s, i, v). length s - i)") auto

declare quoted_scan.simps [simp del]

text \<open>A value without quotes from \<open>valueStart\<close> to the semicolon or the end.\<close>

definition plain_value :: "str \<Rightarrow> nat \<Rightarrow> nat option \<Rightarrow> str" where
  "plain_value s valueStart semicolon =
     (let v = (case semicolon of Some e \<Rightarrow> substr s valueStart (e - valueStart) | None \<Rightarrow> drop valueStart s)
      in rev (dropWhile IsLWS (rev v)))"

record content_params =
  typeHasCharset :: bool
  charsetValue :: str
  typeHasBoundary :: bool
  boundary_out :: "str option"

definition take_param :: "str \<Rightarrow> str \<Rightarrow> content_params \<Rightarrow> content_params" where
  "take_param paramName paramValue c =
     (if \<not> typeHasCharset c \<and> LowerCaseEqualsASCII paramName ''charset''
      then c\<lparr>typeHasCharset := True, charsetValue := paramValue\<rparr>
      else if boundary_out c \<noteq> None \<and> \<not> typeHasBoundary c \<and> LowerCaseEqualsASCII paramName ''boundary''
      then c\<lparr>typeHasBoundary := True, boundary_out := Some paramValue\<rparr>
      else c)"

text \<open>
  One parameter from its semicolon: the offset where the loop goes on, and what the parameter
  changes.
\<close>

definition one_param :: "str \<Rightarrow> nat \<Rightarrow> content_params \<Rightarrow> nat option \<times> content_params" where
  "one_param s semicolon c =
     (case find_first_not_of s HTTP_LWS (semicolon + 1) of
        None \<Rightarrow> (None, c)
      | Some paramNameStart \<Rightarrow>
          (case find_first_of s '';='' paramNameStart of
             None \<Rightarrow> (None, c)
           | Some k \<Rightarrow>
               if s ! k = CHR '';'' then (Some k, c)
               else let paramName = substr s paramNameStart (k - paramNameStart)
               in case find_first_not_of s HTTP_LWS (k + 1) of
                    None \<Rightarrow> (None, c)
                  | Some v \<Rightarrow>
                      if s ! v = CHR '';'' then (Some v, c)
                      else if s ! v \<noteq> CHR 0x22
                      then let offset = find_first_of s '';'' v
                           in (offset, take_param paramName (plain_value s v offset) c)
                      else let (paramValue, offset) = quoted_scan s (v + 1) []
                           in (find_first_of s '';'' offset, take_param paramName (TrimLWS paramValue) c)))"

lemma find_first_not_of_bound: "find_first_not_of s chars pos = Some k \<Longrightarrow> pos \<le> k \<and> k < length s"
  by (auto simp: find_first_not_of_def dest: find_index_bound)

lemma quoted_scan_index: "quoted_scan s i v = (v', j) \<Longrightarrow> i \<le> j"
  by (induction s i v rule: quoted_scan.induct, subst (asm) (2) quoted_scan.simps)
    (fastforce simp: Let_def split: if_splits)

lemma one_param_advances: "one_param s i c = (Some j, d) \<Longrightarrow> i < j \<and> j < length s"
  by (auto simp: one_param_def Let_def split: option.splits if_splits prod.splits
      dest!: find_first_of_bound find_first_not_of_bound quoted_scan_index)

function param_scan :: "str \<Rightarrow> nat option \<Rightarrow> content_params \<Rightarrow> content_params" where
  "param_scan s offset c =
     (case offset of
        None \<Rightarrow> c
      | Some i \<Rightarrow> (case one_param s i c of (next, c) \<Rightarrow> param_scan s next c))"
  by pat_completeness auto
termination
  by (relation "measure (\<lambda>(s, offset, c). case offset of None \<Rightarrow> 0 | Some i \<Rightarrow> Suc (length s - i))")
    (auto split: option.splits prod.splits dest: one_param_advances)

declare param_scan.simps [simp del]

text \<open>
  \<open>ParseContentType\<close>: the values that the out parameters had and then have; a null
  \<open>boundary\<close> pointer is \<open>None\<close>.
\<close>

definition ParseContentType ::
    "str \<Rightarrow> str \<Rightarrow> str \<Rightarrow> bool \<Rightarrow> str option \<Rightarrow> str \<times> str \<times> bool \<times> str option" where
  "ParseContentType s mimeType charset hadCharset boundary =
     (let typeVal = (case find_first_not_of s HTTP_LWS 0 of None \<Rightarrow> length s | Some k \<Rightarrow> k);
          typeEnd = (case find_first_of s (HTTP_LWS @ '';('') typeVal of None \<Rightarrow> length s | Some k \<Rightarrow> k);
          c = param_scan s (find_first_of s '';'' typeEnd)
                \<lparr>typeHasCharset = False, charsetValue = [], typeHasBoundary = False, boundary_out = boundary\<rparr>;
          media_type = substr s typeVal (typeEnd - typeVal)
      in if s = [] \<or> s = ''*/*'' \<or> find_first_of s ''/'' 0 = None then (mimeType, charset, hadCharset, boundary_out c)
         else let eq = (mimeType \<noteq> [] \<and> LowerCaseEqualsASCII media_type (takeWhile (\<lambda>c. c \<noteq> CHR 0x00) mimeType));
                  mimeType = (if \<not> eq then map ToLowerASCII media_type else mimeType)
              in if (\<not> eq \<and> hadCharset) \<or> typeHasCharset c
                 then (mimeType, map ToLowerASCII (charsetValue c), True, boundary_out c)
                 else (mimeType, charset, hadCharset, boundary_out c))"

end
