(* ===== verification/Http_Laws.thy ===== *)
theory Http_Laws
  imports Http_Message Base_String_Laws
begin

text \<open>
  What holds of HTTP messages: header maps are dictionaries that ignore case, a block of
  header lines is read back as it was written, content types are read back, and what goes
  wrong for headers without values and for URLs without paths.
\<close>

section \<open>Header maps\<close>

definition same_header :: "str \<Rightarrow> str \<Rightarrow> bool" where
  "same_header a b \<longleftrightarrow> map ToLowerASCII a = map ToLowerASCII b"

lemma dash: "ToLowerASCII c = CHR ''-'' \<longleftrightarrow> c = CHR ''-''" "ToUpperASCII c = CHR ''-'' \<longleftrightarrow> c = CHR ''-''"
  by (auto simp: char_eq_byte byte_ToLower byte_ToUpper simp del: of_char_eq_iff)

lemma canonize_lower: "map ToLowerASCII (canonize_chars u s) = map ToLowerASCII s"
  by (induction u s rule: canonize_chars.induct) (auto simp: Let_def)

lemma canonize_same: "same_header a b \<Longrightarrow> canonize_chars u a = canonize_chars u b"
  unfolding same_header_def
proof (induction a arbitrary: b u)
  case (Cons c a)
  then obtain d b' where b: "b = d # b'" and eq: "ToLowerASCII c = ToLowerASCII d" "map ToLowerASCII a = map ToLowerASCII b'" by auto
  then have "ToUpperASCII c = ToUpperASCII d" using ToUpper_ToLower by metis
  moreover have "c = CHR ''-'' \<longleftrightarrow> d = CHR ''-''" using eq(1) dash(1) by metis
  ultimately show ?case using Cons.IH [OF eq(2)] eq(1) by (simp add: b dash)
qed simp

lemma canonize_name_same: "CanonizeHeaderName a = CanonizeHeaderName b \<longleftrightarrow> same_header a b"
proof
  have lower: "map ToLowerASCII (CanonizeHeaderName s) = map ToLowerASCII s" for s
    by (simp add: CanonizeHeaderName_def canonize_lower EqualsCaseInsensitive_map)
  show "CanonizeHeaderName a = CanonizeHeaderName b \<Longrightarrow> same_header a b"
    unfolding same_header_def using lower by metis
  assume s: "same_header a b"
  then have "EqualsCaseInsensitiveASCII a ''ETag'' = EqualsCaseInsensitiveASCII b ''ETag''"
    by (simp add: EqualsCaseInsensitive_map same_header_def)
  then show "CanonizeHeaderName a = CanonizeHeaderName b"
    using canonize_same [OF s] by (simp add: CanonizeHeaderName_def)
qed

definition header_lookup :: "BkHTTPHeaderMap \<Rightarrow> str \<Rightarrow> str option" where
  "header_lookup m name = m (CanonizeHeaderName name)"

interpretation headers: dictionary "\<lambda>m. True" same_header "\<lambda>v. True" header_lookup HeaderSet
  by unfold_locales (auto simp: header_lookup_def HeaderSet_def canonize_name_same same_header_def)

lemma HeaderGet_lookup: "HeaderGet m name = (case header_lookup m name of None \<Rightarrow> [] | Some v \<Rightarrow> v)"
  by (simp add: HeaderGet_def header_lookup_def)

text \<open>
  Header maps ignore the case of names and keep the last value: after any sequence of
  \<open>Set\<close> calls, \<open>Get\<close> returns the value last set under a name with the same letters, and the
  empty string when there is none.
\<close>

theorem header_map_lookup:
  "HeaderGet (fold (\<lambda>(k, v). HeaderSet k v) kvs Clear) name =
     (case find (\<lambda>(k, v). same_header k name) (rev kvs) of Some (k, v) \<Rightarrow> v | None \<Rightarrow> [])"
  using headers.lookup_fold [where s = Clear and kvs = kvs and j = name]
  by (simp add: HeaderGet_lookup header_lookup_def Clear_def split: option.split prod.split)

text \<open>
  \<open>Remove\<close> does not put the name into its canonical form: a header that was set as
  \<open>content-type\<close> is still found after it was removed under that name.
\<close>

theorem removed_header_stays:
  "HeaderGet (HeaderRemove ''content-type'' (HeaderSet ''content-type'' v Clear)) ''content-type'' = v"
proof -
  have "CanonizeHeaderName ''content-type'' = ''Content-Type''" by code_simp
  then show ?thesis by (simp add: HeaderGet_def HeaderRemove_def HeaderSet_def)
qed

section \<open>Trimming\<close>

lemma find_index_skip: "find_index (\<lambda>c. \<not> P c) s = (if dropWhile P s = [] then None else Some (length (takeWhile P s)))"
  by (induction s) auto

definition strip :: "(char \<Rightarrow> bool) \<Rightarrow> str \<Rightarrow> str" where
  "strip P s = rev (dropWhile P (rev (dropWhile P s)))"

lemma drop_first: "t \<noteq> [] \<Longrightarrow> \<not> P (hd t) \<Longrightarrow> dropWhile P t = t"
  by (cases t) simp_all

lemma strip_plain: "s \<noteq> [] \<Longrightarrow> \<not> P (hd s) \<Longrightarrow> \<not> P (last s) \<Longrightarrow> strip P s = s"
  by (simp add: strip_def drop_first hd_rev)

lemma drop_takeWhile: "drop (length (takeWhile P s)) s = dropWhile P s"
  by (induction s) auto

lemma strip_take:
  assumes "dropWhile P s \<noteq> []"
  defines "a \<equiv> length (takeWhile P s)" and "b \<equiv> length (takeWhile P (rev s))"
  shows "strip P s = take (length s - b - a) (drop a s)" "a + b < length s" "dropWhile P (rev s) \<noteq> []"
proof -
  obtain c t where ct: "dropWhile P s = c # t" using assms(1) by (cases "dropWhile P s") auto
  then have t: "dropWhile P s = c # t" "\<not> P c" using hd_dropWhile [of P s] by simp_all
  let ?u = "takeWhile P s"
  have s: "s = ?u @ c # t" using takeWhile_dropWhile_id [of P s] t(1) by simp
  have "rev s = rev t @ c # rev ?u" using arg_cong [OF s, of rev] by simp
  then have tw: "takeWhile P (rev s) = takeWhile P (rev (c # t))" using t(2) by (simp add: takeWhile_append)
  have ds: "drop a s = c # t" using s unfolding a_def by (metis append_eq_conv_conj)
  have len: "length s = a + Suc (length t)" using arg_cong [OF s, of length] by (simp add: a_def)
  have b: "b \<le> length t" using length_takeWhile_le [of P "rev t"] t(2) unfolding b_def tw by (simp add: takeWhile_append length_takeWhile_le)
  have "strip P s = rev (drop b (rev (c # t)))"
    unfolding strip_def t(1) b_def tw drop_takeWhile ..
  also have "\<dots> = take (length s - b - a) (drop a s)"
    unfolding ds using len b by (simp add: rev_drop Suc_diff_le)
  finally show "strip P s = take (length s - b - a) (drop a s)" .
  show "a + b < length s" using len b by simp
  then have "length (takeWhile P (rev s)) < length (rev s)" by (simp add: b_def)
  then show "dropWhile P (rev s) \<noteq> []" using drop_takeWhile [of P "rev s"] by (metis drop_eq_Nil linorder_not_le)
qed

lemma strip_none: assumes "dropWhile P s = []" shows "strip P s = []"
  unfolding strip_def assms by simp

lemma trim_flags: "TRIM_ALL AND TRIM_LEADING \<noteq> 0" "TRIM_ALL AND TRIM_TRAILING \<noteq> 0"
  by (code_simp, code_simp)

lemma trim_ends:
  assumes "dropWhile (\<lambda>c. c \<in> set cs) s \<noteq> []"
  shows "find_first_not_of s cs 0 = Some (length (takeWhile (\<lambda>c. c \<in> set cs) s))"
    "find_last_not_of s cs = Some (length s - 1 - length (takeWhile (\<lambda>c. c \<in> set cs) (rev s)))"
  using assms strip_take(3) [OF assms] find_index_skip [of "\<lambda>c. c \<in> set cs" s] find_index_skip [of "\<lambda>c. c \<in> set cs" "rev s"]
  by (simp_all add: find_first_not_of_def find_last_not_of_def)

lemma trim_nothing: "dropWhile (\<lambda>c. c \<in> set cs) s = [] \<Longrightarrow> find_first_not_of s cs 0 = None"
  using find_index_skip [of "\<lambda>c. c \<in> set cs" s] by (simp add: find_first_not_of_def)

lemma TrimStringT_strip: "snd (TrimStringT s cs TRIM_ALL) = strip (\<lambda>c. c \<in> set cs) s"
proof (cases "dropWhile (\<lambda>c. c \<in> set cs) s = []")
  case True
  then show ?thesis using trim_nothing [OF True] strip_none [OF True] trim_flags by (simp add: TrimStringT_def)
next
  case False
  note st = strip_take [OF False]
  let ?a = "length (takeWhile (\<lambda>c. c \<in> set cs) s)" and ?b = "length (takeWhile (\<lambda>c. c \<in> set cs) (rev s))"
  have "s \<noteq> []" using False by auto
  moreover have "length s - 1 - ?b - ?a + 1 = length s - ?b - ?a" using st(2) by linarith
  ultimately show ?thesis
    unfolding st(1) TrimStringT_def using trim_ends [OF False] trim_flags by (simp add: Let_def substr_def)
qed

lemma TrimStringPieceT_strip: "TrimStringPieceT s cs TRIM_ALL = strip (\<lambda>c. c \<in> set cs) s"
proof (cases "dropWhile (\<lambda>c. c \<in> set cs) s = []")
  case True
  then show ?thesis using trim_nothing [OF True] strip_none [OF True] trim_flags by (simp add: TrimStringPieceT_def)
next
  case False
  note st = strip_take [OF False]
  let ?a = "length (takeWhile (\<lambda>c. c \<in> set cs) s)" and ?b = "length (takeWhile (\<lambda>c. c \<in> set cs) (rev s))"
  have "length s - 1 - ?b - ?a + 1 = length s - ?b - ?a" using st(2) by linarith
  then show ?thesis
    unfolding st(1) TrimStringPieceT_def using trim_ends [OF False] trim_flags by (simp add: substr_def)
qed

section \<open>Blocks of header lines\<close>

definition white :: "char \<Rightarrow> bool" where "white c \<longleftrightarrow> c \<in> set kWhitespaceASCII"

definition header_line :: "str \<times> str \<Rightarrow> str" where
  "header_line h = fst h @ '': '' @ snd h @ CRLF"

definition name_ok :: "str \<Rightarrow> bool" where
  "name_ok k \<longleftrightarrow> k \<noteq> [] \<and> \<not> white (hd k) \<and> \<not> white (last k) \<and>
     CHR '':'' \<notin> set k \<and> CHR 0x0A \<notin> set k \<and> CHR 0x00 \<notin> set k"

definition header_ok :: "str \<times> str \<Rightarrow> bool" where
  "header_ok h \<longleftrightarrow> name_ok (fst h) \<and> snd h \<noteq> [] \<and> \<not> white (hd (snd h)) \<and> \<not> white (last (snd h)) \<and> CHR 0x0A \<notin> set (snd h)"

lemma white_iff: "white c \<longleftrightarrow> c \<in> {CHR 0x09, CHR 0x0A, CHR 0x0B, CHR 0x0C, CHR 0x0D, CHR '' ''}"
  by (simp add: white_def kWhitespaceASCII_def)

lemma strip_trailing:
  assumes "s \<noteq> []" "\<not> P (hd s)" "\<not> P (last s)" "list_all P t"
  shows "strip P (s @ t) = s"
proof -
  have "dropWhile P (s @ t) = s @ t" using assms(1,2) by (intro drop_first) simp_all
  moreover have "dropWhile P (rev t @ rev s) = rev s"
    using assms(3,4) assms(1) drop_first [of "rev s" P] by (simp add: dropWhile_append list_all_iff hd_rev)
  ultimately show ?thesis by (simp add: strip_def)
qed

lemma strip_leading: "list_all P t \<Longrightarrow> strip P (t @ s) = strip P s"
  by (simp add: strip_def dropWhile_append list_all_iff)

lemma white_fun: "(\<lambda>c. c \<in> set kWhitespaceASCII) = white"
  by (simp add: white_def fun_eq_iff)

text \<open>The lines of a block without their line feeds, and what trimming leaves of them.\<close>

definition bare :: "str \<times> str \<Rightarrow> str" where
  "bare h = fst h @ '': '' @ snd h @ [CHR 0x0D]"

lemma header_line_bare: "header_line h = bare h @ [CHR 0x0A]"
  by (simp add: header_line_def bare_def CRLF_def)

lemma block_lines:
  "concat (map header_line hs) @ CRLF =
     (case map bare hs @ [[CHR 0x0D], []] of p # ps \<Rightarrow> p @ concat (map ((#) CHR 0x0A) ps))"
proof (induction hs)
  case (Cons h hs)
  have "bare h @ [CHR 0x0A] @ (case map bare hs @ [[CHR 0x0D], []] of p # ps \<Rightarrow> p @ concat (map ((#) CHR 0x0A) ps)) =
    bare h @ concat (map ((#) CHR 0x0A) (map bare hs @ [[CHR 0x0D], []]))"
    by (cases "map bare hs @ [[CHR 0x0D], []]") simp_all
  then show ?case using Cons by (simp add: header_line_bare)
qed (simp add: CRLF_def)

definition trimmed_line :: "str \<times> str \<Rightarrow> str" where
  "trimmed_line h = fst h @ (if snd h = [] then '':'' else '': '' @ snd h)"

lemma strip_bare:
  assumes "name_ok (fst h)" "snd h = [] \<or> header_ok h"
  shows "strip white (bare h) = trimmed_line h"
proof (cases "snd h = []")
  case True
  have "bare h = (fst h @ '':'') @ [CHR '' '', CHR 0x0D]" by (simp add: bare_def True)
  moreover have "strip white ((fst h @ '':'') @ [CHR '' '', CHR 0x0D]) = fst h @ '':''"
    using assms(1) by (intro strip_trailing) (simp_all add: name_ok_def white_iff)
  ultimately show ?thesis by (simp add: trimmed_line_def True)
next
  case False
  then have ok: "header_ok h" using assms(2) by simp
  have "bare h = (fst h @ '': '' @ snd h) @ [CHR 0x0D]" by (simp add: bare_def)
  moreover have "strip white ((fst h @ '': '' @ snd h) @ [CHR 0x0D]) = fst h @ '': '' @ snd h"
    using assms(1) ok by (intro strip_trailing) (simp_all add: name_ok_def header_ok_def white_iff)
  ultimately show ?thesis by (simp add: trimmed_line_def False)
qed

definition line_ok :: "str \<times> str \<Rightarrow> bool" where
  "line_ok h \<longleftrightarrow> name_ok (fst h) \<and> (snd h = [] \<or> header_ok h)"

lemma split_block:
  assumes "list_all line_ok hs"
  shows "SplitString (concat (map header_line hs) @ CRLF) [CHR 0x0A] TRIM_WHITESPACE SPLIT_WANT_NONEMPTY = map trimmed_line hs"
proof -
  let ?ps = "map bare hs @ [[CHR 0x0D], []]"
  obtain p ps where p: "?ps = p # ps" by (cases ?ps) auto
  have free: "list_all (\<lambda>q. CHR 0x0A \<notin> set q) (p # ps)"
    using assms unfolding p [symmetric] by (auto simp: list_all_iff line_ok_def header_ok_def name_ok_def bare_def)
  have "fold (add_piece TRIM_WHITESPACE SPLIT_WANT_NONEMPTY) (map bare hs) r = r @ map trimmed_line hs" for r
    using assms
  proof (induction hs arbitrary: r)
    case (Cons h hs)
    have "strip white (bare h) = trimmed_line h" using Cons.prems strip_bare [of h] by (simp add: line_ok_def)
    moreover have "trimmed_line h \<noteq> []" by (simp add: trimmed_line_def)
    ultimately show ?case using Cons by (simp add: add_piece_def TrimStringPieceT_strip white_fun)
  qed simp
  then have "fold (add_piece TRIM_WHITESPACE SPLIT_WANT_NONEMPTY) ?ps [] = map trimmed_line hs"
    by (simp add: add_piece_def TrimStringPieceT_strip white_fun strip_def white_iff)
  then have "split_scan (p @ concat (map ((#) CHR 0x0A) ps)) [CHR 0x0A] TRIM_WHITESPACE SPLIT_WANT_NONEMPTY 0 [] = map trimmed_line hs"
    using split_scan_pieces [OF free, of "[]" TRIM_WHITESPACE SPLIT_WANT_NONEMPTY "[]"] unfolding p by simp
  moreover have eq: "concat (map header_line hs) @ CRLF = p @ concat (map ((#) CHR 0x0A) ps)"
    using block_lines [of hs] unfolding p by simp
  moreover have ne: "p @ concat (map ((#) CHR 0x0A) ps) \<noteq> []" unfolding eq [symmetric] by (simp add: CRLF_def)
  ultimately show ?thesis unfolding SplitString_def eq if_not_P [OF ne] by simp
qed

lemma key_value:
  assumes "name_ok k"
  shows "AppendStringKeyValue (k @ '': '' @ v) CHR '':'' = (True, k, '' '' @ v)"
    "AppendStringKeyValue (k @ '':'') CHR '':'' = (False, k, [])"
proof -
  have k: "\<not> list_ex (\<lambda>c. c = CHR '':'') k" using assms by (auto simp: name_ok_def list_ex_iff)
  then show "AppendStringKeyValue (k @ '': '' @ v) CHR '':'' = (True, k, '' '' @ v)"
    "AppendStringKeyValue (k @ '':'') CHR '':'' = (False, k, [])"
    using find_index_append [OF k, of "'': '' @ v"] find_index_append [OF k, of "'':''"]
    by (simp_all add: AppendStringKeyValue_def find_first_of_def find_first_not_of_def substr_def Let_def)
qed

lemma split_pairs:
  assumes "list_all line_ok hs"
  shows "SplitStringIntoKeyValuePairs (concat (map header_line hs) @ CRLF) CHR '':'' CHR 0x0A =
    (list_all header_ok hs, map (\<lambda>h. (fst h, if snd h = [] then [] else '' '' @ snd h)) hs)"
proof -
  let ?f = "\<lambda>pair (success, kvs). let (ok, kv) = AppendStringKeyValue pair CHR '':'' in (if \<not> ok then False else success, kvs @ [kv])"
  have "fold ?f (map trimmed_line hs) (b, r) =
      (b \<and> list_all header_ok hs, r @ map (\<lambda>h. (fst h, if snd h = [] then [] else '' '' @ snd h)) hs)" for b r
    using assms
  proof (induction hs arbitrary: b r)
    case (Cons h hs)
    have n: "name_ok (fst h)" and h: "snd h = [] \<or> header_ok h" using Cons.prems by (simp_all add: line_ok_def)
    have "AppendStringKeyValue (trimmed_line h) CHR '':'' = (header_ok h, fst h, if snd h = [] then [] else '' '' @ snd h)"
      using key_value [OF n] h by (auto simp: trimmed_line_def header_ok_def)
    then show ?case using Cons by simp
  qed simp
  then show ?thesis by (simp add: SplitStringIntoKeyValuePairs_def split_block [OF assms])
qed

definition is_cookie :: "str \<times> str \<Rightarrow> bool" where
  "is_cookie h \<longleftrightarrow> same_header (fst h) ''Set-Cookie''"

lemma add_header_ok:
  assumes "header_ok h"
  shows "add_header (fst h, '' '' @ snd h) r =
    (if is_cookie h then r\<lparr>m_cookies := m_cookies r @ [snd h]\<rparr>
     else r\<lparr>m_headers := HeaderSet (fst h) (snd h) (m_headers r)\<rparr>)"
proof -
  have "strip white (fst h) = fst h" using assms by (intro strip_plain) (simp_all add: header_ok_def name_ok_def)
  moreover have "strip white ('' '' @ snd h) = snd h"
    using assms strip_leading [of white "'' ''" "snd h"] strip_plain [of "snd h" white]
    by (simp add: header_ok_def white_iff)
  moreover have "takeWhile (\<lambda>c. c \<noteq> CHR 0x00) (fst h) = fst h"
    using assms by (auto simp: header_ok_def name_ok_def takeWhile_eq_all_conv)
  ultimately show ?thesis
    by (simp add: add_header_def TrimWhitespaceASCII_def TrimStringT_strip white_fun is_cookie_def
        EqualsCaseInsensitive_map same_header_def Let_def del: takeWhile_eq_all_conv)
qed

definition status_line :: "str \<Rightarrow> str \<Rightarrow> str" where
  "status_line code reason = ''HTTP/1.1 '' @ code @ '' '' @ reason @ CRLF"

lemma search_status_line:
  assumes "code \<noteq> []" "list_all is_digit code"
  shows "search_status (status_line code reason @ t) = Some (9 + length code, code)"
proof -
  have code: "takeWhile is_digit (code @ '' '' @ u) = code" for u
    using assms(2) by (induction code) (simp_all add: is_digit_def)
  have d: "\<not> is_space (hd code)" using assms by (cases code) (auto simp: is_digit_def is_space_def char_eq_byte simp del: of_char_eq_iff)
  have dw: "dropWhile is_space (code @ u) = code @ u" "takeWhile is_space (code @ u) = []" for u
    using d assms(1) by (cases code; simp)+
  have chars: "version_char CHR ''1''" "version_char CHR ''.''" "\<not> version_char CHR '' ''" "is_space CHR '' ''"
    by (code_simp, code_simp, code_simp, code_simp)
  have "status_at (status_line code reason @ t) = Some (9 + length code, code)"
    using assms(1) code [of "reason @ CRLF @ t"] dw [of "'' '' @ reason @ CRLF @ t"] chars
    by (simp add: status_at_def status_line_def Let_def)
  then show ?thesis by (simp add: status_line_def)
qed

lemma after_status_line:
  assumes "CHR 0x0A \<notin> set reason"
  shows "find_first_of (status_line code reason @ t) [CHR 0x0A] (9 + length code) = Some (length (status_line code reason) - 1)"
proof -
  have "status_line code reason @ t = (''HTTP/1.1 '' @ code) @ ('' '' @ reason @ [CHR 0x0D]) @ CHR 0x0A # t"
    by (simp add: status_line_def CRLF_def)
  moreover have "9 + length code = length (''HTTP/1.1 '' @ code)" by simp
  ultimately have "drop (9 + length code) (status_line code reason @ t) = ('' '' @ reason @ [CHR 0x0D]) @ CHR 0x0A # t"
    by (metis append_eq_conv_conj)
  moreover have "find_index (\<lambda>c. c \<in> set [CHR 0x0A]) (('' '' @ reason @ [CHR 0x0D]) @ CHR 0x0A # t) = Some (2 + length reason)"
    using find_index_append [of "\<lambda>c. c \<in> set [CHR 0x0A]" "'' '' @ reason @ [CHR 0x0D]" "CHR 0x0A # t"] assms
    by (simp add: list_ex_iff)
  ultimately show ?thesis by (simp add: find_first_of_def status_line_def CRLF_def)
qed

lemma parse_block:
  assumes "code \<noteq> []" "list_all is_digit code" "stoi code = Some status" "CHR 0x0A \<notin> set reason" "list_all line_ok hs"
  shows "ParseHeaders (status_line code reason @ concat (map header_line hs) @ CRLF) r =
    Some (if list_all header_ok hs
          then fold add_header (map (\<lambda>h. (fst h, if snd h = [] then [] else '' '' @ snd h)) hs) (r\<lparr>m_statusCode := status\<rparr>)
          else r\<lparr>m_statusCode := status\<rparr>)"
proof -
  let ?raw = "status_line code reason @ concat (map header_line hs) @ CRLF"
  have "drop (length (status_line code reason) - 1 + 1) ?raw = concat (map header_line hs) @ CRLF"
    by (simp add: status_line_def)
  then show ?thesis
    unfolding ParseHeaders_def search_status_line [OF assms(1,2)] option.case prod.case assms(3) Let_def
      after_status_line [OF assms(4)]
    using split_pairs [OF assms(5)] by simp
qed

lemma add_headers:
  assumes "list_all header_ok hs"
  shows "fold add_header (map (\<lambda>h. (fst h, if snd h = [] then [] else '' '' @ snd h)) hs) r =
    r\<lparr>m_cookies := m_cookies r @ map snd (filter is_cookie hs),
      m_headers := fold (\<lambda>(k, v). HeaderSet k v) (filter (\<lambda>h. \<not> is_cookie h) hs) (m_headers r)\<rparr>"
  using assms
proof (induction hs arbitrary: r)
  case (Cons h hs)
  then have h: "header_ok h" "snd h \<noteq> []" by (simp_all add: header_ok_def)
  then show ?case using Cons by (simp add: add_header_ok [OF h(1), simplified] split: prod.split)
qed simp

lemma headers_ok: "list_all line_ok hs \<Longrightarrow> list_all header_ok hs \<longleftrightarrow> \<not> list_ex (\<lambda>h. snd h = []) hs"
  by (induction hs) (auto simp: line_ok_def header_ok_def)

text \<open>
  C14. Reading a response, from a status line and a block of header lines in the form of
  RFC 7230: names without white space at their ends and without colons, values without white
  space at their ends, which may be empty.  If every value is non-empty, the response gets
  the status code, its cookies in order, and the other headers as if they had been set one
  after the other.  If one value is empty, the status code is all it gets.  And if the status
  code is no \<open>int\<close>, an exception is all the caller gets.
\<close>

theorem header_block_round_trip:
  assumes "code \<noteq> [] \<and> list_all is_digit code" "CHR 0x0A \<notin> set reason" "list_all line_ok hs"
  shows "ParseHeaders (status_line code reason @ concat (map header_line hs) @ CRLF) r =
    map_option (\<lambda>status. if list_ex (\<lambda>h. snd h = []) hs then r\<lparr>m_statusCode := status\<rparr>
      else r\<lparr>m_statusCode := status, m_cookies := m_cookies r @ map snd (filter is_cookie hs),
        m_headers := fold (\<lambda>(k, v). HeaderSet k v) (filter (\<lambda>h. \<not> is_cookie h) hs) (m_headers r)\<rparr>) (stoi code)"
proof (cases "stoi code")
  case None
  then show ?thesis unfolding ParseHeaders_def search_status_line [OF conjunct1 [OF assms(1)] conjunct2 [OF assms(1)]] by simp
next
  case (Some status)
  then show ?thesis
    using parse_block [of code status reason hs r] add_headers [of hs "r\<lparr>m_statusCode := status\<rparr>"] headers_ok [OF assms(3)] assms by simp
qed

theorem header_block_round_trip_witness:
  "\<exists>r. ParseHeaders (''HTTP/1.1 200 OK'' @ CRLF @ ''Content-Type: text/html'' @ CRLF @ ''set-cookie: a=b'' @ CRLF @ CRLF)
      (MakeResponse ''http://h/'') = Some r \<and>
    m_statusCode r = 200 \<and> m_cookies r = [''a=b''] \<and> HeaderGet (m_headers r) ''content-type'' = ''text/html''"
proof -
  let ?hs = "[(''Content-Type'', ''text/html''), (''set-cookie'', ''a=b'')]"
  let ?raw = "''HTTP/1.1 200 OK'' @ CRLF @ ''Content-Type: text/html'' @ CRLF @ ''set-cookie: a=b'' @ CRLF @ CRLF"
  have raw: "?raw = status_line ''200'' ''OK'' @ concat (map header_line ?hs) @ CRLF" by code_simp
  have c: "map is_cookie ?hs = [False, True]" by code_simp
  have "ParseHeaders ?raw (MakeResponse ''http://h/'') = Some ((MakeResponse ''http://h/'')\<lparr>m_statusCode := 200,
      m_cookies := m_cookies (MakeResponse ''http://h/'') @ map snd (filter is_cookie ?hs),
      m_headers := fold (\<lambda>(k, v). HeaderSet k v) (filter (\<lambda>h. \<not> is_cookie h) ?hs) (m_headers (MakeResponse ''http://h/''))\<rparr>)"
  proof -
    have "stoi ''200'' = Some 200" "list_all is_digit ''200''" "list_all line_ok ?hs" "\<not> list_ex (\<lambda>h. snd h = []) ?hs" "CHR 0x0A \<notin> set ''OK''"
      by (code_simp, code_simp, code_simp, code_simp, code_simp)
    then show ?thesis unfolding raw using header_block_round_trip [of "''200''" "''OK''" ?hs "MakeResponse ''http://h/''"] by simp
  qed
  moreover have "HeaderGet (HeaderSet ''Content-Type'' ''text/html'' m) ''content-type'' = ''text/html''" for m
  proof -
    have "CanonizeHeaderName ''Content-Type'' = CanonizeHeaderName ''content-type''" by code_simp
    then show ?thesis by (simp add: HeaderGet_def HeaderSet_def)
  qed
  ultimately show ?thesis using c by (simp add: MakeResponse_def)
qed

text \<open>
  One header without a value makes the whole block be ignored: neither the other headers
  nor the cookies reach the response, which keeps only the status code.
\<close>

theorem empty_header_drops_all:
  assumes "list_all line_ok hs" "list_ex (\<lambda>h. snd h = []) hs"
  shows "ParseHeaders (status_line ''200'' ''OK'' @ concat (map header_line hs) @ CRLF) r = Some (r\<lparr>m_statusCode := 200\<rparr>)"
proof -
  have "\<not> list_all header_ok hs" using assms(2) by (auto simp: list_all_iff list_ex_iff header_ok_def)
  moreover have "stoi ''200'' = Some 200" "list_all is_digit ''200''" by (code_simp, code_simp)
  ultimately show ?thesis using parse_block [of "''200''" 200 "''OK''" hs r] assms(1) by simp
qed

theorem empty_header_drops_all_witness:
  "ParseHeaders (status_line ''200'' ''OK'' @ concat (map header_line [(''Set-Cookie'', ''a=b''), (''X-Empty'', [])]) @ CRLF)
     (MakeResponse ''http://h/'') = Some ((MakeResponse ''http://h/'')\<lparr>m_statusCode := 200\<rparr>)"
  by (rule empty_header_drops_all; code_simp)

text \<open>
  A redirection from a URL without a path to a relative location loses the URL: a
  \<open>BkURL\<close> made from a string is not canonicalized, and nothing can be resolved against a
  base without a path.
\<close>

theorem redirection_without_path:
  "let r = (MakeResponse ''http://host'')\<lparr>m_headers := HeaderSet ''Location'' ''/login'' Clear\<rparr>;
       q = (MakeResponse ''http://host/'')\<lparr>m_headers := HeaderSet ''Location'' ''/login'' Clear\<rparr>
   in m_URL (snd (ResolveRedirection kStandardURLSchemes r)) = [] \<and>
      m_URL (snd (ResolveRedirection kStandardURLSchemes q)) = ''http://host/login''"
  unfolding Let_def by (intro conjI; code_simp)

text \<open>
  The request path of a URL without a path: with a fragment it is the whole URL before
  it, and a query is dropped.
\<close>

theorem request_path_without_path:
  "PathForRequest (MakeBkURL ''http://host#top'') = ''http://host'' \<and>
   PathForRequest (MakeBkURL ''http://host?q=1'') = ''/'' \<and>
   PathForRequest (MakeBkURL ''http://host/a?q=1#top'') = ''/a?q=1''"
  by (intro conjI; code_simp)

section \<open>Content types\<close>

definition quoted_text :: "str \<Rightarrow> str" where
  "quoted_text v = concat (map (\<lambda>c. if c = CHR 0x22 \<or> c = CHR 0x5C then [CHR 0x5C, c] else [c]) v)"

lemma escaped_simps [simp]: "quoted_text [] = []"
  "quoted_text (c # v) = (if c = CHR 0x22 \<or> c = CHR 0x5C then [CHR 0x5C, c] else [c]) @ quoted_text v"
  by (simp_all add: quoted_text_def)

lemma quoted_scan_escaped:
  "quoted_scan (d @ quoted_text v @ CHR 0x22 # t) (length d) acc = (acc @ v, length d + length (quoted_text v))"
proof (induction v arbitrary: d acc)
  case Nil
  show ?case by (subst quoted_scan.simps) simp
next
  case (Cons c v)
  show ?case
  proof (cases "c = CHR 0x22 \<or> c = CHR 0x5C")
    case True
    have "quoted_scan ((d @ [CHR 0x5C, c]) @ quoted_text v @ CHR 0x22 # t) (length (d @ [CHR 0x5C, c])) (acc @ [c]) =
        ((acc @ [c]) @ v, length (d @ [CHR 0x5C, c]) + length (quoted_text v))" by (rule Cons.IH)
    then show ?thesis using True by (subst quoted_scan.simps) (auto simp: nth_append)
  next
    case False
    have "quoted_scan ((d @ [c]) @ quoted_text v @ CHR 0x22 # t) (length (d @ [c])) (acc @ [c]) =
        ((acc @ [c]) @ v, length (d @ [c]) + length (quoted_text v))" by (rule Cons.IH)
    then show ?thesis using False by (subst quoted_scan.simps) (simp add: nth_append)
  qed
qed

lemma lws: "set HTTP_LWS = {CHR '' '', CHR 0x09}"
  by (simp add: HTTP_LWS_def)

definition media_ok :: "str \<Rightarrow> bool" where
  "media_ok m \<longleftrightarrow> CHR ''/'' \<in> set m \<and> set m \<inter> {CHR '' '', CHR 0x09, CHR '';'', CHR ''(''} = {}"

lemma TrimLWS_strip: "TrimLWS = strip IsLWS"
  by (rule ext) (simp add: TrimLWS_def strip_def)

text \<open>The parameter of the printed header.\<close>

lemma charset_param:
  defines "c \<equiv> \<lparr>typeHasCharset = False, charsetValue = [], typeHasBoundary = False, boundary_out = None\<rparr>"
  assumes "strip IsLWS v = v"
  shows "one_param (m @ ''; charset='' @ CHR 0x22 # quoted_text v @ [CHR 0x22]) (length m) c =
    (None, c\<lparr>typeHasCharset := True, charsetValue := v\<rparr>)"
proof -
  let ?s = "m @ ''; charset='' @ CHR 0x22 # quoted_text v @ [CHR 0x22]"
  have d: "drop (length m + k) ?s = drop k (''; charset='' @ CHR 0x22 # quoted_text v @ [CHR 0x22])" for k by simp
  have 1: "find_first_not_of ?s HTTP_LWS (length m + 1) = Some (length m + 2)"
    unfolding find_first_not_of_def d by (simp add: lws)
  have 2: "find_first_of ?s '';='' (length m + 2) = Some (length m + 9)"
    unfolding find_first_of_def d by (simp add: numeral_2_eq_2)
  have 3: "find_first_not_of ?s HTTP_LWS (length m + 9 + 1) = Some (length m + 10)"
    unfolding find_first_not_of_def add.assoc d by (simp add: lws)
  have at: "?s ! (length m + k) = (''; charset='' @ CHR 0x22 # quoted_text v @ [CHR 0x22]) ! k" for k by (simp add: nth_append)
  have name: "substr ?s (length m + 2) (length m + 9 - (length m + 2)) = ''charset''"
    unfolding substr_def d by simp
  have len: "length (m @ ''; charset='' @ [CHR 0x22]) = length m + 10 + 1" by simp
  have "quoted_scan ((m @ ''; charset='' @ [CHR 0x22]) @ quoted_text v @ [CHR 0x22]) (length m + 10 + 1) [] =
      ([] @ v, length m + 10 + 1 + length (quoted_text v))"
    using quoted_scan_escaped [of "m @ ''; charset='' @ [CHR 0x22]" v "[]" "[]"] unfolding len .
  then have q: "quoted_scan ?s (length m + 10 + 1) [] = (v, length m + 11 + length (quoted_text v))"
    by simp
  have "?s = ((m @ ''; charset='' @ [CHR 0x22]) @ quoted_text v) @ [CHR 0x22]" by simp
  moreover have "length m + 11 + length (quoted_text v) = length ((m @ ''; charset='' @ [CHR 0x22]) @ quoted_text v)" by simp
  ultimately have "drop (length m + 11 + length (quoted_text v)) ?s = [CHR 0x22]" by (metis append_eq_conv_conj)
  then have 4: "find_first_of ?s '';'' (length m + 11 + length (quoted_text v)) = None" unfolding find_first_of_def by simp
  have a: "?s ! (length m + 9) = CHR ''=''" "?s ! (length m + 10) = CHR 0x22" unfolding at by simp_all
  have "LowerCaseEqualsASCII ''charset'' ''charset''" by code_simp
  then show ?thesis
    unfolding one_param_def 1 option.case 2 name 3 Let_def q prod.case 4 a TrimLWS_strip assms(2)
    by (simp add: take_param_def c_def)
qed

text \<open>
  C26. Content types: a media type with a quoted charset, in which quotation marks and
  backslashes are quoted_text, is read as the media type and the charset in lower case, whatever
  other characters the charset has inside.
\<close>

theorem content_type_round_trip:
  assumes "media_ok m" "strip IsLWS v = v"
  shows "ParseContentType (m @ ''; charset='' @ CHR 0x22 # quoted_text v @ [CHR 0x22]) [] [] False None =
    (map ToLowerASCII m, map ToLowerASCII v, True, None)"
proof -
  let ?t = "''; charset='' @ CHR 0x22 # quoted_text v @ [CHR 0x22]"
  let ?s = "m @ ?t"
  have m: "m \<noteq> []" "\<not> list_ex (\<lambda>c. c \<in> set (HTTP_LWS @ '';('')) m" "list_ex (\<lambda>c. c \<in> set ''/'') m" "hd m \<notin> set HTTP_LWS"
    using assms(1) by (cases m; auto simp: media_ok_def lws list_ex_iff)+
  have 1: "find_first_not_of ?s HTTP_LWS 0 = Some 0"
    using m(1,4) by (cases m) (simp_all add: find_first_not_of_def)
  have 2: "find_first_of ?s (HTTP_LWS @ '';('') 0 = Some (length m)"
    using find_index_append [OF m(2), of ?t] by (simp add: find_first_of_def)
  have 3: "find_first_of ?s '';'' (length m) = Some (length m)"
    by (simp add: find_first_of_def)
  have "find_index (\<lambda>c. c \<in> set ''/'') ?s \<noteq> None" unfolding find_index_none using m(3) by simp
  then have 4: "find_first_of ?s ''/'' 0 \<noteq> None" by (simp add: find_first_of_def)
  have p: "param_scan ?s (Some (length m)) \<lparr>typeHasCharset = False, charsetValue = [], typeHasBoundary = False, boundary_out = None\<rparr> =
      \<lparr>typeHasCharset = True, charsetValue = v, typeHasBoundary = False, boundary_out = None\<rparr>"
    by (subst param_scan.simps) (simp add: charset_param [OF assms(2), simplified], subst param_scan.simps, simp)
  have 5: "?s \<noteq> []" "?s \<noteq> ''*/*''" using m(1) by (auto dest: arg_cong [of _ _ length])
  have 6: "substr ?s 0 (length m - 0) = m" by (simp add: substr_def)
  show ?thesis
    unfolding ParseContentType_def 1 option.case 2 3 p Let_def 6 using 4 5 by simp
qed

theorem content_type_round_trip_witness:
  "ParseContentType (''text/HTML; charset='' @ [CHR 0x22] @ ''A;'' @ [CHR 0x5C, CHR 0x22] @ ''B'' @ [CHR 0x22]) [] [] False None =
    (''text/html'', ''a;'' @ [CHR 0x22] @ ''b'', True, None)"
proof -
  have "ParseContentType (''text/HTML'' @ ''; charset='' @ CHR 0x22 # quoted_text (''A;'' @ [CHR 0x22] @ ''B'') @ [CHR 0x22]) [] [] False None =
      (map ToLowerASCII ''text/HTML'', map ToLowerASCII (''A;'' @ [CHR 0x22] @ ''B''), True, None)"
    by (rule content_type_round_trip; code_simp)
  moreover have "map ToLowerASCII ''text/HTML'' = ''text/html''" "map ToLowerASCII (''A;'' @ [CHR 0x22] @ ''B'') = ''a;'' @ [CHR 0x22] @ ''b''"
    by (code_simp, code_simp)
  ultimately show ?thesis by simp
qed

end
