(* ===== verification/Loader_Task.thy ===== *)
theory Loader_Task
  imports Http_Message
begin

text \<open>
  The life of one HTTP load on POSIX: \<open>URLLoaderImpl\<close> creates an \<open>HTTPLoaderTask\<close>, which
  starts a \<open>CURLRequest\<close>; the request's worker thread reports to the task, the task posts to
  the main thread's \<open>TaskLoop\<close>, and there the crawler's client decides through the
  controller whether the load goes on.  The handlers change one state; two step relations say
  what the worker thread and the main thread can do next and what the client can.
\<close>

section \<open>The task loop\<close>

record 'a TaskLoop =
  m_taskQueue :: "'a list"
  m_exitCode :: "int option"

definition PostTask :: "'a \<Rightarrow> 'a TaskLoop \<Rightarrow> 'a TaskLoop" where
  "PostTask task l = l\<lparr>m_taskQueue := m_taskQueue l @ [task]\<rparr>"

definition Exit :: "int \<Rightarrow> 'a TaskLoop \<Rightarrow> 'a TaskLoop" where
  "Exit code l = l\<lparr>m_exitCode := Some code\<rparr>"

text \<open>
  What an iteration of \<open>Run\<close> does with the loop it finds: it sleeps, runs a task, or leaves
  with the exit code; a task that it has taken from the queue by then is not run.
\<close>

datatype 'a iteration = Asleep | RunsTask 'a | Leaves int

definition loop_iteration :: "'a TaskLoop \<Rightarrow> 'a iteration \<times> 'a TaskLoop" where
  "loop_iteration l =
     (if m_taskQueue l = [] \<and> m_exitCode l = None then (Asleep, l)
      else let l' = (if m_taskQueue l \<noteq> [] then l\<lparr>m_taskQueue := tl (m_taskQueue l)\<rparr> else l)
           in case m_exitCode l of
                Some code \<Rightarrow> (Leaves code, l')
              | None \<Rightarrow> (RunsTask (hd (m_taskQueue l)), l'))"

section \<open>The state of a load\<close>

datatype HijackType = kNotForCrawler | kMainHTML | kScript | kOther

text \<open>What is posted, what the loader's client is told, and what can be called on a controller.\<close>

datatype Task = RunProcessRequestComplete | RunDoContinue | RunErrorWorker BkError

datatype ClientEvent =
  DidReceiveResponse int str "str option" | DidReceiveData str | DidFinishLoading | DidFail BkError

datatype ControllerCall = CallContinueWorking | CallCancelWork | CallRelease

text \<open>
  \<open>w_alive\<close> tells whether the task object exists, \<open>w_request\<close> is the request object,
  \<open>w_worker\<close> whether its thread runs, \<open>w_owned\<close> whether the client was given the controller,
  \<open>w_fault\<close> whether a deleted object was used or deleted again, and \<open>w_aborted\<close> whether an
  exception that nothing catches has ended the process.  \<open>w_events\<close> records the calls to the
  loader's client, and \<open>w_calls\<close> the calls of the crawler's client, each with whether the
  loader's client had been told something by then.
\<close>

record World =
  w_loop :: "Task TaskLoop"
  w_alive :: bool
  m_hijackType :: HijackType
  m_response :: "ResponseImpl option"
  m_callingCrawler :: bool
  m_cancel :: "bool option"
  w_request :: "RequestImpl option"
  w_worker :: bool
  w_owned :: bool
  w_calls :: "(ControllerCall \<times> bool) list"
  w_events :: "ClientEvent list"
  w_fault :: bool
  w_aborted :: bool

definition start_world :: World where
  "start_world = \<lparr>w_loop = \<lparr>m_taskQueue = [], m_exitCode = None\<rparr>, w_alive = False, m_hijackType = kOther,
     m_response = None, m_callingCrawler = False, m_cancel = None, w_request = None, w_worker = False,
     w_owned = False, w_calls = [], w_events = [], w_fault = False, w_aborted = False\<rparr>"

definition post :: "Task \<Rightarrow> World \<Rightarrow> World" where
  "post task w = w\<lparr>w_loop := PostTask task (w_loop w)\<rparr>"

text \<open>A call of a member function of the task.\<close>

definition on_task :: "(World \<Rightarrow> World) \<Rightarrow> World \<Rightarrow> World" where
  "on_task f w = (if w_alive w then f w else w\<lparr>w_fault := True\<rparr>)"

definition delete_request :: "World \<Rightarrow> World" where
  "delete_request w = (if w_request w = None then w\<lparr>w_fault := True\<rparr> else w\<lparr>w_request := None\<rparr>)"

definition release_request :: "World \<Rightarrow> World" where
  "release_request w =
     (case w_request w of
        None \<Rightarrow> w\<lparr>w_fault := True\<rparr>
      | Some q \<Rightarrow> let (deleted, q) = Release q in w\<lparr>w_request := (if deleted then None else Some q)\<rparr>)"

section \<open>The task\<close>

definition PopulateResourceResponse :: "ResponseImpl \<Rightarrow> ClientEvent" where
  "PopulateResourceResponse r =
     (let (mimeType, charset, hasCharset, boundary) = ParseContentType (HeaderGet (m_headers r) ''Content-Type'') [] [] False None
      in DidReceiveResponse (m_statusCode r) mimeType (if hasCharset then Some charset else None))"

definition DoContinue :: "World \<Rightarrow> World" where
  "DoContinue w =
     (case m_response w of
        None \<Rightarrow> w\<lparr>w_fault := True\<rparr>
      | Some r \<Rightarrow> w\<lparr>w_events := w_events w @ [PopulateResourceResponse r, DidReceiveData (m_body r), DidFinishLoading],
                    w_alive := False\<rparr>)"

text \<open>Two assertions, which release builds leave out.\<close>

definition DoCancel :: "World \<Rightarrow> World" where "DoCancel w = w"

definition CancelWork :: "World \<Rightarrow> World" where
  "CancelWork w = (if m_callingCrawler w then w\<lparr>m_cancel := Some True\<rparr> else DoCancel w)"

definition ContinueWorking :: "World \<Rightarrow> World" where
  "ContinueWorking w = (if m_callingCrawler w then w\<lparr>m_cancel := Some False\<rparr> else DoContinue w)"

fun controller_call :: "ControllerCall \<Rightarrow> World \<Rightarrow> World" where
  "controller_call CallContinueWorking w = on_task ContinueWorking w"
| "controller_call CallCancelWork w = on_task CancelWork w"
| "controller_call CallRelease w = on_task CancelWork w"

text \<open>A call by the client, which is recorded.\<close>

definition client_call :: "ControllerCall \<Rightarrow> World \<Rightarrow> World" where
  "client_call c w = controller_call c (w\<lparr>w_calls := w_calls w @ [(c, w_events w \<noteq> [])]\<rparr>)"

definition PopulateHijackedResponse :: "str \<Rightarrow> str \<Rightarrow> World \<Rightarrow> World" where
  "PopulateHijackedResponse URL hijack w =
     (let r = (MakeResponse URL)\<lparr>m_statusCode := 200\<rparr>;
          r = (if m_hijackType w = kScript
               then r\<lparr>m_headers := HeaderSet ''Content-Type'' ''application/javascript; charset=utf-8'' (m_headers r)\<rparr>
               else r)
      in w\<lparr>m_response := Some (Hijack (Some hijack) (length hijack) r)\<rparr>)"

text \<open>\<open>hijack\<close> is the answer of the client's callback, \<open>None\<close> without one or when it declines.\<close>

definition ProcessHijackRequest :: "str \<Rightarrow> str option \<Rightarrow> World \<Rightarrow> bool \<times> World" where
  "ProcessHijackRequest URL hijack w =
     (if m_hijackType w \<noteq> kScript then (False, w)
      else case hijack of None \<Rightarrow> (False, w) | Some body \<Rightarrow> (True, PopulateHijackedResponse URL body w))"

text \<open>\<open>new_body\<close> is what the client makes of the body.\<close>

definition ProcessHijackResponse :: "str option \<Rightarrow> World \<Rightarrow> bool \<times> World" where
  "ProcessHijackResponse new_body w =
     (if m_hijackType w = kMainHTML then (False, w)
      else (True, case new_body of
                    None \<Rightarrow> w
                  | Some b \<Rightarrow> w\<lparr>m_response := map_option (Hijack (Some b) (length b)) (m_response w)\<rparr>))"

text \<open>
  \<open>CrawlerImpl::ProcessRequestComplete\<close>: without a callback the load goes on; a callback
  makes some calls on the controller before it returns, and may keep it for later ones.
\<close>

definition CrawlerRequestComplete :: "ControllerCall list option \<Rightarrow> World \<Rightarrow> World" where
  "CrawlerRequestComplete callback w =
     (case callback of
        None \<Rightarrow> controller_call CallContinueWorking w
      | Some calls \<Rightarrow> fold client_call calls (w\<lparr>w_owned := True\<rparr>))"

definition ProcessRequestComplete :: "ControllerCall list option \<Rightarrow> str option \<Rightarrow> World \<Rightarrow> World" where
  "ProcessRequestComplete callback new_body w =
     (let (hijacked, w) = ProcessHijackResponse new_body w
      in if hijacked then DoContinue w
         else let old = m_callingCrawler w;
                  w = (CrawlerRequestComplete callback (w\<lparr>m_callingCrawler := True\<rparr>))\<lparr>m_callingCrawler := old\<rparr>
              in case m_cancel w of
                   None \<Rightarrow> w
                 | Some cancel \<Rightarrow> if \<not> cancel then DoContinue w else DoCancel w)"

definition RequestComplete :: "ResponseImpl \<Rightarrow> World \<Rightarrow> World" where
  "RequestComplete response w = post RunProcessRequestComplete (w\<lparr>m_response := Some response\<rparr>)"

definition RequestFailed :: "BkError \<Rightarrow> World \<Rightarrow> World" where
  "RequestFailed errorCode w = (post (RunErrorWorker errorCode) w)\<lparr>w_alive := False\<rparr>"

section \<open>The request\<close>

text \<open>
  \<open>CURLRequest::Perform\<close>: \<open>thread_ok\<close> is whether the thread can be created.  On failure the
  object deletes itself.
\<close>

definition Perform :: "bool \<Rightarrow> World \<Rightarrow> BkError \<times> World" where
  "Perform thread_ok w =
     (case w_request w of
        None \<Rightarrow> (BK_ERR_UNKNOWN, w\<lparr>w_fault := True\<rparr>)
      | Some q \<Rightarrow>
          if \<not> SchemeIsHTTPOrHTTPS (MakeBkURL (r_URL q)) then (BK_ERR_URI, delete_request w)
          else if thread_ok then (BK_ERR_SUCCESS, w\<lparr>w_worker := True\<rparr>)
          else (BK_ERR_UNKNOWN, delete_request w))"

text \<open>
  \<open>DoThreadWork\<close>: the transfer delivered header and body bytes, or failed.  No frame of the
  thread catches an exception that leaves \<open>ParseHeaders\<close>, so it ends the process.
\<close>

definition DoThreadWork :: "(str \<times> str) option \<Rightarrow> World \<Rightarrow> World" where
  "DoThreadWork transfer w =
     (case transfer of
        Some (headers, body) \<Rightarrow>
          (case ParseHeaders headers (AppendData body (MakeResponse (r_URL (the (w_request w))))) of
             None \<Rightarrow> w\<lparr>w_aborted := True\<rparr>
           | Some response \<Rightarrow> release_request (on_task (RequestComplete response) w))
      | None \<Rightarrow> release_request (on_task (RequestFailed BK_ERR_NETWORK) w))"

section \<open>Starting a load\<close>

definition RunTask ::
    "str \<Rightarrow> str \<Rightarrow> BkHTTPHeaderMap \<Rightarrow> HijackType \<Rightarrow> str option \<Rightarrow> bool \<Rightarrow> World \<Rightarrow> BkError \<times> World" where
  "RunTask URL http_method headers hijackType hijack thread_ok w =
     (let (hijacked, w) = ProcessHijackRequest URL hijack (w\<lparr>m_hijackType := hijackType\<rparr>)
      in if hijacked then (BK_ERR_SUCCESS, post RunDoContinue w)
         else let (r, w) = Perform thread_ok (w\<lparr>w_request := Some (SetHeaders headers (SetMethod http_method (MakeRequest URL)))\<rparr>)
              in (r, if r \<noteq> BK_ERR_SUCCESS then delete_request w else w))"

definition LoadAsynchronously ::
    "str \<Rightarrow> str \<Rightarrow> BkHTTPHeaderMap \<Rightarrow> HijackType \<Rightarrow> str option \<Rightarrow> bool \<Rightarrow> World \<Rightarrow> World" where
  "LoadAsynchronously URL http_method headers hijackType hijack thread_ok w =
     (let (error, w) =
            (if SchemeIsHTTPOrHTTPS (MakeBkURL URL)
             then RunTask URL http_method headers hijackType hijack thread_ok (w\<lparr>w_alive := True\<rparr>)
             else (BK_ERR_URI, w))
      in if error \<noteq> BK_ERR_SUCCESS then post (RunErrorWorker error) w else w)"

section \<open>Steps\<close>

fun run_posted :: "Task \<Rightarrow> ControllerCall list option \<Rightarrow> str option \<Rightarrow> World \<Rightarrow> World" where
  "run_posted RunProcessRequestComplete callback new_body w = on_task (ProcessRequestComplete callback new_body) w"
| "run_posted RunDoContinue callback new_body w = on_task DoContinue w"
| "run_posted (RunErrorWorker error) callback new_body w = w\<lparr>w_events := w_events w @ [DidFail error]\<rparr>"

text \<open>
  A step of the worker thread, with what the transfer brings, or of the main thread, with
  what the crawler's client does in its callbacks: whatever it answers and however often it
  calls the controller.
\<close>

inductive system_step :: "World \<Rightarrow> World \<Rightarrow> bool" where
  worker: "\<not> w_aborted w \<Longrightarrow> w_worker w \<Longrightarrow> system_step w (DoThreadWork transfer (w\<lparr>w_worker := False\<rparr>))"
| main: "\<not> w_aborted w \<Longrightarrow> loop_iteration (w_loop w) = (RunsTask task, l) \<Longrightarrow>
    system_step w (run_posted task callback new_body (w\<lparr>w_loop := l\<rparr>))"

text \<open>A client that was given the controller may call it at any time, any number of times.\<close>

inductive client_step :: "World \<Rightarrow> World \<Rightarrow> bool" where
  client: "\<not> w_aborted w \<Longrightarrow> w_owned w \<Longrightarrow> client_step w (client_call c w)"

text \<open>The states that a load reaches from \<open>s\<close>, with the number of system steps taken.\<close>

inductive load_run :: "World \<Rightarrow> nat \<Rightarrow> World \<Rightarrow> bool" for s where
  start: "load_run s 0 s"
| system: "load_run s n w \<Longrightarrow> system_step w w' \<Longrightarrow> load_run s (Suc n) w'"
| client: "load_run s n w \<Longrightarrow> client_step w w' \<Longrightarrow> load_run s n w'"

inductive_cases system_stepE: "system_step w w'"
inductive_cases client_stepE: "client_step w w'"
inductive_simps system_step_iff: "system_step w w'"

end
