(* ===== verification/Loader_Laws.thy ===== *)
theory Loader_Laws
  imports Loader_Task
begin

text \<open>
  What holds of a load: the phases it goes through, which give safety and a bound on the
  number of steps, and the defects at the edges of the protocol.
\<close>

section \<open>Phases\<close>

datatype Phase = Transferring | Arrived | Hijacked | Waiting | Finished | Failing | Failed | Aborted

text \<open>The calls that tell the loader's client about a response.\<close>

definition answer :: "ResponseImpl \<Rightarrow> ClientEvent list" where
  "answer r = [PopulateResourceResponse r, DidReceiveData (m_body r), DidFinishLoading]"

text \<open>A call on the controller after the loader's client was told.\<close>

definition late_call :: "World \<Rightarrow> bool" where
  "late_call w \<longleftrightarrow> (\<exists>c. (c, True) \<in> set (w_calls w))"

text \<open>The case in which the load starts a request whose worker thread cannot be created.\<close>

definition no_thread :: "str \<Rightarrow> HijackType \<Rightarrow> str option \<Rightarrow> bool \<Rightarrow> bool" where
  "no_thread URL hijackType hijack thread_ok \<longleftrightarrow>
     \<not> thread_ok \<and> SchemeIsHTTPOrHTTPS (MakeBkURL URL) \<and> (hijackType \<noteq> kScript \<or> hijack = None)"

text \<open>Phases of a load, \<open>b\<close> telling whether its thread could not be created.\<close>

definition sound :: "bool \<Rightarrow> World \<Rightarrow> bool" where
  "sound b w \<longleftrightarrow> (w_fault w \<longleftrightarrow> b \<or> late_call w) \<and> \<not> m_callingCrawler w \<and> m_exitCode (w_loop w) = None"

definition quiet :: "World \<Rightarrow> bool" where
  "quiet w \<longleftrightarrow> \<not> w_worker w \<and> w_request w = None \<and> m_taskQueue (w_loop w) = [] \<and> \<not> w_aborted w"

definition posted :: "Task \<Rightarrow> World \<Rightarrow> bool" where
  "posted t w \<longleftrightarrow> \<not> w_worker w \<and> w_request w = None \<and> m_taskQueue (w_loop w) = [t] \<and> \<not> w_owned w \<and> w_calls w = [] \<and>
     w_events w = [] \<and> \<not> w_aborted w"

fun in_phase :: "bool \<Rightarrow> Phase \<Rightarrow> World \<Rightarrow> bool" where
  "in_phase b Transferring w \<longleftrightarrow> sound b w \<and> \<not> b \<and> w_worker w \<and> w_alive w \<and> map_option r_refCount (w_request w) = Some 1 \<and>
     m_taskQueue (w_loop w) = [] \<and> \<not> w_owned w \<and> w_events w = [] \<and> w_calls w = [] \<and> m_cancel w = None \<and> \<not> w_aborted w"
| "in_phase b Arrived w \<longleftrightarrow> sound b w \<and> \<not> b \<and> posted RunProcessRequestComplete w \<and> w_alive w \<and> m_response w \<noteq> None \<and> m_cancel w = None"
| "in_phase b Hijacked w \<longleftrightarrow> sound b w \<and> posted RunDoContinue w \<and> w_alive w \<and> m_response w \<noteq> None"
| "in_phase b Waiting w \<longleftrightarrow> sound b w \<and> \<not> b \<and> \<not> late_call w \<and> quiet w \<and> w_alive w \<and> w_owned w \<and> m_response w \<noteq> None \<and> w_events w = []"
| "in_phase b Finished w \<longleftrightarrow> sound b w \<and> quiet w \<and> \<not> w_alive w \<and> (\<exists>r. w_events w = answer r)"
| "in_phase b Failing w \<longleftrightarrow> sound b w \<and> (\<exists>e. posted (RunErrorWorker e) w) \<and> (w_alive w \<longleftrightarrow> b)"
| "in_phase b Failed w \<longleftrightarrow> sound b w \<and> quiet w \<and> (w_alive w \<longleftrightarrow> b) \<and> \<not> w_owned w \<and> w_calls w = [] \<and> (\<exists>e. w_events w = [DidFail e])"
| "in_phase b Aborted w \<longleftrightarrow> sound b w \<and> w_aborted w \<and> w_events w = [] \<and> \<not> w_owned w"

fun rank :: "Phase \<Rightarrow> nat" where
  "rank Transferring = 2" | "rank Arrived = 1" | "rank Hijacked = 1" | "rank Failing = 1"
| "rank Waiting = 0" | "rank Finished = 0" | "rank Failed = 0" | "rank Aborted = 0"

lemmas phase_defs = sound_def quiet_def posted_def answer_def late_call_def

lemma iteration_ready:
  "loop_iteration l = (RunsTask t, l') \<longleftrightarrow>
     (\<exists>q. m_exitCode l = None \<and> m_taskQueue l = t # q \<and> l' = l\<lparr>m_taskQueue := q\<rparr>)"
  by (cases "m_taskQueue l") (auto simp: loop_iteration_def Let_def split: option.splits)

section \<open>Handlers\<close>

lemma continue_finishes:
  assumes "sound b w" "quiet w" "m_response w \<noteq> None" "w_events w = []"
  shows "in_phase b Finished (DoContinue w)"
  using assms by (auto simp: DoContinue_def phase_defs)

lemma complete_arrives:
  assumes "in_phase b Transferring w"
  shows "in_phase b Arrived (release_request (on_task (RequestComplete r) (w\<lparr>w_worker := False\<rparr>)))"
  using assms by (auto simp: release_request_def on_task_def RequestComplete_def post_def PostTask_def Release_def Let_def phase_defs)

lemma failure_posts:
  assumes "in_phase b Transferring w"
  shows "in_phase b Failing (release_request (on_task (RequestFailed e) (w\<lparr>w_worker := False\<rparr>)))"
  using assms by (auto simp: release_request_def on_task_def RequestFailed_def post_def PostTask_def Release_def Let_def phase_defs)

text \<open>The calls of a callback only leave the last one behind.\<close>

lemma calls_in_callback:
  assumes "m_callingCrawler w" "w_alive w"
  shows "fold client_call cs w = w\<lparr>w_calls := w_calls w @ map (\<lambda>c. (c, w_events w \<noteq> [])) cs,
    m_cancel := (if cs = [] then m_cancel w else Some (last cs \<noteq> CallContinueWorking))\<rparr>"
  using assms
proof (induction cs arbitrary: w)
  case (Cons c cs)
  have "client_call c w = w\<lparr>w_calls := w_calls w @ [(c, w_events w \<noteq> [])], m_cancel := Some (c \<noteq> CallContinueWorking)\<rparr>"
    using Cons.prems by (cases c) (simp_all add: client_call_def on_task_def CancelWork_def ContinueWorking_def)
  then show ?case using Cons.prems by (simp add: Cons.IH)
qed simp

lemma continue_or_wait:
  assumes "w' = (if go_on then DoContinue w else w)" "in_phase b Waiting w"
  shows "\<exists>p\<in>{Finished, Waiting}. in_phase b p w'"
proof (cases go_on)
  case True
  have "in_phase b Finished (DoContinue w)" using assms(2) by (intro continue_finishes) auto
  then show ?thesis using assms(1) True by (simp del: in_phase.simps)
next
  case False
  then show ?thesis using assms by (simp del: in_phase.simps)
qed

lemma decision:
  assumes "sound b w" "\<not> b" "quiet w" "w_alive w" "w_events w = []" "w_calls w = []" "m_cancel w = None" "m_response w \<noteq> None"
  shows "\<exists>p\<in>{Finished, Waiting}. in_phase b p (ProcessRequestComplete callback new_body w)"
proof (cases "m_hijackType w = kMainHTML")
  case False
  let ?w = "snd (ProcessHijackResponse new_body w)"
  have "sound b ?w" "quiet ?w" "m_response ?w \<noteq> None" "w_events ?w = []"
    using assms False by (auto simp: ProcessHijackResponse_def phase_defs split: option.split)
  then have "in_phase b Finished (DoContinue ?w)" by (rule continue_finishes)
  moreover have "ProcessRequestComplete callback new_body w = DoContinue ?w"
    using False by (simp add: ProcessRequestComplete_def ProcessHijackResponse_def)
  ultimately show ?thesis by simp
next
  case main: True
  show ?thesis
  proof (cases callback)
    case None
    then have "in_phase b Finished (ProcessRequestComplete callback new_body w)"
      using assms main by (auto simp: ProcessRequestComplete_def ProcessHijackResponse_def CrawlerRequestComplete_def
          on_task_def ContinueWorking_def DoContinue_def phase_defs Let_def)
    then show ?thesis by blast
  next
    case (Some calls)
    let ?w = "w\<lparr>w_owned := True, w_calls := map (\<lambda>c. (c, False)) calls,
      m_cancel := (if calls = [] then None else Some (last calls \<noteq> CallContinueWorking)), m_callingCrawler := False\<rparr>"
    have "ProcessRequestComplete callback new_body w = (if calls \<noteq> [] \<and> last calls = CallContinueWorking then DoContinue ?w else ?w)"
      using assms main Some by (auto simp: ProcessRequestComplete_def ProcessHijackResponse_def CrawlerRequestComplete_def
          calls_in_callback DoCancel_def Let_def phase_defs)
    moreover have "in_phase b Waiting ?w" using assms by (auto simp: phase_defs)
    ultimately show ?thesis by (rule continue_or_wait)
  qed
qed

section \<open>Steps of the system\<close>

lemma phase_step:
  assumes "in_phase b p w" "system_step w w'"
  shows "\<exists>p'. in_phase b p' w' \<and> rank p' < rank p"
  using assms(2)
proof cases
  case (worker transfer)
  have p: "p = Transferring" using assms(1) worker by (cases p) (auto simp: phase_defs)
  let ?parse = "\<lambda>h bd. ParseHeaders h (AppendData bd (MakeResponse (r_URL (the (w_request w)))))"
  consider (failed) "transfer = None" | (thrown) h bd where "transfer = Some (h, bd)" "?parse h bd = None" |
      (read) h bd r where "transfer = Some (h, bd)" "?parse h bd = Some r"
    by (cases transfer) fastforce+
  then have "in_phase b (case transfer of None \<Rightarrow> Failing | Some (h, bd) \<Rightarrow> if ?parse h bd = None then Aborted else Arrived) w'"
  proof cases
    case failed
    then show ?thesis using failure_posts assms(1) p worker(1) by (simp add: DoThreadWork_def)
  next
    case thrown
    then show ?thesis using assms(1) p worker(1) by (auto simp: DoThreadWork_def phase_defs)
  next
    case read
    then show ?thesis using complete_arrives assms(1) p worker(1) by (simp add: DoThreadWork_def)
  qed
  then show ?thesis using p
    by (intro exI [of _ "case transfer of None \<Rightarrow> Failing | Some (h, bd) \<Rightarrow> if ?parse h bd = None then Aborted else Arrived"])
      (simp split: option.split prod.split del: in_phase.simps)
next
  case (main task l callback new_body)
  obtain q where q: "m_taskQueue (w_loop w) = task # q" "l = (w_loop w)\<lparr>m_taskQueue := q\<rparr>"
    using main(3) by (auto simp: iteration_ready)
  let ?w = "w\<lparr>w_loop := l\<rparr>"
  consider (arrived) "p = Arrived" | (hijacked) "p = Hijacked" | (failing) "p = Failing"
    using assms(1) q(1) main(2) by (cases p) (auto simp: phase_defs)
  then show ?thesis
  proof cases
    case arrived
    then have t: "task = RunProcessRequestComplete" "q = []" and a: "w_alive ?w" using assms(1) q(1) by (auto simp: phase_defs)
    have "\<exists>p\<in>{Finished, Waiting}. in_phase b p (ProcessRequestComplete callback new_body ?w)"
      by (rule decision) (use assms(1) arrived q t in \<open>auto simp: phase_defs\<close>)
    then show ?thesis using main(1) t a arrived by (auto simp: on_task_def simp del: in_phase.simps)
  next
    case hijacked
    then have t: "task = RunDoContinue" "q = []" and a: "w_alive ?w" using assms(1) q(1) by (auto simp: phase_defs)
    have "in_phase b Finished (DoContinue ?w)"
      by (rule continue_finishes) (use assms(1) hijacked q t in \<open>auto simp: phase_defs\<close>)
    then show ?thesis using main(1) t a hijacked by (intro exI [of _ Finished]) (simp add: on_task_def)
  next
    case failing
    then obtain e where "task = RunErrorWorker e" "q = []" using assms(1) q(1) by (auto simp: phase_defs)
    then have "in_phase b Failed w'" using assms(1) failing q main(1) by (auto simp: phase_defs)
    then show ?thesis using failing by (intro exI [of _ Failed]) simp
  qed
qed

lemma phase_stuck:
  assumes "in_phase b p w"
  shows "(\<exists>w'. system_step w w') \<longleftrightarrow> 0 < rank p"
proof
  assume "\<exists>w'. system_step w w'"
  then show "0 < rank p" using phase_step [OF assms] by force
next
  assume "0 < rank p"
  then consider "\<not> w_aborted w" "w_worker w" |
      t where "\<not> w_aborted w" "m_exitCode (w_loop w) = None" "m_taskQueue (w_loop w) = [t]"
    using assms by (cases p) (auto simp: phase_defs)
  then show "\<exists>w'. system_step w w'"
  proof cases
    case 1
    then show ?thesis by (blast intro: system_step.worker)
  next
    case (2 t)
    then have "loop_iteration (w_loop w) = (RunsTask t, (w_loop w)\<lparr>m_taskQueue := []\<rparr>)" by (simp add: iteration_ready)
    from system_step.main [OF 2(1) this] show ?thesis by blast
  qed
qed

section \<open>Calls of the client\<close>

lemma verdict:
  assumes "in_phase b Waiting w"
  shows "in_phase b (if c = CallContinueWorking then Finished else Waiting) (client_call c w)"
  using assms
  by (cases c) (auto simp: client_call_def on_task_def ContinueWorking_def CancelWork_def DoContinue_def DoCancel_def phase_defs)

lemma verdicts: "in_phase b Waiting w \<Longrightarrow> set cs \<subseteq> {CallCancelWork, CallRelease} \<Longrightarrow> in_phase b Waiting (fold client_call cs w)"
proof (induction cs arbitrary: w)
  case (Cons c cs)
  have "in_phase b Waiting (client_call c w)" using verdict [OF Cons.prems(1), of c] Cons.prems(2) by auto
  then show ?case using Cons.IH [of "client_call c w"] Cons.prems(2) by (simp del: in_phase.simps)
qed (simp del: in_phase.simps)

lemma call_too_late:
  assumes "in_phase b Finished w"
  shows "in_phase b Finished (client_call c w) \<and> w_fault (client_call c w)"
proof -
  have "client_call c w = w\<lparr>w_calls := w_calls w @ [(c, True)], w_fault := True\<rparr>"
    using assms by (cases c) (auto simp: client_call_def on_task_def answer_def)
  then show ?thesis using assms by (auto simp: phase_defs)
qed

lemma phase_client:
  assumes "in_phase b p w" "client_step w w'"
  shows "\<exists>p'. in_phase b p' w' \<and> rank p' = rank p"
proof -
  obtain c where c: "\<not> w_aborted w" "w_owned w" "w' = client_call c w" using assms(2) by (auto elim: client_stepE)
  then consider "p = Waiting" | "p = Finished" using assms(1) by (cases p) (auto simp: phase_defs)
  then show ?thesis
  proof cases
    case 1
    then show ?thesis using verdict [of b w c] assms(1) c(3)
      by (intro exI [of _ "if c = CallContinueWorking then Finished else Waiting"]) (simp del: in_phase.simps)
  next
    case 2
    then show ?thesis using call_too_late [of b w c] assms(1) c(3) by blast
  qed
qed

section \<open>Runs\<close>

lemma phase_run: "load_run s n w \<Longrightarrow> in_phase b p s \<Longrightarrow> \<exists>p'. in_phase b p' w \<and> rank p' + n \<le> rank p"
proof (induction rule: load_run.induct)
  case (system n w w')
  then obtain p' where p': "in_phase b p' w" "rank p' + n \<le> rank p" by blast
  obtain p'' where "in_phase b p'' w'" "rank p'' < rank p'" using phase_step [OF p'(1) system.hyps(2)] by blast
  then show ?case using p'(2) by (intro exI [of _ p'']) linarith
next
  case (client n w w')
  then show ?case using phase_client by metis
qed auto

text \<open>How a load begins.\<close>

lemma start_phase:
  "\<exists>p. in_phase (no_thread URL hijackType hijack thread_ok) p (LoadAsynchronously URL http_method headers hijackType hijack thread_ok start_world) \<and> rank p \<le> 2"
proof -
  let ?w = "LoadAsynchronously URL http_method headers hijackType hijack thread_ok start_world"
  let ?b = "no_thread URL hijackType hijack thread_ok"
  consider "\<not> SchemeIsHTTPOrHTTPS (MakeBkURL URL)" | bd where "SchemeIsHTTPOrHTTPS (MakeBkURL URL)" "hijackType = kScript" "hijack = Some bd" |
      "SchemeIsHTTPOrHTTPS (MakeBkURL URL)" "hijackType \<noteq> kScript \<or> hijack = None"
    by fastforce
  then show ?thesis
  proof cases
    case 1
    then have "in_phase ?b Failing ?w"
      by (auto simp: LoadAsynchronously_def post_def PostTask_def start_world_def no_thread_def phase_defs)
    then show ?thesis by (intro exI [of _ Failing]) simp
  next
    case (2 bd)
    then have "in_phase ?b Hijacked ?w"
      by (auto simp: LoadAsynchronously_def RunTask_def ProcessHijackRequest_def PopulateHijackedResponse_def
          post_def PostTask_def start_world_def no_thread_def phase_defs Let_def)
    then show ?thesis by (intro exI [of _ Hijacked]) simp
  next
    case 3
    have "in_phase ?b (if thread_ok then Transferring else Failing) ?w"
      using 3 by (auto simp: LoadAsynchronously_def RunTask_def ProcessHijackRequest_def Perform_def SetHeaders_def SetMethod_def
          MakeRequest_def start_world_def delete_request_def post_def PostTask_def no_thread_def phase_defs split: option.split)
    then show ?thesis by (intro exI [of _ "if thread_ok then Transferring else Failing"]) simp
  qed
qed

lemma load_phase:
  assumes "load_run (LoadAsynchronously URL http_method headers hijackType hijack thread_ok start_world) n w"
  obtains p where "in_phase (no_thread URL hijackType hijack thread_ok) p w" "rank p + n \<le> 2"
  using phase_run [OF assms] start_phase by (metis le_trans)

text \<open>A load from its start to its end: a page, the client without a callback, and one that waits.\<close>

definition sample_start :: World where
  "sample_start = LoadAsynchronously ''http://h/'' ''GET'' Clear kMainHTML None True start_world"

definition sample_page :: "(str \<times> str) option" where
  "sample_page = Some (''HTTP/1.1 200 OK'' @ CRLF @ ''content-type: text/html'' @ CRLF @ CRLF, ''hi'')"

definition sample_arrived :: World where
  "sample_arrived = DoThreadWork sample_page (sample_start\<lparr>w_worker := False\<rparr>)"

definition sample_end :: "ControllerCall list option \<Rightarrow> World" where
  "sample_end callback =
     run_posted RunProcessRequestComplete callback None (sample_arrived\<lparr>w_loop := snd (loop_iteration (w_loop sample_arrived))\<rparr>)"

lemma sample_start_state:
  obtains q where "r_refCount q = 1"
    "sample_start = start_world\<lparr>w_alive := True, m_hijackType := kMainHTML, w_request := Some q, w_worker := True\<rparr>"
proof -
  have "SchemeIsHTTPOrHTTPS (MakeBkURL ''http://h/'')" by code_simp
  then show thesis
    using that [of "SetHeaders Clear (SetMethod ''GET'' (MakeRequest ''http://h/''))"]
    by (simp add: sample_start_def LoadAsynchronously_def RunTask_def ProcessHijackRequest_def Perform_def SetHeaders_def
        SetMethod_def MakeRequest_def start_world_def)
qed

lemma transfer_arrives:
  assumes "w = start_world\<lparr>w_alive := True, m_hijackType := kMainHTML, w_request := Some q, w_worker := True\<rparr>" "r_refCount q = 1"
    "ParseHeaders h (AppendData b (MakeResponse (r_URL q))) = Some r"
  shows "DoThreadWork (Some (h, b)) (w\<lparr>w_worker := False\<rparr>) =
    start_world\<lparr>w_loop := \<lparr>m_taskQueue = [RunProcessRequestComplete], m_exitCode = None\<rparr>,
      w_alive := True, m_hijackType := kMainHTML, m_response := Some r\<rparr>"
  using assms by (simp add: DoThreadWork_def release_request_def Release_def on_task_def RequestComplete_def post_def PostTask_def start_world_def)

lemma sample_arrived_state:
  obtains r where "sample_arrived = start_world\<lparr>w_loop := \<lparr>m_taskQueue = [RunProcessRequestComplete], m_exitCode = None\<rparr>,
    w_alive := True, m_hijackType := kMainHTML, m_response := Some r\<rparr>"
proof -
  obtain q where q: "sample_start = start_world\<lparr>w_alive := True, m_hijackType := kMainHTML, w_request := Some q, w_worker := True\<rparr>"
    "r_refCount q = 1" by (rule sample_start_state)
  have "ParseHeaders (fst (the sample_page)) (AppendData (snd (the sample_page)) (MakeResponse (r_URL (the (w_request sample_start))))) \<noteq> None"
    by code_simp
  then obtain r where r: "ParseHeaders (fst (the sample_page)) (AppendData (snd (the sample_page)) (MakeResponse (r_URL q))) = Some r"
    unfolding q(1) by auto
  have "sample_page = Some (fst (the sample_page), snd (the sample_page))" by (simp add: sample_page_def)
  then show thesis using that transfer_arrives [OF q r] unfolding sample_arrived_def by metis
qed

lemma sample_run: "load_run sample_start 2 (sample_end callback)"
proof -
  obtain q where q: "sample_start = start_world\<lparr>w_alive := True, m_hijackType := kMainHTML, w_request := Some q, w_worker := True\<rparr>"
    by (rule sample_start_state)
  have "\<not> w_aborted sample_start" "w_worker sample_start" unfolding q by (simp_all add: start_world_def)
  then have a: "system_step sample_start sample_arrived" unfolding sample_arrived_def by (rule worker)
  obtain r where r: "sample_arrived = start_world\<lparr>w_loop := \<lparr>m_taskQueue = [RunProcessRequestComplete], m_exitCode = None\<rparr>,
      w_alive := True, m_hijackType := kMainHTML, m_response := Some r\<rparr>" by (rule sample_arrived_state)
  have "loop_iteration (w_loop sample_arrived) = (RunsTask RunProcessRequestComplete, snd (loop_iteration (w_loop sample_arrived)))"
    "\<not> w_aborted sample_arrived" unfolding r by (simp_all add: loop_iteration_def start_world_def)
  then have b: "system_step sample_arrived (sample_end callback)" unfolding sample_end_def by (intro main)
  show ?thesis using load_run.system [OF load_run.system [OF load_run.start a] b] by (simp add: numeral_2_eq_2)
qed

text \<open>A client that does not let the load go on in its callback.\<close>

lemma sample_waits:
  assumes "calls = [] \<or> last calls \<noteq> CallContinueWorking"
  shows "w_owned (sample_end (Some calls))" "w_events (sample_end (Some calls)) = []" "\<not> w_aborted (sample_end (Some calls))"
    "\<not> system_step (sample_end (Some calls)) w'"
proof -
  obtain r where r: "sample_arrived = start_world\<lparr>w_loop := \<lparr>m_taskQueue = [RunProcessRequestComplete], m_exitCode = None\<rparr>,
      w_alive := True, m_hijackType := kMainHTML, m_response := Some r\<rparr>" by (rule sample_arrived_state)
  have e: "sample_end (Some calls) = start_world\<lparr>w_alive := True, m_hijackType := kMainHTML, m_response := Some r, w_owned := True,
      w_calls := map (\<lambda>c. (c, False)) calls, m_cancel := (if calls = [] then None else Some True)\<rparr>"
    unfolding sample_end_def r using assms by (auto simp: start_world_def loop_iteration_def on_task_def ProcessRequestComplete_def
        ProcessHijackResponse_def CrawlerRequestComplete_def calls_in_callback DoCancel_def Let_def)
  show "w_owned (sample_end (Some calls))" "w_events (sample_end (Some calls)) = []" "\<not> w_aborted (sample_end (Some calls))"
    "\<not> system_step (sample_end (Some calls)) w'" unfolding e by (auto simp: start_world_def iteration_ready elim!: system_stepE)
qed

section \<open>Theorems\<close>

text \<open>
  C4. Safety of every run of a load, whatever the transfer brings, whether or not the thread
  can be created, and with a client that calls the controller in its callback and later as
  often as it likes.  A deleted object is used or deleted again in exactly two cases: the
  thread could not be created, and the client made a call after the loader's client was
  told.  The loader's client is told nothing, exactly one whole response or exactly one
  error; the task exists no longer once it was told, unless the thread could not be created.
  When an exception has ended the process nothing was told.
\<close>

theorem load_is_safe:
  assumes "load_run (LoadAsynchronously URL http_method headers hijackType hijack thread_ok start_world) n w"
  shows "(w_fault w \<longleftrightarrow> no_thread URL hijackType hijack thread_ok \<or> (\<exists>c. (c, True) \<in> set (w_calls w))) \<and>
    (w_events w = [] \<or>
     (\<exists>r. w_events w = answer r) \<and> \<not> w_alive w \<or>
     (\<exists>e. w_events w = [DidFail e]) \<and> (w_alive w \<longleftrightarrow> no_thread URL hijackType hijack thread_ok)) \<and>
    (w_aborted w \<longrightarrow> w_events w = [])"
proof -
  obtain p where p: "in_phase (no_thread URL hijackType hijack thread_ok) p w" by (rule load_phase [OF assms])
  then have "w_fault w \<longleftrightarrow> no_thread URL hijackType hijack thread_ok \<or> late_call w" by (cases p) (auto simp: sound_def)
  moreover have "w_events w = [] \<or> (\<exists>r. w_events w = answer r) \<and> \<not> w_alive w \<or>
     (\<exists>e. w_events w = [DidFail e]) \<and> (w_alive w \<longleftrightarrow> no_thread URL hijackType hijack thread_ok)"
    using p by (cases p) (auto simp: posted_def)
  moreover have "w_aborted w \<longrightarrow> w_events w = []" using p by (cases p) (auto simp: quiet_def posted_def)
  ultimately show ?thesis by (simp add: late_call_def)
qed

theorem load_is_safe_witness:
  "\<not> w_fault (sample_end (Some [])) \<and> w_events (sample_end (Some [])) = [] \<and>
   w_events (sample_end None) = [DidReceiveResponse 200 ''text/html'' None, DidReceiveData ''hi'', DidFinishLoading] \<and>
   \<not> w_alive (sample_end None)"
proof -
  have "w_events (sample_end None) = [DidReceiveResponse 200 ''text/html'' None, DidReceiveData ''hi'', DidFinishLoading]"
    by code_simp
  moreover have "w_calls (sample_end (Some [])) = []" by code_simp
  ultimately show ?thesis
    using load_is_safe [OF sample_run [of None, unfolded sample_start_def]]
      load_is_safe [OF sample_run [of "Some []", unfolded sample_start_def]] sample_waits(2) [of "[]"] by (simp add: no_thread_def)
qed

text \<open>
  C16. Liveness: in every run of a load, with any transfer, thread and client as in the
  safety property, the worker thread and the main thread take at most two steps between
  them, and where neither can take another one the loader's client has been told the
  response or an error, or an exception of the header parser has ended the process, or the
  load waits for a client that was given the controller, and whose next call to go on
  delivers the response.
\<close>

theorem load_ends:
  assumes "load_run (LoadAsynchronously URL http_method headers hijackType hijack thread_ok start_world) n w"
  shows "n \<le> 2 \<and> ((\<forall>w'. \<not> system_step w w') \<longrightarrow>
    (\<exists>r. w_events w = answer r) \<or> (\<exists>e. w_events w = [DidFail e]) \<or> w_aborted w \<or>
    (w_owned w \<and> w_events w = [] \<and> (\<exists>r. w_events (client_call CallContinueWorking w) = answer r)))"
proof -
  obtain p where p: "in_phase (no_thread URL hijackType hijack thread_ok) p w" "rank p + n \<le> 2" by (rule load_phase [OF assms])
  have stuck: "(\<forall>w'. \<not> system_step w w') \<longleftrightarrow> rank p = 0" using phase_stuck [OF p(1)] by auto
  show ?thesis
  proof (cases "p = Waiting")
    case True
    have "in_phase (no_thread URL hijackType hijack thread_ok) Finished (client_call CallContinueWorking w)"
      using verdict [of _ w CallContinueWorking] p(1) True by auto
    then show ?thesis using p True by simp
  next
    case False
    then show ?thesis using p stuck by (cases p) auto
  qed
qed

theorem load_ends_witness:
  "\<not> (\<exists>w'. system_step (sample_end (Some [])) w') \<and> w_events (sample_end (Some [])) = [] \<and>
   (\<exists>r. w_events (client_call CallContinueWorking (sample_end (Some []))) = answer r)"
proof -
  have "[] \<noteq> answer r" for r by (simp add: answer_def)
  then have "\<exists>r. w_events (client_call CallContinueWorking (sample_end (Some []))) = answer r"
    using load_ends [OF sample_run [of "Some []", unfolded sample_start_def]] sample_waits [of "[]"] by (metis list.discI)
  then show ?thesis using sample_waits [of "[]"] by blast
qed

text \<open>
  C40. Cancelling ends nothing.  A client that was given the controller, and whose load has
  told nothing yet, may cancel or release it as often as it likes, whatever it called before,
  in its callback or later: the task goes on to exist, nothing is told, and neither thread
  can take a step.  A call to go on still delivers the response after that, deletes the task,
  and leaves every further call on the controller a use of the deleted task.
\<close>

theorem cancel_ends_nothing:
  assumes "load_run (LoadAsynchronously URL http_method headers hijackType hijack thread_ok start_world) n w"
    "w_owned w" "w_events w = []" "set cs \<subseteq> {CallCancelWork, CallRelease}"
  shows "let cancelled = fold client_call cs w; continued = client_call CallContinueWorking cancelled
    in w_alive cancelled \<and> w_events cancelled = [] \<and> \<not> w_fault cancelled \<and> \<not> (\<exists>w'. system_step cancelled w') \<and>
       (\<exists>r. w_events continued = answer r) \<and> \<not> w_alive continued \<and> \<not> w_fault continued \<and>
       w_fault (client_call c continued)"
proof -
  let ?b = "no_thread URL hijackType hijack thread_ok"
  obtain p where p: "in_phase ?b p w" by (rule load_phase [OF assms(1)])
  then have "p = Waiting" using assms(2,3) by (cases p) (auto simp: phase_defs)
  then have c: "in_phase ?b Waiting (fold client_call cs w)" using verdicts p assms(4) by blast
  then have d: "in_phase ?b Finished (client_call CallContinueWorking (fold client_call cs w))"
    using verdict [of ?b "fold client_call cs w" CallContinueWorking] by (simp del: in_phase.simps)
  have "\<not> w_fault (client_call CallContinueWorking (fold client_call cs w))"
    using c by (auto simp: client_call_def on_task_def ContinueWorking_def DoContinue_def sound_def)
  then show ?thesis
    using c d call_too_late [OF d, of c] phase_stuck [OF c] by (auto simp: Let_def sound_def)
qed

theorem cancel_ends_nothing_witness:
  "let cancelled = client_call CallRelease (sample_end (Some [CallContinueWorking, CallCancelWork]))
   in w_alive cancelled \<and> w_events cancelled = [] \<and> \<not> (\<exists>w'. system_step cancelled w') \<and>
      (\<exists>r. w_events (client_call CallContinueWorking cancelled) = answer r)"
proof -
  have "w_owned (sample_end (Some [CallContinueWorking, CallCancelWork]))"
    "w_events (sample_end (Some [CallContinueWorking, CallCancelWork])) = []" by (simp_all add: sample_waits)
  then show ?thesis
    using cancel_ends_nothing [OF sample_run [of "Some [CallContinueWorking, CallCancelWork]", unfolded sample_start_def],
        of "[CallRelease]"] by (simp add: Let_def)
qed

text \<open>
  When the worker thread cannot be created the request deletes itself in \<open>Perform\<close> and
  its creator deletes it again; the task is never deleted.
\<close>

theorem failed_thread_deletes_twice:
  assumes "SchemeIsHTTPOrHTTPS (MakeBkURL URL)" "hijackType \<noteq> kScript"
  shows "w_fault (LoadAsynchronously URL http_method headers hijackType hijack False start_world) \<and>
    w_alive (LoadAsynchronously URL http_method headers hijackType hijack False start_world)"
  using assms
  by (simp add: LoadAsynchronously_def RunTask_def ProcessHijackRequest_def Perform_def SetHeaders_def SetMethod_def
      MakeRequest_def delete_request_def start_world_def post_def)

theorem failed_thread_deletes_twice_witness:
  "w_fault (LoadAsynchronously ''https://h/'' ''GET'' Clear kMainHTML None False start_world)"
  by (rule failed_thread_deletes_twice [THEN conjunct1]; code_simp)

text \<open>A status code that does not fit an \<open>int\<close> makes \<open>std::stoi\<close> throw on the worker thread.\<close>

lemma long_status_aborts:
  "w_aborted (DoThreadWork (Some (''HTTP/1.1 99999999999 OK'' @ CRLF @ CRLF, [])) (sample_start\<lparr>w_worker := False\<rparr>))"
  by code_simp

end
