(* ===== verification/Gurl.thy ===== *)
theory Gurl
  imports Url_Util
begin

text \<open>
  \<open>url/gurl.cc\<close>: a URL that is canonicalized when it is made.  The text of a filesystem URL
  holds the URL it is nested in, which is an object of its own (\<open>g_inner_url\<close>).  \<open>schemes\<close>
  is the table of the standard schemes.
\<close>

section \<open>The object\<close>

datatype GURL = GURL (g_spec: str) (g_is_valid: bool) (g_parsed: parsed) (g_inner_url: "GURL option")

definition empty_gurl :: GURL where
  "empty_gurl = GURL [] False (to_parsed no_parts None) None"

definition GURL_ComponentString :: "GURL \<Rightarrow> component \<Rightarrow> str" where
  "GURL_ComponentString u c = (if c_len c \<le> 0 then [] else component_str (g_spec u) c)"

definition GURL_scheme :: "GURL \<Rightarrow> str" where "GURL_scheme u = GURL_ComponentString u (p_scheme (g_parsed u))"
definition GURL_username :: "GURL \<Rightarrow> str" where "GURL_username u = GURL_ComponentString u (p_username (g_parsed u))"
definition GURL_password :: "GURL \<Rightarrow> str" where "GURL_password u = GURL_ComponentString u (p_password (g_parsed u))"
definition GURL_host :: "GURL \<Rightarrow> str" where "GURL_host u = GURL_ComponentString u (p_host (g_parsed u))"
definition GURL_port :: "GURL \<Rightarrow> str" where "GURL_port u = GURL_ComponentString u (p_port (g_parsed u))"
definition GURL_path :: "GURL \<Rightarrow> str" where "GURL_path u = GURL_ComponentString u (p_path (g_parsed u))"
definition GURL_query :: "GURL \<Rightarrow> str" where "GURL_query u = GURL_ComponentString u (p_query (g_parsed u))"
definition GURL_ref :: "GURL \<Rightarrow> str" where "GURL_ref u = GURL_ComponentString u (p_ref (g_parsed u))"

definition GURL_has_ref :: "GURL \<Rightarrow> bool" where "GURL_has_ref u \<longleftrightarrow> c_len (p_ref (g_parsed u)) \<ge> 0"
definition GURL_has_username :: "GURL \<Rightarrow> bool" where "GURL_has_username u \<longleftrightarrow> c_len (p_username (g_parsed u)) \<ge> 0"
definition GURL_has_password :: "GURL \<Rightarrow> bool" where "GURL_has_password u \<longleftrightarrow> c_len (p_password (g_parsed u)) \<ge> 0"
definition GURL_has_host :: "GURL \<Rightarrow> bool" where "GURL_has_host u \<longleftrightarrow> c_len (p_host (g_parsed u)) > 0"

text \<open>An invalid URL that is not empty has no spec.\<close>

definition GURL_spec :: "GURL \<Rightarrow> str" where
  "GURL_spec u = (if g_is_valid u \<or> g_spec u = [] then g_spec u else [])"

definition GURL_SchemeIs :: "GURL \<Rightarrow> str \<Rightarrow> bool" where
  "GURL_SchemeIs u lower_ascii_scheme \<longleftrightarrow>
     (if c_len (p_scheme (g_parsed u)) \<le> 0 then lower_ascii_scheme = [] else GURL_scheme u = lower_ascii_scheme)"

definition GURL_SchemeIsHTTPOrHTTPS :: "GURL \<Rightarrow> bool" where
  "GURL_SchemeIsHTTPOrHTTPS u \<longleftrightarrow> GURL_SchemeIs u ''http'' \<or> GURL_SchemeIs u ''https''"

definition SchemeIsWSOrWSS :: "GURL \<Rightarrow> bool" where
  "SchemeIsWSOrWSS u \<longleftrightarrow> GURL_SchemeIs u ''ws'' \<or> GURL_SchemeIs u ''wss''"

definition SchemeIsCryptographic :: "GURL \<Rightarrow> bool" where
  "SchemeIsCryptographic u \<longleftrightarrow> GURL_SchemeIs u ''https'' \<or> GURL_SchemeIs u ''wss''"

definition GURL_SchemeIsFile :: "GURL \<Rightarrow> bool" where "GURL_SchemeIsFile u \<longleftrightarrow> GURL_SchemeIs u ''file''"
definition SchemeIsFileSystem :: "GURL \<Rightarrow> bool" where "SchemeIsFileSystem u \<longleftrightarrow> GURL_SchemeIs u ''filesystem''"
definition SchemeIsBlob :: "GURL \<Rightarrow> bool" where "SchemeIsBlob u \<longleftrightarrow> GURL_SchemeIs u ''blob''"

definition IsStandard :: "schemes \<Rightarrow> GURL \<Rightarrow> bool" where
  "IsStandard schemes u \<longleftrightarrow> DoIsStandard schemes (g_spec u) (p_scheme (g_parsed u)) \<noteq> None"

section \<open>Making one\<close>

text \<open>
  The URL inside a filesystem URL, from the text \<open>spec\<close> and the components of the outer one.
  The parser accepts no filesystem URL inside another, so the inner URL has none itself.
\<close>

definition inner_gurl :: "str \<Rightarrow> parsed \<Rightarrow> GURL option" where
  "inner_gurl spec parsed =
     (case inner_parsed parsed of
        None \<Rightarrow> None
      | Some inner \<Rightarrow> Some (GURL (take (nat (Parsed_Length parsed)) spec) True (to_parsed inner None) None))"

definition with_inner :: "str \<Rightarrow> GURL \<Rightarrow> GURL" where
  "with_inner spec u =
     (if g_is_valid u \<and> SchemeIsFileSystem u
      then GURL (g_spec u) (g_is_valid u) (g_parsed u) (inner_gurl spec (g_parsed u)) else u)"

definition InitCanonical :: "schemes \<Rightarrow> str \<Rightarrow> bool \<Rightarrow> GURL" where
  "InitCanonical schemes input_spec trim_path_end =
     (let (ok, parsed, out) = Canonicalize schemes input_spec trim_path_end None [] (to_parsed no_parts None);
          u = GURL out ok parsed None
      in with_inner (g_spec u) u)"

definition MakeGURL :: "schemes \<Rightarrow> str \<Rightarrow> GURL" where
  "MakeGURL schemes url_string = InitCanonical schemes url_string True"

text \<open>The constructor from a canonical spec; its comparison with a fresh URL is for debug builds.\<close>

definition InitializeFromCanonicalSpec :: "str \<Rightarrow> parsed \<Rightarrow> bool \<Rightarrow> GURL" where
  "InitializeFromCanonicalSpec canonical_spec parsed valid = with_inner canonical_spec (GURL canonical_spec valid parsed None)"

section \<open>Derived URLs\<close>

definition GURL_Resolve :: "schemes \<Rightarrow> GURL \<Rightarrow> str \<Rightarrow> GURL" where
  "GURL_Resolve schemes u relative =
     (if \<not> g_is_valid u then empty_gurl
      else let (ok, parsed, out) =
                 ResolveRelative schemes (g_spec u) (g_parsed u) relative None [] (to_parsed no_parts None)
           in if \<not> ok then empty_gurl else with_inner out (GURL out True parsed None))"

text \<open>
  The inner URL takes its text from this URL, up to the length of the new one: where the new
  one is longer the code reads behind the end of the text, and here the text ends.
\<close>

definition GURL_ReplaceComponents :: "schemes \<Rightarrow> GURL \<Rightarrow> Replacements \<Rightarrow> GURL" where
  "GURL_ReplaceComponents schemes u replacements =
     (if \<not> g_is_valid u then empty_gurl
      else let (ok, parsed, out) =
                 ReplaceComponents schemes (g_spec u) (g_parsed u) replacements None [] (to_parsed no_parts None)
           in with_inner (g_spec u) (GURL out ok parsed None))"

definition origin_replacements :: Replacements where
  "origin_replacements = ClearRef (ClearQuery (ClearPath (ClearPassword (ClearUsername no_replacements))))"

definition outer_origin :: "schemes \<Rightarrow> GURL \<Rightarrow> GURL" where
  "outer_origin schemes u = GURL_ReplaceComponents schemes u origin_replacements"

text \<open>A filesystem URL has the origin of the URL inside it.\<close>

fun GetOrigin :: "schemes \<Rightarrow> GURL \<Rightarrow> GURL" where
  "GetOrigin schemes (GURL s v p inner) =
     (let u = GURL s v p inner
      in if \<not> v \<or> \<not> IsStandard schemes u then empty_gurl
         else if SchemeIsFileSystem u
         then (case inner of Some i \<Rightarrow> GetOrigin schemes i | None \<Rightarrow> empty_gurl)
         else outer_origin schemes u)"

definition GetAsReferrer :: "schemes \<Rightarrow> GURL \<Rightarrow> GURL" where
  "GetAsReferrer schemes u =
     (if \<not> g_is_valid u \<or> \<not> GURL_SchemeIsHTTPOrHTTPS u then empty_gurl
      else if \<not> GURL_has_ref u \<and> \<not> GURL_has_username u \<and> \<not> GURL_has_password u then u
      else GURL_ReplaceComponents schemes u (ClearPassword (ClearUsername (ClearRef no_replacements))))"

definition GetWithEmptyPath :: "schemes \<Rightarrow> GURL \<Rightarrow> GURL" where
  "GetWithEmptyPath schemes u =
     (if \<not> g_is_valid u \<or> \<not> IsStandard schemes u then empty_gurl
      else if c_len (p_path (g_parsed u)) = 0 then u
      else let b = c_begin (p_path (g_parsed u))
           in GURL (take (nat (b + 1)) ((g_spec u)[nat b := CHR ''/''])) (g_is_valid u)
                ((g_parsed u)\<lparr>p_query := no_component, p_ref := no_component, p_path := Component b 1\<rparr>)
                (g_inner_url u))"

section \<open>Questions\<close>

definition IntPort :: "GURL \<Rightarrow> int" where
  "IntPort u = (if is_nonempty (p_port (g_parsed u)) then ParsePort (g_spec u) (p_port (g_parsed u)) else PORT_UNSPECIFIED)"

definition GURL_EffectiveIntPort :: "schemes \<Rightarrow> GURL \<Rightarrow> int" where
  "GURL_EffectiveIntPort schemes u =
     (let int_port = IntPort u
      in if int_port = PORT_UNSPECIFIED \<and> IsStandard schemes u
         then DefaultPortForScheme (component_str (g_spec u) (p_scheme (g_parsed u))) else int_port)"

definition GURL_ExtractFileName :: "GURL \<Rightarrow> str" where
  "GURL_ExtractFileName u = GURL_ComponentString u (ExtractFileName (g_spec u) (p_path (g_parsed u)))"

text \<open>A negative length is a large one for the constructor of strings.\<close>

definition GURL_PathForRequest :: "GURL \<Rightarrow> str" where
  "GURL_PathForRequest u =
     (let path = p_path (g_parsed u); query = p_query (g_parsed u); ref = p_ref (g_parsed u);
          n = (if c_len ref \<ge> 0 then c_begin ref - c_begin path - 1
               else if is_valid query then c_end query - c_begin path else c_len path)
      in if n < 0 then drop (nat (c_begin path)) (g_spec u)
         else seg (g_spec u) (c_begin path) (c_begin path + n))"

definition HostNoBrackets :: "GURL \<Rightarrow> str" where
  "HostNoBrackets u =
     (let h = p_host (g_parsed u)
      in GURL_ComponentString u
           (if c_len h \<ge> 2 \<and> at (g_spec u) (c_begin h) = CHR ''['' \<and> at (g_spec u) (c_end h - 1) = CHR '']''
            then Component (c_begin h + 1) (c_len h - 2) else h))"

definition GURL_GetContent :: "GURL \<Rightarrow> str" where
  "GURL_GetContent u = (if g_is_valid u then GURL_ComponentString u (GetContent (g_parsed u)) else [])"

definition HostIsIPAddress :: "GURL \<Rightarrow> bool" where
  "HostIsIPAddress u =
     (if \<not> g_is_valid u \<or> g_spec u = [] then False
      else IsIPAddress (snd (CanonicalizeIPAddress (g_spec u) (p_host (g_parsed u)) [] new_host_info)))"

text \<open>\<open>DomainIs\<close> on the text and the host of one URL.\<close>

definition host_domain_is :: "str \<Rightarrow> component \<Rightarrow> str \<Rightarrow> bool" where
  "host_domain_is spec host lower_ascii_domain =
     (let domain_len = len lower_ascii_domain;
          host_len = (if at spec (c_end host - 1) = CHR ''.'' \<and> last lower_ascii_domain \<noteq> CHR ''.''
                      then c_len host - 1 else c_len host);
          host_first_pos = c_begin host + host_len - domain_len
      in \<not> host_len < domain_len \<and>
         LowerCaseEqualsASCII (seg spec host_first_pos (host_first_pos + domain_len)) lower_ascii_domain \<and>
         \<not> (hd lower_ascii_domain \<noteq> CHR ''.'' \<and> host_len > domain_len \<and> at spec (host_first_pos - 1) \<noteq> CHR ''.''))"

definition own_domain_is :: "str \<Rightarrow> parsed \<Rightarrow> str \<Rightarrow> bool" where
  "own_domain_is spec p lower_ascii_domain =
     (is_nonempty (p_host p) \<and> host_domain_is spec (p_host p) lower_ascii_domain)"

text \<open>A filesystem URL has the domain of the URL inside it.\<close>

fun DomainIs :: "GURL \<Rightarrow> str \<Rightarrow> bool" where
  "DomainIs (GURL s v p inner) lower_ascii_domain =
     (if \<not> v \<or> lower_ascii_domain = [] then False
      else case inner of
             None \<Rightarrow> own_domain_is s p lower_ascii_domain
           | Some i \<Rightarrow> if SchemeIsFileSystem (GURL s v p inner) then DomainIs i lower_ascii_domain
                        else own_domain_is s p lower_ascii_domain)"

end
