(* ===== verification/Base_Time.thy ===== *)
theory Base_Time
  imports Main "HOL-Library.Signed_Division"
begin

text \<open>
  \<open>base/time\<close>: times and spans as signed 64-bit counts of microseconds, here integers of that
  range.  The functions that the program has not written yet assert and return zero, which
  is what release builds see.
\<close>

section \<open>64-bit arithmetic\<close>

definition INT64_MAX :: int where "INT64_MAX = 9223372036854775807"
definition INT64_MIN :: int where "INT64_MIN = - 9223372036854775808"

definition is_int64 :: "int \<Rightarrow> bool" where
  "is_int64 n \<longleftrightarrow> INT64_MIN \<le> n \<and> n \<le> INT64_MAX"

text \<open>An unsigned 64-bit value passed as a signed one.\<close>

definition to_int64 :: "int \<Rightarrow> int" where
  "to_int64 n = (if n > INT64_MAX then n - 18446744073709551616 else n)"

section \<open>Spans\<close>

definition SaturatedAdd :: "int \<Rightarrow> int \<Rightarrow> int" where
  "SaturatedAdd delta value =
     (let rv = delta + value
      in if is_int64 rv then rv else if value < 0 then INT64_MIN else INT64_MAX)"

definition SaturatedSub :: "int \<Rightarrow> int \<Rightarrow> int" where
  "SaturatedSub delta value =
     (let rv = delta - value
      in if is_int64 rv then rv else if value < 0 then INT64_MAX else INT64_MIN)"

text \<open>The divisions truncate towards zero.\<close>

definition FromProduct :: "int \<Rightarrow> int \<Rightarrow> int" where
  "FromProduct value positiveValue =
     (if value > INT64_MAX sdiv positiveValue then INT64_MAX
      else if value < INT64_MIN sdiv positiveValue then INT64_MIN
      else value * positiveValue)"

definition kMicrosecondsPerMillisecond :: int where "kMicrosecondsPerMillisecond = 1000"
definition kMillisecondsPerSecond :: int where "kMillisecondsPerSecond = 1000"
definition kMicrosecondsPerSecond :: int where
  "kMicrosecondsPerSecond = kMicrosecondsPerMillisecond * kMillisecondsPerSecond"

definition FromMicroseconds :: "int \<Rightarrow> int" where "FromMicroseconds us = 0"
definition FromMilliseconds :: "int \<Rightarrow> int" where "FromMilliseconds ms = FromProduct ms kMicrosecondsPerMillisecond"
definition FromSeconds :: "int \<Rightarrow> int" where "FromSeconds secs = FromProduct secs kMicrosecondsPerSecond"

definition InMilliseconds :: "int \<Rightarrow> int" where
  "InMilliseconds delta = (if delta = INT64_MAX then INT64_MAX else delta sdiv kMicrosecondsPerMillisecond)"

section \<open>Times\<close>

definition Time_Now :: int where "Time_Now = 0"

definition time_plus :: "int \<Rightarrow> int \<Rightarrow> int" where
  "time_plus us delta = SaturatedAdd delta us"

definition time_minus :: "int \<Rightarrow> int \<Rightarrow> int" where
  "time_minus us other = FromMicroseconds (us - other)"

text \<open>\<open>TimeTicks::Now\<close> on POSIX, from the clock's seconds and nanoseconds.\<close>

definition TimeTicks_Now :: "int \<Rightarrow> int \<Rightarrow> int" where
  "TimeTicks_Now tv_sec tv_nsec =
     (let ms = tv_sec * kMillisecondsPerSecond + tv_nsec sdiv 1000000
      in time_plus 0 (FromMilliseconds ms))"

definition is_null :: "int \<Rightarrow> bool" where "is_null us \<longleftrightarrow> 0 = us"

record Exploded =
  year :: int
  month :: int
  day_of_month :: int
  hour :: int
  minute :: int
  second :: int

definition FromUTCExploded :: "Exploded \<Rightarrow> int" where "FromUTCExploded exploded = 0"

end
