(* ===== verification/Cookie_Util.thy ===== *)
theory Cookie_Util
  imports Gurl Base_Time Base_String_Edit
begin

text \<open>
  \<open>net/cookies/cookie_util.cc\<close>: the domain that a cookie may be set for, the dates of
  \<open>Expires\<close> and the lines of \<open>Cookie\<close> headers; with \<open>CanonicalizeHost\<close> of
  \<open>net/base/net_util.cpp\<close> and \<open>QuickGetNext\<close> of \<open>base/strings/string_tokenizer.h\<close>.
\<close>

section \<open>Domains\<close>

definition DomainIsHostOnly :: "str \<Rightarrow> bool" where
  "DomainIsHostOnly domain_string \<longleftrightarrow> domain_string = [] \<or> hd domain_string \<noteq> CHR ''.''"

text \<open>An assertion that is never to be reached, and an empty string.\<close>

definition GetDomainAndRegistry :: "str \<Rightarrow> str" where "GetDomainAndRegistry host = []"

definition GetEffectiveDomain :: "str \<Rightarrow> str \<Rightarrow> str" where
  "GetEffectiveDomain scheme host =
     (if scheme = ''http'' \<or> scheme = ''https'' \<or> scheme = ''ws'' \<or> scheme = ''wss'' then GetDomainAndRegistry host
      else if \<not> DomainIsHostOnly host then drop 1 host
      else host)"

definition net_CanonicalizeHost :: "str \<Rightarrow> str" where
  "net_CanonicalizeHost host =
     (let (canonHost, host_info) = DoHost host (Component 0 (len host)) [] new_host_info
      in if is_nonempty (out_host host_info) \<and> family host_info \<noteq> BROKEN then canonHost else [])"

text \<open>The domain, or \<open>None\<close> where it may not be set.\<close>

definition GetCookieDomainWithString :: "GURL \<Rightarrow> str \<Rightarrow> str option" where
  "GetCookieDomainWithString url domain_string =
     (let url_host = GURL_host url
      in if domain_string = [] \<or> (HostIsIPAddress url \<and> url_host = domain_string) then Some url_host
         else let cookie_domain = net_CanonicalizeHost domain_string
         in if cookie_domain = [] then None
         else let cookie_domain = (if hd cookie_domain \<noteq> CHR ''.'' then ''.'' @ cookie_domain else cookie_domain);
                  url_scheme = GURL_scheme url;
                  url_domain_and_registry = GetEffectiveDomain url_scheme url_host
         in if url_domain_and_registry = [] then (if url_host = domain_string then Some url_host else None)
         else if url_domain_and_registry \<noteq> GetEffectiveDomain url_scheme cookie_domain then None
         else let is_suffix =
                    (if length url_host < length cookie_domain then cookie_domain \<noteq> ''.'' @ url_host
                     else drop (length url_host - length cookie_domain) url_host \<noteq> cookie_domain)
         in if is_suffix then None else Some cookie_domain)"

definition CookieOriginToURL :: "schemes \<Rightarrow> str \<Rightarrow> bool \<Rightarrow> GURL" where
  "CookieOriginToURL schemes domain is_https =
     (if domain = [] then empty_gurl
      else let scheme = (if is_https then ''https'' else ''http'');
               host = (if hd domain = CHR ''.'' then drop 1 domain else domain)
           in MakeGURL schemes (scheme @ ''://'' @ host))"

section \<open>Dates\<close>

text \<open>The next token from a position: its two ends, or \<open>None\<close> when only delimiters are left.\<close>

definition QuickGetNext :: "str \<Rightarrow> str \<Rightarrow> int \<Rightarrow> (int \<times> int) option" where
  "QuickGetNext s delims token_end =
     (let token_begin = scan_fwd (\<lambda>c. c \<in> set delims) s token_end (len s)
      in if token_begin \<ge> len s then None
         else Some (token_begin, scan_fwd (\<lambda>c. c \<notin> set delims) s (token_begin + 1) (len s)))"

definition kMonths :: "str list" where
  "kMonths = [''jan'', ''feb'', ''mar'', ''apr'', ''may'', ''jun'', ''jul'', ''aug'', ''sep'', ''oct'', ''nov'', ''dec'']"

definition kDelimiters :: str where
  "kDelimiters = CHR 0x09 # '' !'' @ [CHR 0x22] @ ''#$%&'' @ [CHR 0x27] @ ''()*+,-./;<=>?@['' @ [CHR 0x5C] @ '']^_`{|}~''"

text \<open>\<open>atoi\<close> of a text that starts with digits, and \<open>%2u\<close> of \<open>sscanf\<close>, which skips white space.\<close>

definition atoi :: "str \<Rightarrow> int" where "atoi s = atoi_digits (takeWhile is_digit s)"

definition is_space_char :: "char \<Rightarrow> bool" where
  "is_space_char c \<longleftrightarrow> c = CHR '' '' \<or> (0x09 \<le> byte c \<and> byte c \<le> 0x0D)"

definition scan_2u :: "str \<Rightarrow> (int \<times> str) option" where
  "scan_2u s =
     (let t = dropWhile is_space_char s; ds = takeWhile is_digit (take 2 t)
      in if ds = [] then None else Some (atoi_digits ds, drop (length ds) t))"

text \<open>The format \<open>%2u:%2u:%2u\<close>; what a partial match has stored is overwritten by a full one.\<close>

definition scan_time :: "str \<Rightarrow> (int \<times> int \<times> int) option" where
  "scan_time s =
     (case scan_2u s of
        Some (h, CHR '':'' # s) \<Rightarrow>
          (case scan_2u s of
             Some (m, CHR '':'' # s) \<Rightarrow> (case scan_2u s of Some (sec, _) \<Rightarrow> Some (h, m, sec) | None \<Rightarrow> None)
           | _ \<Rightarrow> None)
      | _ \<Rightarrow> None)"

record time_fields =
  f_day :: "int option"
  f_month :: "int option"
  f_time :: "(int \<times> int \<times> int) option"
  f_year :: "int option"

definition month_of :: "str \<Rightarrow> nat option" where
  "month_of token = find (\<lambda>i. StartsWith token (kMonths ! i) INSENSITIVE_ASCII) [0..<length kMonths]"

text \<open>The body of the loop; a field that has been found is kept.\<close>

definition time_token :: "str \<Rightarrow> time_fields \<Rightarrow> time_fields" where
  "time_token token f =
     (if \<not> is_digit (hd token) then
        (if f_month f = None
         then (case month_of token of Some i \<Rightarrow> f\<lparr>f_month := Some (int i + 1)\<rparr> | None \<Rightarrow> f) else f)
      else if CHR '':'' \<in> set token then
        (if f_time f = None then (case scan_time token of Some t \<Rightarrow> f\<lparr>f_time := Some t\<rparr> | None \<Rightarrow> f) else f)
      else if f_day f = None \<and> length token \<le> 2 then f\<lparr>f_day := Some (atoi token)\<rparr>
      else if f_year f = None \<and> length token \<le> 5 then f\<lparr>f_year := Some (atoi token)\<rparr>
      else f)"

lemma QuickGetNext_advances: "QuickGetNext s d i = Some (b, e) \<Longrightarrow> i \<le> b \<and> b < e \<and> b < len s"
  using scan_fwd_ge [of i "\<lambda>c. c \<in> set d" s "len s"] scan_fwd_ge [of "b + 1" "\<lambda>c. c \<notin> set d" s "len s"]
  by (auto simp: QuickGetNext_def Let_def split: if_splits)

function time_scan :: "str \<Rightarrow> int \<Rightarrow> time_fields \<Rightarrow> time_fields" where
  "time_scan s token_end f =
     (case QuickGetNext s kDelimiters token_end of
        None \<Rightarrow> f
      | Some (b, e) \<Rightarrow> time_scan s e (time_token (seg s b e) f))"
  by pat_completeness auto
termination
  by (relation "measure (\<lambda>(s, i, f). nat (len s - i))") (auto dest: QuickGetNext_advances)

declare time_scan.simps [simp del]

definition full_year :: "int \<Rightarrow> int" where
  "full_year y =
     (let y = (if y \<ge> 69 \<and> y \<le> 99 then y + 1900 else y)
      in if y \<ge> 0 \<and> y \<le> 68 then y + 2000 else y)"

text \<open>The fields of a time string when all were found and are within their ranges.\<close>

definition cookie_time_fields :: "str \<Rightarrow> Exploded option" where
  "cookie_time_fields time_string =
     (let f = time_scan time_string 0 \<lparr>f_day = None, f_month = None, f_time = None, f_year = None\<rparr>
      in case (f_day f, f_month f, f_time f, f_year f) of
           (Some d, Some mon, Some (h, m, sec), Some y) \<Rightarrow>
             (let y = full_year y
              in if 1 \<le> d \<and> d \<le> 31 \<and> 1 \<le> mon \<and> mon \<le> 12 \<and> 1601 \<le> y \<and> y \<le> 30827 \<and> h \<le> 23 \<and> m \<le> 59 \<and> sec \<le> 59
                 then Some \<lparr>year = y, month = mon, day_of_month = d, hour = h, minute = m, second = sec\<rparr> else None)
         | _ \<Rightarrow> None)"

definition ParseCookieTime :: "str \<Rightarrow> int" where
  "ParseCookieTime time_string = (case cookie_time_fields time_string of Some e \<Rightarrow> FromUTCExploded e | None \<Rightarrow> 0)"

section \<open>Lines of Cookie headers\<close>

type_synonym ParsedRequestCookies = "(str \<times> str) list"

text \<open>The value of a cookie from the end of its name: it and where it ends, \<open>None\<close> for an open quote.\<close>

definition request_value :: "str \<Rightarrow> int \<Rightarrow> (str \<times> int) option" where
  "request_value s i =
     (if i \<noteq> len s \<and> i + 1 \<noteq> len s then
        (let b = i + 1
         in if at s b = CHR 0x22 then
              (let q = scan_fwd (\<lambda>c. c \<noteq> CHR 0x22) s (b + 1) (len s)
               in if q = len s then None else Some (seg s b (q + 1), q + 1))
            else (let q = scan_fwd (\<lambda>c. c \<noteq> CHR '';'') s b (len s) in Some (seg s b q, q)))
      else Some ([], i))"

lemma request_value_advances: "request_value s i = Some (v, j) \<Longrightarrow> i \<le> len s \<Longrightarrow> i \<le> j \<and> j \<le> len s"
  using scan_fwd_ge [of "i + 1" "\<lambda>c. c \<noteq> CHR '';''" s "len s"] scan_fwd_le [of "i + 1" "len s" "\<lambda>c. c \<noteq> CHR '';''" s]
    scan_fwd_ge [of "2 + i" "\<lambda>c. c \<noteq> CHR 0x22" s "len s"] scan_fwd_le [of "2 + i" "len s" "\<lambda>c. c \<noteq> CHR 0x22" s]
  by (auto simp: request_value_def Let_def split: if_splits)

function request_scan :: "str \<Rightarrow> int \<Rightarrow> ParsedRequestCookies \<Rightarrow> ParsedRequestCookies" where
  "request_scan s i parsed_cookies =
     (if i < len s then
        (let b = scan_fwd (\<lambda>c. c = CHR '' '') s i (len s)
         in if b = len s then parsed_cookies
            else let n = scan_fwd (\<lambda>c. c \<noteq> CHR ''='') s b (len s)
            in case request_value s n of
                 None \<Rightarrow> parsed_cookies
               | Some (v, j) \<Rightarrow> request_scan s (if j \<noteq> len s then j + 1 else j) (parsed_cookies @ [(seg s b n, v)]))
      else parsed_cookies)"
  by pat_completeness auto
termination
proof (relation "measure (\<lambda>(s, i, c). nat (len s - i))", goal_cases)
  case 1 show ?case by simp
next
  case (2 s i c b n vj v j)
  then have "i \<le> b" "b \<le> len s" by (simp_all add: scan_fwd_ge scan_fwd_le)
  then have "b \<le> n" "n \<le> len s" using 2 by (simp_all add: scan_fwd_ge scan_fwd_le)
  with \<open>i \<le> b\<close> show ?case using 2 request_value_advances [of s n v j] by (cases "j = len s") auto
qed

declare request_scan.simps [simp del]

definition ParseRequestCookieLine :: "str \<Rightarrow> ParsedRequestCookies" where
  "ParseRequestCookieLine header_value = request_scan header_value 0 []"

definition SerializeRequestCookieLine :: "ParsedRequestCookies \<Rightarrow> str" where
  "SerializeRequestCookieLine parsed_cookies =
     fold (\<lambda>i buffer. (if buffer \<noteq> [] then buffer @ ''; '' else buffer) @ fst i @ ''='' @ snd i) parsed_cookies []"

end
