(* ===== verification/Canonical_Cookie.thy ===== *)
theory Canonical_Cookie
  imports Cookie_Parse Cookie_Util
begin

text \<open>
  \<open>net/cookies/canonical_cookie.cc\<close>, \<open>cookie_options.h\<close> and the crawler's cookie jar
  (\<open>blinkit/blink_impl/cookie_jar_impl.cpp\<close>): cookies as they are stored, which requests they are
  sent with, and how they are ordered.  A null pointer is \<open>None\<close>.
\<close>

section \<open>Data\<close>

record CookieOptions =
  exclude_httponly :: bool
  include_first_party_only_cookies :: bool
  enforce_strict_secure :: bool
  server_time :: int

definition default_options :: CookieOptions where
  "default_options = \<lparr>exclude_httponly = True, include_first_party_only_cookies = False,
     enforce_strict_secure = False, server_time = 0\<rparr>"

definition has_server_time :: "CookieOptions \<Rightarrow> bool" where
  "has_server_time options \<longleftrightarrow> \<not> is_null (server_time options)"

record CanonicalCookie =
  cc_source :: GURL
  cc_name :: str
  cc_value :: str
  cc_domain :: str
  cc_path :: str
  creation_date :: int
  expiry_date :: int
  last_access_date :: int
  is_secure :: bool
  is_httponly :: bool
  is_first_party_only :: bool
  cc_priority :: CookiePriority

definition NewCanonicalCookie ::
    "schemes \<Rightarrow> GURL \<Rightarrow> str \<Rightarrow> str \<Rightarrow> str \<Rightarrow> str \<Rightarrow> int \<Rightarrow> int \<Rightarrow> int \<Rightarrow> bool \<Rightarrow> bool \<Rightarrow> bool \<Rightarrow> CookiePriority \<Rightarrow> CanonicalCookie" where
  "NewCanonicalCookie schemes url name val domain path creation expiration last_access secure httponly firstpartyonly priority =
     \<lparr>cc_source = (if GURL_SchemeIsFile url then url else GetOrigin schemes url),
      cc_name = name, cc_value = val, cc_domain = domain, cc_path = path, creation_date = creation,
      expiry_date = expiration, last_access_date = last_access, is_secure = secure, is_httponly = httponly,
      is_first_party_only = firstpartyonly, cc_priority = priority\<rparr>"

definition IsPersistent :: "CanonicalCookie \<Rightarrow> bool" where "IsPersistent c \<longleftrightarrow> \<not> is_null (expiry_date c)"

definition IsDomainCookie :: "CanonicalCookie \<Rightarrow> bool" where
  "IsDomainCookie c \<longleftrightarrow> cc_domain c \<noteq> [] \<and> hd (cc_domain c) = CHR ''.''"

definition IsHostCookie :: "CanonicalCookie \<Rightarrow> bool" where "IsHostCookie c \<longleftrightarrow> \<not> IsDomainCookie c"

definition IsExpired :: "int \<Rightarrow> CanonicalCookie \<Rightarrow> bool" where
  "IsExpired current c \<longleftrightarrow> \<not> is_null (expiry_date c) \<and> current \<ge> expiry_date c"

definition IsEquivalent :: "CanonicalCookie \<Rightarrow> CanonicalCookie \<Rightarrow> bool" where
  "IsEquivalent c ecc \<longleftrightarrow> cc_name c = cc_name ecc \<and> cc_domain c = cc_domain ecc \<and> cc_path c = cc_path ecc"

definition SetLastAccessDate :: "int \<Rightarrow> CanonicalCookie \<Rightarrow> CanonicalCookie" where
  "SetLastAccessDate date c = c\<lparr>last_access_date := date\<rparr>"

section \<open>Making cookies\<close>

definition GetCookieDomain :: "GURL \<Rightarrow> ParsedCookie \<Rightarrow> str" where
  "GetCookieDomain url pc = (if Has ADomain pc then Attr ADomain pc else GURL_host url)"

definition CanonPathWithString :: "GURL \<Rightarrow> str \<Rightarrow> str" where
  "CanonPathWithString url path_string =
     (if path_string \<noteq> [] \<and> hd path_string = CHR ''/'' then path_string
      else let url_path = GURL_path url
           in case str_rfind ''/'' url_path (length url_path) of
                None \<Rightarrow> ''/''
              | Some idx \<Rightarrow> if idx = 0 then ''/'' else substr url_path 0 idx)"

definition CanonPath :: "GURL \<Rightarrow> ParsedCookie \<Rightarrow> str" where
  "CanonPath url pc = CanonPathWithString url (if Has APath pc then Attr APath pc else [])"

text \<open>
  \<open>sscanf\<close> with an unsigned 64-bit conversion: white space, a sign, digits.  The value is
  negated modulo \<open>2 ^ 64\<close>; too large a value is the largest one.
\<close>

definition scan_u64 :: "str \<Rightarrow> int option" where
  "scan_u64 s =
     (let t = dropWhile is_space_char s;
          negative = (t \<noteq> [] \<and> hd t = CHR ''-'');
          ds = takeWhile is_digit (if t \<noteq> [] \<and> (hd t = CHR ''-'' \<or> hd t = CHR ''+'') then tl t else t);
          n = atoi_digits ds
      in if ds = [] then None
         else if n > 18446744073709551615 then Some 18446744073709551615
         else Some (if negative then (- n) mod 18446744073709551616 else n))"

definition CanonExpiration :: "ParsedCookie \<Rightarrow> int \<Rightarrow> int \<Rightarrow> int" where
  "CanonExpiration pc current server =
     (case (if Has AMaxAge pc then scan_u64 (Attr AMaxAge pc) else None) of
        Some max_age \<Rightarrow> time_plus current (FromSeconds (to_int64 max_age))
      | None \<Rightarrow>
          if Has AExpires pc \<and> Attr AExpires pc \<noteq> [] then
            (let parsed_expiry = ParseCookieTime (Attr AExpires pc)
             in if \<not> is_null parsed_expiry then time_plus parsed_expiry (time_minus current server) else 0)
          else 0)"

text \<open>The constructor from a parsed cookie; the domain stays empty where it may not be set.\<close>

definition CookieOfParsed :: "schemes \<Rightarrow> GURL \<Rightarrow> ParsedCookie \<Rightarrow> CanonicalCookie" where
  "CookieOfParsed schemes url pc =
     (let creation = Time_Now;
          expiry = (if Has AExpires pc then CanonExpiration pc creation creation else 0);
          domain_string = (if Has ADomain pc then Attr ADomain pc else [])
      in NewCanonicalCookie schemes url (Name pc) (Value pc)
           (case GetCookieDomainWithString url domain_string of Some d \<Rightarrow> d | None \<Rightarrow> [])
           (CanonPath url pc) creation expiry 0 (Has ASecure pc) (Has AHttpOnly pc) (Has AFirstPartyOnly pc) (Priority pc))"

datatype CookiePrefix = COOKIE_PREFIX_NONE | COOKIE_PREFIX_SECURE | COOKIE_PREFIX_HOST

definition GetCookiePrefix :: "str \<Rightarrow> CookiePrefix" where
  "GetCookiePrefix name =
     (if str_find ''__Secure-'' name 0 = Some 0 then COOKIE_PREFIX_SECURE
      else if str_find ''__Host-'' name 0 = Some 0 then COOKIE_PREFIX_HOST
      else COOKIE_PREFIX_NONE)"

text \<open>\<open>Path\<close> of a cookie without that attribute is the value of its first pair.\<close>

definition IsCookiePrefixValid :: "CookiePrefix \<Rightarrow> GURL \<Rightarrow> ParsedCookie \<Rightarrow> bool" where
  "IsCookiePrefixValid prefix url pc =
     (if prefix = COOKIE_PREFIX_SECURE then Has ASecure pc \<and> SchemeIsCryptographic url
      else if prefix = COOKIE_PREFIX_HOST
      then Has ASecure pc \<and> SchemeIsCryptographic url \<and> \<not> Has ADomain pc \<and> Attr APath pc = ''/''
      else True)"

definition CreateFromLine :: "schemes \<Rightarrow> GURL \<Rightarrow> str \<Rightarrow> int \<Rightarrow> CookieOptions \<Rightarrow> CanonicalCookie option" where
  "CreateFromLine schemes url cookie_line creation_time options =
     (let parsed_cookie = ParseCookie cookie_line
      in if \<not> IsValid parsed_cookie then None
         else if exclude_httponly options \<and> Has AHttpOnly parsed_cookie then None
         else let cookie_domain = GetCookieDomain url parsed_cookie
         in if enforce_strict_secure options \<and> Has ASecure parsed_cookie \<and> \<not> SchemeIsCryptographic url then None
         else let cookie_path = CanonPath url parsed_cookie;
                  server = (if has_server_time options then server_time options else creation_time);
                  cookie_expires = CanonExpiration parsed_cookie creation_time server;
                  prefix = GetCookiePrefix (Name parsed_cookie)
         in if \<not> IsCookiePrefixValid prefix url parsed_cookie then None
         else Some (NewCanonicalCookie schemes url (Name parsed_cookie) (Value parsed_cookie) cookie_domain cookie_path
                 creation_time cookie_expires creation_time (Has ASecure parsed_cookie) (Has AHttpOnly parsed_cookie)
                 (Has AFirstPartyOnly parsed_cookie) (Priority parsed_cookie)))"

definition CreateFromValues ::
    "schemes \<Rightarrow> GURL \<Rightarrow> str \<Rightarrow> str \<Rightarrow> str \<Rightarrow> str \<Rightarrow> int \<Rightarrow> int \<Rightarrow> bool \<Rightarrow> bool \<Rightarrow> bool \<Rightarrow> bool \<Rightarrow> CookiePriority \<Rightarrow>
     CanonicalCookie option" where
  "CreateFromValues schemes url name val domain path creation expiration secure http_only first_party_only strict priority =
     (let parsed_name = ParseTokenString name in if parsed_name \<noteq> name then None
      else let parsed_value = ParseValueString val in if parsed_value \<noteq> val then None
      else let parsed_domain = ParseValueString domain in if parsed_domain \<noteq> domain then None
      else case GetCookieDomainWithString url parsed_domain of None \<Rightarrow> None | Some cookie_domain \<Rightarrow>
      if strict \<and> secure \<and> \<not> SchemeIsCryptographic url then None
      else let parsed_path = ParseValueString path in if parsed_path \<noteq> path then None
      else let cookie_path = CanonPathWithString url parsed_path
      in if parsed_path \<noteq> [] \<and> cookie_path \<noteq> parsed_path then None
      else let (ok, canon_path_component, canon_path) =
                 CanonicalizePath cookie_path (Component 0 (len cookie_path)) []
      in Some (NewCanonicalCookie schemes url parsed_name parsed_value cookie_domain
            (component_str canon_path canon_path_component)
            creation expiration creation secure http_only first_party_only priority))"

section \<open>Sending cookies\<close>

definition IsOnPath :: "CanonicalCookie \<Rightarrow> str \<Rightarrow> bool" where
  "IsOnPath c url_path =
     (if cc_path c = [] then False
      else if str_find (cc_path c) url_path 0 \<noteq> Some 0 then False
      else \<not> (length (cc_path c) \<noteq> length url_path \<and> cc_path c ! (length (cc_path c) - 1) \<noteq> CHR ''/'' \<and>
              url_path ! length (cc_path c) \<noteq> CHR ''/''))"

definition IsDomainMatch :: "CanonicalCookie \<Rightarrow> str \<Rightarrow> bool" where
  "IsDomainMatch c host =
     (if host = cc_domain c then True
      else if cc_domain c = [] \<or> hd (cc_domain c) \<noteq> CHR ''.'' then False
      else if drop 1 (cc_domain c) = host then True
      else length host > length (cc_domain c) \<and>
        substr host (length host - length (cc_domain c)) (length (cc_domain c)) = cc_domain c)"

definition IsEquivalentForSecureCookieMatching :: "CanonicalCookie \<Rightarrow> CanonicalCookie \<Rightarrow> bool" where
  "IsEquivalentForSecureCookieMatching c ecc \<longleftrightarrow>
     cc_name c = cc_name ecc \<and>
     (IsDomainMatch ecc (GURL_host (cc_source c)) \<or> IsDomainMatch c (GURL_host (cc_source ecc)))"

definition IncludeForRequestURL :: "CanonicalCookie \<Rightarrow> GURL \<Rightarrow> CookieOptions \<Rightarrow> bool" where
  "IncludeForRequestURL c url options =
     (if exclude_httponly options \<and> is_httponly c then False
      else if is_secure c \<and> \<not> SchemeIsCryptographic url then False
      else if \<not> IsDomainMatch c (GURL_host url) then False
      else if \<not> IsOnPath c (GURL_path url) then False
      else if is_first_party_only c \<and> \<not> include_first_party_only_cookies options then False
      else True)"

section \<open>Ordering\<close>

text \<open>The sign of \<open>std::string::compare\<close>, which compares bytes as unsigned.\<close>

fun str_compare :: "str \<Rightarrow> str \<Rightarrow> int" where
  "str_compare [] [] = 0"
| "str_compare [] (d # t) = -1"
| "str_compare (c # s) [] = 1"
| "str_compare (c # s) (d # t) =
     (if byte c < byte d then -1 else if byte d < byte c then 1 else str_compare s t)"

definition PartialCookieOrdering :: "CanonicalCookie \<Rightarrow> CanonicalCookie \<Rightarrow> int" where
  "PartialCookieOrdering a b =
     (let diff = str_compare (cc_name a) (cc_name b) in if diff \<noteq> 0 then diff
      else let diff = str_compare (cc_domain a) (cc_domain b) in if diff \<noteq> 0 then diff
      else str_compare (cc_path a) (cc_path b))"

definition PartialCompare :: "CanonicalCookie \<Rightarrow> CanonicalCookie \<Rightarrow> bool" where
  "PartialCompare c other \<longleftrightarrow> PartialCookieOrdering c other < 0"

definition FullCompare :: "CanonicalCookie \<Rightarrow> CanonicalCookie \<Rightarrow> bool" where
  "FullCompare c other =
     (let diff = PartialCookieOrdering c other in if diff \<noteq> 0 then diff < 0
      else let diff = str_compare (cc_value c) (cc_value other) in if diff \<noteq> 0 then diff < 0
      else if creation_date c \<noteq> creation_date other then creation_date c < creation_date other
      else if expiry_date c \<noteq> expiry_date other then expiry_date c < expiry_date other
      else if last_access_date c \<noteq> last_access_date other then last_access_date c < last_access_date other
      else if is_secure c \<noteq> is_secure other then is_secure c
      else if is_httponly c \<noteq> is_httponly other then is_httponly c
      else cc_priority c < cc_priority other)"

section \<open>The jar\<close>

record CookieJarImpl =
  m_options :: CookieOptions
  jar_cookies :: "CanonicalCookie list"

definition NewCookieJar :: CookieJarImpl where
  "NewCookieJar = \<lparr>m_options = default_options\<lparr>exclude_httponly := False\<rparr>, jar_cookies = []\<rparr>"

definition AddCookieEntry :: "schemes \<Rightarrow> str \<Rightarrow> str \<Rightarrow> CookieJarImpl \<Rightarrow> CookieJarImpl" where
  "AddCookieEntry schemes URL cookie j =
     (case CreateFromLine schemes (MakeGURL schemes URL) cookie Time_Now (m_options j) of
        Some c \<Rightarrow> j\<lparr>jar_cookies := jar_cookies j @ [c]\<rparr>
      | None \<Rightarrow> j)"

definition GetCookies :: "schemes \<Rightarrow> str \<Rightarrow> CookieJarImpl \<Rightarrow> str" where
  "GetCookies schemes URL j =
     (let u = MakeGURL schemes URL
      in fold (\<lambda>cookie ret.
           if \<not> IncludeForRequestURL cookie u (m_options j) then ret
           else (if ret \<noteq> [] then ret @ ''; '' else ret) @ cc_name cookie @ ''='' @ cc_value cookie) (jar_cookies j) [])"

end
