(* ===== verification/Jar_Laws.thy ===== *)
theory Jar_Laws
  imports Canonical_Cookie Cookie_Laws Base_String_Laws
begin

text \<open>
  The cookie jar: the \<open>Cookie\<close> header it writes is read back by \<open>ParseRequestCookieLine\<close>;
  what it sends comes from a valid line and matches the request; when a cookie matches a
  request, stated without the code's positions; and what the jar does not do.
\<close>

section \<open>The Cookie header\<close>

definition quote :: char where "quote = CHR 0x22"

text \<open>A value that starts with a quotation mark ends with the next one.\<close>

definition quotes_close :: "str \<Rightarrow> bool" where
  "quotes_close v \<longleftrightarrow> v = [] \<or> hd v \<noteq> quote \<or> (length v \<ge> 2 \<and> last v = quote \<and> quote \<notin> set (butlast (tl v)))"

definition sendable :: "str \<times> str \<Rightarrow> bool" where
  "sendable p \<longleftrightarrow> CHR ''='' \<notin> set (fst p) \<and> (fst p \<noteq> [] \<longrightarrow> hd (fst p) \<noteq> CHR '' '') \<and>
     CHR '';'' \<notin> set (snd p) \<and> quotes_close (snd p)"

definition pair_text :: "str \<times> str \<Rightarrow> str" where "pair_text p = fst p @ CHR ''='' # snd p"

lemma quoted_value:
  assumes "quotes_close v" "v \<noteq> []" "hd v = quote"
  obtains w where "v = quote # w @ [quote]" "quote \<notin> set w"
proof -
  from assms have "length v \<ge> 2" "last v = quote" "quote \<notin> set (butlast (tl v))" by (auto simp: quotes_close_def)
  then have "v = quote # butlast (tl v) @ [quote]"
    using assms(2,3) append_butlast_last_id [of "tl v"] by (cases v) (auto split: if_splits simp del: append_butlast_last_id)
  with \<open>quote \<notin> set (butlast (tl v))\<close> show ?thesis using that by blast
qed

lemma request_value_text:
  assumes s: "s = d @ CHR ''='' # v @ rest" and v: "CHR '';'' \<notin> set v" "quotes_close v"
    and rest: "rest = [] \<or> hd rest = CHR '';''"
  shows "request_value s (len d) = Some (v, if v = [] \<and> rest = [] then len d else len d + 1 + len v)"
proof (cases "v = [] \<and> rest = []")
  case True
  then show ?thesis using s by (simp add: request_value_def)
next
  case False
  let ?e = "d @ [CHR ''='']"
  have "len v + len rest > 0" using False by (cases v; cases rest) auto
  then have next_pos: "len d \<noteq> len s" "len d + 1 \<noteq> len s" using s by simp_all
  have val_text: "seg s (len d + 1) (len d + 1 + len v) = v"
    using s by (simp add: seg_def nat_add_distrib)
  show ?thesis
  proof (cases "v \<noteq> [] \<and> hd v = quote")
    case True
    then obtain w where w: "v = quote # w @ [quote]" "quote \<notin> set w" using quoted_value v(2) by blast
    have "at s (len d + 1) = quote" using s w at_sep2 [of d "CHR ''=''" quote "w @ quote # rest"] by simp
    moreover have "scan_fwd (\<lambda>c. c \<noteq> CHR 0x22) s (len (?e @ [quote])) (len s) = len (?e @ [quote]) + len w"
      by (rule scan_fwd_text [of _ _ _ "quote # rest"]) (use s w in \<open>auto simp: quote_def\<close>)
    ultimately show ?thesis using next_pos w val_text s
      by (simp add: request_value_def quote_def ac_simps)
  next
    case False
    have "v @ rest \<noteq> []" using \<open>\<not> (v = [] \<and> rest = [])\<close> by simp
    then obtain c t where c: "v @ rest = c # t" by (cases "v @ rest") auto
    then have "c \<noteq> quote" using False rest by (cases v) (auto simp: quote_def)
    then have "at s (len d + 1) \<noteq> quote" using s c at_sep2 [of d "CHR ''=''" c t] by simp
    moreover have "scan_fwd (\<lambda>c. c \<noteq> CHR '';'') s (len ?e) (len s) = len ?e + len v"
      by (rule scan_fwd_text [of _ _ _ rest]) (use s v rest in auto)
    ultimately show ?thesis using next_pos \<open>\<not> (v = [] \<and> rest = [])\<close> val_text
      by (simp add: request_value_def quote_def ac_simps)
  qed
qed

lemma request_scan_pair:
  assumes s: "s = d @ bl @ pair_text p @ rest" and bl: "\<And>c. c \<in> set bl \<Longrightarrow> c = CHR '' ''"
    and p: "sendable p" and rest: "rest = [] \<or> hd rest = CHR '';''"
  shows "request_scan s (len d) acc = request_scan s (len (d @ bl @ pair_text p @ take 1 rest)) (acc @ [p])"
proof -
  let ?b = "d @ bl" and ?n = "d @ bl @ fst p"
  have b: "scan_fwd (\<lambda>c. c = CHR '' '') s (len d) (len s) = len ?b"
    using scan_fwd_text [of s d bl "pair_text p @ rest" "\<lambda>c. c = CHR '' ''" "len s"] s bl p
    by (cases "fst p") (auto simp: pair_text_def sendable_def)
  have n: "scan_fwd (\<lambda>c. c \<noteq> CHR ''='') s (len ?b) (len s) = len ?n"
  proof -
    have "scan_fwd (\<lambda>c. c \<noteq> CHR ''='') s (len ?b) (len s) = len ?b + len (fst p)"
    proof (rule scan_fwd_text [of _ _ _ "CHR ''='' # snd p @ rest"])
      show "s = ?b @ fst p @ CHR ''='' # snd p @ rest" using s by (simp add: pair_text_def)
      show "c \<in> set (fst p) \<Longrightarrow> c \<noteq> CHR ''=''" for c using p by (auto simp: sendable_def)
    qed (use s in \<open>simp_all add: pair_text_def\<close>)
    then show ?thesis by simp
  qed
  have v: "request_value s (len ?n) = Some (snd p, if snd p = [] \<and> rest = [] then len ?n else len ?n + 1 + len (snd p))"
    by (rule request_value_text [of _ _ _ rest]) (use s p rest in \<open>auto simp: pair_text_def sendable_def\<close>)
  have name: "seg s (len ?b) (len ?n) = fst p" using s by (simp add: seg_def pair_text_def)
  have "len d < len s" "len ?b \<noteq> len s" using s by (simp_all add: pair_text_def)
  then show ?thesis
    by (subst request_scan.simps)
      (use s b n v name in \<open>cases rest; auto simp: Let_def pair_text_def ac_simps split: if_splits\<close>)
qed

lemma request_scan_pairs:
  assumes "list_all sendable (p # ps)" "\<And>c. c \<in> set bl \<Longrightarrow> c = CHR '' ''"
  shows "request_scan (d @ bl @ pair_text p @ concat (map (\<lambda>q. ''; '' @ pair_text q) ps)) (len d) acc = acc @ p # ps"
  using assms
proof (induction ps arbitrary: p d bl acc)
  case Nil
  then show ?case
    using request_scan_pair [of "d @ bl @ pair_text p" d bl p "[]" acc] by (simp add: request_scan.simps)
next
  case (Cons q ps)
  let ?rest = "concat (map (\<lambda>q. ''; '' @ pair_text q) (q # ps))"
  have "request_scan (d @ bl @ pair_text p @ ?rest) (len d) acc =
      request_scan (d @ bl @ pair_text p @ ?rest) (len (d @ bl @ pair_text p @ take 1 ?rest)) (acc @ [p])"
    by (rule request_scan_pair) (use Cons.prems in auto)
  also have "\<dots> = (acc @ [p]) @ q # ps"
    using Cons.IH [of q "'' ''" "d @ bl @ pair_text p @ '';''" "acc @ [p]"] Cons.prems by simp
  finally show ?case by simp
qed

lemma Serialize_eq:
  "SerializeRequestCookieLine ps =
     (case ps of [] \<Rightarrow> [] | p # ps \<Rightarrow> pair_text p @ concat (map (\<lambda>q. ''; '' @ pair_text q) ps))"
proof -
  have "buffer \<noteq> [] \<Longrightarrow>
      fold (\<lambda>i buffer. (if buffer \<noteq> [] then buffer @ ''; '' else buffer) @ fst i @ ''='' @ snd i) ps buffer =
      buffer @ concat (map (\<lambda>q. ''; '' @ pair_text q) ps)" for buffer :: str and ps :: "(str \<times> str) list"
    by (induction ps arbitrary: buffer) (simp_all add: pair_text_def)
  then show ?thesis by (cases ps) (simp_all add: SerializeRequestCookieLine_def pair_text_def)
qed

lemma request_line_round_trip:
  assumes "list_all sendable ps"
  shows "ParseRequestCookieLine (SerializeRequestCookieLine ps) = ps"
  using assms request_scan_pairs [of _ _ "[]" "[]" "[]"]
  by (cases ps) (simp_all add: ParseRequestCookieLine_def Serialize_eq request_scan.simps)

section \<open>Which cookies match\<close>

lemma find_at_start: "str_find p s 0 = Some 0 \<longleftrightarrow> (\<exists>rest. s = p @ rest)"
  by (auto simp: str_find_Some matches_at_def) (metis append_take_drop_id)

lemma on_path_iff:
  "IsOnPath c url_path \<longleftrightarrow> cc_path c \<noteq> [] \<and>
     (\<exists>rest. url_path = cc_path c @ rest \<and> (rest = [] \<or> last (cc_path c) = CHR ''/'' \<or> hd rest = CHR ''/''))"
proof (cases "cc_path c \<noteq> [] \<and> (\<exists>rest. url_path = cc_path c @ rest)")
  case True
  then obtain rest where "url_path = cc_path c @ rest" "cc_path c \<noteq> []" by blast
  then show ?thesis
    by (cases rest) (auto simp: IsOnPath_def find_at_start last_conv_nth nth_append)
next
  case False
  then show ?thesis by (auto simp: IsOnPath_def find_at_start)
qed

lemma ends_with_iff: "(\<exists>sub. s = sub @ t) \<longleftrightarrow> length t \<le> length s \<and> drop (length s - length t) s = t"
  by (metis append_take_drop_id append_eq_conv_conj diff_add_inverse2 le_add2 length_append)

lemma domain_match_iff:
  "IsDomainMatch c host \<longleftrightarrow> host = cc_domain c \<or>
     (\<exists>d. cc_domain c = CHR ''.'' # d \<and> (host = d \<or> (\<exists>sub. host = sub @ CHR ''.'' # d)))"
proof (cases "cc_domain c")
  case (Cons a d)
  have "length host > length (cc_domain c) \<and>
      substr host (length host - length (cc_domain c)) (length (cc_domain c)) = cc_domain c \<or> host = cc_domain c
      \<longleftrightarrow> (\<exists>sub. host = sub @ cc_domain c)"
    unfolding ends_with_iff by (cases "length (cc_domain c) = length host") (auto simp: substr_def)
  with Cons show ?thesis by (auto simp: IsDomainMatch_def)
qed (auto simp: IsDomainMatch_def)

lemma cryptographic_iff:
  "SchemeIsCryptographic u \<longleftrightarrow> GURL_scheme u = ''https'' \<or> GURL_scheme u = ''wss''"
  by (auto simp: SchemeIsCryptographic_def GURL_SchemeIs_def GURL_scheme_def GURL_ComponentString_def)

section \<open>What the jar holds\<close>

definition jar_of :: "schemes \<Rightarrow> (str \<times> str) list \<Rightarrow> CookieJarImpl" where
  "jar_of schemes entries = fold (\<lambda>(URL, line). AddCookieEntry schemes URL line) entries NewCookieJar"

definition jar_options :: CookieOptions where
  "jar_options = default_options\<lparr>exclude_httponly := False\<rparr>"

definition stored :: "schemes \<Rightarrow> str \<times> str \<Rightarrow> CanonicalCookie option" where
  "stored schemes entry =
     CreateFromLine schemes (MakeGURL schemes (fst entry)) (snd entry) Time_Now jar_options"

lemma add_entries:
  assumes "m_options j = jar_options"
  shows "m_options (fold (\<lambda>(URL, line). AddCookieEntry schemes URL line) entries j) = jar_options \<and>
    jar_cookies (fold (\<lambda>(URL, line). AddCookieEntry schemes URL line) entries j) =
      jar_cookies j @ List.map_filter (stored schemes) entries"
  using assms
proof (induction entries arbitrary: j)
  case (Cons e es)
  then show ?case
    by (cases e) (auto simp: AddCookieEntry_def stored_def map_filter_simps split: option.splits)
qed (simp add: map_filter_simps)

lemma jar_holds:
  "m_options (jar_of schemes entries) = jar_options"
  "jar_cookies (jar_of schemes entries) = List.map_filter (stored schemes) entries"
  using add_entries [of NewCookieJar schemes entries] by (simp_all add: jar_of_def NewCookieJar_def jar_options_def)

lemma storedD:
  assumes "stored schemes entry = Some c"
  defines "p \<equiv> ParseCookie (snd entry)" and "u \<equiv> MakeGURL schemes (fst entry)"
  shows "IsValid p" "cc_name c = Name p" "cc_value c = Value p" "cc_domain c = GetCookieDomain u p"
    "cc_path c = CanonPath u p" "is_secure c = Has ASecure p" "is_first_party_only c = Has AFirstPartyOnly p"
  using assms(1) by (auto simp: stored_def CreateFromLine_def NewCanonicalCookie_def Let_def p_def u_def split: if_splits)

section \<open>What the jar sends\<close>

definition sent :: "schemes \<Rightarrow> str \<Rightarrow> CanonicalCookie list \<Rightarrow> CanonicalCookie list" where
  "sent schemes URL cs = filter (\<lambda>c. IncludeForRequestURL c (MakeGURL schemes URL) jar_options) cs"

definition name_value :: "CanonicalCookie \<Rightarrow> str \<times> str" where
  "name_value c = (cc_name c, cc_value c)"

lemma GetCookies_serialize:
  assumes "m_options j = jar_options"
  shows "GetCookies schemes URL j = SerializeRequestCookieLine (map name_value (sent schemes URL (jar_cookies j)))"
proof -
  have "fold (\<lambda>cookie ret. if \<not> P cookie then ret
           else (if ret \<noteq> [] then ret @ ''; '' else ret) @ cc_name cookie @ ''='' @ cc_value cookie) cs ret =
        fold (\<lambda>i buffer. (if buffer \<noteq> [] then buffer @ ''; '' else buffer) @ fst i @ ''='' @ snd i)
          (map name_value (filter P cs)) ret" for P :: "CanonicalCookie \<Rightarrow> bool" and cs ret
    by (induction cs arbitrary: ret) (simp_all add: name_value_def)
  then show ?thesis using assms by (simp add: GetCookies_def SerializeRequestCookieLine_def sent_def)
qed

lemma first_pair_sendable:
  assumes "IsValid (ParseCookie line)" "quotes_close (Value (ParseCookie line))"
  shows "sendable (Name (ParseCookie line), Value (ParseCookie line))"
proof -
  have "pairs_fine (pairs (ParseCookie line))" "pairs (ParseCookie line) \<noteq> []"
    using assms(1) parsed_cases [of line] parsed_pairs [of line] by (auto simp: IsValid_def)
  then have "field_ok (Name (ParseCookie line))" "field_ok (Value (ParseCookie line))"
    "CHR ''='' \<notin> set (Name (ParseCookie line))"
    by (cases "pairs (ParseCookie line)"; simp add: pairs_fine_def Name_def Value_def)+
  then show ?thesis using assms(2) by (auto simp: sendable_def field_ok_def attribute_chars)
qed

text \<open>Lines whose values close their quotation marks.\<close>

definition quotes_closed :: "(str \<times> str) list \<Rightarrow> bool" where
  "quotes_closed entries \<longleftrightarrow>
     list_all (\<lambda>(URL, line). IsValid (ParseCookie line) \<longrightarrow> quotes_close (Value (ParseCookie line))) entries"

lemma jar_line:
  assumes "quotes_closed entries"
  shows "ParseRequestCookieLine (GetCookies schemes URL (jar_of schemes entries)) =
    map name_value (sent schemes URL (List.map_filter (stored schemes) entries))"
proof -
  have "sendable (name_value c)" if "c \<in> set (List.map_filter (stored schemes) entries)" for c
  proof -
    from that obtain e where "e \<in> set entries" "stored schemes e = Some c" by (auto simp: map_filter_def)
    note e = this storedD(1-3) [OF this(2)]
    then have "quotes_close (Value (ParseCookie (snd e)))"
      using assms by (cases e) (auto simp: quotes_closed_def list_all_iff)
    then show ?thesis using e first_pair_sendable [of "snd e"] by (simp add: name_value_def)
  qed
  then have "list_all sendable (map name_value (sent schemes URL (List.map_filter (stored schemes) entries)))"
    by (auto simp: list_all_iff sent_def)
  then show ?thesis by (simp add: GetCookies_serialize jar_holds request_line_round_trip)
qed

text \<open>
  C7. Round trip: the \<open>Cookie\<close> header that the jar writes is read back by
  \<open>ParseRequestCookieLine\<close> as the names and values of the stored cookies that go with the
  URL, in the order in which they were stored, for lines whose values close their quotes.
\<close>

theorem jar_header_round_trip:
  assumes "quotes_closed entries"
  shows "ParseRequestCookieLine (GetCookies schemes URL (jar_of schemes entries)) =
    map (\<lambda>c. (cc_name c, cc_value c))
      (filter (\<lambda>c. IncludeForRequestURL c (MakeGURL schemes URL) (m_options NewCookieJar))
        (List.map_filter
          (\<lambda>(setter, line). CreateFromLine schemes (MakeGURL schemes setter) line Time_Now (m_options NewCookieJar)) entries))"
proof -
  have "stored schemes = (\<lambda>(setter, line). CreateFromLine schemes (MakeGURL schemes setter) line Time_Now (m_options NewCookieJar))"
    by (simp add: fun_eq_iff stored_def NewCookieJar_def jar_options_def)
  moreover have "name_value = (\<lambda>c. (cc_name c, cc_value c))" by (simp add: fun_eq_iff name_value_def)
  moreover have "jar_options = m_options NewCookieJar" by (simp add: NewCookieJar_def jar_options_def)
  ultimately show ?thesis using jar_line [OF assms, of schemes URL] unfolding sent_def by simp
qed

text \<open>
  C8. Safety, for a jar in which every value that opens with a quotation mark closes with one:
  a pair that the jar sends to a URL, as the parser of such lines reads them, comes from a
  valid line that some URL set.
  It is sent to a secure scheme if the line says so, and never if it is for first parties
  only; the host of the request is the domain of the line, without one the host that set it,
  or inside it when it starts with a dot; and the path starts with the path of the cookie
  and goes on at a slash.
\<close>

theorem jar_is_confined:
  assumes "quotes_closed entries"
    "(name, val) \<in> set (ParseRequestCookieLine (GetCookies schemes URL (jar_of schemes entries)))"
  shows "\<exists>setter line p host path domain rest.
    (setter, line) \<in> set entries \<and> p = ParseCookie line \<and> IsValid p \<and> name = Name p \<and> val = Value p \<and>
    \<not> (Has ASecure p \<and> GURL_scheme (MakeGURL schemes URL) \<notin> {''https'', ''wss''}) \<and> \<not> Has AFirstPartyOnly p \<and>
    host = GURL_host (MakeGURL schemes URL) \<and>
    domain = (if Has ADomain p then Attr ADomain p else GURL_host (MakeGURL schemes setter)) \<and>
    (host = domain \<or> (\<exists>d sub. domain = CHR ''.'' # d \<and> (host = d \<or> host = sub @ domain))) \<and>
    path = CanonPath (MakeGURL schemes setter) p \<and> path \<noteq> [] \<and> GURL_path (MakeGURL schemes URL) = path @ rest \<and>
    (rest = [] \<or> last path = CHR ''/'' \<or> hd rest = CHR ''/'')"
proof -
  let ?u = "MakeGURL schemes URL"
  from assms(2) obtain c where c: "c \<in> set (List.map_filter (stored schemes) entries)"
      "IncludeForRequestURL c ?u jar_options" "name = cc_name c" "val = cc_value c"
    by (auto simp: jar_line [OF assms(1)] sent_def name_value_def)
  then obtain setter line where e: "(setter, line) \<in> set entries" "stored schemes (setter, line) = Some c"
    by (auto simp: map_filter_def)
  note s = storedD [OF e(2), simplified]
  from c(2) have m: "is_secure c \<Longrightarrow> SchemeIsCryptographic ?u" "\<not> is_first_party_only c"
      "IsDomainMatch c (GURL_host ?u)" "IsOnPath c (GURL_path ?u)"
    by (auto simp: IncludeForRequestURL_def jar_options_def default_options_def split: if_splits)
  from m(4) obtain rest where rest: "cc_path c \<noteq> []" "GURL_path ?u = cc_path c @ rest"
      "rest = [] \<or> last (cc_path c) = CHR ''/'' \<or> hd rest = CHR ''/''" by (auto simp: on_path_iff)
  have dom: "GURL_host ?u = cc_domain c \<or>
      (\<exists>d sub. cc_domain c = CHR ''.'' # d \<and> (GURL_host ?u = d \<or> GURL_host ?u = sub @ cc_domain c))"
    using m(3) by (auto simp: domain_match_iff)
  show ?thesis
  proof (intro exI conjI)
    show "(setter, line) \<in> set entries" "ParseCookie line = ParseCookie line" "GURL_host ?u = GURL_host ?u"
      by (rule e(1) refl)+
    show "IsValid (ParseCookie line)" "name = Name (ParseCookie line)" "val = Value (ParseCookie line)"
      using s c(3,4) by simp_all
    show "\<not> (Has ASecure (ParseCookie line) \<and> GURL_scheme ?u \<notin> {''https'', ''wss''})"
      using s(6) m(1) cryptographic_iff by blast
    show "\<not> Has AFirstPartyOnly (ParseCookie line)" using s(7) m(2) by simp
    show "cc_domain c = (if Has ADomain (ParseCookie line) then Attr ADomain (ParseCookie line)
        else GURL_host (MakeGURL schemes setter))"
      using s(4) by (simp add: GetCookieDomain_def)
    show "cc_path c = CanonPath (MakeGURL schemes setter) (ParseCookie line)" using s(5) by simp
  qed (use dom rest in blast)+
qed

text \<open>
  C20. A cookie goes with a request exactly if: it is not for HTTP only where those are
  excluded; it is not secure on another scheme than https and wss; the host of the URL is its
  domain, or its domain starts with a dot and the rest is the host or a suffix of the host
  behind a dot; its path is not empty and starts the path of the URL, which ends there or goes
  on at a slash; and it is not for first parties only where those are excluded.
\<close>

theorem cookie_matching:
  "IncludeForRequestURL c url options =
     (\<not> (is_httponly c \<and> exclude_httponly options) \<and>
      \<not> (is_secure c \<and> GURL_scheme url \<notin> {''https'', ''wss''}) \<and>
      (GURL_host url = cc_domain c \<or>
       (\<exists>d. cc_domain c = CHR ''.'' # d \<and> (GURL_host url = d \<or> (\<exists>sub. GURL_host url = sub @ CHR ''.'' # d)))) \<and>
      cc_path c \<noteq> [] \<and>
      (\<exists>rest. GURL_path url = cc_path c @ rest \<and> (rest = [] \<or> last (cc_path c) = CHR ''/'' \<or> hd rest = CHR ''/'')) \<and>
      \<not> (is_first_party_only c \<and> \<not> include_first_party_only_cookies options))"
proof -
  have "IncludeForRequestURL c url options =
     (\<not> (exclude_httponly options \<and> is_httponly c) \<and> \<not> (is_secure c \<and> \<not> SchemeIsCryptographic url) \<and>
      IsDomainMatch c (GURL_host url) \<and> IsOnPath c (GURL_path url) \<and>
      \<not> (is_first_party_only c \<and> \<not> include_first_party_only_cookies options))"
    by (simp add: IncludeForRequestURL_def)
  then show ?thesis unfolding domain_match_iff on_path_iff cryptographic_iff by blast
qed

section \<open>A sample\<close>

abbreviation schemes0 :: schemes where "schemes0 \<equiv> kStandardURLSchemes"

definition sample_parsed :: "int \<Rightarrow> parsed" where
  "sample_parsed n = to_parsed (no_parts\<lparr>p_scheme := Component 0 4, p_host := Component 7 1, p_path := Component 8 n\<rparr>) None"

definition sample_gurl :: GURL where "sample_gurl = GURL ''http://a/x/y'' True (sample_parsed 4) None"
definition sample_origin :: GURL where "sample_origin = GURL ''http://a/'' True (sample_parsed 1) None"

lemma sample_made: "MakeGURL schemes0 ''http://a/x/y'' = sample_gurl" by code_simp
lemma sample_get_origin: "GetOrigin schemes0 sample_gurl = sample_origin" by code_simp
lemma sample_not_file: "GURL_SchemeIsFile sample_gurl = False" by code_simp

definition sample_cookie :: "str \<Rightarrow> str \<Rightarrow> str \<Rightarrow> bool \<Rightarrow> int \<Rightarrow> CanonicalCookie" where
  "sample_cookie name val domain secure expiration =
     \<lparr>cc_source = sample_origin, cc_name = name, cc_value = val, cc_domain = domain, cc_path = ''/x'', creation_date = 0,
      expiry_date = expiration, last_access_date = 0, is_secure = secure, is_httponly = False,
      is_first_party_only = False, cc_priority = COOKIE_PRIORITY_MEDIUM\<rparr>"

lemmas create_sample = stored_def fst_conv snd_conv sample_made CreateFromLine_def NewCanonicalCookie_def Let_def
  sample_get_origin sample_not_file if_False

lemma sample_stored:
  "stored schemes0 (''http://a/x/y'', ''n=1'') = Some (sample_cookie ''n'' ''1'' ''a'' False 0)"
  "stored schemes0 (''http://a/x/y'', ''n=2; max-age=-1'') = Some (sample_cookie ''n'' ''2'' ''a'' False (- 1000000))"
  "stored schemes0 (''http://a/x/y'', ''s=3; secure'') = Some (sample_cookie ''s'' ''3'' ''a'' True 0)"
  "stored schemes0 (''http://a/x/y'', ''b=4; domain=.b'') = Some (sample_cookie ''b'' ''4'' ''.b'' False 0)"
  by (simp only: create_sample, code_simp)+

lemma sample_included:
  "IncludeForRequestURL (sample_cookie ''n'' ''1'' ''a'' False 0) sample_gurl jar_options"
  "IncludeForRequestURL (sample_cookie ''n'' ''2'' ''a'' False (- 1000000)) sample_gurl jar_options"
  "\<not> IncludeForRequestURL (sample_cookie ''s'' ''3'' ''a'' True 0) sample_gurl jar_options"
  "\<not> IncludeForRequestURL (sample_cookie ''b'' ''4'' ''.b'' False 0) sample_gurl jar_options"
  by code_simp+

text \<open>
  What the checks on the way in let through: a site sets a cookie for any domain, and a name
  with the prefix \<open>__Host-\<close> is accepted without a path attribute when its value is a slash.
\<close>

lemma foreign_domain_accepted:
  "map_option (\<lambda>c. IsDomainMatch c ''www.b'') (stored schemes0 (''http://a/x/y'', ''b=4; domain=.b'')) = Some True"
  by (simp only: sample_stored, code_simp)

lemma equivalent_not_for_secure:
  "map_option (\<lambda>c. IsEquivalent c c \<and> \<not> IsEquivalentForSecureCookieMatching c c)
    (stored schemes0 (''http://a/x/y'', ''b=4; domain=.b'')) = Some True"
  by (simp only: sample_stored, code_simp)

lemma host_prefix_fooled:
  assumes "SchemeIsCryptographic url"
  shows "IsCookiePrefixValid (GetCookiePrefix ''__Host-a'') url (ParseCookie ''__Host-a=/; secure'')"
    "\<not> Has APath (ParseCookie ''__Host-a=/; secure'')"
proof -
  have "GetCookiePrefix ''__Host-a'' = COOKIE_PREFIX_HOST" by code_simp
  moreover have "Has ASecure (ParseCookie ''__Host-a=/; secure'')" "\<not> Has ADomain (ParseCookie ''__Host-a=/; secure'')"
      "Attr APath (ParseCookie ''__Host-a=/; secure'') = ''/''" by code_simp+
  ultimately show "IsCookiePrefixValid (GetCookiePrefix ''__Host-a'') url (ParseCookie ''__Host-a=/; secure'')"
    using assms by (simp add: IsCookiePrefixValid_def)
  show "\<not> Has APath (ParseCookie ''__Host-a=/; secure'')" by code_simp
qed

definition sample_entries :: "(str \<times> str) list" where
  "sample_entries = map (Pair ''http://a/x/y'') [''n=1'', ''s=3; secure'', ''b=4; domain=.b'', ''n=2; max-age=-1'']"

lemma sample_quotes: "quotes_closed sample_entries" by code_simp

lemmas run_sample = sample_entries_def sample_stored sample_included sample_made map_filter_simps sent_def

lemma sample_sent:
  "map name_value (sent schemes0 ''http://a/x/y'' (List.map_filter (stored schemes0) sample_entries)) =
     [(''n'', ''1''), (''n'', ''2'')]"
  by (simp add: run_sample) (simp add: name_value_def sample_cookie_def)

text \<open>Setting a cookie again adds another one, and one whose time is over is still sent.\<close>

lemma replaced_cookie_stays:
  "GetCookies schemes0 ''http://a/x/y'' (jar_of schemes0 sample_entries) = ''n=1; n=2''"
  by (simp add: GetCookies_serialize jar_holds sample_sent SerializeRequestCookieLine_def)

theorem jar_header_round_trip_witness:
  "ParseRequestCookieLine (GetCookies schemes0 ''http://a/x/y'' (jar_of schemes0 sample_entries)) = [(''n'', ''1''), (''n'', ''2'')]"
proof -
  have "stored schemes0 = (\<lambda>(setter, line).
      CreateFromLine schemes0 (MakeGURL schemes0 setter) line Time_Now (m_options NewCookieJar))"
    by (simp add: fun_eq_iff stored_def NewCookieJar_def jar_options_def)
  note this [symmetric]
  moreover have "m_options NewCookieJar = jar_options" by (simp add: NewCookieJar_def jar_options_def)
  ultimately show ?thesis
    by (simp only: jar_header_round_trip [OF sample_quotes]) (simp add: run_sample, simp add: sample_cookie_def)
qed

theorem jar_is_confined_witness:
  "\<exists>setter line p host path domain rest.
    (setter, line) \<in> set sample_entries \<and> p = ParseCookie line \<and> IsValid p \<and> ''n'' = Name p \<and> ''2'' = Value p \<and>
    \<not> (Has ASecure p \<and> GURL_scheme (MakeGURL schemes0 ''http://a/x/y'') \<notin> {''https'', ''wss''}) \<and>
    \<not> Has AFirstPartyOnly p \<and>
    host = GURL_host (MakeGURL schemes0 ''http://a/x/y'') \<and>
    domain = (if Has ADomain p then Attr ADomain p else GURL_host (MakeGURL schemes0 setter)) \<and>
    (host = domain \<or> (\<exists>d sub. domain = CHR ''.'' # d \<and> (host = d \<or> host = sub @ domain))) \<and>
    path = CanonPath (MakeGURL schemes0 setter) p \<and> path \<noteq> [] \<and>
    GURL_path (MakeGURL schemes0 ''http://a/x/y'') = path @ rest \<and>
    (rest = [] \<or> last path = CHR ''/'' \<or> hd rest = CHR ''/'')"
proof (rule jar_is_confined [OF sample_quotes])
  show "(''n'', ''2'') \<in> set (ParseRequestCookieLine (GetCookies schemes0 ''http://a/x/y'' (jar_of schemes0 sample_entries)))"
    by (simp add: jar_line [OF sample_quotes] sample_sent)
qed

end
