(* ===== verification/Cookie_Order_Laws.thy ===== *)
theory Cookie_Order_Laws
  imports Jar_Laws "HOL-Library.Char_ord" "HOL-Library.List_Lexorder" "HOL-Library.Product_Lexorder"
begin

text \<open>
  \<open>PartialCompare\<close> and \<open>FullCompare\<close> are lexicographic orders on the fields they read, and
  what their declarations promise follows from that.
\<close>

section \<open>Orders\<close>

lemma str_compare_order: "str_compare s t = (if s < t then -1 else if t < s then 1 else 0)"
proof (induction s t rule: str_compare.induct)
  case (4 c s d t)
  then show ?case by (auto simp: less_char_def Cons_less_Cons char_eq_byte simp del: of_char_eq_iff)
qed (simp_all add: Nil_less_Cons not_less_Nil)

lemma str_compare_simps:
  "str_compare s t < 0 \<longleftrightarrow> s < t" "str_compare s t = 0 \<longleftrightarrow> s = t"
  by (auto simp: str_compare_order)

text \<open>The keys that the two orders compare.\<close>

definition partial_key :: "CanonicalCookie \<Rightarrow> str \<times> str \<times> str" where
  "partial_key c = (cc_name c, cc_domain c, cc_path c)"

definition full_key ::
    "CanonicalCookie \<Rightarrow> (str \<times> str \<times> str) \<times> str \<times> int \<times> int \<times> int \<times> bool \<times> bool \<times> CookiePriority" where
  "full_key c = (partial_key c, cc_value c, creation_date c, expiry_date c, last_access_date c,
     \<not> is_secure c, \<not> is_httponly c, cc_priority c)"

lemma partial_ordering_key:
  "PartialCookieOrdering a b < 0 \<longleftrightarrow> partial_key a < partial_key b"
  "PartialCookieOrdering a b = 0 \<longleftrightarrow> partial_key a = partial_key b"
  by (auto simp: PartialCookieOrdering_def Let_def partial_key_def str_compare_simps le_less)

lemma full_compare_key: "FullCompare a b \<longleftrightarrow> full_key a < full_key b"
  by (auto simp: FullCompare_def Let_def full_key_def partial_ordering_key str_compare_simps le_less)

lemma partial_compare_key: "PartialCompare a b \<longleftrightarrow> partial_key a < partial_key b"
  by (simp add: PartialCompare_def partial_ordering_key)

lemma full_key_first: "full_key a \<le> full_key b \<Longrightarrow> partial_key a \<le> partial_key b"
  by (auto simp: full_key_def)

lemma full_key_eq: "full_key a = full_key b \<longleftrightarrow> b = a\<lparr>cc_source := cc_source b, is_first_party_only := is_first_party_only b\<rparr>"
  by (cases a; cases b) (auto simp: full_key_def partial_key_def)

lemmas cookie_keys = full_compare_key partial_compare_key full_key_def partial_key_def

text \<open>
  C21. The two orders on cookies keep what their declarations promise.  Both are strict weak
  orders; cookies that \<open>PartialCompare\<close> does not tell apart are the equivalent ones, and
  cookies sorted with \<open>FullCompare\<close> are also sorted with \<open>PartialCompare\<close>.  The cookies
  that \<open>FullCompare\<close> does not tell apart are those that agree in everything but their source
  and the first-party flag, which it leaves out.  Between cookies that differ in one field
  the smaller value, name, domain, path, date or priority comes first, and the secure and
  the HTTP only cookie before the other one.
\<close>

theorem cookie_orders:
  "\<not> FullCompare a a \<and> (FullCompare a b \<and> FullCompare b c \<longrightarrow> FullCompare a c) \<and>
   (\<not> FullCompare a b \<and> \<not> FullCompare b a \<longleftrightarrow> b = a\<lparr>cc_source := cc_source b, is_first_party_only := is_first_party_only b\<rparr>) \<and>
   \<not> PartialCompare a a \<and> (PartialCompare a b \<and> PartialCompare b c \<longrightarrow> PartialCompare a c) \<and>
   (\<not> PartialCompare a b \<and> \<not> PartialCompare b a \<longleftrightarrow> IsEquivalent a b) \<and>
   (sorted_wrt (\<lambda>x y. \<not> FullCompare y x) cs \<longrightarrow> sorted_wrt (\<lambda>x y. \<not> PartialCompare y x) cs) \<and>
   (FullCompare (a\<lparr>cc_name := s\<rparr>) (a\<lparr>cc_name := t\<rparr>) \<longleftrightarrow> s < t) \<and>
   (FullCompare (a\<lparr>cc_domain := s\<rparr>) (a\<lparr>cc_domain := t\<rparr>) \<longleftrightarrow> s < t) \<and>
   (FullCompare (a\<lparr>cc_path := s\<rparr>) (a\<lparr>cc_path := t\<rparr>) \<longleftrightarrow> s < t) \<and>
   (FullCompare (a\<lparr>cc_value := s\<rparr>) (a\<lparr>cc_value := t\<rparr>) \<longleftrightarrow> s < t) \<and>
   (FullCompare (a\<lparr>creation_date := m\<rparr>) (a\<lparr>creation_date := n\<rparr>) \<longleftrightarrow> m < n) \<and>
   (FullCompare (a\<lparr>expiry_date := m\<rparr>) (a\<lparr>expiry_date := n\<rparr>) \<longleftrightarrow> m < n) \<and>
   (FullCompare (a\<lparr>last_access_date := m\<rparr>) (a\<lparr>last_access_date := n\<rparr>) \<longleftrightarrow> m < n) \<and>
   (FullCompare (a\<lparr>cc_priority := p\<rparr>) (a\<lparr>cc_priority := q\<rparr>) \<longleftrightarrow> p < q) \<and>
   FullCompare (a\<lparr>is_secure := True\<rparr>) (a\<lparr>is_secure := False\<rparr>) \<and>
   FullCompare (a\<lparr>is_httponly := True\<rparr>) (a\<lparr>is_httponly := False\<rparr>)"
proof -
  have "sorted_wrt (\<lambda>x y. \<not> FullCompare y x) cs \<longrightarrow> sorted_wrt (\<lambda>x y. \<not> PartialCompare y x) cs"
    by (auto intro: sorted_wrt_mono_rel [rotated] simp: full_compare_key partial_compare_key not_less full_key_first)
  moreover have "\<not> PartialCompare a b \<and> \<not> PartialCompare b a \<longleftrightarrow> IsEquivalent a b"
    by (auto simp: partial_compare_key IsEquivalent_def partial_key_def)
  moreover have "\<not> FullCompare a b \<and> \<not> FullCompare b a \<longleftrightarrow> b = a\<lparr>cc_source := cc_source b, is_first_party_only := is_first_party_only b\<rparr>"
    unfolding full_key_eq [symmetric] by (auto simp: full_compare_key)
  moreover have "FullCompare a b \<and> FullCompare b c \<longrightarrow> FullCompare a c" "PartialCompare a b \<and> PartialCompare b c \<longrightarrow> PartialCompare a c"
    by (auto simp: full_compare_key partial_compare_key)
  ultimately show ?thesis by (simp add: cookie_keys)
qed

theorem cookie_orders_witness:
  "FullCompare (sample_cookie ''a'' ''v'' ''h'' True 0) (sample_cookie ''b'' ''v'' ''h'' True 0) \<and>
   sorted_wrt (\<lambda>x y. \<not> PartialCompare y x) [sample_cookie ''a'' ''v'' ''h'' True 0, sample_cookie ''a'' ''v'' ''h'' False 0, sample_cookie ''b'' ''v'' ''h'' True 0]"
proof -
  have f: "FullCompare (sample_cookie ''a'' ''v'' ''h'' True 0) (sample_cookie ''a'' ''v'' ''h'' False 0)"
    "FullCompare (sample_cookie ''a'' ''v'' ''h'' False 0) (sample_cookie ''b'' ''v'' ''h'' True 0)" by (code_simp, code_simp)
  moreover have "sorted_wrt (\<lambda>x y. \<not> FullCompare y x) [sample_cookie ''a'' ''v'' ''h'' True 0, sample_cookie ''a'' ''v'' ''h'' False 0, sample_cookie ''b'' ''v'' ''h'' True 0]"
    by code_simp
  ultimately show ?thesis
    using cookie_orders [of "sample_cookie ''a'' ''v'' ''h'' True 0" "sample_cookie ''a'' ''v'' ''h'' False 0" "sample_cookie ''b'' ''v'' ''h'' True 0"
        "[sample_cookie ''a'' ''v'' ''h'' True 0, sample_cookie ''a'' ''v'' ''h'' False 0, sample_cookie ''b'' ''v'' ''h'' True 0]"] by blast
qed

end
