(* ===== verification/Cookie_Date_Laws.thy ===== *)
theory Cookie_Date_Laws
  imports Jar_Laws Url_Ip_Laws Url_Canon_Laws
begin

text \<open>
  The dates that \<open>ParseCookieTime\<close> reads.
\<close>

section \<open>Dates\<close>

lemma digit_byte: "is_digit c \<longleftrightarrow> 48 \<le> byte c \<and> byte c \<le> 57"
  by (simp add: is_digit_def)

lemma digit_no_delimiter: "is_digit c \<Longrightarrow> c \<notin> set kDelimiters"
  by (rule mp [OF byte_exhaust [of "\<lambda>c. is_digit c \<longrightarrow> c \<notin> set kDelimiters" c]]) code_simp

definition date_token :: "str \<Rightarrow> bool" where
  "date_token t \<longleftrightarrow> t \<noteq> [] \<and> list_all (\<lambda>c. c \<notin> set kDelimiters) t"

lemma next_token:
  assumes s: "s = d @ ds @ t @ rest" and "set ds \<subseteq> set kDelimiters" "date_token t"
    and rest: "rest = [] \<or> hd rest \<in> set kDelimiters"
  shows "time_scan s (len d) f = time_scan s (len (d @ ds @ t)) (time_token t f)"
proof -
  obtain c t' where t: "t = c # t'" "c \<notin> set kDelimiters" using assms(3) by (cases t) (auto simp: date_token_def)
  have "scan_fwd (\<lambda>c. c \<in> set kDelimiters) s (len d) (len s) = len d + len ds"
    by (rule scan_fwd_text [of _ _ _ "t @ rest"]) (use assms t in auto)
  moreover have "scan_fwd (\<lambda>c. c \<notin> set kDelimiters) s (len (d @ ds @ [c])) (len s) = len (d @ ds @ [c]) + len t'"
    by (rule scan_fwd_text [of _ _ _ rest]) (use assms t in \<open>auto simp: date_token_def list_all_iff\<close>)
  ultimately have "QuickGetNext s kDelimiters (len d) = Some (len (d @ ds), len (d @ ds @ t))"
    using s t by (simp add: QuickGetNext_def ac_simps)
  moreover have "seg s (len (d @ ds)) (len (d @ ds @ t)) = t" using s by (simp add: seg_def)
  ultimately show ?thesis by (subst time_scan.simps) simp
qed

lemma time_scan_end: "time_scan s (len s) f = f"
  by (subst time_scan.simps) (simp add: QuickGetNext_def scan_fwd_past)

text \<open>A text of tokens with what separates each from the one before.\<close>

definition separated :: "(str \<times> str) list \<Rightarrow> bool" where
  "separated = list_all (\<lambda>(ds, t). ds \<noteq> [] \<and> set ds \<subseteq> set kDelimiters \<and> date_token t)"

definition token_text :: "(str \<times> str) list \<Rightarrow> str" where
  "token_text ts = concat (map (\<lambda>(ds, t). ds @ t) ts)"

lemma token_text_hd: "separated ts \<Longrightarrow> token_text ts = [] \<or> hd (token_text ts) \<in> set kDelimiters"
proof (cases ts)
  case (Cons p ts')
  obtain ds t where p: "p = (ds, t)" by (cases p)
  assume "separated ts"
  then have "ds \<noteq> []" "set ds \<subseteq> set kDelimiters" using Cons p by (simp_all add: separated_def)
  then have "hd ds \<in> set kDelimiters" using hd_in_set by blast
  then show ?thesis using Cons p \<open>ds \<noteq> []\<close> by (simp add: token_text_def)
qed (simp add: token_text_def)

lemma time_scan_tokens:
  assumes "separated ts"
  shows "time_scan (d @ token_text ts) (len d) f = fold (\<lambda>(ds, t). time_token t) ts f"
  using assms
proof (induction ts arbitrary: d f)
  case Nil
  then show ?case by (simp add: token_text_def time_scan_end)
next
  case (Cons p ts)
  obtain ds t where p: "p = (ds, t)" by (cases p)
  have rest: "token_text ts = [] \<or> hd (token_text ts) \<in> set kDelimiters"
    using Cons.prems token_text_hd by (simp add: separated_def)
  have "time_scan (d @ token_text (p # ts)) (len d) f =
      time_scan (d @ token_text (p # ts)) (len (d @ ds @ t)) (time_token t f)"
    by (rule next_token [OF _ _ _ rest]) (use Cons.prems p in \<open>auto simp: token_text_def separated_def\<close>)
  moreover have "time_scan ((d @ ds @ t) @ token_text ts) (len (d @ ds @ t)) (time_token t f) =
      fold (\<lambda>(ds, t). time_token t) ts (time_token t f)"
    by (rule Cons.IH) (use Cons.prems in \<open>simp add: separated_def\<close>)
  ultimately show ?case by (simp add: p token_text_def)
qed

lemma time_scan_first:
  assumes "date_token t" "separated ts"
  shows "time_scan (t @ token_text ts) 0 f = fold (\<lambda>(ds, t). time_token t) ts (time_token t f)"
proof -
  have "time_scan (t @ token_text ts) (len ([] :: str)) f =
      time_scan (t @ token_text ts) (len ([] @ [] @ t)) (time_token t f)"
    by (rule next_token [where d = "[]" and ds = "[]" and rest = "token_text ts"])
      (use assms token_text_hd in simp_all)
  then show ?thesis using time_scan_tokens [OF assms(2), of t "time_token t f"] by simp
qed

section \<open>The dates of HTTP\<close>

definition two :: "nat \<Rightarrow> str" where "two n = [digit_char (n div 10), digit_char (n mod 10)]"

definition kWeekdays :: "str list" where "kWeekdays = [''Sun'', ''Mon'', ''Tue'', ''Wed'', ''Thu'', ''Fri'', ''Sat'']"

definition kMonthNames :: "str list" where
  "kMonthNames = [''Jan'', ''Feb'', ''Mar'', ''Apr'', ''May'', ''Jun'', ''Jul'', ''Aug'', ''Sep'', ''Oct'', ''Nov'', ''Dec'']"

text \<open>
  The date of RFC 7231 has spaces between day, month and year, as in
  \<open>Sat, 15 Apr 2017 21:01:22 GMT\<close>, and the date of the first cookie specification hyphens.
\<close>

definition cookie_date :: "char \<Rightarrow> str \<Rightarrow> nat \<Rightarrow> nat \<Rightarrow> nat \<Rightarrow> nat \<Rightarrow> nat \<Rightarrow> nat \<Rightarrow> str" where
  "cookie_date sep weekday d mon y h m s =
     weekday @ '', '' @ two d @ [sep] @ kMonthNames ! (mon - 1) @ [sep] @ print_nat 10 y @ '' '' @
     two h @ '':'' @ two m @ '':'' @ two s @ '' GMT''"

lemma two_digits: "n < 100 \<Longrightarrow> list_all is_digit (two n) \<and> atoi_digits (two n) = int n"
  by (rule upt_all [of "\<lambda>n. list_all is_digit (two n) \<and> atoi_digits (two n) = int n" 0 100]) (code_simp, simp_all)

lemma length_two [simp]: "length (two n) = 2" by (simp add: two_def)

lemma digits_token: "ds \<noteq> [] \<Longrightarrow> list_all is_digit ds \<Longrightarrow> date_token ds"
  using digit_no_delimiter by (auto simp: date_token_def list_all_iff)

lemma digits_hd: "list_all is_digit ds \<Longrightarrow> ds \<noteq> [] \<Longrightarrow> is_digit (hd ds)"
  by (cases ds) auto

lemma digits_take: "list_all is_digit ds \<Longrightarrow> takeWhile is_digit ds = ds"
  by (simp add: list_all_iff)

lemma digits_colon: "list_all is_digit ds \<Longrightarrow> CHR '':'' \<notin> set ds"
  by (auto simp: list_all_iff is_digit_def)

lemma scan_two: "n < 100 \<Longrightarrow> scan_2u (two n @ t) = Some (int n, t)"
proof -
  assume n: "n < 100"
  obtain a b where ab: "two n = [a, b]" "is_digit a" "is_digit b"
    using two_digits [OF n] by (auto simp: two_def)
  have "\<not> is_space_char a" using ab(2) by (auto simp: is_space_char_def digit_byte)
  then show ?thesis using two_digits [OF n] ab by (simp add: scan_2u_def)
qed

lemma year_digits: "list_all is_digit (print_nat 10 y)"
  using print_nat_dec [of _ y] by (auto simp: list_all_iff digit_byte)

lemma atoi_year: "atoi_digits (takeWhile is_digit (print_nat 10 y)) = int y"
  using atoi_value [OF print_port_digits] by (simp add: digits_take [OF year_digits] digits_value_print)

lemma weekday_token: "w \<in> set kWeekdays \<Longrightarrow> date_token w \<and> \<not> is_digit (hd w) \<and> month_of w = None"
proof -
  have "list_all (\<lambda>w. date_token w \<and> \<not> is_digit (hd w) \<and> month_of w = None) kWeekdays" by code_simp
  then show "w \<in> set kWeekdays \<Longrightarrow> ?thesis" by (auto simp: list_all_iff)
qed

lemma month_token: "i < 12 \<Longrightarrow>
    date_token (kMonthNames ! i) \<and> \<not> is_digit (hd (kMonthNames ! i)) \<and> month_of (kMonthNames ! i) = Some i"
  by (rule upt_all [of _ 0 12]) (code_simp, simp_all)

text \<open>
  C27. Round trip of dates: of a date as HTTP writes it, with spaces, or as cookies first wrote
  it, with hyphens, and with any day of the week, \<open>ParseCookieTime\<close> reads back the day,
  month, year and time.  What it makes of them is the null time all the same, because the
  conversion of exploded times is a placeholder in this build.
\<close>

theorem cookie_time_round_trip:
  assumes "sep \<in> {CHR '' '', CHR ''-''}" "weekday \<in> set kWeekdays" "1 \<le> d" "d \<le> 31" "1 \<le> mon" "mon \<le> 12" "1601 \<le> y" "y \<le> 30827"
    "h \<le> 23" "m \<le> 59" "s \<le> 59"
  shows "cookie_time_fields (cookie_date sep weekday d mon y h m s) =
      Some \<lparr>year = int y, month = int mon, day_of_month = int d, hour = int h, minute = int m, second = int s\<rparr> \<and>
    ParseCookieTime (cookie_date sep weekday d mon y h m s) = 0"
proof -
  let ?time = "two h @ '':'' @ two m @ '':'' @ two s"
  let ?ts = "[('', '', two d), ([sep], kMonthNames ! (mon - 1)), ([sep], print_nat 10 y), ('' '', ?time), ('' '', ''GMT'')]"
  let ?f0 = "\<lparr>f_day = None, f_month = None, f_time = None, f_year = None\<rparr>"
  note day = two_digits [of d] and hms = two_digits [of h] two_digits [of m] two_digits [of s]
  note w = weekday_token [OF assms(2)] and mo = month_token [of "mon - 1"]
  have len_y: "length (print_nat 10 y) \<le> 5" using assms(8) by (intro length_print_nat) simp_all
  have "CHR '':'' \<notin> set kDelimiters" "date_token ''GMT''" "\<not> is_digit CHR ''G''" by code_simp+
  note colon = this
  have time_ok: "date_token ?time" "is_digit (hd ?time)"
    using hms assms(9-11) colon(1) digits_token [of "two h"] digits_token [of "two m"] digits_token [of "two s"]
    by (auto simp: date_token_def two_def)
  have sep: "separated ?ts"
    using digits_token [of "two d"] digits_token [OF print_nat_nonempty year_digits] day mo assms time_ok colon
    by (auto simp: separated_def two_def kDelimiters_def)
  have time: "scan_time ?time = Some (int h, int m, int s)"
    using assms scan_two [of h "'':'' @ two m @ '':'' @ two s"] scan_two [of m "'':'' @ two s"] scan_two [of s "[]"]
    by (simp add: scan_time_def)
  have "cookie_date sep weekday d mon y h m s = weekday @ token_text ?ts"
    by (simp add: cookie_date_def token_text_def)
  then have "time_scan (cookie_date sep weekday d mon y h m s) 0 ?f0 =
      fold (\<lambda>(ds, t). time_token t) ?ts (time_token weekday ?f0)"
    using time_scan_first [OF conjunct1 [OF w] sep] by simp
  also have "\<dots> = \<lparr>f_day = Some (int d), f_month = Some (int mon), f_time = Some (int h, int m, int s), f_year = Some (int y)\<rparr>"
    using w mo day assms time time_ok(2) len_y digits_colon [of "two d"] digits_colon [OF year_digits]
      digits_hd [of "two d"] digits_hd [OF year_digits print_nat_nonempty] colon
    by (simp add: time_token_def atoi_year atoi_def digits_take two_def [of d])
  finally have "cookie_time_fields (cookie_date sep weekday d mon y h m s) =
      Some \<lparr>year = int y, month = int mon, day_of_month = int d, hour = int h, minute = int m, second = int s\<rparr>"
    using assms by (simp add: cookie_time_fields_def full_year_def)
  then show ?thesis by (simp add: ParseCookieTime_def FromUTCExploded_def)
qed

theorem cookie_time_round_trip_witness:
  "cookie_time_fields ''Sat, 15 Apr 2017 21:01:22 GMT'' =
     Some \<lparr>year = 2017, month = 4, day_of_month = 15, hour = 21, minute = 1, second = 22\<rparr>"
proof -
  have "cookie_date CHR '' '' ''Sat'' 15 4 2017 21 1 22 = ''Sat, 15 Apr 2017 21:01:22 GMT''" by code_simp
  then show ?thesis
    using cookie_time_round_trip [of "CHR '' ''" "''Sat''" 15 4 2017 21 1 22] by (simp add: kWeekdays_def)
qed

end
