(* ===== verification/Gurl_Laws.thy ===== *)
theory Gurl_Laws
  imports Jar_Laws
begin

text \<open>
  The expiry of cookies with a \<open>Max-Age\<close> attribute, and \<open>DomainIs\<close> against a reference on
  hosts.
\<close>

section \<open>Expiry\<close>

lemma product_seconds:
  "FromSeconds n = (if n > 9223372036854 then INT64_MAX else if n < - 9223372036854 then INT64_MIN else n * 1000000)"
proof -
  have "INT64_MAX sdiv 1000000 = 9223372036854" "INT64_MIN sdiv 1000000 = - 9223372036854" by code_simp+
  then show ?thesis
    by (simp add: FromSeconds_def FromProduct_def kMicrosecondsPerSecond_def kMicrosecondsPerMillisecond_def
        kMillisecondsPerSecond_def)
qed

lemma scan_u64_range: "scan_u64 s = Some n \<Longrightarrow> 0 \<le> n \<and> n \<le> 18446744073709551615"
proof -
  have "0 \<le> atoi_digits ds" if "list_all is_digit ds" for ds
    using that
    by (induction ds rule: rev_induct) (simp_all add: atoi_digits_def is_digit_def)
  moreover have "list_all is_digit (takeWhile is_digit t)" for t
    by (simp add: list_all_iff) (blast dest: set_takeWhileD)
  ultimately have "0 \<le> atoi_digits (takeWhile is_digit t)" for t by blast
  then show "scan_u64 s = Some n \<Longrightarrow> ?thesis"
    by (auto simp: scan_u64_def Let_def split: if_splits)
qed

text \<open>
  C29. The expiry of a cookie with a numeric \<open>Max-Age\<close>: that many seconds after the current
  time, which is cut off at the largest time and never wraps; but numbers from \<open>2 ^ 63\<close> on,
  which are negative once they are signed, put it before the current time.
\<close>

theorem max_age_expiry:
  assumes "Has AMaxAge pc" "scan_u64 (Attr AMaxAge pc) = Some n" "0 \<le> current" "current \<le> INT64_MAX"
  shows "is_int64 (CanonExpiration pc current server) \<and>
    CanonExpiration pc current server =
      (if n \<le> INT64_MAX then min INT64_MAX (current + n * 1000000)
       else max (INT64_MIN + current) (current - (18446744073709551616 - n) * 1000000))"
  using assms scan_u64_range [OF assms(2)]
  by (auto simp: CanonExpiration_def time_plus_def SaturatedAdd_def product_seconds to_int64_def is_int64_def
      INT64_MAX_def INT64_MIN_def Let_def)

theorem max_age_expiry_witness:
  "is_int64 (CanonExpiration (ParseCookie ''a=1; max-age=60'') 5 0) \<and>
   CanonExpiration (ParseCookie ''a=1; max-age=60'') 5 0 = 60000005"
proof -
  have "Has AMaxAge (ParseCookie ''a=1; max-age=60'')" "scan_u64 (Attr AMaxAge (ParseCookie ''a=1; max-age=60'')) = Some 60"
    by code_simp+
  from max_age_expiry [OF this, of 5 0] show ?thesis by (simp add: INT64_MAX_def INT64_MIN_def is_int64_def)
qed

section \<open>Domains of URLs\<close>

text \<open>The host without the dot that it may end with while the domain does not.\<close>

definition plain_host :: "str \<Rightarrow> str \<Rightarrow> str" where
  "plain_host host domain = (if last host = CHR ''.'' \<and> last domain \<noteq> CHR ''.'' then butlast host else host)"

lemma host_domain_text:
  assumes s: "spec = pre @ h @ post" and h: "h \<noteq> []" and d: "d \<noteq> []"
  shows "host_domain_is spec (Component (len pre) (len h)) d \<longleftrightarrow>
    (\<exists>sub t. plain_host h d = sub @ t \<and> map ToLowerASCII t = d \<and> (sub = [] \<or> hd d = CHR ''.'' \<or> last sub = CHR ''.''))"
proof -
  let ?p = "plain_host h d"
  have "h = ?p @ drop (length ?p) h" using h by (auto simp: plain_host_def butlast_conv_take)
  then obtain q where q: "h = ?p @ q" by blast
  have last_h: "at spec (len pre + len h - 1) = last h"
  proof -
    obtain h' x where x: "h = h' @ [x]" using h by (cases h rule: rev_cases) auto
    then show ?thesis using s at_sep [of "pre @ h'" x post] by simp
  qed
  have n: "(if at spec (len pre + len h - 1) = CHR ''.'' \<and> last d \<noteq> CHR ''.'' then len h - 1 else len h) = len ?p"
    unfolding last_h plain_host_def using h by (cases h) auto
  have eq: "host_domain_is spec (Component (len pre) (len h)) d =
     (\<not> len ?p < len d \<and>
      map ToLowerASCII (seg spec (len pre + len ?p - len d) (len pre + len ?p - len d + len d)) = d \<and>
      \<not> (hd d \<noteq> CHR ''.'' \<and> len ?p > len d \<and> at spec (len pre + len ?p - len d - 1) \<noteq> CHR ''.''))"
    by (simp only: host_domain_is_def Let_def component_sel n LowerCaseEquals_map)
  show ?thesis
  proof (cases "length d \<le> length ?p")
    case False
    then show ?thesis
      unfolding eq by (auto dest!: arg_cong [of "map ToLowerASCII _" d length])
  next
    case True
    define sub t where "sub = take (length ?p - length d) ?p" and "t = drop (length ?p - length d) ?p"
    have p: "?p = sub @ t" "length t = length d" using True by (simp_all add: sub_def t_def)
    have h_at: "spec = (pre @ sub) @ t @ q @ post" using s q p(1) by (metis append.assoc)
    have first: "len pre + len ?p - len d = len (pre @ sub)" "len pre + len ?p = len (pre @ sub) + len t"
      using p by simp_all
    have "seg spec (len (pre @ sub)) (len (pre @ sub) + len t) = t" using h_at by (simp add: seg_def)
    then have "seg spec (len pre + len ?p - len d) (len pre + len ?p) = t" using first by metis
    moreover have "at spec (len pre + len ?p - len d - 1) = last sub" if sub_ne: "sub \<noteq> []"
    proof -
      obtain sub' x where x: "sub = sub' @ [x]" using sub_ne by (cases sub rule: rev_cases) auto
      then have "len (pre @ sub) - 1 = len (pre @ sub')" by simp
      then show ?thesis unfolding first(1) using x h_at at_sep [of "pre @ sub'" x "t @ q @ post"] by simp
    qed
    moreover have "len ?p > len d \<longleftrightarrow> sub \<noteq> []" using p by auto
    moreover have "\<not> len ?p < len d" using True by simp
    moreover have "len pre + len ?p - len d + len d = len pre + len ?p" by simp
    ultimately have "host_domain_is spec (Component (len pre) (len h)) d \<longleftrightarrow>
        map ToLowerASCII t = d \<and> \<not> (hd d \<noteq> CHR ''.'' \<and> sub \<noteq> [] \<and> last sub \<noteq> CHR ''.'')"
      unfolding eq by (cases "sub = []") simp_all
    moreover have "sub' = sub \<and> t' = t" if "?p = sub' @ t'" "map ToLowerASCII t' = d" for sub' t'
      using p that by (metis append_eq_append_conv length_map)
    ultimately show ?thesis using p(1) by blast
  qed
qed

text \<open>
  C30. \<open>DomainIs\<close> on a valid URL of another scheme than filesystem with a non-empty host inside
  its text: without the dot that the host may end with while the domain does not, the host in
  lower case is the domain, or ends with it behind a dot; a domain that starts with a dot only
  has to be the end of the host, so a.com is in .com.  No host is in the empty domain.
\<close>

theorem domain_is_reference:
  assumes "g_is_valid u" "\<not> SchemeIsFileSystem u" "is_nonempty (p_host (g_parsed u))"
    "0 \<le> c_begin (p_host (g_parsed u))" "c_end (p_host (g_parsed u)) \<le> len (g_spec u)"
  shows "DomainIs u domain \<longleftrightarrow> domain \<noteq> [] \<and>
    (\<exists>sub t. plain_host (GURL_host u) domain = sub @ t \<and> map ToLowerASCII t = domain \<and>
      (sub = [] \<or> hd domain = CHR ''.'' \<or> last sub = CHR ''.''))"
proof -
  obtain s v p inner where u: "u = GURL s v p inner" by (cases u)
  define b e where "b = c_begin (p_host p)" and "e = c_end (p_host p)"
  have be: "0 \<le> b" "b < e" "e \<le> len s"
    using assms(3-5) u by (simp_all add: b_def e_def c_end_def is_nonempty_def)
  have host: "p_host p = Component b (e - b)"
    by (simp add: b_def e_def c_end_def Component_def)
  define pre h post where "pre = seg s 0 b" and "h = seg s b e" and "post = seg s e (len s)"
  have split: "s = pre @ h @ post" and len_pre: "len pre = b" and len_h: "len h = e - b"
    using be seg_split [of 0 b "len s" s] seg_split [of b e "len s" s]
    by (simp_all add: pre_def h_def post_def length_seg)
  have h: "GURL_host u = h" "h \<noteq> []"
    using be u host len_h by (auto simp: h_def GURL_host_def GURL_ComponentString_def component_str_def)
  show ?thesis
  proof (cases "domain = []")
    case False
    have "DomainIs u domain = host_domain_is s (p_host p) domain"
      using assms u False by (auto simp: own_domain_is_def split: option.splits)
    then show ?thesis
      using host_domain_text [OF split h(2) False] h False by (simp add: host len_pre len_h)
  qed (use u in simp)
qed

theorem domain_is_reference_witness:
  "DomainIs sample_gurl ''a''"
proof -
  have "g_is_valid sample_gurl" "\<not> SchemeIsFileSystem sample_gurl" "is_nonempty (p_host (g_parsed sample_gurl))"
    "0 \<le> c_begin (p_host (g_parsed sample_gurl))" "c_end (p_host (g_parsed sample_gurl)) \<le> len (g_spec sample_gurl)"
    by code_simp+
  note reference = domain_is_reference [OF this]
  have "GURL_host sample_gurl = ''a''" "ToLowerASCII CHR ''a'' = CHR ''a''" by code_simp+
  then show ?thesis unfolding reference
    by (intro conjI exI [of _ "[]"] exI [of _ "''a''"]) (simp_all add: plain_host_def)
qed

end
