(* ===== verification/Origin.thy ===== *)
theory Origin
  imports Canonical_Cookie
begin

text \<open>
  \<open>url/scheme_host_port.cc\<close> and \<open>url/origin.cc\<close>: the origin of a URL.  \<open>base::UintToString\<close> is
  declared in the repository and written outside it, so it is an argument.
\<close>

section \<open>Scheme, host and port\<close>

definition IsCanonicalHost :: "str \<Rightarrow> bool" where
  "IsCanonicalHost host \<longleftrightarrow>
     (let (canon_host, host_info) = DoHost host (Component 0 (len host)) [] new_host_info
      in host = (if is_nonempty (out_host host_info) \<and> family host_info \<noteq> BROKEN then canon_host else []))"

definition IsValidInput :: "schemes \<Rightarrow> str \<Rightarrow> str \<Rightarrow> 16 word \<Rightarrow> bool" where
  "IsValidInput schemes scheme host port \<longleftrightarrow>
     (case DoIsStandard schemes scheme (Component 0 (len scheme)) of
        None \<Rightarrow> False
      | Some scheme_type \<Rightarrow>
          if scheme = ''filesystem'' \<or> scheme = ''blob'' then False
          else (case scheme_type of
              SCHEME_WITH_PORT \<Rightarrow> if host = [] \<or> port = 0 then False else IsCanonicalHost host
            | SCHEME_WITHOUT_PORT \<Rightarrow> if port \<noteq> 0 then False else IsCanonicalHost host
            | SCHEME_WITHOUT_AUTHORITY \<Rightarrow> False))"

record SchemeHostPort =
  shp_scheme :: str
  shp_host :: str
  shp_port :: "16 word"

definition invalid_tuple :: SchemeHostPort where
  "invalid_tuple = \<lparr>shp_scheme = [], shp_host = [], shp_port = 0\<rparr>"

definition NewSchemeHostPort :: "schemes \<Rightarrow> str \<Rightarrow> str \<Rightarrow> 16 word \<Rightarrow> SchemeHostPort" where
  "NewSchemeHostPort schemes scheme host port =
     (if \<not> IsValidInput schemes scheme host port then invalid_tuple
      else \<lparr>shp_scheme = scheme, shp_host = host, shp_port = port\<rparr>)"

text \<open>The constructor from a URL; its \<open>int\<close> port is passed and stored as a \<open>uint16_t\<close>.\<close>

definition SchemeHostPortOf :: "schemes \<Rightarrow> GURL \<Rightarrow> SchemeHostPort" where
  "SchemeHostPortOf schemes url =
     (if \<not> g_is_valid url then invalid_tuple
      else let scheme = GURL_scheme url;
               host = GURL_host url;
               port = GURL_EffectiveIntPort schemes url;
               port = (if port = PORT_UNSPECIFIED then 0 else port)
           in if \<not> IsValidInput schemes scheme host (word_of_int port) then invalid_tuple
              else \<lparr>shp_scheme = scheme, shp_host = host, shp_port = word_of_int port\<rparr>)"

definition IsInvalid :: "SchemeHostPort \<Rightarrow> bool" where
  "IsInvalid t \<longleftrightarrow> shp_scheme t = [] \<and> shp_host t = [] \<and> shp_port t = 0"

definition SerializeTuple :: "(nat \<Rightarrow> str) \<Rightarrow> SchemeHostPort \<Rightarrow> str" where
  "SerializeTuple UintToString t =
     (if IsInvalid t then []
      else let result = shp_scheme t @ ''://'' @ shp_host t
           in if shp_port t = 0 then result
              else let default_port = DefaultPortForScheme (shp_scheme t)
                   in if default_port = PORT_UNSPECIFIED then result
                      else if uint (shp_port t) \<noteq> default_port
                      then result @ '':'' @ UintToString (unat (shp_port t))
                      else result)"

definition EqualTuple :: "SchemeHostPort \<Rightarrow> SchemeHostPort \<Rightarrow> bool" where
  "EqualTuple t other \<longleftrightarrow>
     shp_port t = shp_port other \<and> shp_scheme t = shp_scheme other \<and> shp_host t = shp_host other"

text \<open>The order of \<open>std::tie\<close>, of which each comparison of strings is that of their bytes.\<close>

definition LessTuple :: "SchemeHostPort \<Rightarrow> SchemeHostPort \<Rightarrow> bool" where
  "LessTuple t other =
     (if shp_port t < shp_port other then True
      else if shp_port other < shp_port t then False
      else if str_compare (shp_scheme t) (shp_scheme other) < 0 then True
      else if str_compare (shp_scheme other) (shp_scheme t) < 0 then False
      else str_compare (shp_host t) (shp_host other) < 0)"

section \<open>Origins\<close>

record Origin =
  o_tuple :: SchemeHostPort
  o_unique :: bool

definition UniqueOrigin :: Origin where
  "UniqueOrigin = \<lparr>o_tuple = invalid_tuple, o_unique = True\<rparr>"

text \<open>\<open>inner_url()\<close> is dereferenced without a test; a valid filesystem URL has one.\<close>

definition OriginOf :: "schemes \<Rightarrow> GURL \<Rightarrow> Origin" where
  "OriginOf schemes url =
     (if \<not> g_is_valid url \<or> (\<not> IsStandard schemes url \<and> \<not> SchemeIsBlob url) then UniqueOrigin
      else let tuple =
                 (if SchemeIsFileSystem url
                  then (case g_inner_url url of
                          Some inner \<Rightarrow> SchemeHostPortOf schemes inner | None \<Rightarrow> invalid_tuple)
                  else if SchemeIsBlob url
                  then SchemeHostPortOf schemes (MakeGURL schemes (GURL_GetContent url))
                  else SchemeHostPortOf schemes url)
           in \<lparr>o_tuple = tuple, o_unique = IsInvalid tuple\<rparr>)"

definition UnsafelyCreateOriginWithoutNormalization ::
    "schemes \<Rightarrow> str \<Rightarrow> str \<Rightarrow> 16 word \<Rightarrow> Origin" where
  "UnsafelyCreateOriginWithoutNormalization schemes scheme host port =
     (let tuple = NewSchemeHostPort schemes scheme host port
      in \<lparr>o_tuple = tuple, o_unique = IsInvalid tuple\<rparr>)"

definition SerializeOrigin :: "(nat \<Rightarrow> str) \<Rightarrow> Origin \<Rightarrow> str" where
  "SerializeOrigin UintToString orig =
     (if o_unique orig then ''null''
      else if shp_scheme (o_tuple orig) = ''file'' then ''file://''
      else SerializeTuple UintToString (o_tuple orig))"

definition IsSameOriginWith :: "Origin \<Rightarrow> Origin \<Rightarrow> bool" where
  "IsSameOriginWith orig other =
     (if o_unique orig \<or> o_unique other then False else EqualTuple (o_tuple orig) (o_tuple other))"

definition LessOrigin :: "Origin \<Rightarrow> Origin \<Rightarrow> bool" where
  "LessOrigin orig other \<longleftrightarrow> LessTuple (o_tuple orig) (o_tuple other)"

end
