(* ===== verification/Origin_Laws.thy ===== *)
theory Origin_Laws
  imports Origin Cookie_Order_Laws Url_Canon_Laws Url_Ip_Laws
begin

text \<open>
  What the serialization of an origin tells, and the order of origins.
\<close>

section \<open>Tuples\<close>

definition port_schemes :: "str list" where
  "port_schemes = [''http'', ''https'', ''ftp'', ''gopher'', ''ws'', ''wss'']"

lemma canonical_host_text:
  assumes "IsCanonicalHost host" "host \<noteq> []"
  shows "host_text host"
proof -
  obtain o2 i where d: "DoHost host (Component 0 (len host)) [] new_host_info = (o2, i)"
    by (cases "DoHost host (Component 0 (len host)) [] new_host_info")
  then have h: "family i \<noteq> BROKEN" "host = o2" "CanonicalizeHost host (Component 0 (len host)) [] = (True, out_host i, o2)"
    using assms by (auto simp: IsCanonicalHost_def CanonicalizeHost_def split: if_splits)
  have "within 0 (len host) (Component 0 (len host))" "is_nonempty (Component 0 (len host))"
    using assms(2) by (simp_all add: within_def is_nonempty_def c_end_def)
  from host_writes [OF h(3) this] show ?thesis using h(2) by auto
qed

lemma standard_types:
  "find (\<lambda>(s, ty). scheme = s) kStandardURLSchemes = Some (s', ty) \<Longrightarrow>
    (ty = SCHEME_WITH_PORT \<longrightarrow> scheme \<in> set port_schemes) \<and> (ty = SCHEME_WITHOUT_PORT \<longrightarrow> scheme = ''file'')"
  by (auto simp: kStandardURLSchemes_def port_schemes_def split: if_splits)

lemma tuple_valid:
  assumes "IsValidInput kStandardURLSchemes scheme host port" "map ToLowerASCII scheme = scheme" "scheme \<noteq> ''file''"
  shows "scheme \<in> set port_schemes \<and> host_text host \<and> port \<noteq> 0"
proof -
  obtain s' ty where ty: "find (\<lambda>(s, ty). scheme = s) kStandardURLSchemes = Some (s', ty)"
      "DoIsStandard kStandardURLSchemes scheme (Component 0 (len scheme)) = Some ty"
    using assms(1,2) by (auto simp: IsValidInput_def DoIsStandard_def component_str_def c_end_def lower_case_iff
        split: option.splits if_splits)
  show ?thesis using assms(1,3) ty(2) standard_types [OF ty(1)] canonical_host_text
    by (cases ty) (auto simp: IsValidInput_def split: if_splits)
qed

text \<open>What a constructor leaves in an origin.\<close>

inductive origin_made :: "schemes \<Rightarrow> Origin \<Rightarrow> bool" for schemes where
  made_unique: "origin_made schemes UniqueOrigin"
| made_from_url: "origin_made schemes (OriginOf schemes url)"
| made_from_parts: "origin_made schemes (UnsafelyCreateOriginWithoutNormalization schemes scheme host port)"

definition tuple_made :: "schemes \<Rightarrow> SchemeHostPort \<Rightarrow> bool" where
  "tuple_made schemes t \<longleftrightarrow> t = invalid_tuple \<or> IsValidInput schemes (shp_scheme t) (shp_host t) (shp_port t)"

lemma tuple_made_constructors:
  "tuple_made schemes invalid_tuple" "tuple_made schemes (SchemeHostPortOf schemes url)"
  "tuple_made schemes (NewSchemeHostPort schemes scheme host port)"
  by (simp_all add: tuple_made_def SchemeHostPortOf_def NewSchemeHostPort_def Let_def)

lemma valid_not_invalid: "IsValidInput schemes (shp_scheme t) (shp_host t) (shp_port t) \<Longrightarrow> \<not> IsInvalid t"
  by (auto simp: IsValidInput_def IsInvalid_def DoIsStandard_def is_nonempty_def)

lemma origin_invariant:
  "origin_made schemes orig \<Longrightarrow>
    tuple_made schemes (o_tuple orig) \<and> o_unique orig = IsInvalid (o_tuple orig)"
  by (induction rule: origin_made.induct)
    (auto simp: UniqueOrigin_def OriginOf_def UnsafelyCreateOriginWithoutNormalization_def IsInvalid_def
      invalid_tuple_def [symmetric] tuple_made_constructors Let_def split: option.splits, simp_all add: invalid_tuple_def)

section \<open>Serialization\<close>

lemma cut_at: "c \<notin> set a \<Longrightarrow> c \<notin> set b \<Longrightarrow> a @ c # x = b @ c # y \<longleftrightarrow> a = b \<and> x = y"
  by (auto simp: append_eq_append_conv2 append_eq_Cons_conv Cons_eq_append_conv)

definition port_text :: "str \<Rightarrow> bool" where
  "port_text q \<longleftrightarrow> q = [] \<or> hd q = CHR '':''"

lemma port_cut:
  assumes "CHR '':'' \<notin> set a" "CHR '':'' \<notin> set b" "port_text q" "port_text r" "a @ q = b @ r"
  shows "a = b \<and> q = r"
proof -
  have t: "takeWhile (\<lambda>c. c \<noteq> CHR '':'') (x @ z) = x" if "CHR '':'' \<notin> set x" "port_text z" for x z
    using that by (cases z) (auto simp: port_text_def takeWhile_tail takeWhile_eq_all_conv)
  show ?thesis using t [OF assms(1,3)] t [OF assms(2,4)] assms(5) by simp
qed

lemma host_cut:
  assumes "host_text a" "host_text b" "port_text q" "port_text r" "a @ q = b @ r"
  shows "a = b \<and> q = r"
proof -
  have bracket: "\<exists>m. x = CHR ''['' # m @ '']'' \<and> CHR '']'' \<notin> set m" if "host_text x" "hd x = CHR ''[''" for x
    using that hd_in_set [of x] by (auto simp: host_text_def)
  have plain: "CHR '':'' \<notin> set x" if "host_text x" "hd x \<noteq> CHR ''[''" for x
    using that by (auto simp: host_text_def)
  have hd: "hd a = hd b" using assms by (cases a; cases b) (auto simp: host_text_def)
  show ?thesis
  proof (cases "hd a = CHR ''[''")
    case True
    obtain m n where mn: "a = CHR ''['' # m @ '']''" "b = CHR ''['' # n @ '']''" "CHR '']'' \<notin> set m" "CHR '']'' \<notin> set n"
      using bracket [OF assms(1)] bracket [OF assms(2)] True hd by metis
    then show ?thesis using assms(5) cut_at [OF mn(3,4), of q r] by auto
  next
    case False
    then show ?thesis using port_cut [OF plain [OF assms(1)] plain [OF assms(2)] assms(3,4,5)] hd by simp
  qed
qed

lemma scheme_no_colon: "s \<in> set port_schemes \<Longrightarrow> CHR '':'' \<notin> set s \<and> s \<noteq> ''null'' \<and> DefaultPortForScheme s \<noteq> PORT_UNSPECIFIED"
  by (auto simp: port_schemes_def DefaultPortForScheme_def PORT_UNSPECIFIED_def)

definition shown_port :: "SchemeHostPort \<Rightarrow> str" where
  "shown_port t =
     (if uint (shp_port t) \<noteq> DefaultPortForScheme (shp_scheme t) then '':'' @ print_nat 10 (unat (shp_port t)) else [])"

lemma serialize_valid:
  assumes "shp_scheme t \<in> set port_schemes" "shp_port t \<noteq> 0" "\<forall>n. UintToString n = print_nat 10 n"
  shows "SerializeTuple UintToString t = shp_scheme t @ CHR '':'' # ''//'' @ shp_host t @ shown_port t"
  using assms(2,3) scheme_no_colon [OF assms(1)] by (auto simp: SerializeTuple_def IsInvalid_def shown_port_def Let_def)


lemma print_nat_10_inj: "print_nat 10 m = print_nat 10 n \<Longrightarrow> m = n"
proof -
  assume "print_nat 10 m = print_nat 10 n"
  moreover have "digits_value 10 (print_nat 10 k) = k" for k by (rule digits_value_print) simp_all
  ultimately show ?thesis by metis
qed

lemma shown_port_inj:
  assumes "shown_port t = shown_port u" "shp_scheme t = shp_scheme u"
  shows "shp_port t = shp_port u"
proof (cases "uint (shp_port t) = DefaultPortForScheme (shp_scheme t) \<and> uint (shp_port u) = DefaultPortForScheme (shp_scheme t)")
  case True
  then show ?thesis by (simp only: word_uint_eq_iff)
next
  case False
  then have "print_nat 10 (unat (shp_port t)) = print_nat 10 (unat (shp_port u))"
    using assms by (auto simp only: shown_port_def split: if_splits)
  from print_nat_10_inj [OF this] show ?thesis by (simp only: word_unat_eq_iff)
qed

text \<open>
  C12. Origins that come from any constructor, with the standard schemes: for schemes in lower
  case other than file, two origins are the same origin exactly if they serialize to the same
  text and are not unique.  (All file origins serialize to \<open>file://\<close>.)
\<close>

theorem origin_serialization:
  assumes "origin_made kStandardURLSchemes a" "origin_made kStandardURLSchemes b"
    and "\<forall>n. UintToString n = print_nat 10 n"
    and "map ToLowerASCII (shp_scheme (o_tuple a)) = shp_scheme (o_tuple a)" "shp_scheme (o_tuple a) \<noteq> ''file''"
    and "map ToLowerASCII (shp_scheme (o_tuple b)) = shp_scheme (o_tuple b)" "shp_scheme (o_tuple b) \<noteq> ''file''"
  shows "IsSameOriginWith a b \<longleftrightarrow> \<not> o_unique a \<and> SerializeOrigin UintToString a = SerializeOrigin UintToString b"
proof -
  let ?t = "o_tuple a" and ?u = "o_tuple b"
  have valid: "shp_scheme (o_tuple x) \<in> set port_schemes \<and> host_text (shp_host (o_tuple x)) \<and> shp_port (o_tuple x) \<noteq> 0"
    if "origin_made kStandardURLSchemes x" "\<not> o_unique x" "shp_scheme (o_tuple x) \<noteq> ''file''"
      "map ToLowerASCII (shp_scheme (o_tuple x)) = shp_scheme (o_tuple x)" for x
    using origin_invariant [OF that(1)] that(2-) tuple_valid [of "shp_scheme (o_tuple x)"]
    by (auto simp: tuple_made_def IsInvalid_def invalid_tuple_def)
  have null: "s @ CHR '':'' # z \<noteq> ''null''" for s z
    by (cases s) (auto simp: append_eq_Cons_conv)
  show ?thesis
  proof (cases "o_unique a \<or> o_unique b")
    case True
    then show ?thesis
      using valid [OF assms(1) _ assms(5,4)] serialize_valid [OF _ _ assms(3), of ?t] null assms(5)
      by (auto simp: IsSameOriginWith_def SerializeOrigin_def)
  next
    case False
    note va = valid [OF assms(1) _ assms(5,4)] and vb = valid [OF assms(2) _ assms(7,6)]
    have eq: "SerializeOrigin UintToString a = SerializeOrigin UintToString b \<longleftrightarrow>
        shp_scheme ?t = shp_scheme ?u \<and> shp_host ?t @ shown_port ?t = shp_host ?u @ shown_port ?u"
      using False va vb assms(5,7) serialize_valid [OF _ _ assms(3), of ?t] serialize_valid [OF _ _ assms(3), of ?u]
        cut_at [of "CHR '':''" "shp_scheme ?t" "shp_scheme ?u"] scheme_no_colon
      by (simp add: SerializeOrigin_def)
    have "port_text (shown_port x)" for x by (simp add: port_text_def shown_port_def)
    then have "shp_host ?t @ shown_port ?t = shp_host ?u @ shown_port ?u \<longleftrightarrow>
        shp_host ?t = shp_host ?u \<and> shown_port ?t = shown_port ?u"
      using host_cut [of "shp_host ?t" "shp_host ?u" "shown_port ?t" "shown_port ?u"] False va vb by auto
    moreover have "shown_port ?t = shown_port ?u \<longleftrightarrow> shp_port ?t = shp_port ?u" if "shp_scheme ?t = shp_scheme ?u"
      using that shown_port_inj [of ?t ?u] by (auto simp only: shown_port_def)
    ultimately show ?thesis using eq False by (auto simp only: IsSameOriginWith_def EqualTuple_def if_False)
  qed
qed

lemma sample_origin_tuples:
  "UnsafelyCreateOriginWithoutNormalization kStandardURLSchemes ''http'' ''a.com'' 8080 =
    \<lparr>o_tuple = \<lparr>shp_scheme = ''http'', shp_host = ''a.com'', shp_port = 8080\<rparr>, o_unique = False\<rparr>"
  "UnsafelyCreateOriginWithoutNormalization kStandardURLSchemes ''http'' ''a.com'' 80 =
    \<lparr>o_tuple = \<lparr>shp_scheme = ''http'', shp_host = ''a.com'', shp_port = 80\<rparr>, o_unique = False\<rparr>"
  by code_simp+

theorem origin_serialization_witness:
  "\<not> IsSameOriginWith (UnsafelyCreateOriginWithoutNormalization kStandardURLSchemes ''http'' ''a.com'' 8080)
       (UnsafelyCreateOriginWithoutNormalization kStandardURLSchemes ''http'' ''a.com'' 80) \<and>
    SerializeOrigin (print_nat 10) (UnsafelyCreateOriginWithoutNormalization kStandardURLSchemes ''http'' ''a.com'' 8080) =
      ''http://a.com:8080'' \<and>
    SerializeOrigin (print_nat 10) (UnsafelyCreateOriginWithoutNormalization kStandardURLSchemes ''http'' ''a.com'' 80) =
      ''http://a.com''"
proof -
  let ?a = "UnsafelyCreateOriginWithoutNormalization kStandardURLSchemes ''http'' ''a.com'' 8080"
  let ?b = "UnsafelyCreateOriginWithoutNormalization kStandardURLSchemes ''http'' ''a.com'' 80"
  have s: "SerializeOrigin (print_nat 10) ?a = ''http://a.com:8080''" "SerializeOrigin (print_nat 10) ?b = ''http://a.com''"
    unfolding sample_origin_tuples by code_simp+
  have l: "map ToLowerASCII ''http'' = ''http''" by code_simp
  have "IsSameOriginWith ?a ?b \<longleftrightarrow> \<not> o_unique ?a \<and> SerializeOrigin (print_nat 10) ?a = SerializeOrigin (print_nat 10) ?b"
    by (rule origin_serialization [OF made_from_parts made_from_parts]) (simp_all add: sample_origin_tuples l del: list.map)
  then show ?thesis using s by simp
qed

text \<open>A registered scheme without a known default port loses its port.\<close>

lemma custom_scheme_port_lost:
  "SerializeOrigin (print_nat 10) (UnsafelyCreateOriginWithoutNormalization [(''app'', SCHEME_WITH_PORT)] ''app'' ''a'' 81) = ''app://a''"
  "SerializeOrigin (print_nat 10) (UnsafelyCreateOriginWithoutNormalization [(''app'', SCHEME_WITH_PORT)] ''app'' ''a'' 82) = ''app://a''"
  "\<not> IsSameOriginWith (UnsafelyCreateOriginWithoutNormalization [(''app'', SCHEME_WITH_PORT)] ''app'' ''a'' 81)
       (UnsafelyCreateOriginWithoutNormalization [(''app'', SCHEME_WITH_PORT)] ''app'' ''a'' 82)"
  by code_simp+

text \<open>The order of origins is the one of their ports, schemes and hosts.\<close>

lemma LessTuple_order:
  "LessTuple t u \<longleftrightarrow> (shp_port t, shp_scheme t, shp_host t) < (shp_port u, shp_scheme u, shp_host u)"
  by (auto simp: LessTuple_def str_compare_order less_prod_def)

end
