(* ===== verification/Url_Relative_Laws.thy ===== *)
theory Url_Relative_Laws
  imports Url_Util Url_Path_Laws Url_Parse_Laws
begin

text \<open>
  Relative paths: resolving against a base is the merge of RFC 3986.
\<close>

section \<open>Merging paths\<close>



















end
