(* ===== verification/Url_Shift_Laws.thy ===== *)
theory Url_Shift_Laws
  imports Url_Host_Laws
begin

text \<open>
  The readers of IP addresses look at the text of the host only, wherever it stands, and so
  an accepted host is written the same after any output.
\<close>

section \<open>Positions\<close>

definition shifted :: "int \<Rightarrow> component \<Rightarrow> component" where
  "shifted k c = Component (k + c_begin c) (c_len c)"

lemma shifted_simps [simp]:
  "c_begin (shifted k c) = k + c_begin c" "c_len (shifted k c) = c_len c" "c_end (shifted k c) = k + c_end c"
  "is_nonempty (shifted k c) = is_nonempty c" "is_valid (shifted k c) = is_valid c"
  by (simp_all add: shifted_def c_end_def is_nonempty_def is_valid_def)

lemma shifted_Component: "shifted k (Component b l) = Component (k + b) l"
  by (simp add: shifted_def)

lemma at_shift [simp]: "0 \<le> i \<Longrightarrow> at (pre @ s) (len pre + i) = at s i"
  by (simp add: at_append_right)

lemma at_shift_next [simp]: "0 \<le> i \<Longrightarrow> at (pre @ s) (len pre + i + 1) = at s (i + 1)"
  using at_shift [of "i + 1" pre s] by (simp add: add.assoc)

lemma seg_shift [simp]: "0 \<le> b \<Longrightarrow> seg (pre @ s) (len pre + b) (len pre + e) = seg s b e"
  by (simp add: seg_append_right)

lemma component_shift: "0 \<le> c_begin c \<Longrightarrow> component_str (pre @ s) (shifted (len pre) c) = component_str s c"
  by (simp add: component_str_def)

lemma scan_fwd_shift:
  "0 \<le> i \<Longrightarrow> scan_fwd P (pre @ s) (len pre + i) (len pre + e) = len pre + scan_fwd P s i e"
proof (induction P s i e rule: scan_fwd.induct)
  case (1 P s i e)
  then show ?case
    unfolding scan_fwd.simps [of P "pre @ s" "len pre + i" "len pre + e"] scan_fwd.simps [of P s i e]
    by (simp add: add.assoc)
qed

section \<open>IPv4\<close>

lemma ipv4_scan_shift:
  "0 \<le> i \<Longrightarrow> ipv4_scan (pre @ s) (len pre + e) (len pre + i) (len pre + b) (map (shifted (len pre)) cs) =
    map_option (map (shifted (len pre))) (ipv4_scan s e i b cs)"
proof (induction s e i b cs rule: ipv4_scan.induct)
  case (1 s e i b cs)
  have n: "len pre + i + 1 = len pre + (i + 1)" by simp
  show ?case
    using 1 unfolding ipv4_scan.simps [of "pre @ s" "len pre + e" "len pre + i" "len pre + b" "map (shifted (len pre)) cs"]
      ipv4_scan.simps [of s e i b cs]
    by (cases "i \<ge> e"; cases "at s i = CHR ''.''"; cases "i = b"; cases "i + 1 = e")
      (simp_all add: Let_def shifted_Component n add.assoc)
qed

lemma ipv4_scan_begins:
  "ipv4_scan s e i b cs = Some cs' \<Longrightarrow> 0 \<le> b \<Longrightarrow> 0 \<le> i \<Longrightarrow> \<forall>c\<in>set cs. 0 \<le> c_begin c \<Longrightarrow> \<forall>c\<in>set cs'. 0 \<le> c_begin c"
proof (induction s e i b cs rule: ipv4_scan.induct)
  case (1 s e i b cs)
  then show ?case unfolding ipv4_scan.simps [of s e i b cs] by (auto simp: Let_def split: if_splits)
qed

lemma component_number_shift:
  assumes "0 \<le> c_begin c"
  shows "IPv4ComponentToNumber (pre @ s) (shifted (len pre) c) = IPv4ComponentToNumber s c"
proof -
  have base: "ipv4_base (pre @ s) (shifted (len pre) c) = ipv4_base s c"
    using assms by (simp add: ipv4_base_def)
  obtain ty n where n: "ipv4_base s c = (ty, n)" by (cases "ipv4_base s c")
  then have "0 \<le> n" by (auto simp: ipv4_base_def split: if_splits)
  then have "0 \<le> c_begin c + n" using assms by simp
  then show ?thesis
    using scan_fwd_shift [of "c_begin c + n" "\<lambda>c. c = CHR ''0''" pre s "c_end c"]
      scan_fwd_ge [of "c_begin c + n" "\<lambda>c. c = CHR ''0''" s "c_end c"]
    by (simp add: IPv4ComponentToNumber_def base n Let_def add.assoc)
qed

lemma ipv4_values_shift:
  "\<forall>c\<in>set cs. 0 \<le> c_begin c \<Longrightarrow>
    ipv4_values (pre @ s) (map (shifted (len pre)) cs @ replicate n no_component) broken vals =
    ipv4_values s (cs @ replicate n no_component) broken vals"
proof (induction cs arbitrary: broken vals)
  case Nil
  have "ipv4_values t (replicate n no_component) br vs = Inr (br, vs)" for t br vs
    by (induction n) simp_all
  then show ?case by simp
next
  case (Cons c cs)
  then show ?case by (simp add: component_number_shift split: sum.splits)
qed

lemma ipv4_number_shift:
  assumes "0 \<le> c_begin c"
  shows "IPv4AddressToNumber (pre @ s) (shifted (len pre) c) = IPv4AddressToNumber s c"
proof (cases "is_nonempty c")
  case True
  have scan: "ipv4_scan (pre @ s) (len pre + c_end c) (len pre + c_begin c) (len pre + c_begin c) [] =
      map_option (map (shifted (len pre))) (ipv4_scan s (c_end c) (c_begin c) (c_begin c) [])"
    using ipv4_scan_shift [OF assms, of pre s "c_end c" "c_begin c" "[]"] by simp
  show ?thesis
  proof (cases "ipv4_scan s (c_end c) (c_begin c) (c_begin c) []")
    case None
    then show ?thesis using True scan by (simp add: IPv4AddressToNumber_def FindIPv4Components_def)
  next
    case (Some cs)
    then have "\<forall>c\<in>set cs. 0 \<le> c_begin c" using ipv4_scan_begins [OF Some] assms by simp
    then show ?thesis using True scan Some ipv4_values_shift [of cs]
      by (simp add: IPv4AddressToNumber_def FindIPv4Components_def)
  qed
qed (simp add: IPv4AddressToNumber_def FindIPv4Components_def)

section \<open>IPv6\<close>

definition shifted_parsed :: "int \<Rightarrow> IPv6Parsed \<Rightarrow> IPv6Parsed" where
  "shifted_parsed k p = p\<lparr>hex_components := map (shifted k) (hex_components p),
     ipv4_component := (if is_valid (ipv4_component p) then shifted k (ipv4_component p) else ipv4_component p)\<rparr>"

lemma shifted_parsed_simps [simp]:
  "hex_components (shifted_parsed k p) = map (shifted k) (hex_components p)"
  "index_of_contraction (shifted_parsed k p) = index_of_contraction p"
  "is_valid (ipv4_component (shifted_parsed k p)) = is_valid (ipv4_component p)"
  by (simp_all add: shifted_parsed_def)

lemma end_component_shift:
  "end_component (k + b) (k + e) (k + i) con (k + c) (shifted_parsed k p) =
    map_option (shifted_parsed k) (end_component b e i con c p)"
proof -
  have "k + i - (k + c) = i - c" by simp
  then show ?thesis
    by (simp add: end_component_def shifted_Component Let_def del: de_Morgan_conj) (simp add: shifted_parsed_def shifted_Component)
qed

lemma end_component_valid: "end_component b e i con c p = Some p' \<Longrightarrow> ipv4_component p' = ipv4_component p"
  by (auto simp: end_component_def Let_def split: if_splits)

lemma ipv6_scan_shift:
  assumes "0 \<le> i" "c \<le> i"
  shows "ipv6_scan (pre @ s) (len pre + b) (len pre + e) (len pre + i) (len pre + c) (shifted_parsed (len pre) p) =
    map_option (shifted_parsed (len pre)) (ipv6_scan s b e i c p)"
  using assms
proof (induction "nat (e + 1 - i)" arbitrary: i c p rule: less_induct)
  case less
  let ?sh = "shifted_parsed (len pre)" and ?con = "at s i = CHR '':'' \<and> i < e - 1 \<and> at s (i + 1) = CHR '':''"
  let ?q = "if at s i = CHR '':'' \<or> i = e then end_component b e i ?con c p else Some p"
  have IH: "ipv6_scan (pre @ s) (len pre + b) (len pre + e) (len pre + j) (len pre + c') (?sh p') =
      map_option ?sh (ipv6_scan s b e j c' p')" if "i < j" "c' \<le> j" "\<not> i > e" for j c' p'
    using less.hyps [of j c' p'] that less.prems by auto
  have n: "len pre + i + 1 = len pre + (i + 1)" "len pre + i + 2 = len pre + (i + 2)"
    "len pre + i < len pre + e - 1 \<longleftrightarrow> i < e - 1" "len pre + e - (len pre + c) = e - c" by auto
  have q: "(if at s i = CHR '':'' \<or> i = e
       then end_component (len pre + b) (len pre + e) (len pre + i) ?con (len pre + c) (?sh p)
       else Some (?sh p)) = map_option ?sh ?q"
    by (simp add: end_component_shift)
  have a: "at (pre @ s) (len pre + i) = at s i" "at (pre @ s) (len pre + (i + 1)) = at s (i + 1)" using less.prems by simp_all
  have idx: "?sh r\<lparr>index_of_contraction := m\<rparr> = ?sh (r\<lparr>index_of_contraction := m\<rparr>)" for m r
    by (simp add: shifted_parsed_def)
  have step: "ipv6_scan (pre @ s) (len pre + b) (len pre + e) (len pre + i) (len pre + c) (?sh p) =
     (if i > e then None
      else case map_option ?sh ?q of None \<Rightarrow> None
         | Some p \<Rightarrow>
             if i = e then Some p
             else if ?con then
               (if index_of_contraction p \<noteq> -1 then None
                else ipv6_scan (pre @ s) (len pre + b) (len pre + e) (len pre + (i + 2)) (len pre + (i + 2))
                       (p\<lparr>index_of_contraction := num_hex_components p\<rparr>))
             else if at s i = CHR '':'' then ipv6_scan (pre @ s) (len pre + b) (len pre + e) (len pre + (i + 1)) (len pre + (i + 1)) p
             else if byte (at s i) \<ge> 0x80 then None
             else if \<not> IsHexChar (byte (at s i)) then
               (if IsIPv4Char (byte (at s i))
                then Some (p\<lparr>ipv4_component := Component (len pre + c) (e - c)\<rparr>)
                else None)
             else ipv6_scan (pre @ s) (len pre + b) (len pre + e) (len pre + (i + 1)) (len pre + c) p)"
    unfolding ipv6_scan.simps [of "pre @ s" "len pre + b" "len pre + e" "len pre + i" "len pre + c" "?sh p"] Let_def n a
    by (simp only: add_less_cancel_left add_left_cancel q)
  show ?case
  proof (cases "i > e")
    case True
    then show ?thesis unfolding step by (simp add: ipv6_scan.simps [of s b e i c p])
  next
    case le: False
    show ?thesis
    proof (cases ?q)
      case None
      then show ?thesis unfolding step ipv6_scan.simps [of s b e i c p] Let_def by (simp only: option.map option.case le if_False)
    next
      case (Some r)
      have ipv4: "?sh r\<lparr>ipv4_component := Component (len pre + c) (e - c)\<rparr> = ?sh (r\<lparr>ipv4_component := Component c (e - c)\<rparr>)"
        using le less.prems(2) by (simp add: shifted_parsed_def shifted_Component is_valid_def)
      have sz: "num_hex_components (?sh r) = num_hex_components r" by simp
      show ?thesis
        unfolding step ipv6_scan.simps [of s b e i c p] Let_def Some option.map option.case sz idx ipv4
        using le less.prems by (simp add: IH idx)
    qed
  qed
qed

lemma parse_ipv6_shift:
  assumes "0 \<le> c_begin c"
  shows "DoParseIPv6 (pre @ s) (shifted (len pre) c) = map_option (shifted_parsed (len pre)) (DoParseIPv6 s c)"
proof -
  have r: "shifted_parsed (len pre) reset_IPv6Parsed = reset_IPv6Parsed"
    by (simp add: shifted_parsed_def reset_IPv6Parsed_def)
  show ?thesis
    using ipv6_scan_shift [OF assms order.refl, of pre s "c_begin c" "c_end c" reset_IPv6Parsed]
    by (simp add: DoParseIPv6_def r)
qed

definition begins_ok :: "IPv6Parsed \<Rightarrow> bool" where
  "begins_ok p \<longleftrightarrow> (\<forall>c\<in>set (hex_components p). 0 \<le> c_begin c) \<and> 0 \<le> c_begin (ipv4_component p)"

lemma ipv6_scan_begins:
  "ipv6_scan s b e i c p = Some p' \<Longrightarrow> 0 \<le> i \<Longrightarrow> 0 \<le> c \<Longrightarrow> begins_ok p \<Longrightarrow> begins_ok p'"
proof (induction "nat (e + 1 - i)" arbitrary: i c p rule: less_induct)
  case less
  have ec: "begins_ok q" if "end_component b e i con c p = Some q" for con q
    using that less.prems(3,4) by (auto simp: end_component_def begins_ok_def Let_def split: if_splits)
  have next_ok: "begins_ok p'" if "ipv6_scan s b e j c' q = Some p'" "i < j" "\<not> i > e" "0 \<le> c'" "begins_ok q" for j c' q
    using less.hyps [of j c' q] that less.prems(2) by simp
  have upd: "begins_ok (q\<lparr>index_of_contraction := m\<rparr>) = begins_ok q"
    "begins_ok q \<Longrightarrow> begins_ok (q\<lparr>ipv4_component := Component c l\<rparr>)" for q m l
    using less.prems(3) by (simp_all add: begins_ok_def)
  let ?con = "at s i = CHR '':'' \<and> i < e - 1 \<and> at s (i + 1) = CHR '':''"
  let ?q = "if at s i = CHR '':'' \<or> i = e then end_component b e i ?con c p else Some p"
  have le: "\<not> i > e" using less.prems(1) by (auto simp: ipv6_scan.simps [of s b e i c p])
  have u: "(case ?q of None \<Rightarrow> None | Some q \<Rightarrow> if i = e then Some q
             else if ?con then
               (if index_of_contraction q \<noteq> -1 then None
                else ipv6_scan s b e (i + 2) (i + 2) (q\<lparr>index_of_contraction := num_hex_components q\<rparr>))
             else if at s i = CHR '':'' then ipv6_scan s b e (i + 1) (i + 1) q
             else if byte (at s i) \<ge> 0x80 then None
             else if \<not> IsHexChar (byte (at s i)) then
               (if IsIPv4Char (byte (at s i))
                then Some (q\<lparr>ipv4_component := Component c (e - c)\<rparr>)
                else None)
             else ipv6_scan s b e (i + 1) c q) = Some p'"
    using less.prems(1) unfolding ipv6_scan.simps [of s b e i c p] Let_def by (simp only: le if_False)
  then obtain q where some: "?q = Some q" by (cases ?q) simp_all
  have q: "begins_ok q" using some ec less.prems(4) by (auto split: if_split_asm)
  note run = u [unfolded some option.case]
  show ?case
    using run q le less.prems(2,3) next_ok [of "i + 1" c q] next_ok [of "i + 1" "i + 1" q]
      next_ok [of "i + 2" "i + 2" "q\<lparr>index_of_contraction := num_hex_components q\<rparr>"] upd
    by (auto split: if_split_asm)
qed

lemma ipv6_bytes_shift:
  "\<forall>c\<in>set cs. 0 \<le> c_begin c \<Longrightarrow> index_of_contraction p' = index_of_contraction p \<Longrightarrow>
    ipv6_bytes (pre @ s) p' n i (map (shifted (len pre)) cs) addr = ipv6_bytes s p n i cs addr"
proof (induction cs arbitrary: i addr)
  case Nil
  then show ?case by (subst (1 2) ipv6_bytes.simps) simp
next
  case (Cons c cs)
  have "IPv6HexComponentToNumber (pre @ s) (shifted (len pre) c) = IPv6HexComponentToNumber s c"
    using Cons.prems component_shift [of c pre s] by (simp add: IPv6HexComponentToNumber_def)
  then show ?case using Cons by (subst (1 2) ipv6_bytes.simps) (simp add: Let_def)
qed

lemma ipv6_number_shift:
  assumes "0 \<le> c_begin c"
  shows "IPv6AddressToNumber (pre @ s) (shifted (len pre) c) = IPv6AddressToNumber s c"
proof (cases "is_nonempty c")
  case True
  then have e: "0 \<le> c_end c - 1" using assms by (simp add: is_nonempty_def c_end_def)
  let ?i = "Component (c_begin c + 1) (c_len c - 2)"
  have last: "at (pre @ s) (len pre + c_end c - 1) = at s (c_end c - 1)"
    using at_shift [OF e, of pre s] by (simp add: algebra_simps)
  have inner: "Component (len pre + c_begin c + 1) (c_len c - 2) = shifted (len pre) ?i"
    by (simp add: shifted_Component)
  have run: "DoParseIPv6 (pre @ s) (shifted (len pre) ?i) = map_option (shifted_parsed (len pre)) (DoParseIPv6 s ?i)"
    by (rule parse_ipv6_shift) (use assms in simp)
  show ?thesis
  proof (cases "DoParseIPv6 s ?i")
    case None
    then show ?thesis using True last run assms by (simp add: IPv6AddressToNumber_def inner)
  next
    case (Some p)
    have "begins_ok reset_IPv6Parsed" by (simp add: begins_ok_def reset_IPv6Parsed_def no_component_def)
    then have ok: "begins_ok p"
      using Some assms ipv6_scan_begins by (auto simp: DoParseIPv6_def split: if_splits)
    have size: "CheckIPv6ComponentsSize (shifted_parsed (len pre) p) = CheckIPv6ComponentsSize p"
      by (simp add: CheckIPv6ComponentsSize_def)
    have bytes: "ipv6_bytes (pre @ s) (shifted_parsed (len pre) p) n 0 (map (shifted (len pre)) (hex_components p)) [] =
        ipv6_bytes s p n 0 (hex_components p) []" for n
      using ok by (intro ipv6_bytes_shift) (simp_all add: begins_ok_def)
    have v4: "is_valid (ipv4_component p) \<Longrightarrow> IPv4AddressToNumber (pre @ s) (ipv4_component (shifted_parsed (len pre) p)) =
        IPv4AddressToNumber s (ipv4_component p)"
      using ipv4_number_shift [of "ipv4_component p" pre s] ok by (simp add: shifted_parsed_def begins_ok_def)
    show ?thesis using True last run assms Some size bytes v4
      by (cases "CheckIPv6ComponentsSize p"; cases "is_valid (ipv4_component p)") (simp_all add: IPv6AddressToNumber_def inner)
  qed
qed (simp add: IPv6AddressToNumber_def)

section \<open>Hosts\<close>

lemma ip_address_shift:
  assumes "0 \<le> c_begin c"
  shows "CanonicalizeIPAddress (pre @ s) (shifted (len pre) c) out info = CanonicalizeIPAddress s c out info"
proof -
  have "CanonicalizeIPv4Address (pre @ s) (shifted (len pre) c) = CanonicalizeIPv4Address s c"
    by (intro ext) (simp add: CanonicalizeIPv4Address_def ipv4_number_shift [OF assms])
  moreover have "CanonicalizeIPv6Address (pre @ s) (shifted (len pre) c) = CanonicalizeIPv6Address s c"
    by (intro ext) (simp add: CanonicalizeIPv6Address_def ipv6_number_shift [OF assms] component_shift [OF assms])
  ultimately show ?thesis unfolding CanonicalizeIPAddress_def by (simp only:)
qed

lemma stage_anywhere:
  assumes "host_stage t out = (True, o1)"
  shows "host_stage t out' = (True, out' @ tokens_text (host_tokens t))"
proof (cases "\<not> list_ex (\<lambda>c. byte c \<ge> 128) t \<and> \<not> list_ex (\<lambda>c. \<not> byte c \<ge> 128 \<and> c = CHR ''%'') t")
  case True
  then show ?thesis using assms by (simp add: host_stage_def DoSimpleHost_eq)
next
  case False
  then have "DoComplexHost t (list_ex (\<lambda>c. byte c \<ge> 128) t) (list_ex (\<lambda>c. \<not> byte c \<ge> 128 \<and> c = CHR ''%'') t) out = (True, o1)"
    using assms by (simp only: host_stage_def if_False)
  from complex_host [OF this] show ?thesis
    using False unfolding host_stage_def if_False plain_tokens DoComplexHost_eq by simp
qed

lemma host_anywhere:
  assumes "host_result t out = (True, c, out @ u)"
  shows "host_result t out' = (True, MakeRange (len out') (len (out' @ u)), out' @ u)"
proof -
  let ?ts = "host_tokens t"
  obtain o1 where s: "host_stage t out = (True, o1)" "host_final out o1 = (True, c, out @ u)"
    using assms by (cases "host_stage t out") (auto simp: host_result_def split: if_splits)
  have o1: "list_all plain_ok ?ts" "o1 = out @ tokens_text ?ts" using stage_plain [OF s(1)] by auto
  have s': "host_stage t out' = (True, out' @ tokens_text ?ts)" by (rule stage_anywhere [OF s(1)])
  let ?c = "Component 0 (len (tokens_text ?ts))"
  have sh: "MakeRange (len x) (len (x @ tokens_text ?ts)) = shifted (len x) ?c" for x :: str
    by (simp add: MakeRange_def shifted_Component)
  have ip: "CanonicalizeIPAddress (x @ tokens_text ?ts) (shifted (len x) ?c) [] new_host_info =
      CanonicalizeIPAddress (tokens_text ?ts) ?c [] new_host_info" for x
    by (rule ip_address_shift) simp
  obtain w i where w: "CanonicalizeIPAddress (tokens_text ?ts) ?c [] new_host_info = (w, i)"
    by (cases "CanonicalizeIPAddress (tokens_text ?ts) ?c [] new_host_info")
  have "family i \<noteq> BROKEN" "u = (if IsIPAddress i then w else tokens_text ?ts)"
    using s(2) unfolding o1(2) host_final_def sh ip w by (auto split: if_splits)
  then show ?thesis
    unfolding host_result_def s' host_final_def Let_def prod.case sh ip w by auto
qed

end
