(* ===== verification/Gurl_Origin_Laws.thy ===== *)
theory Gurl_Origin_Laws
  imports Gurl Url_Standard_Again Url_Shift_Laws Origin
begin

text \<open>
  \<open>GURL::GetOrigin\<close> from the string on: what it keeps of a URL, and that \<open>url::Origin\<close> agrees.
\<close>

section \<open>Schemes\<close>

lemma scheme_piece_lower: "scheme_good f c \<Longrightarrow> scheme_piece f c = [ToLowerASCII c]"
  using scheme_table [of "byte c"]
  by (auto simp: scheme_good_def scheme_piece_def ToLowerASCII_def split: if_splits)

lemma scheme_written_lower:
  assumes "CanonicalizeScheme spec c [] = (True, d, t @ '':'')" "within 0 (len spec) c" "is_nonempty c"
  shows "t = map ToLowerASCII (component_str spec c)"
proof -
  have b: "0 \<le> c_begin c" "c_begin c < c_end c" "c_end c \<le> len spec"
    using assms(2,3) by (auto simp: within_def is_valid_def is_nonempty_def c_end_def)
  have pieces: "concat (map (scheme_piece False) s) = map ToLowerASCII s" if "list_all (scheme_good False) s" for s
    using that by (induction s) (simp_all add: scheme_piece_lower)
  have "\<not> c_len c \<le> 0" using assms(3) by (simp add: is_nonempty_def)
  then show ?thesis
    using assms(1) scheme_scan_text [OF b, of True "[]"] pieces seg_Cons [OF b]
    by (auto simp: CanonicalizeScheme_def push_back_def component_str_def scheme_piece_lower)
qed

lemma scheme_of_standard:
  assumes "ExtractScheme spec (len spec) = Some c"
  shows "p_scheme (ParseStandardURL spec (len spec)) = c"
proof -
  obtain b e where t: "TrimURL spec 0 (len spec) True = (b, e)" by fastforce
  note tb = trim_bounds [OF t]
  define i where "i = scan_fwd (\<lambda>c. c \<noteq> CHR '':'') spec b (len spec)"
  have b: "scan_fwd trimmed_char spec 0 (len spec) = b" and e: "e = scan_back trimmed_char spec (b - 1) (len spec - 1) + 1"
    using t by (auto simp: TrimURL_def Let_def)
  have i: "i < len spec" "c = MakeRange b i"
    using assms by (auto simp: ExtractScheme_def b i_def Let_def split: if_splits)
  have colon: "at spec i = CHR '':''" using scan_fwd_stop [of "\<lambda>c. c \<noteq> CHR '':''" spec b "len spec"] i(1) by (simp add: i_def)
  have "\<not> trimmed_char CHR '':''" by code_simp
  then have ie: "i < e"
    using scan_back_run [of trimmed_char spec "b - 1" "len spec - 1" i] e i(1) colon by (metis linorder_not_less zle_diff1_eq add1_zle_eq)
  have "scan_fwd (\<lambda>c. c \<noteq> CHR '':'') spec b e = i"
  proof (rule scan_fwd_eqI)
    show "b \<le> i" by (simp add: i_def scan_fwd_ge)
    show "at spec k \<noteq> CHR '':''" if "b \<le> k" "k < i" for k
      using that scan_fwd_run [of b k "\<lambda>c. c \<noteq> CHR '':''" spec "len spec"] by (simp add: i_def)
  qed (use ie colon in simp_all)
  then have "ExtractScheme spec e = Some c"
    using ie i(2) by (simp add: extract_scheme_trimmed [OF t] Let_def)
  then show ?thesis by (simp add: ParseStandardURL_def t DoParseAfterScheme_def Let_def split: prod.split)
qed

section \<open>Hosts\<close>

lemma host_again_anywhere:
  assumes "host_again t out" "t \<noteq> []"
  shows "host_again t out'"
proof -
  have "is_nonempty (Component 0 (len t))" "component_str t (Component 0 (len t)) = t"
    using assms(2) by (simp_all add: is_nonempty_def component_str_def c_end_def)
  then have "host_result t out = (True, Component (len out) (len t), out @ t)"
    using assms(1) CanonicalizeHost_eq [of t "Component 0 (len t)" out] by (auto simp: host_again_def is_nonempty_def)
  from host_anywhere [OF this, of out'] have r: "host_result t out' = (True, Component (len out') (len t), out' @ t)"
    by (simp add: MakeRange_def)
  show ?thesis unfolding host_again_def
  proof (intro allI impI)
    fix spec h assume h: "component_str spec h = t"
    then have "is_nonempty h" using assms(2) component_nonempty by blast
    then show "CanonicalizeHost spec h out' = (True, Component (len out') (len t), out' @ t)"
      using r h by (simp add: CanonicalizeHost_eq is_nonempty_def)
  qed
qed

section \<open>The origin of a standard URL\<close>

definition origin_pieces :: "pieces \<Rightarrow> pieces" where
  "origin_pieces p = p\<lparr>t_user := None, t_pass := None, t_path := ''/'', t_query := None, t_ref := None\<rparr>"

lemma origin_pieces_ok: "pieces_ok p \<Longrightarrow> pieces_ok (origin_pieces p)"
  by (simp add: pieces_ok_def origin_pieces_def)

lemmas replacement_defs = origin_replacements_def ClearRef_def ClearQuery_def ClearPath_def ClearPassword_def
  ClearUsername_def SetRef_def SetQuery_def SetPath_def SetPassword_def SetUsername_def no_replacements_def

lemma origin_overrides:
  assumes "is_valid (p_host parts)"
  shows "SetupOverrideComponents origin_replacements (source_of u) (to_parsed parts None) =
    ((source_of u)\<lparr>s_username := [], s_password := [], s_path := [], s_query := [], s_ref := []\<rparr>,
     to_parsed (parts\<lparr>p_username := no_component, p_password := no_component, p_path := no_component,
       p_query := no_component, p_ref := no_component\<rparr>) None)"
  using assms
  by (simp add: SetupOverrideComponents_def replacement_defs source_of_def to_parsed_def DoOverrideComponent_def
      is_valid_def no_parts_def)

lemma port_moves:
  assumes "u = pre @ ostr '':'' o1 @ rest" "\<And>w. o1 = Some w \<Longrightarrow> \<exists>n<65536. w = print_nat 10 n \<and> int n \<noteq> dflt"
  shows "CanonicalizePort u (orange (len pre + 1) o1) dflt out = (True, orange (len out + 1) o1, out @ ostr '':'' o1)"
proof (cases o1)
  case None
  then show ?thesis by (simp add: CanonicalizePort_def ParsePort_def is_nonempty_def PORT_UNSPECIFIED_def)
next
  case (Some w)
  obtain n where n: "n < 65536" "w = print_nat 10 n" "int n \<noteq> dflt" using assms(2) [OF Some] by blast
  have "within 0 (len u) (orange (len pre + 1) o1)" using assms(1) by (simp add: Some)
  from port_again [OF this _ n(1,3), of out] show ?thesis
    using orange_at [OF assms(1) Some] n(2) Some by simp
qed

lemma standard_origin:
  assumes "pieces_ok p" "host_again (t_host p) out0"
  defines "u \<equiv> url_string p" and "q \<equiv> url_ranges 0 p"
  shows "DoCanonicalizeStandardURL ((source_of u)\<lparr>s_username := [], s_password := [], s_path := [], s_query := [], s_ref := []\<rparr>)
      (to_parsed (q\<lparr>p_username := no_component, p_password := no_component, p_path := no_component,
         p_query := no_component, p_ref := no_component\<rparr>) None) conv [] =
    (True, url_ranges 0 (origin_pieces p), url_string (origin_pieces p))"
proof -
  define o1 where "o1 = t_scheme p @ ''://''"
  define o3 where "o3 = o1 @ t_host p"
  define o4 where "o4 = o3 @ ostr '':'' (t_port p)"
  define a where "a = o1 @ user_part p"
  define sc hc tc where "sc = Component 0 (len (t_scheme p))" and "hc = Component (len a) (len (t_host p))"
    and "tc = orange (len (a @ t_host p) + 1) (t_port p)"
  have u: "u = (a @ t_host p) @ ostr '':'' (t_port p) @ t_path p @ ostr ''?'' (t_query p) @ ostr ''#'' (t_ref p)"
    by (simp add: u_def url_string_def auth_part_def o1_def a_def)
  have q: "p_scheme q = sc" "p_host q = hc" "p_port q = tc"
    by (simp_all add: q_def url_ranges_def Let_def sc_def hc_def tc_def o1_def a_def algebra_simps)
  have ne: "t_host p \<noteq> []" by (rule pieces_okD(7) [OF assms(1)])
  have scheme: "CanonicalizeScheme u sc [] = (True, sc, t_scheme p @ '':'')"
    unfolding sc_def by (rule scheme_of_again [OF pieces_okD(1) [OF assms(1)]]) (simp add: u_def url_string_def)
  have user: "CanonicalizeUserInfo [] no_component [] no_component o1 = (True, no_component, no_component, o1)"
    by (simp add: CanonicalizeUserInfo_def)
  have host: "CanonicalizeHost u hc o1 = (True, Component (len o1) (len (t_host p)), o3)"
  proof -
    have "component_str u hc = t_host p"
      unfolding hc_def by (rule component_at [where rest = "ostr '':'' (t_port p) @ t_path p @ ostr ''?'' (t_query p) @ ostr ''#'' (t_ref p)"]) (simp add: u)
    then show ?thesis using host_again_anywhere [OF assms(2) ne, of o1] by (simp add: host_again_def o3_def)
  qed
  have schemestr: "component_str o3 sc = t_scheme p"
    using component_at [of o3 "[]" "t_scheme p"] by (simp add: o3_def o1_def sc_def)
  have port: "CanonicalizePort u tc (DefaultPortForScheme (t_scheme p)) o3 = (True, orange (len o3 + 1) (t_port p), o4)"
    unfolding tc_def o4_def by (rule port_moves [OF u]) (use pieces_okD(8) [OF assms(1)] in simp)
  have auth: "is_nonempty hc" using ne by (cases "t_host p") (simp_all add: hc_def)
  have so: "push_back CHR ''/'' (push_back CHR ''/'' (t_scheme p @ '':'')) = o1" by (simp add: push_back_def o1_def)
  have v: "is_valid sc" by (simp add: sc_def)
  have ranges: "url_ranges 0 (origin_pieces p) = \<lparr>p_scheme = sc, p_username = no_component, p_password = no_component,
      p_host = Component (len o1) (len (t_host p)), p_port = orange (len o3 + 1) (t_port p), p_path = Component (len o4) 1,
      p_query = no_component, p_ref = no_component\<rparr>"
    by (simp add: url_ranges_def Let_def origin_pieces_def user_part_def sc_def o1_def o3_def o4_def algebra_simps)
  have url_text: "url_string (origin_pieces p) = push_back CHR ''/'' o4"
    by (simp add: url_string_def auth_part_def user_part_def origin_pieces_def o1_def o3_def o4_def push_back_def)
  show ?thesis
    unfolding ranges url_text using auth v
    by (simp add: DoCanonicalizeStandardURL_def standard_authority_def source_of_def to_parsed_def q scheme so user host schemestr port
        CanonicalizeQuery_def CanonicalizeRef_def)
qed

section \<open>URLs from strings\<close>

definition gurl_of :: "pieces \<Rightarrow> GURL" where
  "gurl_of p = GURL (url_string p) True (to_parsed (url_ranges 0 p) None) None"

lemma scheme_at: "component_str (url_string p) (p_scheme (to_parsed (url_ranges 0 p) None)) = t_scheme p"
  using component_at [of "url_string p" "[]" "t_scheme p"] by (simp add: url_string_def url_ranges_def Let_def to_parsed_def)

lemma scheme_there: "pieces_ok p \<Longrightarrow> is_nonempty (p_scheme (to_parsed (url_ranges 0 p) None))"
  using pieces_okD(1) [of p] by (simp add: canonical_scheme_def url_ranges_def Let_def to_parsed_def is_nonempty_def)

lemma pieces_scheme:
  assumes "pieces_ok p"
  shows "CompareSchemeComponent (url_string p) (p_scheme (to_parsed (url_ranges 0 p) None)) sch \<longleftrightarrow> map ToLowerASCII (t_scheme p) = sch"
    "DoIsStandard schemes (url_string p) (p_scheme (to_parsed (url_ranges 0 p) None)) =
      map_option snd (find (\<lambda>(s, ty). map ToLowerASCII (t_scheme p) = s) schemes)"
  using scheme_there [OF assms] by (simp_all add: CompareSchemeComponent_def DoIsStandard_def scheme_at lower_case_iff)

lemma gurl_schemes:
  assumes "pieces_ok p"
  shows "GURL_scheme (gurl_of p) = t_scheme p" "GURL_SchemeIs (gurl_of p) sch \<longleftrightarrow> t_scheme p = sch"
    "IsStandard schemes (gurl_of p) \<longleftrightarrow> find (\<lambda>(s, ty). map ToLowerASCII (t_scheme p) = s) schemes \<noteq> None"
proof -
  have l: "0 < c_len (p_scheme (to_parsed (url_ranges 0 p) None))" using scheme_there [OF assms] by (simp add: is_nonempty_def)
  then show s: "GURL_scheme (gurl_of p) = t_scheme p" by (simp add: GURL_scheme_def GURL_ComponentString_def gurl_of_def scheme_at)
  show "GURL_SchemeIs (gurl_of p) sch \<longleftrightarrow> t_scheme p = sch" using l s by (simp add: GURL_SchemeIs_def) (simp add: gurl_of_def)
  show "IsStandard schemes (gurl_of p) \<longleftrightarrow> find (\<lambda>(s, ty). map ToLowerASCII (t_scheme p) = s) schemes \<noteq> None"
    by (simp add: IsStandard_def gurl_of_def pieces_scheme [OF assms])
qed

lemma gurl_host: "GURL_host (gurl_of p) = t_host p"
proof -
  have "component_str (url_string p) (p_host (to_parsed (url_ranges 0 p) None)) = t_host p"
    using component_at [of "url_string p" "t_scheme p @ ''://'' @ user_part p" "t_host p"]
    by (simp add: url_string_def auth_part_def url_ranges_def Let_def to_parsed_def algebra_simps)
  then show ?thesis
    by (cases "t_host p") (auto simp: GURL_host_def GURL_ComponentString_def gurl_of_def url_ranges_def Let_def to_parsed_def)
qed

lemma gurl_port_component:
  assumes "t_port p = Some w"
  shows "component_str (url_string p) (p_port (to_parsed (url_ranges 0 p) None)) = w"
    "within 0 (len (url_string p)) (p_port (to_parsed (url_ranges 0 p) None))"
  using component_at [of "url_string p" "t_scheme p @ ''://'' @ user_part p @ t_host p @ '':''" w] assms
  by (simp_all add: url_string_def auth_part_def url_ranges_def Let_def to_parsed_def algebra_simps)

lemma gurl_port: "GURL_port (gurl_of p) = (case t_port p of None \<Rightarrow> [] | Some w \<Rightarrow> w)"
proof (cases "t_port p")
  case None
  then show ?thesis by (simp add: GURL_port_def GURL_ComponentString_def gurl_of_def url_ranges_def Let_def to_parsed_def no_component_def)
next
  case (Some w)
  then show ?thesis using gurl_port_component [OF Some]
    by (cases w) (auto simp: GURL_port_def GURL_ComponentString_def gurl_of_def url_ranges_def Let_def to_parsed_def)
qed

lemma gurl_int_port:
  assumes "pieces_ok p"
  shows "IntPort (gurl_of p) = (case t_port p of None \<Rightarrow> PORT_UNSPECIFIED | Some w \<Rightarrow> atoi_digits w)"
proof (cases "t_port p")
  case None
  then show ?thesis by (simp add: IntPort_def gurl_of_def url_ranges_def Let_def to_parsed_def is_nonempty_def no_component_def)
next
  case (Some w)
  obtain n where n: "n < 65536" "w = print_nat 10 n" using pieces_okD(8) [OF assms Some] by blast
  have "ParsePort (url_string p) (p_port (to_parsed (url_ranges 0 p) None)) = int n" and "atoi_digits w = int n"
    using port_of_print [OF gurl_port_component(2) [OF Some] _ n(1)] gurl_port_component(1) [OF Some] n(2)
      atoi_value [OF print_port_digits] digits_value_print [of 10 n] by simp_all
  moreover have "is_nonempty (p_port (to_parsed (url_ranges 0 p) None))"
    using gurl_port_component(1) [OF Some] n(2) print_nat_nonempty [of 10 n] component_nonempty by metis
  ultimately show ?thesis using Some by (simp add: IntPort_def gurl_of_def)
qed

lemma canonical_scheme_lower: "canonical_scheme t \<Longrightarrow> map ToLowerASCII t = t"
  by (auto simp: canonical_scheme_def list_all_iff ToLowerASCII_def scheme_char_def intro!: map_idI)

lemma gurl_valid: "g_is_valid (gurl_of p)"
  by (simp add: gurl_of_def)

lemma plain_gurl:
  assumes "t_scheme p \<noteq> ''filesystem''" "pieces_ok p"
  shows "with_inner t (gurl_of p) = gurl_of p"
  using assms by (simp add: with_inner_def SchemeIsFileSystem_def gurl_schemes)

lemma make_standard_gurl:
  assumes "ExtractScheme spec (len spec) = Some c" "map ToLowerASCII (component_str spec c) \<notin> {''file'', ''filesystem''}"
    "DoIsStandard schemes spec c \<noteq> None" "spec = RemoveURLWhitespace s" "g_is_valid (MakeGURL schemes s)"
  shows "\<exists>p. pieces_ok p \<and> MakeGURL schemes s = gurl_of p \<and> t_scheme p = map ToLowerASCII (component_str spec c) \<and>
    find (\<lambda>(s, ty). t_scheme p = s) schemes \<noteq> None \<and> host_again (t_host p) (t_scheme p @ ''://'' @ user_part p)"
proof -
  let ?q = "ParseStandardURL spec (len spec)"
  have c: "p_scheme ?q = c" by (rule scheme_of_standard [OF assms(1)])
  have ne: "is_nonempty c" using assms(3) by (auto simp: DoIsStandard_def split: if_splits)
  have cmp: "\<not> CompareSchemeComponent spec c ''file''" "\<not> CompareSchemeComponent spec c ''filesystem''"
    using assms(2) ne by (auto simp: CompareSchemeComponent_def lower_case_iff)
  obtain ok np out where d: "DoCanonicalizeStandardURL (source_of spec) ?q None [] = (ok, np, out)"
    by (cases "DoCanonicalizeStandardURL (source_of spec) ?q None []")
  have can: "Canonicalize schemes s True None [] (to_parsed no_parts None) = (ok, to_parsed np None, out)"
    using assms(1,3) cmp d by (simp add: Canonicalize_def assms(4) [symmetric] Let_def with_parts_def to_parsed_def)
  have mk: "MakeGURL schemes s = with_inner out (GURL out ok (to_parsed np None) None)"
    by (simp add: MakeGURL_def InitCanonical_def can)
  then have ok: "ok = True" using assms(5) by (simp add: with_inner_def split: if_splits)
  obtain p where p: "pieces_ok p" "out = url_string p" "np = url_ranges 0 p"
    "host_again (t_host p) (t_scheme p @ ''://'' @ user_part p)"
    "CanonicalizeScheme spec c [] = (True, Component 0 (len (t_scheme p)), t_scheme p @ '':'')"
    using canonical_pieces [OF d [unfolded ok] ne [folded c]] unfolding c by blast
  have w: "within 0 (len spec) c" using parsed_within [of spec] c by (simp add: source_within_def source_of_def)
  have sch: "t_scheme p = map ToLowerASCII (component_str spec c)" by (rule scheme_written_lower [OF p(5) w ne])
  have "find (\<lambda>(s, ty). t_scheme p = s) schemes \<noteq> None"
    using assms(3) ne by (auto simp: DoIsStandard_def lower_case_iff sch)
  moreover have "MakeGURL schemes s = gurl_of p"
    using mk ok p(2,3) plain_gurl [of p] p(1) sch assms(2) by (simp add: gurl_of_def)
  ultimately show ?thesis using p(1,4) sch by blast
qed

lemma origin_of_gurl:
  assumes "pieces_ok p" "host_again (t_host p) out0" "find (\<lambda>(s, ty). t_scheme p = s) schemes \<noteq> None"
    "t_scheme p \<notin> {''file'', ''filesystem''}"
  shows "GetOrigin schemes (gurl_of p) = gurl_of (origin_pieces p)"
proof -
  let ?u = "url_string p" and ?q = "to_parsed (url_ranges 0 p) None"
  have low: "map ToLowerASCII (t_scheme p) = t_scheme p" by (rule canonical_scheme_lower [OF pieces_okD(1) [OF assms(1)]])
  have std: "IsStandard schemes (gurl_of p)" using assms(3) low gurl_schemes [OF assms(1)] by simp
  have nfs: "\<not> SchemeIsFileSystem (gurl_of p)" using assms(4) gurl_schemes(2) [OF assms(1)] by (simp add: SchemeIsFileSystem_def)
  have host: "is_valid (p_host (url_ranges 0 p))" by (simp add: url_ranges_def Let_def)
  have no_scheme: "s_scheme (sources origin_replacements) = None"
    by (simp add: replacement_defs source_of_def)
  have rep: "ReplaceComponents schemes ?u ?q origin_replacements None [] (to_parsed no_parts None) =
      (True, to_parsed (url_ranges 0 (origin_pieces p)) None, url_string (origin_pieces p))"
    using assms(3,4) pieces_scheme [OF assms(1)] low
    unfolding ReplaceComponents_def no_scheme option.case
    by (simp add: replace_in_scheme_def ReplaceStandardURL_def origin_overrides [OF host]
        standard_origin [OF assms(1,2)] with_parts_def) (simp add: to_parsed_def)
  have "outer_origin schemes (gurl_of p) = gurl_of (origin_pieces p)"
    using rep plain_gurl [of "origin_pieces p"] origin_pieces_ok [OF assms(1)] assms(4)
    by (simp add: outer_origin_def GURL_ReplaceComponents_def gurl_of_def) (simp add: origin_pieces_def)
  then show ?thesis using std nfs by (simp add: gurl_of_def)
qed

lemma origin_pieces_simps [simp]:
  "t_scheme (origin_pieces p) = t_scheme p" "t_host (origin_pieces p) = t_host p" "t_port (origin_pieces p) = t_port p"
  "origin_pieces (origin_pieces p) = origin_pieces p"
  by (simp_all add: origin_pieces_def)

lemma same_tuple:
  assumes "pieces_ok p"
  shows "SchemeHostPortOf schemes (gurl_of (origin_pieces p)) = SchemeHostPortOf schemes (gurl_of p)"
proof -
  note ok = assms origin_pieces_ok [OF assms]
  have sch: "component_str (g_spec (gurl_of x)) (p_scheme (g_parsed (gurl_of x))) = t_scheme x" for x
    using scheme_at [of x] by (simp add: gurl_of_def)
  have "GURL_EffectiveIntPort schemes (gurl_of (origin_pieces p)) = GURL_EffectiveIntPort schemes (gurl_of p)"
    using gurl_schemes(3) [OF ok(1), of schemes] gurl_schemes(3) [OF ok(2), of schemes] gurl_int_port [OF ok(1)] gurl_int_port [OF ok(2)]
    unfolding GURL_EffectiveIntPort_def sch origin_pieces_simps by simp
  moreover have "g_is_valid (gurl_of x)" for x by (simp add: gurl_of_def)
  ultimately show ?thesis using ok by (simp add: SchemeHostPortOf_def gurl_schemes gurl_host)
qed

text \<open>
  C10. The origin of a URL, from the string on: for a valid URL of a standard scheme other than
  file, filesystem and blob, \<open>GetOrigin\<close> is its scheme, host and port with an empty path, and nothing
  else of it; it is its own origin; and \<open>url::Origin\<close> does not tell the two apart.
\<close>

theorem origin_of_url:
  assumes "spec = RemoveURLWhitespace s" "ExtractScheme spec (len spec) = Some c"
    and "map ToLowerASCII (component_str spec c) \<notin> {''file'', ''filesystem'', ''blob''}" "DoIsStandard schemes spec c \<noteq> None"
    and "u = MakeGURL schemes s" "g_is_valid u"
  shows "g_is_valid (GetOrigin schemes u) \<and>
    GURL_spec (GetOrigin schemes u) = map ToLowerASCII (component_str spec c) @ ''://'' @ GURL_host u @
      (if GURL_port u = [] then [] else '':'' @ GURL_port u) @ ''/'' \<and>
    GURL_host (GetOrigin schemes u) = GURL_host u \<and> GURL_port (GetOrigin schemes u) = GURL_port u \<and>
    GetOrigin schemes (GetOrigin schemes u) = GetOrigin schemes u \<and>
    OriginOf schemes (GetOrigin schemes u) = OriginOf schemes u"
proof -
  obtain p where p: "pieces_ok p" "u = gurl_of p" "t_scheme p = map ToLowerASCII (component_str spec c)"
    "find (\<lambda>(s, ty). t_scheme p = s) schemes \<noteq> None" "host_again (t_host p) (t_scheme p @ ''://'' @ user_part p)"
    using make_standard_gurl [OF assms(2) _ assms(4,1)] assms(3,5,6) by auto
  let ?o = "origin_pieces p"
  have sch: "t_scheme p \<notin> {''file'', ''filesystem''}" using assms(3) p(3) by auto
  have o: "pieces_ok ?o" by (rule origin_pieces_ok [OF p(1)])
  have g: "GetOrigin schemes u = gurl_of ?o" unfolding p(2) by (rule origin_of_gurl [OF p(1,5,4) sch])
  have again: "GetOrigin schemes (gurl_of ?o) = gurl_of ?o"
    using origin_of_gurl [OF o, of _ schemes] p(4,5) sch by simp
  have same: "OriginOf schemes (gurl_of ?o) = OriginOf schemes (gurl_of p)"
  proof -
    have k: "g_is_valid (gurl_of x)" "g_inner_url (gurl_of x) = None" for x by (simp_all add: gurl_of_def)
    have "t_scheme p \<noteq> ''blob''" using assms(3) p(3) by auto
    then show ?thesis
      using gurl_schemes [OF p(1)] gurl_schemes [OF o] sch same_tuple [OF p(1), of schemes]
      by (simp add: OriginOf_def k SchemeIsBlob_def SchemeIsFileSystem_def)
  qed
  have ports: "w \<noteq> []" if "t_port p = Some w" for w
    using pieces_okD(8) [OF p(1) that] print_nat_nonempty by auto
  have spec_text: "GURL_spec (gurl_of ?o) = t_scheme p @ ''://'' @ t_host p @ ostr '':'' (t_port p) @ ''/''"
    by (simp add: GURL_spec_def gurl_of_def url_string_def auth_part_def user_part_def) (simp add: origin_pieces_def)
  show ?thesis
    unfolding g unfolding again unfolding p(2) same spec_text
    using ports by (cases "t_port p") (auto simp: gurl_host gurl_port p(3) gurl_valid)
qed

definition login_url :: str where "login_url = ''HTTP://u:p@H:81/x?y#z''"

definition login_gurl :: GURL where
  "login_gurl = GURL ''http://u:p@h:81/x?y#z'' True
     \<lparr>p_scheme = Component 0 4, p_username = Component 7 1, p_password = Component 9 1, p_host = Component 11 1,
      p_port = Component 13 2, p_path = Component 15 2, p_query = Component 18 1, p_ref = Component 20 1,
      inner_parsed = None\<rparr> None"

lemma login_made: "login_gurl = MakeGURL kStandardURLSchemes login_url"
  by code_simp

lemma login_scheme:
  "login_url = RemoveURLWhitespace login_url" "ExtractScheme login_url (len login_url) = Some (Component 0 4)"
  "map ToLowerASCII (component_str login_url (Component 0 4)) \<notin> {''file'', ''filesystem'', ''blob''}"
  "DoIsStandard kStandardURLSchemes login_url (Component 0 4) \<noteq> None"
  "g_is_valid login_gurl"
  by code_simp+

theorem origin_of_url_witness:
  "GURL_spec (GetOrigin kStandardURLSchemes (MakeGURL kStandardURLSchemes login_url)) = ''http://h:81/'' \<and>
   OriginOf kStandardURLSchemes (GetOrigin kStandardURLSchemes (MakeGURL kStandardURLSchemes login_url)) =
     OriginOf kStandardURLSchemes (MakeGURL kStandardURLSchemes login_url)"
proof -
  have v: "map ToLowerASCII (component_str login_url (Component 0 4)) = ''http''" "GURL_host login_gurl = ''h''" "GURL_port login_gurl = ''81''"
    by code_simp+
  show ?thesis
    using origin_of_url [OF login_scheme(1-4) login_made login_scheme(5)] unfolding v login_made [symmetric] by simp
qed

end
