(* ===== verification/Base_Numerics.thy ===== *)
theory Base_Numerics
  imports Base_Time
begin

text \<open>
  The checked, saturating and clamped arithmetic of \<open>base/numerics\<close>, over the eight integer types.
  A template parameter that is a type is an argument of type \<open>num_type\<close>; a value of a machine type
  is the integer it denotes.  What the optimised paths of other platforms would compute is not in
  the repository: \<open>BASE_HAS_OPTIMIZED_SAFE_MATH\<close> is 0, so the portable code below is what runs.
  \<open>ptr\<close> is the width of a pointer of the target, 32 or 64.
\<close>

unbundle bit_operations_syntax

section \<open>Integer types\<close>

datatype num_type = Int8 | UInt8 | Int16 | UInt16 | Int32 | UInt32 | Int64 | UInt64

fun is_signed :: "num_type \<Rightarrow> bool" where
  "is_signed Int8 = True" | "is_signed Int16 = True" | "is_signed Int32 = True" | "is_signed Int64 = True"
| "is_signed UInt8 = False" | "is_signed UInt16 = False" | "is_signed UInt32 = False" | "is_signed UInt64 = False"

text \<open>\<open>numeric_limits<T>::digits\<close>, \<open>max\<close> and \<open>lowest\<close>.\<close>

fun digits :: "num_type \<Rightarrow> nat" where
  "digits Int8 = 7" | "digits Int16 = 15" | "digits Int32 = 31" | "digits Int64 = 63"
| "digits UInt8 = 8" | "digits UInt16 = 16" | "digits UInt32 = 32" | "digits UInt64 = 64"

definition nt_max :: "num_type \<Rightarrow> int" where "nt_max t = 2 ^ digits t - 1"

definition nt_lowest :: "num_type \<Rightarrow> int" where "nt_lowest t = (if is_signed t then - (2 ^ digits t) else 0)"

fun make_signed :: "num_type \<Rightarrow> num_type" where
  "make_signed UInt8 = Int8" | "make_signed UInt16 = Int16" | "make_signed UInt32 = Int32" | "make_signed UInt64 = Int64"
| "make_signed t = t"

fun make_unsigned :: "num_type \<Rightarrow> num_type" where
  "make_unsigned Int8 = UInt8" | "make_unsigned Int16 = UInt16" | "make_unsigned Int32 = UInt32" | "make_unsigned Int64 = UInt64"
| "make_unsigned t = t"

definition MaxExponent :: "num_type \<Rightarrow> nat" where "MaxExponent t = digits t + 1"

definition IntegerBitsPlusSign :: "num_type \<Rightarrow> nat" where
  "IntegerBitsPlusSign t = digits t + of_bool (is_signed t)"

text \<open>
  \<open>static_cast\<close> keeps the low bits; integral promotion and the usual arithmetic conversions give
  the type in which a mixed operation is computed.
\<close>

definition static_cast :: "num_type \<Rightarrow> int \<Rightarrow> int" where
  "static_cast t v = (if is_signed t then signed_take_bit (digits t) v else take_bit (digits t) v)"

definition promote :: "num_type \<Rightarrow> num_type" where
  "promote t = (if IntegerBitsPlusSign t < 32 then Int32 else t)"

definition arith_type :: "num_type \<Rightarrow> num_type \<Rightarrow> num_type" where
  "arith_type l r =
     (let l = promote l; r = promote r
      in if IntegerBitsPlusSign l < IntegerBitsPlusSign r then r
         else if IntegerBitsPlusSign r < IntegerBitsPlusSign l then l
         else if is_signed l then r else l)"

definition IsValueNegative :: "num_type \<Rightarrow> int \<Rightarrow> bool" where
  "IsValueNegative t value \<longleftrightarrow> (if is_signed t then value < 0 else False)"

definition ConditionalNegate :: "num_type \<Rightarrow> int \<Rightarrow> bool \<Rightarrow> int" where
  "ConditionalNegate t x is_negative =
     static_cast (make_signed t) ((static_cast (make_unsigned t) x XOR - of_bool is_negative) + of_bool is_negative)"

definition SafeUnsignedAbs :: "num_type \<Rightarrow> int \<Rightarrow> int" where
  "SafeUnsignedAbs t value =
     (let u = make_unsigned t
      in if IsValueNegative t value then static_cast u (0 - static_cast u value) else static_cast u value)"

definition as_signed :: "num_type \<Rightarrow> int \<Rightarrow> int" where "as_signed t value = static_cast (make_signed t) value"

definition as_unsigned :: "num_type \<Rightarrow> int \<Rightarrow> int" where "as_unsigned t value = static_cast (make_unsigned t) value"

section \<open>Ranges\<close>

datatype NumericRangeRepresentation = NUMERIC_RANGE_NOT_CONTAINED | NUMERIC_RANGE_CONTAINED

definition StaticDstRangeRelationToSrcRange :: "num_type \<Rightarrow> num_type \<Rightarrow> NumericRangeRepresentation" where
  "StaticDstRangeRelationToSrcRange dst src =
     (if is_signed dst = is_signed src
      then (if MaxExponent dst \<ge> MaxExponent src then NUMERIC_RANGE_CONTAINED else NUMERIC_RANGE_NOT_CONTAINED)
      else if is_signed dst
      then (if MaxExponent dst > MaxExponent src then NUMERIC_RANGE_CONTAINED else NUMERIC_RANGE_NOT_CONTAINED)
      else NUMERIC_RANGE_NOT_CONTAINED)"

definition IsTypeInRangeForNumericType :: "num_type \<Rightarrow> num_type \<Rightarrow> bool" where
  "IsTypeInRangeForNumericType dst src \<longleftrightarrow> StaticDstRangeRelationToSrcRange dst src = NUMERIC_RANGE_CONTAINED"

record RangeCheck =
  is_underflow :: bool
  is_overflow :: bool

definition NewRangeCheck :: "bool \<Rightarrow> bool \<Rightarrow> RangeCheck" where
  "NewRangeCheck is_in_lower_bound is_in_upper_bound =
     \<lparr>is_underflow = \<not> is_in_lower_bound, is_overflow = \<not> is_in_upper_bound\<rparr>"

definition RangeCheck_IsValid :: "RangeCheck \<Rightarrow> bool" where
  "RangeCheck_IsValid c \<longleftrightarrow> \<not> is_overflow c \<and> \<not> is_underflow c"

definition IsOverflow :: "RangeCheck \<Rightarrow> bool" where "IsOverflow c \<longleftrightarrow> is_overflow c \<and> \<not> is_underflow c"

definition IsUnderflow :: "RangeCheck \<Rightarrow> bool" where "IsUnderflow c \<longleftrightarrow> \<not> is_overflow c \<and> is_underflow c"

text \<open>The limits that a check compares with; for integers the shift of \<open>NarrowingRange\<close> is 0.\<close>

definition kShift :: "num_type \<Rightarrow> num_type \<Rightarrow> nat" where
  "kShift dst src = (if MaxExponent src > MaxExponent dst \<and> digits src < digits dst then digits dst - digits src else 0)"

definition Adjust :: "num_type \<Rightarrow> num_type \<Rightarrow> int \<Rightarrow> int" where
  "Adjust dst src value =
     static_cast dst
       (ConditionalNegate (promote (make_unsigned dst))
         (SafeUnsignedAbs dst value AND NOT (static_cast dst (push_bit (kShift dst src) 1) - 1))
         (IsValueNegative dst value))"

definition narrow_max :: "num_type \<Rightarrow> num_type \<Rightarrow> int" where "narrow_max dst src = Adjust dst src (nt_max dst)"

definition narrow_lowest :: "num_type \<Rightarrow> num_type \<Rightarrow> int" where "narrow_lowest dst src = Adjust dst src (nt_lowest dst)"

definition contained_check :: "num_type \<Rightarrow> num_type \<Rightarrow> int \<Rightarrow> RangeCheck" where
  "contained_check dst src value =
     NewRangeCheck
       (static_cast dst (nt_lowest src) \<ge> narrow_lowest dst src \<or> static_cast dst value \<ge> narrow_lowest dst src)
       (static_cast dst (nt_max src) \<le> narrow_max dst src \<or> static_cast dst value \<le> narrow_max dst src)"

definition signed_check :: "num_type \<Rightarrow> num_type \<Rightarrow> int \<Rightarrow> RangeCheck" where
  "signed_check dst src value = NewRangeCheck (value \<ge> narrow_lowest dst src) (value \<le> narrow_max dst src)"

definition unsigned_check :: "num_type \<Rightarrow> num_type \<Rightarrow> int \<Rightarrow> RangeCheck" where
  "unsigned_check dst src value =
     NewRangeCheck (narrow_lowest dst src = static_cast dst 0 \<or> value \<ge> narrow_lowest dst src) (value \<le> narrow_max dst src)"

definition unsigned_to_signed_check :: "num_type \<Rightarrow> num_type \<Rightarrow> int \<Rightarrow> RangeCheck" where
  "unsigned_to_signed_check dst src value =
     (let promotion = arith_type src dst
      in NewRangeCheck
           (narrow_lowest dst src \<le> static_cast dst 0 \<or>
            static_cast promotion value \<ge> static_cast promotion (narrow_lowest dst src))
           (static_cast promotion value \<le> static_cast promotion (narrow_max dst src)))"

definition signed_to_unsigned_check :: "num_type \<Rightarrow> num_type \<Rightarrow> int \<Rightarrow> RangeCheck" where
  "signed_to_unsigned_check dst src value =
     (let promotion = arith_type src dst
      in NewRangeCheck
           (value \<ge> static_cast src 0 \<and>
            (narrow_lowest dst src = 0 \<or> static_cast dst value \<ge> narrow_lowest dst src))
           (static_cast promotion (nt_max src) \<le> static_cast promotion (narrow_max dst src) \<or>
            static_cast promotion value \<le> static_cast promotion (narrow_max dst src)))"

definition DstRangeRelationToSrcRange :: "num_type \<Rightarrow> num_type \<Rightarrow> int \<Rightarrow> RangeCheck" where
  "DstRangeRelationToSrcRange dst src value =
     (if StaticDstRangeRelationToSrcRange dst src = NUMERIC_RANGE_CONTAINED then contained_check dst src value
      else if is_signed dst then (if is_signed src then signed_check dst src value else unsigned_to_signed_check dst src value)
      else if is_signed src then signed_to_unsigned_check dst src value else unsigned_check dst src value)"

section \<open>Comparisons\<close>

definition IsLess :: "num_type \<Rightarrow> num_type \<Rightarrow> int \<Rightarrow> int \<Rightarrow> bool" where
  "IsLess l r lhs rhs \<longleftrightarrow>
     (let l_range = DstRangeRelationToSrcRange r l lhs; r_range = DstRangeRelationToSrcRange l r rhs; t = arith_type l r
      in IsUnderflow l_range \<or> IsOverflow r_range \<or> l_range = r_range \<and> static_cast t lhs < static_cast t rhs)"

definition IsLessOrEqual :: "num_type \<Rightarrow> num_type \<Rightarrow> int \<Rightarrow> int \<Rightarrow> bool" where
  "IsLessOrEqual l r lhs rhs \<longleftrightarrow>
     (let l_range = DstRangeRelationToSrcRange r l lhs; r_range = DstRangeRelationToSrcRange l r rhs; t = arith_type l r
      in IsUnderflow l_range \<or> IsOverflow r_range \<or> l_range = r_range \<and> static_cast t lhs \<le> static_cast t rhs)"

definition IsGreater :: "num_type \<Rightarrow> num_type \<Rightarrow> int \<Rightarrow> int \<Rightarrow> bool" where
  "IsGreater l r lhs rhs \<longleftrightarrow>
     (let l_range = DstRangeRelationToSrcRange r l lhs; r_range = DstRangeRelationToSrcRange l r rhs; t = arith_type l r
      in IsOverflow l_range \<or> IsUnderflow r_range \<or> l_range = r_range \<and> static_cast t lhs > static_cast t rhs)"

definition IsGreaterOrEqual :: "num_type \<Rightarrow> num_type \<Rightarrow> int \<Rightarrow> int \<Rightarrow> bool" where
  "IsGreaterOrEqual l r lhs rhs \<longleftrightarrow>
     (let l_range = DstRangeRelationToSrcRange r l lhs; r_range = DstRangeRelationToSrcRange l r rhs; t = arith_type l r
      in IsOverflow l_range \<or> IsUnderflow r_range \<or> l_range = r_range \<and> static_cast t lhs \<ge> static_cast t rhs)"

definition IsEqual :: "num_type \<Rightarrow> num_type \<Rightarrow> int \<Rightarrow> int \<Rightarrow> bool" where
  "IsEqual l r lhs rhs \<longleftrightarrow>
     DstRangeRelationToSrcRange r l lhs = DstRangeRelationToSrcRange l r rhs \<and>
     static_cast (arith_type l r) lhs = static_cast (arith_type l r) rhs"

definition IsNotEqual :: "num_type \<Rightarrow> num_type \<Rightarrow> int \<Rightarrow> int \<Rightarrow> bool" where
  "IsNotEqual l r lhs rhs \<longleftrightarrow>
     DstRangeRelationToSrcRange r l lhs \<noteq> DstRangeRelationToSrcRange l r rhs \<or>
     static_cast (arith_type l r) lhs \<noteq> static_cast (arith_type l r) rhs"

section \<open>Promotions\<close>

definition IntegerForDigitsAndSign :: "nat \<Rightarrow> bool \<Rightarrow> num_type option" where
  "IntegerForDigitsAndSign bits signed =
     find (\<lambda>t. IntegerBitsPlusSign t = bits \<and> is_signed t = signed)
       [Int8, UInt8, Int16, UInt16, Int32, UInt32, Int64, UInt64]"

text \<open>There is no 128-bit type: asking for one does not compile.\<close>

definition TwiceWiderInteger :: "num_type \<Rightarrow> bool \<Rightarrow> num_type" where
  "TwiceWiderInteger t signed = the (IntegerForDigitsAndSign (IntegerBitsPlusSign t * 2) signed)"

definition MaxExponentPromotion :: "num_type \<Rightarrow> num_type \<Rightarrow> num_type" where
  "MaxExponentPromotion l r = (if MaxExponent l > MaxExponent r then l else r)"

definition LowestValuePromotion :: "num_type \<Rightarrow> num_type \<Rightarrow> num_type" where
  "LowestValuePromotion l r =
     (if is_signed l then (if is_signed r then (if MaxExponent l > MaxExponent r then l else r) else l)
      else if is_signed r then r else if MaxExponent l < MaxExponent r then l else r)"

text \<open>The type, and whether it is contained.\<close>

definition BigEnoughPromotion :: "num_type \<Rightarrow> num_type \<Rightarrow> num_type \<times> bool" where
  "BigEnoughPromotion l r =
     (let m = MaxExponentPromotion l r;
          is_intmax_type = (IntegerBitsPlusSign m = 64);
          is_max_exponent = (StaticDstRangeRelationToSrcRange m l = NUMERIC_RANGE_CONTAINED \<and>
                             StaticDstRangeRelationToSrcRange m r = NUMERIC_RANGE_CONTAINED)
      in if is_max_exponent then (m, True)
         else if \<not> is_intmax_type then (TwiceWiderInteger m (is_signed l \<or> is_signed r), True)
         else (m, False))"

definition IsIntegerArithmeticSafe :: "num_type \<Rightarrow> num_type \<Rightarrow> num_type \<Rightarrow> bool" where
  "IsIntegerArithmeticSafe t l r \<longleftrightarrow>
     (is_signed l \<longrightarrow> is_signed t) \<and> IntegerBitsPlusSign t \<ge> 2 * IntegerBitsPlusSign l \<and>
     (is_signed r \<longrightarrow> is_signed t) \<and> IntegerBitsPlusSign t \<ge> 2 * IntegerBitsPlusSign r"

definition FastIntegerArithmeticPromotion :: "num_type \<Rightarrow> num_type \<Rightarrow> num_type" where
  "FastIntegerArithmeticPromotion l r =
     (let m = MaxExponentPromotion l r
      in if IsIntegerArithmeticSafe (if is_signed l \<or> is_signed r then Int64 else UInt64) m m
         then TwiceWiderInteger m (is_signed l \<or> is_signed r) else fst (BigEnoughPromotion l r))"

definition SafeCompare :: "(num_type \<Rightarrow> num_type \<Rightarrow> int \<Rightarrow> int \<Rightarrow> bool) \<Rightarrow> num_type \<Rightarrow> num_type \<Rightarrow> int \<Rightarrow> int \<Rightarrow> bool" where
  "SafeCompare c l r lhs rhs =
     (let (big, is_contained) = BigEnoughPromotion l r
      in if is_contained then c big big (static_cast big (static_cast l lhs)) (static_cast big (static_cast r rhs))
         else c l r lhs rhs)"

definition IsMaxInRangeForNumericType :: "num_type \<Rightarrow> num_type \<Rightarrow> bool" where
  "IsMaxInRangeForNumericType dst src = IsGreaterOrEqual dst src (nt_max dst) (nt_max src)"

definition IsMinInRangeForNumericType :: "num_type \<Rightarrow> num_type \<Rightarrow> bool" where
  "IsMinInRangeForNumericType dst src = IsLessOrEqual dst src (nt_lowest dst) (nt_lowest src)"

definition CommonMax :: "num_type \<Rightarrow> num_type \<Rightarrow> int" where
  "CommonMax dst src = static_cast dst (if \<not> IsMaxInRangeForNumericType dst src then nt_max dst else nt_max src)"

definition CommonMin :: "num_type \<Rightarrow> num_type \<Rightarrow> int" where
  "CommonMin dst src = static_cast dst (if \<not> IsMinInRangeForNumericType dst src then nt_lowest dst else nt_lowest src)"

definition CommonMaxOrMin :: "num_type \<Rightarrow> num_type \<Rightarrow> bool \<Rightarrow> int" where
  "CommonMaxOrMin dst src is_min = (if is_min then CommonMin dst src else CommonMax dst src)"

section \<open>Conversions\<close>

text \<open>The special cases of the range check, where there is one for the types.\<close>

definition IsValueInRangeFastOp :: "num_type \<Rightarrow> num_type \<Rightarrow> (int \<Rightarrow> bool) option" where
  "IsValueInRangeFastOp dst src =
     (if is_signed src \<and> \<not> IsTypeInRangeForNumericType dst src
      then Some (if is_signed dst then (\<lambda>value. value = static_cast dst value)
                 else (\<lambda>value. as_unsigned src value \<le> as_unsigned src (CommonMax src dst)))
      else None)"

definition IsValueInRangeForNumericType :: "num_type \<Rightarrow> num_type \<Rightarrow> int \<Rightarrow> bool" where
  "IsValueInRangeForNumericType dst src value =
     (case IsValueInRangeFastOp dst src of Some f \<Rightarrow> f value
      | None \<Rightarrow> RangeCheck_IsValid (DstRangeRelationToSrcRange dst src value))"

text \<open>A failing \<open>checked_cast\<close> traps.\<close>

definition checked_cast :: "num_type \<Rightarrow> num_type \<Rightarrow> int \<Rightarrow> int option" where
  "checked_cast dst src value =
     (if IsValueInRangeForNumericType dst src value then Some (static_cast dst value) else None)"

definition saturated_cast_impl :: "num_type \<Rightarrow> int \<Rightarrow> RangeCheck \<Rightarrow> int" where
  "saturated_cast_impl dst value constraint =
     (if \<not> is_overflow constraint
      then (if \<not> is_underflow constraint then static_cast dst value else nt_lowest dst)
      else nt_max dst)"

definition SaturateFastOp :: "num_type \<Rightarrow> num_type \<Rightarrow> int \<Rightarrow> int" where
  "SaturateFastOp dst src value =
     (let saturated = CommonMaxOrMin dst src
            (IsMaxInRangeForNumericType dst src \<or> \<not> IsMinInRangeForNumericType dst src \<and> IsValueNegative src value)
      in if IsValueInRangeForNumericType dst src value then static_cast dst value else saturated)"

text \<open>\<open>constant\<close>: whether the compiler knows the value (\<open>__builtin_constant_p\<close>).\<close>

definition saturated_cast :: "bool \<Rightarrow> num_type \<Rightarrow> num_type \<Rightarrow> int \<Rightarrow> int" where
  "saturated_cast constant dst src value =
     (if \<not> constant then SaturateFastOp dst src value
      else saturated_cast_impl dst value (DstRangeRelationToSrcRange dst src value))"

text \<open>\<open>strict_cast\<close>, where it compiles.\<close>

definition strict_cast :: "num_type \<Rightarrow> num_type \<Rightarrow> int \<Rightarrow> int option" where
  "strict_cast dst src value =
     (if StaticDstRangeRelationToSrcRange dst src = NUMERIC_RANGE_CONTAINED then Some (static_cast dst value) else None)"

end
