(* ===== verification/Checked_Math.thy ===== *)
theory Checked_Math
  imports Base_Numerics
begin

text \<open>
  \<open>CheckedNumeric\<close> and \<open>ClampedNumeric\<close>.  An operation on types \<open>t\<close> and \<open>u\<close> with a destination of
  type \<open>v\<close> gets the old content of the destination and gives back whether it succeeded and the new
  content, which stays the old one on the early returns.
\<close>

unbundle bit_operations_syntax

section \<open>Checked operations\<close>

definition CheckedAddImpl :: "num_type \<Rightarrow> int \<Rightarrow> int \<Rightarrow> bool \<times> int" where
  "CheckedAddImpl t x y =
     (let u = make_unsigned t; ux = static_cast u x; uy = static_cast u y; uresult = static_cast u (ux + uy)
      in (if is_signed t then static_cast (make_signed t) ((uresult XOR ux) AND (uresult XOR uy)) \<ge> 0 else uresult \<ge> uy,
          static_cast t uresult))"

text \<open>The promoted type of an addition or subtraction: at most a machine word wide if possible.\<close>

definition word_promotion :: "nat \<Rightarrow> num_type \<Rightarrow> num_type \<Rightarrow> num_type" where
  "word_promotion ptr t u =
     (let fast = FastIntegerArithmeticPromotion t u
      in if IntegerBitsPlusSign fast > ptr then fst (BigEnoughPromotion t u) else fast)"

definition CheckedAddOp :: "nat \<Rightarrow> num_type \<Rightarrow> num_type \<Rightarrow> num_type \<Rightarrow> int \<Rightarrow> int \<Rightarrow> int \<Rightarrow> bool \<times> int" where
  "CheckedAddOp ptr t u v x y result =
     (let p = word_promotion ptr t u
      in if \<not> IsValueInRangeForNumericType p t x \<or> \<not> IsValueInRangeForNumericType p u y then (False, result)
         else let (is_valid, presult) =
                    if IsIntegerArithmeticSafe p t u then (True, static_cast p (static_cast p x + static_cast p y))
                    else CheckedAddImpl p (static_cast p x) (static_cast p y)
              in (is_valid \<and> IsValueInRangeForNumericType v p presult, static_cast v presult))"

definition CheckedSubImpl :: "num_type \<Rightarrow> int \<Rightarrow> int \<Rightarrow> bool \<times> int" where
  "CheckedSubImpl t x y =
     (let u = make_unsigned t; ux = static_cast u x; uy = static_cast u y; uresult = static_cast u (ux - uy)
      in (if is_signed t then static_cast (make_signed t) ((uresult XOR ux) AND (ux XOR uy)) \<ge> 0 else x \<ge> y,
          static_cast t uresult))"

definition CheckedSubOp :: "nat \<Rightarrow> num_type \<Rightarrow> num_type \<Rightarrow> num_type \<Rightarrow> int \<Rightarrow> int \<Rightarrow> int \<Rightarrow> bool \<times> int" where
  "CheckedSubOp ptr t u v x y result =
     (let p = word_promotion ptr t u
      in if \<not> IsValueInRangeForNumericType p t x \<or> \<not> IsValueInRangeForNumericType p u y then (False, result)
         else let (is_valid, presult) =
                    if IsIntegerArithmeticSafe p t u then (True, static_cast p (static_cast p x - static_cast p y))
                    else CheckedSubImpl p (static_cast p x) (static_cast p y)
              in (is_valid \<and> IsValueInRangeForNumericType v p presult, static_cast v presult))"

definition CheckedMulImpl :: "num_type \<Rightarrow> int \<Rightarrow> int \<Rightarrow> bool \<times> int" where
  "CheckedMulImpl t x y =
     (let u = make_unsigned t; ux = SafeUnsignedAbs t x; uy = SafeUnsignedAbs t y; uresult = static_cast u (ux * uy);
          is_negative = (is_signed t \<and> static_cast (make_signed t) (x XOR y) < 0)
      in (uy \<le> of_bool (\<not> is_signed t \<or> is_negative) \<or> ux \<le> static_cast u (nt_max t + of_bool is_negative) div uy,
          static_cast t (if is_negative then static_cast u (0 - uresult) else uresult)))"

definition CheckedMulOp :: "num_type \<Rightarrow> num_type \<Rightarrow> num_type \<Rightarrow> int \<Rightarrow> int \<Rightarrow> int \<Rightarrow> bool \<times> int" where
  "CheckedMulOp t u v x y result =
     (let p = FastIntegerArithmeticPromotion t u
      in if (\<not> IsValueInRangeForNumericType p t x \<or> \<not> IsValueInRangeForNumericType p u y) \<and> x \<noteq> 0 \<and> y \<noteq> 0
         then (False, result)
         else let (is_valid, presult) =
                    if IsIntegerArithmeticSafe p t u then (True, static_cast p (static_cast p x * static_cast p y))
                    else CheckedMulImpl p (static_cast p x) (static_cast p y)
              in (is_valid \<and> IsValueInRangeForNumericType v p presult, static_cast v presult))"

definition CheckedDivOp :: "num_type \<Rightarrow> num_type \<Rightarrow> num_type \<Rightarrow> int \<Rightarrow> int \<Rightarrow> int \<Rightarrow> bool \<times> int" where
  "CheckedDivOp t u v x y result =
     (let p = fst (BigEnoughPromotion t u)
      in if y = 0 then (False, result)
         else if is_signed t \<and> is_signed u \<and> IsTypeInRangeForNumericType t p \<and>
                 static_cast p x = nt_lowest p \<and> y = static_cast u (- 1) then (False, result)
         else if (\<not> IsValueInRangeForNumericType p t x \<or> \<not> IsValueInRangeForNumericType p u y) \<and> x \<noteq> 0
         then (False, result)
         else let presult = static_cast p (static_cast p x sdiv static_cast p y)
              in (IsValueInRangeForNumericType v p presult, static_cast v presult))"

text \<open>
  The remainder of the lowest value and \<open>- 1\<close> is undefined in C++ unless the operands are promoted
  to a wider type; \<open>None\<close> stands for that (the processors raise an exception).
\<close>

definition CheckedModOp :: "num_type \<Rightarrow> num_type \<Rightarrow> num_type \<Rightarrow> int \<Rightarrow> int \<Rightarrow> int \<Rightarrow> (bool \<times> int) option" where
  "CheckedModOp t u v x y result =
     (let p = fst (BigEnoughPromotion t u)
      in if y \<noteq> 0
         then (if is_signed p \<and> static_cast p x = nt_lowest (promote p) \<and> static_cast p y = - 1 then None
               else let presult = static_cast p (static_cast p x smod static_cast p y)
                    in Some (IsValueInRangeForNumericType v p presult, static_cast v (static_cast p presult)))
         else Some (False, result))"

definition CheckedLshOp :: "num_type \<Rightarrow> num_type \<Rightarrow> num_type \<Rightarrow> int \<Rightarrow> int \<Rightarrow> int \<Rightarrow> bool \<times> int" where
  "CheckedLshOp t u v x shift result =
     (if \<not> IsValueNegative t x \<and> as_unsigned u shift < as_unsigned Int32 (int (digits t))
      then let result = static_cast v (static_cast (promote (make_unsigned t)) (push_bit (nat shift) (as_unsigned t x)));
               c = arith_type v t
           in (static_cast c (drop_bit (nat shift) result) = static_cast c x, result)
      else (is_signed t \<and> x = 0 \<and> as_unsigned u shift = as_unsigned Int32 (int (digits t)), result))"

definition CheckedRshOp :: "num_type \<Rightarrow> num_type \<Rightarrow> num_type \<Rightarrow> int \<Rightarrow> int \<Rightarrow> int \<Rightarrow> bool \<times> int" where
  "CheckedRshOp t u v x shift result =
     (if as_unsigned u shift < int (IntegerBitsPlusSign t)
      then let tmp = static_cast t (drop_bit (nat shift) x)
           in (IsValueInRangeForNumericType v t tmp, static_cast v tmp)
      else (False, result))"

definition bitwise_type :: "num_type \<Rightarrow> num_type \<Rightarrow> num_type" where
  "bitwise_type t u = make_unsigned (MaxExponentPromotion t u)"

definition CheckedAndOp :: "num_type \<Rightarrow> num_type \<Rightarrow> num_type \<Rightarrow> int \<Rightarrow> int \<Rightarrow> int \<Rightarrow> bool \<times> int" where
  "CheckedAndOp t u v x y result =
     (let r = bitwise_type t u; tmp = static_cast r x AND static_cast r y
      in (IsValueInRangeForNumericType v r tmp, static_cast v tmp))"

definition CheckedOrOp :: "num_type \<Rightarrow> num_type \<Rightarrow> num_type \<Rightarrow> int \<Rightarrow> int \<Rightarrow> int \<Rightarrow> bool \<times> int" where
  "CheckedOrOp t u v x y result =
     (let r = bitwise_type t u; tmp = static_cast r x OR static_cast r y
      in (IsValueInRangeForNumericType v r tmp, static_cast v tmp))"

definition CheckedXorOp :: "num_type \<Rightarrow> num_type \<Rightarrow> num_type \<Rightarrow> int \<Rightarrow> int \<Rightarrow> int \<Rightarrow> bool \<times> int" where
  "CheckedXorOp t u v x y result =
     (let r = bitwise_type t u; tmp = static_cast r x XOR static_cast r y
      in (IsValueInRangeForNumericType v r tmp, static_cast v tmp))"

definition CheckedMaxOp :: "num_type \<Rightarrow> num_type \<Rightarrow> num_type \<Rightarrow> int \<Rightarrow> int \<Rightarrow> int \<Rightarrow> bool \<times> int" where
  "CheckedMaxOp t u v x y result =
     (let r = MaxExponentPromotion t u; tmp = if IsGreater t u x y then static_cast r x else static_cast r y
      in (IsValueInRangeForNumericType v r tmp, static_cast v tmp))"

definition CheckedMinOp :: "num_type \<Rightarrow> num_type \<Rightarrow> num_type \<Rightarrow> int \<Rightarrow> int \<Rightarrow> int \<Rightarrow> bool \<times> int" where
  "CheckedMinOp t u v x y result =
     (let r = LowestValuePromotion t u; tmp = if IsLess t u x y then static_cast r x else static_cast r y
      in (IsValueInRangeForNumericType v r tmp, static_cast v tmp))"

section \<open>Checked numbers\<close>

record CheckedNumeric =
  ck_valid :: bool
  ck_value :: int

definition NewState :: "num_type \<Rightarrow> num_type \<Rightarrow> int \<Rightarrow> bool \<Rightarrow> CheckedNumeric" where
  "NewState t src value is_valid =
     \<lparr>ck_valid = is_valid \<and> IsValueInRangeForNumericType t src value, ck_value = static_cast t value\<rparr>"

definition NewCheckedNumeric :: "num_type \<Rightarrow> num_type \<Rightarrow> int \<Rightarrow> CheckedNumeric" where
  "NewCheckedNumeric t src value =
     \<lparr>ck_valid = IsValueInRangeForNumericType t src value, ck_value = static_cast t value\<rparr>"

text \<open>\<open>IsValid<Dst>\<close> of a number of type \<open>t\<close>.\<close>

definition CheckedNumeric_IsValid :: "num_type \<Rightarrow> num_type \<Rightarrow> CheckedNumeric \<Rightarrow> bool" where
  "CheckedNumeric_IsValid dst t n \<longleftrightarrow> ck_valid n \<and> IsValueInRangeForNumericType dst t (ck_value n)"

definition ConvertChecked :: "num_type \<Rightarrow> num_type \<Rightarrow> CheckedNumeric \<Rightarrow> CheckedNumeric" where
  "ConvertChecked t src rhs = NewState t src (ck_value rhs) (CheckedNumeric_IsValid src src rhs)"

definition AssignIfValid :: "num_type \<Rightarrow> num_type \<Rightarrow> CheckedNumeric \<Rightarrow> int option" where
  "AssignIfValid dst t n = (if CheckedNumeric_IsValid dst t n then Some (static_cast dst (ck_value n)) else None)"

definition ValueOrDie :: "num_type \<Rightarrow> num_type \<Rightarrow> CheckedNumeric \<Rightarrow> int option" where
  "ValueOrDie dst t n = (if CheckedNumeric_IsValid dst t n then Some (static_cast dst (ck_value n)) else None)"

definition ValueOrDefault :: "num_type \<Rightarrow> num_type \<Rightarrow> num_type \<Rightarrow> CheckedNumeric \<Rightarrow> int \<Rightarrow> int option" where
  "ValueOrDefault dst t src n default_value =
     (if CheckedNumeric_IsValid dst t n then Some (static_cast dst (ck_value n)) else checked_cast dst src default_value)"

text \<open>
  \<open>MathOp\<close>: an operation on two numbers, and the assigning form.  \<open>f\<close> is \<open>Math::Do\<close>, with the type of
  the destination first; the types of the operands are \<open>l\<close> and \<open>r\<close>.
\<close>

definition MathOp ::
  "num_type \<Rightarrow> (num_type \<Rightarrow> int \<Rightarrow> int \<Rightarrow> int \<Rightarrow> bool \<times> int) \<Rightarrow> num_type \<Rightarrow> num_type \<Rightarrow> CheckedNumeric \<Rightarrow> CheckedNumeric \<Rightarrow> CheckedNumeric"
where
  "MathOp t f l r lhs rhs =
     (let (is_valid, result) =
            if CheckedNumeric_IsValid l l lhs \<and> CheckedNumeric_IsValid r r rhs then f t (ck_value lhs) (ck_value rhs) 0 else (False, 0)
      in NewState t t result is_valid)"

definition MathOpAssign ::
  "num_type \<Rightarrow> (num_type \<Rightarrow> int \<Rightarrow> int \<Rightarrow> int \<Rightarrow> bool \<times> int) \<Rightarrow> num_type \<Rightarrow> CheckedNumeric \<Rightarrow> CheckedNumeric \<Rightarrow> CheckedNumeric"
where
  "MathOpAssign t f r this rhs =
     (let (is_valid, result) =
            if ck_valid this \<and> CheckedNumeric_IsValid r r rhs then f t (ck_value this) (ck_value rhs) 0 else (False, 0)
      in NewState t t result is_valid)"

definition NegateWrapper :: "num_type \<Rightarrow> int \<Rightarrow> int" where
  "NegateWrapper t value = (let u = make_unsigned t in static_cast t (static_cast u (0 - static_cast u value)))"

definition InvertWrapper :: "num_type \<Rightarrow> int \<Rightarrow> int" where
  "InvertWrapper t value = static_cast (make_unsigned t) (NOT value)"

definition FastRuntimeNegate :: "nat \<Rightarrow> num_type \<Rightarrow> CheckedNumeric \<Rightarrow> CheckedNumeric" where
  "FastRuntimeNegate ptr t n =
     (let (success, result) = CheckedSubOp ptr t t t 0 (ck_value n) 0 in NewState t t result (CheckedNumeric_IsValid t t n \<and> success))"

definition NegateChecked :: "nat \<Rightarrow> bool \<Rightarrow> num_type \<Rightarrow> CheckedNumeric \<Rightarrow> CheckedNumeric" where
  "NegateChecked ptr constant t n =
     (if constant \<or> \<not> is_signed t
      then NewState t t (NegateWrapper t (ck_value n))
             (CheckedNumeric_IsValid t t n \<and> (\<not> is_signed t \<or> NegateWrapper t (ck_value n) \<noteq> nt_lowest t))
      else FastRuntimeNegate ptr t n)"

definition InvertChecked :: "num_type \<Rightarrow> CheckedNumeric \<Rightarrow> CheckedNumeric" where
  "InvertChecked t n =
     (let u = make_unsigned t
      in ConvertChecked t u (NewState u u (InvertWrapper t (ck_value n)) (CheckedNumeric_IsValid t t n)))"

definition AbsChecked :: "nat \<Rightarrow> bool \<Rightarrow> num_type \<Rightarrow> CheckedNumeric \<Rightarrow> CheckedNumeric" where
  "AbsChecked ptr constant t n = (if \<not> IsValueNegative t (ck_value n) then n else NegateChecked ptr constant t n)"

definition UnsignedAbsChecked :: "num_type \<Rightarrow> CheckedNumeric \<Rightarrow> CheckedNumeric" where
  "UnsignedAbsChecked t n =
     NewState (make_unsigned t) (make_unsigned t) (SafeUnsignedAbs t (ck_value n)) (ck_valid n)"

section \<open>Clamped operations\<close>

definition SaturatedNegWrapper :: "num_type \<Rightarrow> int \<Rightarrow> int" where
  "SaturatedNegWrapper t value =
     (if is_signed t then (if NegateWrapper t value \<noteq> nt_lowest t then NegateWrapper t value else nt_max t) else 0)"

text \<open>\<open>IsValueNegative<T>\<close> converts its argument to \<open>T\<close> first.\<close>

definition SaturatedAbsWrapper :: "num_type \<Rightarrow> int \<Rightarrow> int" where
  "SaturatedAbsWrapper t value =
     static_cast t (SafeUnsignedAbs t value - of_bool (IsValueNegative t (static_cast t (SafeUnsignedAbs t value))))"

definition ClampedAddOp :: "nat \<Rightarrow> num_type \<Rightarrow> num_type \<Rightarrow> num_type \<Rightarrow> int \<Rightarrow> int \<Rightarrow> int" where
  "ClampedAddOp ptr t u v x y =
     (let saturated = CommonMaxOrMin v v (IsValueNegative u y); (ok, result) = CheckedAddOp ptr t u v x y 0
      in if ok then result else saturated)"

definition ClampedSubOp :: "nat \<Rightarrow> num_type \<Rightarrow> num_type \<Rightarrow> num_type \<Rightarrow> int \<Rightarrow> int \<Rightarrow> int" where
  "ClampedSubOp ptr t u v x y =
     (let saturated = CommonMaxOrMin v v (\<not> IsValueNegative u y); (ok, result) = CheckedSubOp ptr t u v x y 0
      in if ok then result else saturated)"

definition ClampedMulOp :: "num_type \<Rightarrow> num_type \<Rightarrow> num_type \<Rightarrow> int \<Rightarrow> int \<Rightarrow> int" where
  "ClampedMulOp t u v x y =
     (let (ok, result) = CheckedMulOp t u v x y 0;
          saturated = CommonMaxOrMin v v (IsValueNegative t x \<noteq> IsValueNegative u y)
      in if ok then result else saturated)"

definition ClampedDivOp :: "num_type \<Rightarrow> num_type \<Rightarrow> num_type \<Rightarrow> int \<Rightarrow> int \<Rightarrow> int" where
  "ClampedDivOp t u v x y =
     (let (ok, result) = CheckedDivOp t u v x y 0
      in if ok then result
         else if x \<noteq> 0 then CommonMaxOrMin v v (IsValueNegative t x \<noteq> IsValueNegative u y) else 0)"

definition ClampedModOp :: "num_type \<Rightarrow> num_type \<Rightarrow> num_type \<Rightarrow> int \<Rightarrow> int \<Rightarrow> int option" where
  "ClampedModOp t u v x y =
     (case CheckedModOp t u v x y 0 of None \<Rightarrow> None
      | Some (ok, result) \<Rightarrow> Some (if ok then result else static_cast v x))"

definition ClampedLshOp :: "num_type \<Rightarrow> num_type \<Rightarrow> num_type \<Rightarrow> int \<Rightarrow> int \<Rightarrow> int" where
  "ClampedLshOp t u v x shift =
     (let result = static_cast v (static_cast (promote (make_unsigned t)) (push_bit (nat shift) (as_unsigned t x)));
          c = arith_type v t
      in if shift < int (digits t) \<and> static_cast c (drop_bit (nat shift) result) = static_cast c x then result
         else if x \<noteq> 0 then CommonMaxOrMin v v (IsValueNegative t x) else 0)"

definition ClampedRshOp :: "bool \<Rightarrow> num_type \<Rightarrow> num_type \<Rightarrow> num_type \<Rightarrow> int \<Rightarrow> int \<Rightarrow> int" where
  "ClampedRshOp constant t u v x shift =
     (let saturated = static_cast v (as_unsigned v 0 - of_bool (IsValueNegative t x))
      in if shift < int (IntegerBitsPlusSign t) then saturated_cast constant v (promote t) (drop_bit (nat shift) x)
         else saturated)"

definition ClampedAndOp :: "num_type \<Rightarrow> num_type \<Rightarrow> num_type \<Rightarrow> int \<Rightarrow> int \<Rightarrow> int" where
  "ClampedAndOp t u v x y = static_cast v (static_cast (bitwise_type t u) x AND static_cast (bitwise_type t u) y)"

definition ClampedOrOp :: "num_type \<Rightarrow> num_type \<Rightarrow> num_type \<Rightarrow> int \<Rightarrow> int \<Rightarrow> int" where
  "ClampedOrOp t u v x y = static_cast v (static_cast (bitwise_type t u) x OR static_cast (bitwise_type t u) y)"

definition ClampedXorOp :: "num_type \<Rightarrow> num_type \<Rightarrow> num_type \<Rightarrow> int \<Rightarrow> int \<Rightarrow> int" where
  "ClampedXorOp t u v x y = static_cast v (static_cast (bitwise_type t u) x XOR static_cast (bitwise_type t u) y)"

definition ClampedMaxOp :: "bool \<Rightarrow> num_type \<Rightarrow> num_type \<Rightarrow> num_type \<Rightarrow> int \<Rightarrow> int \<Rightarrow> int" where
  "ClampedMaxOp constant t u v x y =
     (if IsGreater t u x y then saturated_cast constant v t x else saturated_cast constant v u y)"

definition ClampedMinOp :: "bool \<Rightarrow> num_type \<Rightarrow> num_type \<Rightarrow> num_type \<Rightarrow> int \<Rightarrow> int \<Rightarrow> int" where
  "ClampedMinOp constant t u v x y =
     (if IsLess t u x y then saturated_cast constant v t x else saturated_cast constant v u y)"

section \<open>Spans of time\<close>

text \<open>\<open>SaturatedAdd\<close> and \<open>SaturatedSub\<close> of \<open>time.cpp\<close> with the calls that their bodies make.\<close>

definition CheckedSaturatedAdd :: "nat \<Rightarrow> int \<Rightarrow> int \<Rightarrow> int" where
  "CheckedSaturatedAdd ptr delta value =
     (let rv = MathOpAssign Int64 (CheckedAddOp ptr Int64 Int64) Int64 (NewCheckedNumeric Int64 Int64 delta)
                 \<lparr>ck_valid = True, ck_value = value\<rparr>
      in case (if CheckedNumeric_IsValid Int64 Int64 rv then ValueOrDie Int64 Int64 rv else None) of Some z \<Rightarrow> z
         | None \<Rightarrow> if value < 0 then nt_lowest Int64 else nt_max Int64)"

definition CheckedSaturatedSub :: "nat \<Rightarrow> int \<Rightarrow> int \<Rightarrow> int" where
  "CheckedSaturatedSub ptr delta value =
     (let rv = MathOpAssign Int64 (CheckedSubOp ptr Int64 Int64) Int64 (NewCheckedNumeric Int64 Int64 delta)
                 \<lparr>ck_valid = True, ck_value = value\<rparr>
      in case (if CheckedNumeric_IsValid Int64 Int64 rv then ValueOrDie Int64 Int64 rv else None) of Some z \<Rightarrow> z
         | None \<Rightarrow> if value < 0 then nt_max Int64 else nt_lowest Int64)"

end
