(* ===== verification/Numeric_Laws.thy ===== *)
theory Numeric_Laws
  imports Checked_Math
begin

text \<open>
  Casts between the integer types, range checks, mixed comparisons and saturating conversions:
  each is the operation on the integers that it stands for.
\<close>

text \<open>What a type can hold.\<close>

definition in_type :: "num_type \<Rightarrow> int \<Rightarrow> bool" where
  "in_type t v \<longleftrightarrow> nt_lowest t \<le> v \<and> v \<le> nt_max t"

section \<open>Casts\<close>

lemma limits [simp]:
  "nt_lowest Int8 = -128" "nt_lowest Int16 = -32768" "nt_lowest Int32 = -2147483648" "nt_lowest Int64 = -9223372036854775808"
  "nt_lowest UInt8 = 0" "nt_lowest UInt16 = 0" "nt_lowest UInt32 = 0" "nt_lowest UInt64 = 0"
  "nt_max Int8 = 127" "nt_max Int16 = 32767" "nt_max Int32 = 2147483647" "nt_max Int64 = 9223372036854775807"
  "nt_max UInt8 = 255" "nt_max UInt16 = 65535" "nt_max UInt32 = 4294967295" "nt_max UInt64 = 18446744073709551615"
  by (simp_all add: nt_lowest_def nt_max_def)

lemma IntegerBits [simp]:
  "IntegerBitsPlusSign Int8 = 8" "IntegerBitsPlusSign Int16 = 16" "IntegerBitsPlusSign Int32 = 32" "IntegerBitsPlusSign Int64 = 64"
  "IntegerBitsPlusSign UInt8 = 8" "IntegerBitsPlusSign UInt16 = 16" "IntegerBitsPlusSign UInt32 = 32" "IntegerBitsPlusSign UInt64 = 64"
  by (simp_all add: IntegerBitsPlusSign_def)

lemma static_cast_shift: "static_cast t v = (v - nt_lowest t) mod 2 ^ IntegerBitsPlusSign t + nt_lowest t"
  by (auto simp: static_cast_def signed_take_bit_eq_take_bit_shift take_bit_eq_mod nt_lowest_def IntegerBitsPlusSign_def)

lemma span: "nt_max t - nt_lowest t = 2 ^ IntegerBitsPlusSign t - 1" by (cases t) simp_all

lemma static_cast_in_type [simp, intro]: "in_type t (static_cast t v)"
proof -
  have "(v - nt_lowest t) mod 2 ^ IntegerBitsPlusSign t \<le> 2 ^ IntegerBitsPlusSign t - 1"
    using pos_mod_bound [of "2 ^ IntegerBitsPlusSign t" "v - nt_lowest t"] by simp
  then have "(v - nt_lowest t) mod 2 ^ IntegerBitsPlusSign t + nt_lowest t \<le> nt_max t"
    using span [of t] by linarith
  then show ?thesis by (simp add: static_cast_shift in_type_def)
qed

lemma static_cast_by:
  assumes "in_type t w" "w = v + k * 2 ^ IntegerBitsPlusSign t"
  shows "static_cast t v = w"
proof -
  have "(v - nt_lowest t) mod 2 ^ IntegerBitsPlusSign t = (w - nt_lowest t) mod 2 ^ IntegerBitsPlusSign t"
    using assms(2) by (simp add: algebra_simps mod_eq_dvd_iff)
  also have "\<dots> = w - nt_lowest t"
    using assms(1) span [of t] by (intro mod_pos_pos_trivial) (auto simp: in_type_def)
  finally show ?thesis by (simp add: static_cast_shift)
qed

lemma static_cast_id: "in_type t v \<Longrightarrow> static_cast t v = v"
  by (rule static_cast_by [of _ _ _ 0]) simp_all

lemma static_cast_within: "nt_lowest t \<le> v \<Longrightarrow> v \<le> nt_max t \<Longrightarrow> static_cast t v = v"
  by (rule static_cast_id) (simp add: in_type_def)

lemma static_cast_iff: "static_cast t v = v \<longleftrightarrow> in_type t v"
  using static_cast_id static_cast_in_type [of t v] by metis

lemma static_cast_twice:
  assumes "in_type t v" "IntegerBitsPlusSign t \<le> IntegerBitsPlusSign u"
  shows "static_cast t (static_cast u v) = v"
proof (rule static_cast_by [OF assms(1)])
  let ?q = "(v - nt_lowest u) div 2 ^ IntegerBitsPlusSign u"
  have "v = static_cast u v + ?q * 2 ^ IntegerBitsPlusSign u"
    unfolding static_cast_shift by (simp add: minus_div_mult_eq_mod [symmetric])
  then show "v = static_cast u v + (?q * 2 ^ (IntegerBitsPlusSign u - IntegerBitsPlusSign t)) * 2 ^ IntegerBitsPlusSign t"
    using assms(2) by (simp add: mult.assoc power_add [symmetric])
qed

section \<open>Range checks\<close>

lemma kShift_zero [simp]: "kShift dst src = 0" by (simp add: kShift_def MaxExponent_def)

lemma unsigned_limits [simp]:
  "nt_lowest (make_unsigned t) = 0" "nt_max (make_unsigned t) = nt_max t - nt_lowest t"
  "IntegerBitsPlusSign (make_unsigned t) = IntegerBitsPlusSign t" "is_signed (make_unsigned t) \<longleftrightarrow> False"
  "make_unsigned (make_unsigned t) = make_unsigned t"
  by (cases t; simp)+

lemma signs: "\<not> is_signed t \<Longrightarrow> nt_lowest t = 0" "is_signed t \<Longrightarrow> nt_lowest t = - nt_max t - 1"
    "nt_lowest t \<le> 0" "nt_max t > 0"
  by (cases t; simp)+

lemma negative_value: "in_type t v \<Longrightarrow> IsValueNegative t v \<longleftrightarrow> v < 0"
  using signs(1) [of t] by (auto simp: IsValueNegative_def in_type_def)

lemma SafeUnsignedAbs_abs:
  assumes "in_type t v"
  shows "SafeUnsignedAbs t v = \<bar>v\<bar>"
proof (cases "v < 0")
  case True
  then have s: "is_signed t" using assms signs(1) [of t] by (auto simp: in_type_def)
  have "static_cast (make_unsigned t) v = v + 2 ^ IntegerBitsPlusSign t"
    by (rule static_cast_by [of _ _ _ 1]) (use True assms span [of t] signs(2) [OF s] in \<open>simp_all add: in_type_def\<close>)
  moreover have "static_cast (make_unsigned t) (0 - (v + 2 ^ IntegerBitsPlusSign t)) = - v"
    by (rule static_cast_by [of _ _ _ 1]) (use True assms signs(2) [OF s] in \<open>simp_all add: in_type_def\<close>)
  ultimately show ?thesis using True negative_value [OF assms] by (simp add: SafeUnsignedAbs_def Let_def)
next
  case False
  then have "static_cast (make_unsigned t) v = v"
    using assms signs(3) [of t] by (intro static_cast_id) (simp add: in_type_def)
  then show ?thesis using False negative_value [OF assms] by (simp add: SafeUnsignedAbs_def Let_def)
qed

lemma Adjust_id:
  assumes "in_type dst v"
  shows "Adjust dst src v = v"
proof -
  have one: "static_cast dst 1 = 1" by (cases dst) (simp_all add: static_cast_within)
  have "static_cast (make_unsigned (promote (make_unsigned dst))) \<bar>v\<bar> = \<bar>v\<bar>"
    using assms by (intro static_cast_id) (cases dst; auto simp: in_type_def promote_def)
  moreover have "static_cast dst (static_cast (make_signed (promote (make_unsigned dst))) v) = v"
    using assms by (rule static_cast_twice) (cases dst; simp add: promote_def)
  moreover have "NOT \<bar>v\<bar> + 1 = v" if "v < 0" using that by (simp add: not_int_def)
  ultimately show ?thesis
    using assms by (cases "v < 0") (simp_all add: Adjust_def one SafeUnsignedAbs_abs ConditionalNegate_def negative_value)
qed

lemma narrow_limits [simp]: "narrow_max dst src = nt_max dst" "narrow_lowest dst src = nt_lowest dst"
  unfolding narrow_max_def narrow_lowest_def using signs(3,4) [of dst] by (auto intro!: Adjust_id simp: in_type_def)

lemma arith_types:
  "promote t = (if t \<in> {UInt32, Int64, UInt64} then t else Int32)"
  "arith_type l r = (if l = UInt64 \<or> r = UInt64 then UInt64 else if l = Int64 \<or> r = Int64 then Int64
     else if l = UInt32 \<or> r = UInt32 then UInt32 else Int32)"
  by (cases t; simp add: promote_def) (cases l; cases r; simp add: arith_type_def promote_def Let_def)

lemma range_relation:
  "StaticDstRangeRelationToSrcRange dst src = NUMERIC_RANGE_CONTAINED \<longleftrightarrow> nt_lowest dst \<le> nt_lowest src \<and> nt_max src \<le> nt_max dst"
  by (cases dst; cases src; simp add: StaticDstRangeRelationToSrcRange_def MaxExponent_def)

lemma range_check_exact:
  assumes "in_type src v"
  shows "DstRangeRelationToSrcRange dst src v = \<lparr>is_underflow = v < nt_lowest dst, is_overflow = nt_max dst < v\<rparr>"
  unfolding DstRangeRelationToSrcRange_def range_relation
  using assms
  by (cases dst; cases src; simp add: in_type_def contained_check_def signed_check_def unsigned_check_def
      unsigned_to_signed_check_def signed_to_unsigned_check_def NewRangeCheck_def arith_types static_cast_within not_le Let_def;
      linarith?)

section \<open>Comparisons and conversions\<close>

lemma static_cast_common:
  assumes "in_type l x" "in_type r y" "in_type r x" "in_type l y"
  shows "static_cast (arith_type l r) x = x" "static_cast (arith_type l r) y = y"
  using assms by (cases l; cases r; simp add: arith_types in_type_def static_cast_within)+

lemma comparisons_of_values:
  assumes "in_type l x" "in_type r y"
  shows "IsLess l r x y \<longleftrightarrow> x < y" "IsLessOrEqual l r x y \<longleftrightarrow> x \<le> y" "IsGreater l r x y \<longleftrightarrow> x > y"
    "IsGreaterOrEqual l r x y \<longleftrightarrow> x \<ge> y" "IsEqual l r x y \<longleftrightarrow> x = y" "IsNotEqual l r x y \<longleftrightarrow> x \<noteq> y"
proof -
  note d = IsLess_def IsLessOrEqual_def IsGreater_def IsGreaterOrEqual_def IsEqual_def IsNotEqual_def
    IsUnderflow_def IsOverflow_def range_check_exact [OF assms(1)] range_check_exact [OF assms(2)] Let_def
  have i: "in_type l x" "in_type r y" by fact+
  consider "in_type r x" "in_type l y" | "\<not> in_type r x \<or> \<not> in_type l y" by blast
  note c = this
  show "IsLess l r x y \<longleftrightarrow> x < y"
    using c by cases (use i in \<open>auto simp: d in_type_def static_cast_common [OF i]\<close>)
  show "IsLessOrEqual l r x y \<longleftrightarrow> x \<le> y"
    using c by cases (use i in \<open>auto simp: d in_type_def static_cast_common [OF i]\<close>)
  show "IsGreater l r x y \<longleftrightarrow> x > y"
    using c by cases (use i in \<open>auto simp: d in_type_def static_cast_common [OF i]\<close>)
  show "IsGreaterOrEqual l r x y \<longleftrightarrow> x \<ge> y"
    using c by cases (use i in \<open>auto simp: d in_type_def static_cast_common [OF i]\<close>)
  show "IsEqual l r x y \<longleftrightarrow> x = y"
    using c by cases (use i in \<open>auto simp: d in_type_def static_cast_common [OF i]\<close>)
  show "IsNotEqual l r x y \<longleftrightarrow> x \<noteq> y"
    using c by cases (use i in \<open>auto simp: d in_type_def static_cast_common [OF i]\<close>)
qed

lemma limits_in_type [simp]: "in_type t (nt_max t)" "in_type t (nt_lowest t)" "in_type t 0"
  using signs(3,4) [of t] by (simp_all add: in_type_def)

lemma in_range_limits:
  "IsMaxInRangeForNumericType dst src \<longleftrightarrow> nt_max src \<le> nt_max dst"
  "IsMinInRangeForNumericType dst src \<longleftrightarrow> nt_lowest dst \<le> nt_lowest src"
  unfolding IsMaxInRangeForNumericType_def IsMinInRangeForNumericType_def by (simp_all add: comparisons_of_values)

lemma common_limits: "CommonMax dst src = min (nt_max dst) (nt_max src)" "CommonMin dst src = max (nt_lowest dst) (nt_lowest src)"
proof -
  have "in_type dst (min (nt_max dst) (nt_max src))" "in_type dst (max (nt_lowest dst) (nt_lowest src))"
    using signs(3,4) [of dst] signs(3,4) [of src] by (auto simp: in_type_def)
  then show "CommonMax dst src = min (nt_max dst) (nt_max src)" "CommonMin dst src = max (nt_lowest dst) (nt_lowest src)"
    unfolding CommonMax_def CommonMin_def in_range_limits by (auto simp: static_cast_id min_def max_def)
qed

lemma in_range_exact:
  assumes "in_type src v"
  shows "IsValueInRangeForNumericType dst src v \<longleftrightarrow> in_type dst v"
proof -
  have narrow: "as_unsigned src v \<le> as_unsigned src (CommonMax src dst) \<longleftrightarrow> in_type dst v" if "is_signed src" "\<not> is_signed dst"
  proof -
    have "static_cast (make_unsigned src) v = (if v < 0 then v + 2 ^ IntegerBitsPlusSign src else v)"
      using assms span [of src] signs(2) [OF that(1)]
      by (auto simp: in_type_def intro: static_cast_by [of _ _ _ 1] static_cast_by [of _ _ _ 0])
    moreover have "static_cast (make_unsigned src) (CommonMax src dst) = min (nt_max src) (nt_max dst)"
      unfolding common_limits using signs(3,4) [of src] signs(4) [of dst] by (intro static_cast_id) (auto simp: in_type_def)
    ultimately show ?thesis
      using assms span [of src] signs(2) [OF that(1)] signs(1) [OF that(2)] by (auto simp: as_unsigned_def in_type_def)
  qed
  show ?thesis
    using narrow static_cast_iff [of dst v]
    by (auto simp: IsValueInRangeForNumericType_def IsValueInRangeFastOp_def range_check_exact [OF assms] RangeCheck_IsValid_def
        in_type_def not_less split: option.splits)
qed

text \<open>The value of a type that is nearest to a number.\<close>

definition clamp :: "num_type \<Rightarrow> int \<Rightarrow> int" where "clamp t v = max (nt_lowest t) (min (nt_max t) v)"

lemma clamp_cases: "clamp t v = (if in_type t v then v else if v < nt_lowest t then nt_lowest t else nt_max t)"
  using signs(3,4) [of t] by (auto simp: clamp_def in_type_def)

lemma saturated_cast_clamps:
  assumes "in_type src v"
  shows "saturated_cast constant dst src v = clamp dst v"
proof (cases "in_type dst v")
  case True
  then show ?thesis
    by (simp add: saturated_cast_def SaturateFastOp_def saturated_cast_impl_def in_range_exact [OF assms] range_check_exact [OF assms]
        clamp_cases static_cast_id) (simp add: in_type_def)
next
  case False
  moreover have "CommonMaxOrMin dst src (nt_max src \<le> nt_max dst \<or> \<not> nt_lowest dst \<le> nt_lowest src \<and> IsValueNegative src v) =
      (if v < nt_lowest dst then nt_lowest dst else nt_max dst)"
    using False assms signs(3,4) [of dst] unfolding CommonMaxOrMin_def common_limits negative_value [OF assms]
    by (auto simp: in_type_def min_def max_def)
  ultimately show ?thesis
    using signs(3,4) [of dst]
    by (auto simp: saturated_cast_def SaturateFastOp_def saturated_cast_impl_def in_range_exact [OF assms] in_range_limits
        range_check_exact [OF assms] clamp_cases in_type_def)
qed

end
