(* ===== verification/Checked_Math_Laws.thy ===== *)
theory Checked_Math_Laws
  imports Numeric_Laws
begin

text \<open>
  Checked and clamped arithmetic against the arithmetic of the integers: the portable code at one
  width, the promotions, the operations on two types, chains of operations, spans of time and
  shifts, and the places where the result is not the exact one.
\<close>

section \<open>Checked addition, subtraction and multiplication at one width\<close>

lemma static_cast_ex: "\<exists>k. static_cast t v = v + k * 2 ^ IntegerBitsPlusSign t"
proof
  show "static_cast t v = v + (- ((v - nt_lowest t) div 2 ^ IntegerBitsPlusSign t)) * 2 ^ IntegerBitsPlusSign t"
    unfolding static_cast_shift by (simp add: minus_div_mult_eq_mod [symmetric])
qed

lemma static_cast_cong: "IntegerBitsPlusSign u = IntegerBitsPlusSign t \<Longrightarrow> static_cast t (static_cast u v) = static_cast t v"
proof -
  assume b: "IntegerBitsPlusSign u = IntegerBitsPlusSign t"
  obtain k where k: "static_cast t v = v + k * 2 ^ IntegerBitsPlusSign t" using static_cast_ex by blast
  obtain j where j: "static_cast u v = v + j * 2 ^ IntegerBitsPlusSign t" using static_cast_ex [of u] b by metis
  show ?thesis by (rule static_cast_by [of _ _ _ "k - j"]) (simp, simp only: j k, simp add: algebra_simps)
qed

lemma static_cast_operation:
  assumes "IntegerBitsPlusSign u = IntegerBitsPlusSign t"
  shows "static_cast t (static_cast u x + static_cast u y) = static_cast t (x + y)"
    "static_cast t (static_cast u x - static_cast u y) = static_cast t (x - y)"
proof -
  obtain i where i: "static_cast u x = x + i * 2 ^ IntegerBitsPlusSign t" using static_cast_ex [of u] assms by metis
  obtain j where j: "static_cast u y = y + j * 2 ^ IntegerBitsPlusSign t" using static_cast_ex [of u] assms by metis
  obtain k where k: "static_cast t (x + y) = x + y + k * 2 ^ IntegerBitsPlusSign t" using static_cast_ex by blast
  obtain l where l: "static_cast t (x - y) = x - y + l * 2 ^ IntegerBitsPlusSign t" using static_cast_ex by blast
  show "static_cast t (static_cast u x + static_cast u y) = static_cast t (x + y)"
    by (rule static_cast_by [of _ _ _ "k - i - j"]) (simp, simp only: i j k, simp add: algebra_simps)
  show "static_cast t (static_cast u x - static_cast u y) = static_cast t (x - y)"
    by (rule static_cast_by [of _ _ _ "l - i + j"]) (simp, simp only: i j l, simp add: algebra_simps)
qed

text \<open>The sign bit.\<close>

lemma casts_by_bits:
  "static_cast (make_signed t) z = signed_take_bit (IntegerBitsPlusSign t - 1) z"
  "static_cast (make_unsigned t) z = take_bit (IntegerBitsPlusSign t) z"
  "is_signed t \<Longrightarrow> static_cast t z = signed_take_bit (IntegerBitsPlusSign t - 1) z"
  by (cases t; simp add: static_cast_def)+

lemma sign_bit:
  "static_cast (make_signed t) z \<ge> 0 \<longleftrightarrow> \<not> bit z (IntegerBitsPlusSign t - 1)"
  "bit (static_cast (make_unsigned t) z) (IntegerBitsPlusSign t - 1) \<longleftrightarrow> bit z (IntegerBitsPlusSign t - 1)"
  "is_signed t \<Longrightarrow> bit z (IntegerBitsPlusSign t - 1) \<longleftrightarrow> static_cast t z < 0"
  by (simp_all add: casts_by_bits bit_take_bit_iff) (cases t; simp)

lemma wraps:
  assumes "\<not> in_type t z" "nt_lowest t - 2 ^ IntegerBitsPlusSign t \<le> z" "z \<le> nt_max t + 2 ^ IntegerBitsPlusSign t"
  shows "static_cast t z = (if z < 0 then z + 2 ^ IntegerBitsPlusSign t else z - 2 ^ IntegerBitsPlusSign t)"
proof (cases "z < 0")
  case True
  then show ?thesis using assms span [of t] signs(3,4) [of t] by (intro static_cast_by [of _ _ _ 1]) (auto simp: in_type_def)
next
  case False
  then show ?thesis using assms span [of t] signs(3,4) [of t] by (intro static_cast_by [of _ _ _ "-1"]) (auto simp: in_type_def)
qed

lemma CheckedAddImpl_exact:
  assumes "in_type t x" "in_type t y"
  shows "CheckedAddImpl t x y = (in_type t (x + y), static_cast t (x + y))"
proof -
  let ?r = "static_cast (make_unsigned t) (static_cast (make_unsigned t) x + static_cast (make_unsigned t) y)"
  have r: "static_cast t ?r = static_cast t (x + y)" "?r = static_cast (make_unsigned t) (x + y)"
    by (simp_all add: static_cast_cong static_cast_operation)
  have w: "static_cast t (x + y) = (if x + y < 0 then x + y + 2 ^ IntegerBitsPlusSign t else x + y - 2 ^ IntegerBitsPlusSign t)"
    if "\<not> in_type t (x + y)"
    using that assms span [of t] signs(3,4) [of t] by (intro wraps) (auto simp: in_type_def)
  show ?thesis
  proof (cases "is_signed t")
    case True
    have "static_cast (make_signed t) ((?r XOR static_cast (make_unsigned t) x) AND (?r XOR static_cast (make_unsigned t) y)) \<ge> 0 \<longleftrightarrow>
        \<not> ((static_cast t (x + y) < 0) \<noteq> (x < 0) \<and> (static_cast t (x + y) < 0) \<noteq> (y < 0))"
      unfolding r(2) sign_bit(1,2) bit_and_iff bit_xor_iff unfolding sign_bit(3) [OF True] using assms by (simp add: static_cast_id)
    also have "\<dots> \<longleftrightarrow> in_type t (x + y)"
      using assms w span [of t] signs(2) [OF True] by (cases "in_type t (x + y)") (auto simp: static_cast_id in_type_def split: if_splits)
    finally show ?thesis using True r by (simp add: CheckedAddImpl_def Let_def)
  next
    case False
    have "make_unsigned t = t" using False by (cases t) simp_all
    moreover have "y \<le> static_cast t (x + y) \<longleftrightarrow> in_type t (x + y)"
      using assms w span [of t] signs(1) [OF False] by (cases "in_type t (x + y)") (auto simp: static_cast_id in_type_def split: if_splits)
    ultimately show ?thesis using False assms r by (simp add: CheckedAddImpl_def Let_def static_cast_id)
  qed
qed

lemma CheckedSubImpl_exact:
  assumes "in_type t x" "in_type t y"
  shows "CheckedSubImpl t x y = (in_type t (x - y), static_cast t (x - y))"
proof -
  let ?r = "static_cast (make_unsigned t) (static_cast (make_unsigned t) x - static_cast (make_unsigned t) y)"
  have r: "static_cast t ?r = static_cast t (x - y)" "?r = static_cast (make_unsigned t) (x - y)"
    by (simp_all add: static_cast_cong static_cast_operation)
  have w: "static_cast t (x - y) = (if x - y < 0 then x - y + 2 ^ IntegerBitsPlusSign t else x - y - 2 ^ IntegerBitsPlusSign t)"
    if "\<not> in_type t (x - y)"
    using that assms span [of t] signs(3,4) [of t] by (intro wraps) (auto simp: in_type_def)
  show ?thesis
  proof (cases "is_signed t")
    case True
    have "static_cast (make_signed t) ((?r XOR static_cast (make_unsigned t) x) AND (static_cast (make_unsigned t) x XOR static_cast (make_unsigned t) y)) \<ge> 0 \<longleftrightarrow>
        \<not> ((static_cast t (x - y) < 0) \<noteq> (x < 0) \<and> (x < 0) \<noteq> (y < 0))"
      unfolding r(2) sign_bit(1,2) bit_and_iff bit_xor_iff unfolding sign_bit(3) [OF True] using assms by (simp add: static_cast_id)
    also have "\<dots> \<longleftrightarrow> in_type t (x - y)"
      using assms w span [of t] signs(2) [OF True] by (cases "in_type t (x - y)") (auto simp: static_cast_id in_type_def split: if_splits)
    finally show ?thesis using True r by (simp add: CheckedSubImpl_def Let_def)
  next
    case False
    have "x \<ge> y \<longleftrightarrow> in_type t (x - y)" using assms signs(1) [OF False] by (auto simp: in_type_def)
    then show ?thesis using False r by (simp add: CheckedSubImpl_def Let_def)
  qed
qed

lemma le_div_iff:
  assumes "b > (0 :: int)"
  shows "a \<le> m div b \<longleftrightarrow> a * b \<le> m"
proof
  assume "a \<le> m div b"
  then have "a * b \<le> m div b * b" using assms by simp
  then show "a * b \<le> m" using div_mult_mod_eq [of m b] pos_mod_sign [OF assms, of m] by linarith
next
  assume l: "a * b \<le> m"
  show "a \<le> m div b"
    using zdiv_mono1 [OF l assms] assms by simp
qed

lemma CheckedMulImpl_exact:
  assumes "in_type t x" "in_type t y"
  shows "CheckedMulImpl t x y = (in_type t (x * y), static_cast t (x * y))"
proof -
  let ?n = "is_signed t \<and> (x < 0) \<noteq> (y < 0)"
  have neg: "is_signed t \<and> static_cast (make_signed t) (x XOR y) < 0 \<longleftrightarrow> ?n"
    using sign_bit(1) [of t "x XOR y"] sign_bit(3) [of t x] sign_bit(3) [of t y] assms
    by (auto simp: bit_xor_iff static_cast_id not_le [symmetric])
  have abs: "SafeUnsignedAbs t x = \<bar>x\<bar>" "SafeUnsignedAbs t y = \<bar>y\<bar>" using assms by (simp_all add: SafeUnsignedAbs_abs)
  have limit: "static_cast (make_unsigned t) (nt_max t + of_bool ?n) = nt_max t + of_bool ?n"
    using signs(2-4) [of t] by (intro static_cast_id) (auto simp: in_type_def)
  have le_div: "\<bar>x\<bar> \<le> m div \<bar>y\<bar> \<longleftrightarrow> \<bar>x\<bar> * \<bar>y\<bar> \<le> m" if "y \<noteq> 0" for m
    using that le_div_iff [of "\<bar>y\<bar>"] by simp
  have prod: "x * y = (if (x < 0) \<noteq> (y < 0) then - (\<bar>x\<bar> * \<bar>y\<bar>) else \<bar>x\<bar> * \<bar>y\<bar>)" by auto
  have ok: "\<bar>y\<bar> \<le> of_bool (\<not> is_signed t \<or> ?n) \<or> \<bar>x\<bar> \<le> (nt_max t + of_bool ?n) div \<bar>y\<bar> \<longleftrightarrow> in_type t (x * y)"
  proof (cases "y = 0")
    case False
    have "P \<le> nt_max t + of_bool ?n \<longleftrightarrow> in_type t (if (x < 0) \<noteq> (y < 0) then - P else P)" if "0 \<le> P" for P
      using that assms signs [of t] by (auto simp: in_type_def)
    from this [of "\<bar>x\<bar> * \<bar>y\<bar>"] have "\<bar>x\<bar> * \<bar>y\<bar> \<le> nt_max t + of_bool ?n \<longleftrightarrow> in_type t (x * y)"
      unfolding prod [symmetric] by simp
    moreover have "in_type t (x * y)" if "\<bar>y\<bar> \<le> of_bool (\<not> is_signed t \<or> ?n)"
    proof -
      have "of_bool (\<not> is_signed t \<or> ?n) \<le> (1 :: int)" by simp
      then have "\<bar>y\<bar> \<le> 1" using that by linarith
      then have "y = 1 \<or> y = - 1" using False by linarith
      moreover have "\<not> is_signed t \<or> ?n"
        using that False by (cases "\<not> is_signed t \<or> ?n") (blast, simp only: of_bool_eq abs_le_zero_iff not_True_eq_False simp_thms)
      ultimately show ?thesis using assms signs [of t] by (cases "is_signed t") (auto simp: in_type_def)
    qed
    ultimately show ?thesis unfolding le_div [OF False] by blast
  qed simp
  have value_: "static_cast t (if ?n then static_cast (make_unsigned t) (0 - static_cast (make_unsigned t) (\<bar>x\<bar> * \<bar>y\<bar>)) else static_cast (make_unsigned t) (\<bar>x\<bar> * \<bar>y\<bar>)) = static_cast t (x * y)"
  proof (cases ?n)
    case True
    have "static_cast t (static_cast (make_unsigned t) (0 - static_cast (make_unsigned t) (\<bar>x\<bar> * \<bar>y\<bar>))) = static_cast t (0 - \<bar>x\<bar> * \<bar>y\<bar>)"
      using static_cast_operation(2) [of "make_unsigned t" t 0 "\<bar>x\<bar> * \<bar>y\<bar>"] by (simp add: static_cast_cong static_cast_id)
    moreover have "x * y = 0 - \<bar>x\<bar> * \<bar>y\<bar>" using True by (auto simp: prod)
    ultimately show ?thesis using True by simp
  next
    case False
    moreover have "x * y = \<bar>x\<bar> * \<bar>y\<bar>" using False assms signs(1) [of t] by (auto simp: prod in_type_def)
    ultimately show ?thesis by (simp only: if_False static_cast_cong unsigned_limits)
  qed
  show ?thesis unfolding CheckedMulImpl_def Let_def neg abs limit ok value_ ..
qed

section \<open>Promotions\<close>

text \<open>
  Two types fit if some 64-bit type holds the values of both; only an unsigned 64-bit type and a
  signed one do not.
\<close>

definition fits :: "num_type \<Rightarrow> num_type \<Rightarrow> bool" where
  "fits t u \<longleftrightarrow> \<not> (t = UInt64 \<and> is_signed u \<or> u = UInt64 \<and> is_signed t)"

definition covers :: "num_type \<Rightarrow> num_type \<Rightarrow> bool" where
  "covers p t \<longleftrightarrow> nt_lowest p \<le> nt_lowest t \<and> nt_max t \<le> nt_max p"

lemma covers_in_type: "covers p t \<Longrightarrow> in_type t v \<Longrightarrow> in_type p v" by (auto simp: covers_def in_type_def)

text \<open>The promotions as a table.\<close>

lemma MaxExponentPromotion_table:
  "MaxExponentPromotion t u = (if digits t > digits u then t else u)"
  by (simp add: MaxExponentPromotion_def MaxExponent_def)

lemma TwiceWiderInteger_table:
  "TwiceWiderInteger Int8 s = (if s then Int16 else UInt16)" "TwiceWiderInteger UInt8 s = (if s then Int16 else UInt16)"
  "TwiceWiderInteger Int16 s = (if s then Int32 else UInt32)" "TwiceWiderInteger UInt16 s = (if s then Int32 else UInt32)"
  "TwiceWiderInteger Int32 s = (if s then Int64 else UInt64)" "TwiceWiderInteger UInt32 s = (if s then Int64 else UInt64)"
  by (cases s; simp add: TwiceWiderInteger_def IntegerForDigitsAndSign_def)+

lemmas promotion_simps = BigEnoughPromotion_def FastIntegerArithmeticPromotion_def MaxExponentPromotion_table TwiceWiderInteger_table
  range_relation IsIntegerArithmeticSafe_def Let_def

lemma big_promotion:
  "fits t u \<Longrightarrow> covers (fst (BigEnoughPromotion t u)) t \<and> covers (fst (BigEnoughPromotion t u)) u"
  "\<not> fits t u \<Longrightarrow> fst (BigEnoughPromotion t u) = UInt64"
  by (cases t; cases u; simp add: fits_def covers_def promotion_simps)+

lemma fast_promotion:
  "fits t u \<Longrightarrow> covers (FastIntegerArithmeticPromotion t u) t \<and> covers (FastIntegerArithmeticPromotion t u) u"
  "\<not> fits t u \<Longrightarrow> FastIntegerArithmeticPromotion t u = UInt64"
  by (cases t; cases u; simp add: fits_def covers_def promotion_simps)+

lemma word_promotion_cases:
  "word_promotion ptr t u = FastIntegerArithmeticPromotion t u \<or> word_promotion ptr t u = fst (BigEnoughPromotion t u)"
  by (simp add: word_promotion_def Let_def)

text \<open>Where the plain operation is used, its result is a value of the promoted type.\<close>

lemma safe_promotion:
  assumes "p = FastIntegerArithmeticPromotion t u \<or> p = fst (BigEnoughPromotion t u)" "IsIntegerArithmeticSafe p t u"
  shows "nt_lowest p \<le> nt_lowest t + nt_lowest u" "nt_max t + nt_max u \<le> nt_max p"
    "is_signed p \<Longrightarrow> nt_lowest p \<le> nt_lowest t - nt_max u \<and> nt_max t - nt_lowest u \<le> nt_max p"
    "\<not> is_signed p \<Longrightarrow> nt_lowest t = 0 \<and> nt_lowest u = 0 \<and> nt_max t < 2 ^ IntegerBitsPlusSign p - nt_max u \<and> nt_max u < 2 ^ IntegerBitsPlusSign p - nt_max u"
    "max (nt_max t) (- nt_lowest t) * max (nt_max u) (- nt_lowest u) \<le> nt_max p"
  using assms by (cases t; cases u; auto simp: promotion_simps)+

section \<open>Checked operations on two types\<close>

lemma product_in_range:
  assumes "in_type t x" "in_type u y" "p = FastIntegerArithmeticPromotion t u" "IsIntegerArithmeticSafe p t u"
  shows "in_type p (x * y)"
proof -
  have b: "\<bar>x\<bar> \<le> max (nt_max t) (- nt_lowest t)" "\<bar>y\<bar> \<le> max (nt_max u) (- nt_lowest u)"
    using assms(1,2) by (auto simp: in_type_def)
  have "\<bar>x\<bar> * \<bar>y\<bar> \<le> max (nt_max t) (- nt_lowest t) * max (nt_max u) (- nt_lowest u)"
    by (rule mult_mono [OF b]) (use signs(4) [of t] in \<open>auto simp: max_def\<close>)
  then have a: "\<bar>x * y\<bar> \<le> nt_max p" using safe_promotion(5) [OF _ assms(4)] assms(3) by (simp add: abs_mult)
  show ?thesis
  proof (cases "is_signed p")
    case True
    then show ?thesis using a [unfolded abs_le_iff] signs(2) [OF True] by (simp add: in_type_def)
  next
    case False
    then have "x \<ge> 0" "y \<ge> 0" using safe_promotion(4) [OF _ assms(4)] assms(1-3) by (auto simp: in_type_def)
    then show ?thesis using a signs(1) [OF False] by (simp add: in_type_def)
  qed
qed

lemma CheckedAddOp_result:
  assumes "in_type t x" "in_type u y" "p = word_promotion ptr t u"
  shows "CheckedAddOp ptr t u v x y result =
    (if in_type p x \<and> in_type p y
     then (in_type p (x + y) \<and> in_type v (static_cast p (x + y)), static_cast v (static_cast p (x + y)))
     else (False, result))"
proof -
  have p: "p = FastIntegerArithmeticPromotion t u \<or> p = fst (BigEnoughPromotion t u)"
    using word_promotion_cases assms(3) by simp
  have safe: "in_type p (x + y)" if "IsIntegerArithmeticSafe p t u"
    using safe_promotion(1,2) [OF p that] assms(1,2) by (auto simp: in_type_def)
  show ?thesis
    using safe unfolding CheckedAddOp_def assms(3) [symmetric] Let_def
    by (auto simp: in_range_exact [OF assms(1)] in_range_exact [OF assms(2)] CheckedAddImpl_exact static_cast_id in_range_exact
        split: prod.splits)
qed

lemma CheckedSubOp_result:
  assumes "in_type t x" "in_type u y" "p = word_promotion ptr t u" "v = t \<or> v = u"
  shows "CheckedSubOp ptr t u v x y result =
    (if in_type p x \<and> in_type p y
     then (in_type p (x - y) \<and> in_type v (static_cast p (x - y)), static_cast v (static_cast p (x - y)))
     else (False, result))"
proof -
  have p: "p = FastIntegerArithmeticPromotion t u \<or> p = fst (BigEnoughPromotion t u)"
    using word_promotion_cases assms(3) by simp
  have safe: "in_type v (static_cast p (x - y)) \<longrightarrow> in_type p (x - y)" if s: "IsIntegerArithmeticSafe p t u"
  proof (cases "is_signed p")
    case True
    then show ?thesis using safe_promotion(3) [OF p s] assms(1,2) by (auto simp: in_type_def)
  next
    case False
    note b = safe_promotion(4) [OF p s False] safe_promotion(2) [OF p s]
    show ?thesis
    proof (cases "x - y < 0")
      case True
      then have "static_cast p (x - y) = x - y + 2 ^ IntegerBitsPlusSign p"
        using b assms(1,2) span [of p] signs(1) [OF False] signs(4) [of t] signs(4) [of u]
        by (intro static_cast_by [of _ _ _ 1]) (auto simp: in_type_def)
      then show ?thesis using b assms(1,2,4) by (auto simp: in_type_def)
    next
      case False
      then show ?thesis using b assms(1,2) signs(1) [OF \<open>\<not> is_signed p\<close>] signs(4) [of u] by (auto simp: in_type_def)
    qed
  qed
  show ?thesis
    using safe unfolding CheckedSubOp_def assms(3) [symmetric] Let_def
    by (auto simp: in_range_exact [OF assms(1)] in_range_exact [OF assms(2)] CheckedSubImpl_exact static_cast_id in_range_exact
        split: prod.splits)
qed

lemma CheckedMulOp_result:
  assumes "in_type t x" "in_type u y" "p = FastIntegerArithmeticPromotion t u"
  shows "CheckedMulOp t u v x y result =
    (if in_type p x \<and> in_type p y \<or> x = 0 \<or> y = 0
     then (in_type p (x * y) \<and> in_type v (static_cast p (x * y)), static_cast v (static_cast p (x * y)))
     else (False, result))"
proof -
  have safe: "in_type p (x * y)" if "IsIntegerArithmeticSafe p t u"
    using product_in_range [OF assms that] .
  have same: "static_cast p x * static_cast p y = x * y" if "in_type p x \<and> in_type p y \<or> x = 0 \<or> y = 0"
    using that by (auto simp: static_cast_id)
  show ?thesis
    using safe same unfolding CheckedMulOp_def assms(3) [symmetric] Let_def
    by (auto simp: in_range_exact [OF assms(1)] in_range_exact [OF assms(2)] CheckedMulImpl_exact in_range_exact
        split: prod.splits)
qed

lemma sdiv_cases:
  "x sdiv y = (if (x < 0) \<noteq> (y < 0) then - (\<bar>x\<bar> div \<bar>y\<bar>) else \<bar>x\<bar> div \<bar>y\<bar>)" for x y :: int
  by (auto simp: signed_divide_int_def sgn_if)

lemma sdiv_in_type:
  assumes "in_type p x" "in_type p y" "\<not> (x = nt_lowest p \<and> y = - 1 \<and> is_signed p)"
  shows "in_type p (x sdiv y)"
proof -
  let ?q = "\<bar>x\<bar> div \<bar>y\<bar>"
  have q: "0 \<le> ?q" by (simp add: pos_imp_zdiv_nonneg_iff div_int_pos_iff)
  have bound: "?q * \<bar>y\<bar> \<le> \<bar>x\<bar>" using div_mult_mod_eq [of "\<bar>x\<bar>" "\<bar>y\<bar>"] by (cases "y = 0") (simp, smt (verit) pos_mod_sign zero_less_abs_iff)
  consider "y = 0" | "y = 1" | "y = - 1" | "2 \<le> \<bar>y\<bar>" by linarith
  then show ?thesis
  proof cases
    case 4
    have "?q * 2 \<le> ?q * \<bar>y\<bar>" using 4 q by (intro mult_left_mono)
    then have "?q * 2 \<le> \<bar>x\<bar>" using bound by linarith
    then show ?thesis using q assms(1,2) signs [of p] by (cases "is_signed p") (auto simp: sdiv_cases in_type_def)
  qed (use assms signs [of p] in \<open>cases "is_signed p"; auto simp: sdiv_cases in_type_def\<close>)+
qed

lemma CheckedDivOp_result:
  assumes "in_type t x" "in_type u y" "p = fst (BigEnoughPromotion t u)"
  shows "CheckedDivOp t u v x y result =
    (if y \<noteq> 0 \<and> (in_type p x \<and> in_type p y \<and> in_type p (x sdiv y) \<or> x = 0)
     then (in_type v (x sdiv y), static_cast v (x sdiv y)) else (False, result))"
proof (cases "in_type p x \<and> in_type p y")
  case False
  then have "\<not> (is_signed t \<and> is_signed u)"
    using big_promotion(1) [of t u] covers_in_type [of p] assms is_signed.simps(8) by (metis fits_def)
  with False show ?thesis
    unfolding CheckedDivOp_def assms(3) [symmetric] Let_def
    using limits_in_type [of p] by (auto simp: in_range_exact [OF assms(1)] in_range_exact [OF assms(2)] in_range_exact static_cast_id signs)
next
  case True
  have minus: "y = static_cast u (- 1) \<longleftrightarrow> y = - 1" if "is_signed u"
    using that by (cases u) (simp_all add: static_cast_within)
  have low: "IsTypeInRangeForNumericType t p \<and> is_signed t \<and> is_signed u" if "x = nt_lowest p" "y = - 1" "is_signed p"
    using that assms by (cases t; cases u; simp add: in_type_def IsTypeInRangeForNumericType_def promotion_simps)
  have out: "\<not> in_type p (x sdiv y)" if "x = nt_lowest p" "y = - 1" "is_signed p"
    using that signs(2,4) [of p] by (simp add: sdiv_cases in_type_def)
  have cast: "static_cast p x = x" "static_cast p y = y" using True by (simp_all add: static_cast_id)
  note op = CheckedDivOp_def assms(3) [symmetric] Let_def cast in_range_exact [OF assms(1)] in_range_exact [OF assms(2)]
  show ?thesis
  proof (cases "x = nt_lowest p \<and> y = - 1 \<and> is_signed p")
    case edge: True
    then have "x \<noteq> 0" using signs(2,4) [of p] by simp
    then show ?thesis using edge low minus out unfolding op by simp
  next
    case False
    have "\<not> (is_signed t \<and> is_signed u \<and> IsTypeInRangeForNumericType t p \<and> x = nt_lowest p \<and> y = static_cast u (- 1))"
      using False minus True signs(1) [of p] by (auto simp: in_type_def)
    moreover have "in_type p (x sdiv y)" using True False by (intro sdiv_in_type) blast+
    ultimately show ?thesis using True unfolding op by (auto simp: in_range_exact static_cast_id)
  qed
qed

lemma covered:
  assumes "fits t u" "in_type t x" "in_type u y"
    and "p = FastIntegerArithmeticPromotion t u \<or> p = fst (BigEnoughPromotion t u)"
  shows "in_type p x" "in_type p y"
  using assms big_promotion(1) [OF assms(1)] fast_promotion(1) [OF assms(1)] covers_in_type by blast+

lemma covered_result:
  assumes "fits t u" "v = t \<or> v = u" "p = FastIntegerArithmeticPromotion t u \<or> p = fst (BigEnoughPromotion t u)" "in_type v z"
  shows "in_type p z"
  using assms big_promotion(1) [OF assms(1)] fast_promotion(1) [OF assms(1)] covers_in_type by blast

text \<open>
  An outcome is exact: success means that the result \<open>r\<close> is defined, was stored and is a value of
  the destination, and if there is room for the operands then success means no more than that.
\<close>

definition exact_at :: "bool \<times> int \<Rightarrow> bool \<Rightarrow> int \<Rightarrow> num_type \<Rightarrow> bool \<Rightarrow> bool" where
  "exact_at outcome defined r v room \<longleftrightarrow>
     (case outcome of (ok, z) \<Rightarrow>
        (ok \<longrightarrow> defined \<and> z = r \<and> in_type v r) \<and> (room \<longrightarrow> defined \<longrightarrow> in_type v r \<longrightarrow> ok))"

text \<open>A checked number as a result that may be missing.\<close>

definition checked_of :: "CheckedNumeric \<Rightarrow> int option" where
  "checked_of n = (if ck_valid n then Some (ck_value n) else None)"

text \<open>
  What the checked operations share: an operation on values of the two types that never accepts a
  wrong result, and accepts every right one if a type has room for the operands.
\<close>

locale exact_operation =
  fixes operation :: "num_type \<Rightarrow> num_type \<Rightarrow> num_type \<Rightarrow> int \<Rightarrow> int \<Rightarrow> int \<Rightarrow> bool \<times> int"
    and exact :: "int \<Rightarrow> int \<Rightarrow> int"
    and defined :: "int \<Rightarrow> int \<Rightarrow> bool"
  assumes sound: "\<lbrakk>in_type t x; in_type u y; v = t \<or> v = u; operation t u v x y result = (True, r)\<rbrakk>
      \<Longrightarrow> defined x y \<and> r = exact x y \<and> in_type v r"
    and complete: "\<lbrakk>in_type t x; in_type u y; v = t \<or> v = u; fits t u; defined x y; in_type v (exact x y)\<rbrakk>
      \<Longrightarrow> fst (operation t u v x y result)"
begin

lemma result:
  assumes "in_type t x" "in_type u y" "v = t \<or> v = u" "fits t u"
  shows "fst (operation t u v x y result) \<longleftrightarrow> defined x y \<and> in_type v (exact x y)"
    "fst (operation t u v x y result) \<Longrightarrow> snd (operation t u v x y result) = exact x y"
  using assms sound [OF assms(1-3), of result "snd (operation t u v x y result)"] complete [OF assms]
  by (metis prod.collapse)+

lemma outcome:
  assumes "in_type t x" "in_type u y" "v = t \<or> v = u"
  shows "exact_at (operation t u v x y result) (defined x y) (exact x y) v (fits t u)"
  using sound [OF assms] complete [OF assms] by (auto simp: exact_at_def split: prod.split) (metis fst_conv)+

text \<open>Replacing a refused result by the limit on its side clamps.\<close>

lemma clamped:
  assumes "in_type t x" "in_type u y" "v = t \<or> v = u" "fits t u" "defined x y"
    and "\<not> in_type v (exact x y) \<Longrightarrow> s = (if exact x y < nt_lowest v then nt_lowest v else nt_max v)"
  shows "(let (ok, r) = operation t u v x y result in if ok then r else s) = clamp v (exact x y)"
  using result [OF assms(1-4), of result] assms(5,6) by (auto simp: clamp_cases Let_def split: prod.split)

text \<open>The assigning form, on a plain number.\<close>

lemma assign:
  assumes "in_type t (ck_value n)" "in_type u y" "fits t u"
  shows "checked_of (MathOpAssign t (operation t u) u n \<lparr>ck_valid = True, ck_value = y\<rparr>) =
    (if ck_valid n \<and> defined (ck_value n) y \<and> in_type t (exact (ck_value n) y) then Some (exact (ck_value n) y) else None)"
  using result [OF assms(1,2) disjI1 [OF refl] assms(3), of 0] assms
  by (cases "operation t u t (ck_value n) y 0") (auto simp: checked_of_def MathOpAssign_def NewState_def CheckedNumeric_IsValid_def in_range_exact static_cast_id)

end

interpretation checked_add: exact_operation "CheckedAddOp ptr" "(+)" "\<lambda>_ _. True" for ptr
proof
  fix t u v x y result r
  assume i: "in_type t x" "in_type u y" "v = t \<or> v = u"
  note op = CheckedAddOp_result [OF i(1,2) refl, of ptr v result]
  show "CheckedAddOp ptr t u v x y result = (True, r) \<Longrightarrow> True \<and> r = x + y \<and> in_type v r"
    by (auto simp: op static_cast_id split: if_splits)
  show "fits t u \<Longrightarrow> in_type v (x + y) \<Longrightarrow> fst (CheckedAddOp ptr t u v x y result)"
    using covered [OF _ i(1,2) word_promotion_cases [of ptr]] covered_result [OF _ i(3) word_promotion_cases [of ptr]] by (simp add: op static_cast_id)
qed

interpretation checked_sub: exact_operation "CheckedSubOp ptr" "(-)" "\<lambda>_ _. True" for ptr
proof
  fix t u v x y result r
  assume i: "in_type t x" "in_type u y" "v = t \<or> v = u"
  note op = CheckedSubOp_result [OF i(1,2) refl i(3), of ptr result]
  show "CheckedSubOp ptr t u v x y result = (True, r) \<Longrightarrow> True \<and> r = x - y \<and> in_type v r"
    by (auto simp: op static_cast_id split: if_splits)
  show "fits t u \<Longrightarrow> in_type v (x - y) \<Longrightarrow> fst (CheckedSubOp ptr t u v x y result)"
    using covered [OF _ i(1,2) word_promotion_cases [of ptr]] covered_result [OF _ i(3) word_promotion_cases [of ptr]] by (simp add: op static_cast_id)
qed

interpretation checked_mul: exact_operation CheckedMulOp "(*)" "\<lambda>_ _. True"
proof
  fix t u v x y result r
  assume i: "in_type t x" "in_type u y" "v = t \<or> v = u"
  note op = CheckedMulOp_result [OF i(1,2) refl, of v result]
  show "CheckedMulOp t u v x y result = (True, r) \<Longrightarrow> True \<and> r = x * y \<and> in_type v r"
    by (auto simp: op static_cast_id split: if_splits)
  show "fits t u \<Longrightarrow> in_type v (x * y) \<Longrightarrow> fst (CheckedMulOp t u v x y result)"
    using covered [OF _ i(1,2) disjI1 [OF refl]] covered_result [OF _ i(3) disjI1 [OF refl]] by (simp add: op static_cast_id)
qed

interpretation checked_div: exact_operation CheckedDivOp "(sdiv)" "\<lambda>_ y. y \<noteq> 0"
proof
  fix t u v x y result r
  assume i: "in_type t x" "in_type u y" "v = t \<or> v = u"
  note op = CheckedDivOp_result [OF i(1,2) refl, of v result]
  show "CheckedDivOp t u v x y result = (True, r) \<Longrightarrow> y \<noteq> 0 \<and> r = x sdiv y \<and> in_type v r"
    by (auto simp: op static_cast_id split: if_splits)
  show "fits t u \<Longrightarrow> y \<noteq> 0 \<Longrightarrow> in_type v (x sdiv y) \<Longrightarrow> fst (CheckedDivOp t u v x y result)"
    using covered [OF _ i(1,2) disjI2 [OF refl]] covered_result [OF _ i(3) disjI2 [OF refl]] by (simp add: op)
qed

text \<open>
  C13. The portable checked arithmetic is exact.  For operands of any two of the eight integer
  types, a destination of one of these types and 32-bit and 64-bit targets: an operation that
  succeeds has stored the mathematical result (the quotient truncated), and it succeeds exactly if
  that result is a value of the destination, the divisor not being 0; where the operands are an
  unsigned 64-bit number and a signed number, it may refuse a result that fits.
\<close>

theorem checked_arithmetic_exact:
  assumes "in_type t x" "in_type u y" "v = t \<or> v = u"
  shows "exact_at (CheckedAddOp ptr t u v x y result) True (x + y) v (fits t u) \<and>
    exact_at (CheckedSubOp ptr t u v x y result) True (x - y) v (fits t u) \<and>
    exact_at (CheckedMulOp t u v x y result) True (x * y) v (fits t u) \<and>
    exact_at (CheckedDivOp t u v x y result) (y \<noteq> 0) (x sdiv y) v (fits t u)"
  using checked_add.outcome [OF assms] checked_sub.outcome [OF assms] checked_mul.outcome [OF assms] checked_div.outcome [OF assms] by simp

theorem checked_arithmetic_exact_witness:
  "\<not> fst (CheckedAddOp 64 Int64 Int64 Int64 9223372036854775807 1 0) \<and>
   CheckedMulOp Int32 UInt8 Int32 (- 8421504) 255 0 = (True, - 2147483520)"
  using checked_arithmetic_exact [of Int64 9223372036854775807 Int64 1 Int64 64 0]
    checked_arithmetic_exact [of Int32 "- 8421504" UInt8 255 Int32 64 0]
  by (auto simp: exact_at_def in_type_def fits_def split: prod.splits)

section \<open>Chains of operations\<close>

datatype arithmetic = Plus | Minus | Times | Over

fun arithmetic_op :: "nat \<Rightarrow> arithmetic \<Rightarrow> num_type \<Rightarrow> num_type \<Rightarrow> num_type \<Rightarrow> int \<Rightarrow> int \<Rightarrow> int \<Rightarrow> bool \<times> int" where
  "arithmetic_op ptr Plus = CheckedAddOp ptr"
| "arithmetic_op ptr Minus = CheckedSubOp ptr"
| "arithmetic_op ptr Times = CheckedMulOp"
| "arithmetic_op ptr Over = CheckedDivOp"

text \<open>\<open>n += y\<close> and the like, for a plain number \<open>y\<close> of type \<open>u\<close>.\<close>

definition assign_op :: "nat \<Rightarrow> num_type \<Rightarrow> arithmetic \<times> num_type \<times> int \<Rightarrow> CheckedNumeric \<Rightarrow> CheckedNumeric" where
  "assign_op ptr t step n =
     (case step of (a, u, y) \<Rightarrow> MathOpAssign t (arithmetic_op ptr a t u) u n \<lparr>ck_valid = True, ck_value = y\<rparr>)"

fun exact_op :: "num_type \<Rightarrow> arithmetic \<times> num_type \<times> int \<Rightarrow> int \<Rightarrow> int option" where
  "exact_op t (a, u, y) x =
     Option.bind
       (case a of Plus \<Rightarrow> Some (x + y) | Minus \<Rightarrow> Some (x - y) | Times \<Rightarrow> Some (x * y)
        | Over \<Rightarrow> if y = 0 then None else Some (x sdiv y))
       (\<lambda>z. if in_type t z then Some z else None)"

lemma assign_op_exact:
  assumes "in_type t (ck_value n)" "in_type u y" "fits t u"
  shows "checked_of (assign_op ptr t (a, u, y) n) = Option.bind (checked_of n) (exact_op t (a, u, y)) \<and>
    in_type t (ck_value (assign_op ptr t (a, u, y) n))"
proof
  show "checked_of (assign_op ptr t (a, u, y) n) = Option.bind (checked_of n) (exact_op t (a, u, y))"
    using checked_add.assign [OF assms, of ptr] checked_sub.assign [OF assms, of ptr] checked_mul.assign [OF assms] checked_div.assign [OF assms]
    by (cases a) (simp_all add: assign_op_def checked_of_def [of n])
  show "in_type t (ck_value (assign_op ptr t (a, u, y) n))"
    by (simp add: assign_op_def MathOpAssign_def NewState_def Let_def split_def)
qed

text \<open>
  C17. A checked number refines option arithmetic.  After any sequence of the assignments
  \<open>+=\<close>, \<open>-=\<close>, \<open>*=\<close> and \<open>/=\<close>, each with a number of a type that fits the type of the checked
  one (no unsigned 64-bit type beside a signed one), it is valid exactly if every intermediate
  mathematical result was defined and a value of its type, and then it has the last one.
\<close>

theorem checked_chain:
  assumes "in_type src x" "list_all (\<lambda>(a, u, y). in_type u y \<and> fits t u) steps"
  shows "checked_of (fold (assign_op ptr t) steps (NewCheckedNumeric t src x)) =
    fold (\<lambda>s z. Option.bind z (exact_op t s)) steps (if in_type t x then Some x else None)"
proof -
  have "checked_of (fold (assign_op ptr t) steps n) = fold (\<lambda>s z. Option.bind z (exact_op t s)) steps (checked_of n)"
    if "in_type t (ck_value n)" for n
    using that assms(2)
  proof (induction steps arbitrary: n)
    case (Cons s steps)
    obtain a u y where s: "s = (a, u, y)" by (cases s)
    then show ?case using Cons assign_op_exact [OF Cons.prems(1), of u y ptr a] by simp
  qed simp
  then show ?thesis
    by (simp add: NewCheckedNumeric_def checked_of_def in_range_exact [OF assms(1)] static_cast_id)
qed

theorem checked_chain_witness:
  "checked_of (fold (assign_op 64 Int32) [(Plus, UInt32, 4294967295), (Minus, Int8, 1)] (NewCheckedNumeric Int32 Int16 (- 32768))) = None \<and>
   checked_of (fold (assign_op 64 Int32) [(Times, UInt16, 65535), (Over, Int8, - 1), (Minus, Int64, 2147450881)] (NewCheckedNumeric Int32 Int16 (- 32768)))
     = Some (- 1)"
  using checked_chain [of Int16 "- 32768" Int32 "[(Plus, UInt32, 4294967295), (Minus, Int8, 1)]" 64]
    checked_chain [of Int16 "- 32768" Int32 "[(Times, UInt16, 65535), (Over, Int8, - 1), (Minus, Int64, 2147450881)]" 64]
  by (simp add: in_type_def fits_def sdiv_cases)

section \<open>Clamped arithmetic\<close>

lemma clamped_side: "CommonMaxOrMin v v is_min = (if is_min then nt_lowest v else nt_max v)"
  by (simp add: CommonMaxOrMin_def common_limits)

lemma product_side:
  assumes "\<not> in_type v (x * y)"
  shows "x * y < nt_lowest v \<longleftrightarrow> (x < 0) \<noteq> (y < 0)"
proof -
  have "x * y \<le> 0" if "(x < 0) \<noteq> (y < 0)" using that by (auto simp: mult_le_0_iff)
  moreover have "0 \<le> x * y" if "(x < 0) = (y < 0)" using that by (auto simp: zero_le_mult_iff)
  ultimately show ?thesis using assms signs(3,4) [of v] by (cases "(x < 0) = (y < 0)") (auto simp: in_type_def)
qed

lemma quotient_side:
  assumes "\<not> in_type v (x sdiv y)"
  shows "x sdiv y < nt_lowest v \<longleftrightarrow> (x < 0) \<noteq> (y < 0)"
proof -
  have "0 \<le> \<bar>x\<bar> div \<bar>y\<bar>" by (simp add: div_int_pos_iff)
  then show ?thesis using assms signs(3,4) [of v] by (auto simp: in_type_def sdiv_cases)
qed

text \<open>
  C28. Clamped arithmetic clamps: if the type of the result holds the values of both operand types,
  the result of an addition, subtraction, multiplication or division is the value of that type
  nearest to the mathematical result; a division by zero is the limit on the side of the dividend.
\<close>

theorem clamped_arithmetic:
  assumes "in_type t x" "in_type u y" "v = t \<or> v = u" "covers v t" "covers v u"
  shows "ClampedAddOp ptr t u v x y = clamp v (x + y) \<and> ClampedSubOp ptr t u v x y = clamp v (x - y) \<and>
    ClampedMulOp t u v x y = clamp v (x * y) \<and>
    ClampedDivOp t u v x y =
      (if y \<noteq> 0 then clamp v (x sdiv y) else if x < 0 then nt_lowest v else if x > 0 then nt_max v else 0)"
proof -
  have room: "fits t u" using assms(4,5) by (cases t; cases u; cases v; simp add: fits_def covers_def)
  have v: "in_type v x" "in_type v y" using assms covers_in_type by blast+
  note neg = negative_value [OF assms(1)] negative_value [OF assms(2)] clamped_side
  have side: "(if y < 0 then nt_lowest v else nt_max v) = (if x + y < nt_lowest v then nt_lowest v else nt_max v)" if "\<not> in_type v (x + y)"
    using that v by (auto simp: in_type_def)
  have a: "ClampedAddOp ptr t u v x y = clamp v (x + y)"
    unfolding ClampedAddOp_def neg Let_def by (rule checked_add.clamped [OF assms(1-3) room TrueI, unfolded Let_def]) (rule side)
  have side: "(if \<not> y < 0 then nt_lowest v else nt_max v) = (if x - y < nt_lowest v then nt_lowest v else nt_max v)" if "\<not> in_type v (x - y)"
    using that v by (auto simp: in_type_def)
  have s: "ClampedSubOp ptr t u v x y = clamp v (x - y)"
    unfolding ClampedSubOp_def neg Let_def by (rule checked_sub.clamped [OF assms(1-3) room TrueI, unfolded Let_def]) (rule side)
  have side: "(if (x < 0) \<noteq> (y < 0) then nt_lowest v else nt_max v) = (if x * y < nt_lowest v then nt_lowest v else nt_max v)" if "\<not> in_type v (x * y)"
    by (simp only: product_side [OF that])
  have m: "ClampedMulOp t u v x y = clamp v (x * y)"
    unfolding ClampedMulOp_def neg Let_def by (rule checked_mul.clamped [OF assms(1-3) room TrueI, unfolded Let_def]) (rule side)
  have d: "ClampedDivOp t u v x y =
      (if y \<noteq> 0 then clamp v (x sdiv y) else if x < 0 then nt_lowest v else if x > 0 then nt_max v else 0)"
  proof (cases "y = 0")
    case True
    then have "CheckedDivOp t u v x y 0 = (False, 0)" by (simp add: CheckedDivOp_def Let_def)
    then show ?thesis using True unfolding ClampedDivOp_def neg by auto
  next
    case False
    have side: "(if x \<noteq> 0 then if (x < 0) \<noteq> (y < 0) then nt_lowest v else nt_max v else 0) =
        (if x sdiv y < nt_lowest v then nt_lowest v else nt_max v)" if "\<not> in_type v (x sdiv y)"
      using that quotient_side [OF that] by (auto simp: sdiv_cases)
    show ?thesis
      using False checked_div.clamped [OF assms(1-3) room False, unfolded Let_def] side unfolding ClampedDivOp_def neg by simp
  qed
  show ?thesis using a s m d by blast
qed

theorem clamped_arithmetic_witness:
  "ClampedSubOp 32 Int16 UInt8 Int16 (- 32700) 200 = - 32768 \<and> ClampedMulOp Int16 UInt8 Int16 (- 129) 255 = - 32768 \<and>
   ClampedDivOp Int8 Int8 Int8 (- 128) (- 1) = 127"
  using clamped_arithmetic [of Int16 "- 32700" UInt8 200 Int16 32] clamped_arithmetic [of Int16 "- 129" UInt8 255 Int16 32]
    clamped_arithmetic [of Int8 "- 128" Int8 "- 1" Int8 32]
  by (simp add: in_type_def covers_def clamp_def sdiv_cases)

section \<open>Spans of time\<close>

text \<open>The spans of \<open>Base_Time\<close>, defined there by their result, are what the checked code computes.\<close>

lemma time_saturates:
  assumes "in_type Int64 delta" "in_type Int64 value"
  shows "CheckedSaturatedAdd ptr delta value = SaturatedAdd delta value" "SaturatedAdd delta value = clamp Int64 (delta + value)"
    "CheckedSaturatedSub ptr delta value = SaturatedSub delta value" "SaturatedSub delta value = clamp Int64 (delta - value)"
proof -
  let ?n = "NewCheckedNumeric Int64 Int64 delta"
  have n: "?n = \<lparr>ck_valid = True, ck_value = delta\<rparr>"
    using assms by (simp add: NewCheckedNumeric_def in_range_exact static_cast_id)
  have f: "fits Int64 Int64" by (simp add: fits_def)
  have dead: "(if CheckedNumeric_IsValid Int64 Int64 m then ValueOrDie Int64 Int64 m else None) = checked_of m" if "in_type Int64 (ck_value m)" for m
    using that by (auto simp: CheckedNumeric_IsValid_def ValueOrDie_def checked_of_def in_range_exact static_cast_id)
  have t: "in_type Int64 (ck_value (MathOpAssign Int64 g Int64 a b))" for g a b
    by (simp add: MathOpAssign_def NewState_def Let_def split_def)
  have i: "is_int64 z \<longleftrightarrow> in_type Int64 z" "INT64_MIN = nt_lowest Int64" "INT64_MAX = nt_max Int64" for z
    by (simp_all add: is_int64_def INT64_MIN_def INT64_MAX_def in_type_def)
  show a: "CheckedSaturatedAdd ptr delta value = SaturatedAdd delta value"
    unfolding CheckedSaturatedAdd_def n Let_def dead [OF t] SaturatedAdd_def i
    using checked_add.assign [of Int64 "\<lparr>ck_valid = True, ck_value = delta\<rparr>" Int64 "value" ptr] assms f by simp
  show "CheckedSaturatedSub ptr delta value = SaturatedSub delta value"
    unfolding CheckedSaturatedSub_def n Let_def dead [OF t] SaturatedSub_def i
    using checked_sub.assign [of Int64 "\<lparr>ck_valid = True, ck_value = delta\<rparr>" Int64 "value" ptr] assms f by simp
  show "SaturatedAdd delta value = clamp Int64 (delta + value)" "SaturatedSub delta value = clamp Int64 (delta - value)"
    using assms by (auto simp: SaturatedAdd_def SaturatedSub_def i clamp_cases in_type_def Let_def)
qed

section \<open>Shifts\<close>

lemma unsigned_shift:
  assumes "in_type u s"
  shows "as_unsigned u s < as_unsigned Int32 (int (digits t)) \<longleftrightarrow> 0 \<le> s \<and> s < int (digits t)"
    "as_unsigned u s = as_unsigned Int32 (int (digits t)) \<longleftrightarrow> s = int (digits t)"
proof -
  have d: "as_unsigned Int32 (int (digits t)) = int (digits t)" by (cases t) (simp_all add: as_unsigned_def static_cast_within)
  have s: "static_cast (make_unsigned u) s = (if s < 0 then s + 2 ^ IntegerBitsPlusSign u else s)"
    using assms span [of u] signs(3,4) [of u] by (auto simp: in_type_def intro: static_cast_by [of _ _ _ 1] static_cast_by [of _ _ _ 0])
  have far: "s + 2 ^ IntegerBitsPlusSign u > int (digits t)" if "s < 0"
    using assms that by (cases u; cases t; simp add: in_type_def)
  show "as_unsigned u s < as_unsigned Int32 (int (digits t)) \<longleftrightarrow> 0 \<le> s \<and> s < int (digits t)"
    "as_unsigned u s = as_unsigned Int32 (int (digits t)) \<longleftrightarrow> s = int (digits t)"
    unfolding d unfolding as_unsigned_def s using far by auto
qed

lemma static_cast_narrow:
  assumes "IntegerBitsPlusSign t \<le> IntegerBitsPlusSign u"
  shows "static_cast t (static_cast u v) = static_cast t v"
proof -
  obtain k where k: "static_cast t v = v + k * 2 ^ IntegerBitsPlusSign t" using static_cast_ex by blast
  obtain j where j: "static_cast u v = v + j * 2 ^ IntegerBitsPlusSign u" using static_cast_ex by blast
  have p: "(2 :: int) ^ IntegerBitsPlusSign u = 2 ^ (IntegerBitsPlusSign u - IntegerBitsPlusSign t) * 2 ^ IntegerBitsPlusSign t"
    using assms by (simp add: power_add [symmetric])
  show ?thesis
    by (rule static_cast_by [of _ _ _ "k - j * 2 ^ (IntegerBitsPlusSign u - IntegerBitsPlusSign t)"])
      (simp, simp only: j k p, simp add: algebra_simps)
qed

text \<open>A left shift is accepted exactly if it loses nothing.\<close>

lemma CheckedLshOp_exact:
  assumes "in_type t x" "in_type u s"
  shows "CheckedLshOp t u t x s 0 =
    (if 0 \<le> x \<and> 0 \<le> s \<and> s < int (digits t) then (in_type t (x * 2 ^ nat s), static_cast t (x * 2 ^ nat s))
     else (is_signed t \<and> x = 0 \<and> s = int (digits t), 0))"
proof (cases "0 \<le> x \<and> 0 \<le> s \<and> s < int (digits t)")
  case True
  let ?z = "x * 2 ^ nat s"
  have x: "as_unsigned t x = x"
    using True assms(1) signs(3) [of t] by (simp add: as_unsigned_def static_cast_id in_type_def)
  have b: "IntegerBitsPlusSign t \<le> IntegerBitsPlusSign (promote (make_unsigned t))" by (cases t) (simp_all add: promote_def)
  obtain k where k: "static_cast t ?z = ?z + k * 2 ^ IntegerBitsPlusSign t" using static_cast_ex by blast
  have e: "IntegerBitsPlusSign t = nat s + (IntegerBitsPlusSign t - nat s)" proof -
    have "nat s \<le> digits t" using True by linarith
    then show ?thesis by (simp add: IntegerBitsPlusSign_def)
  qed
  have "static_cast t ?z = (x + k * 2 ^ (IntegerBitsPlusSign t - nat s)) * 2 ^ nat s"
    unfolding k by (subst e) (simp add: power_add algebra_simps)
  then have drop: "drop_bit (nat s) (static_cast t ?z) = x + k * 2 ^ (IntegerBitsPlusSign t - nat s)" by (simp add: drop_bit_eq_div)
  have r: "in_type (arith_type t t) y" if "in_type t y" for y
    using that by (cases t) (simp_all add: arith_types in_type_def)
  have "in_type t (drop_bit (nat s) (static_cast t ?z))"
  proof -
    have "in_type t (y div 2 ^ n)" if "in_type t y" for y and n :: nat
    proof -
      have "y div 2 ^ n \<le> max y 0"
      proof (cases "y < 0")
        case False
        then have "y div 2 ^ n \<le> y div 1" by (intro zdiv_mono2) simp_all
        then show ?thesis by simp
      qed (simp add: div_nonpos_pos_le0)
      moreover have "min y 0 \<le> y div 2 ^ n"
      proof -
        have "min y 0 * 2 ^ n \<le> min y 0 * 1" by (intro mult_left_mono_neg) simp_all
        then show ?thesis by (simp add: le_div_iff)
      qed
      ultimately show ?thesis using that signs(3,4) [of t] by (auto simp: in_type_def)
    qed
    then show ?thesis by (simp add: drop_bit_eq_div)
  qed
  then have "static_cast (arith_type t t) (drop_bit (nat s) (static_cast t ?z)) = static_cast (arith_type t t) x \<longleftrightarrow> k = 0"
    using assms(1) drop by (simp add: static_cast_id r)
  moreover have "k = 0 \<longleftrightarrow> in_type t ?z"
    using k static_cast_iff [of t ?z] by simp
  ultimately show ?thesis
    using True assms(1) negative_value [OF assms(1)] b
    by (simp add: CheckedLshOp_def unsigned_shift [OF assms(2)] x push_bit_eq_mult static_cast_narrow Let_def)
next
  case False
  then show ?thesis
    using negative_value [OF assms(1)] unsigned_shift [OF assms(2), of t] assms(1) signs(1) [of t]
    by (auto simp: CheckedLshOp_def in_type_def)
qed

section \<open>Where the result is not the exact one\<close>

lemma mod_unchecked:
  "CheckedModOp Int64 UInt64 UInt64 (- 1) 10 0 = Some (True, 5)" "(- 1 :: int) smod 10 = - 1"
  "CheckedModOp Int32 Int32 Int32 (- 2147483648) (- 1) 0 = None"
  by code_simp+

lemma clamped_wrong_side:
  "ClampedAddOp 64 Int32 UInt32 UInt32 (- 5) 3 = 4294967295" "clamp UInt32 (- 5 + 3) = 0"
  by code_simp+

lemma inverted_invalid:
  "\<not> ck_valid (InvertChecked Int32 (NewCheckedNumeric Int32 Int32 5))" "NOT (5 :: int) = - 6" "in_type Int32 (- 6)"
  by code_simp+

lemma unsigned_negation_wraps:
  "NegateChecked 64 False UInt32 (NewCheckedNumeric UInt32 UInt32 5) = \<lparr>ck_valid = True, ck_value = 4294967291\<rparr>"
  by code_simp

end
