(* ===== verification/Thread_Slots.thy ===== *)
theory Thread_Slots
  imports Main
begin

text \<open>
  Thread-local storage (\<open>base/threading/thread_local_storage.cpp\<close>): a table of 256 slots shared by
  all threads, and for each thread a vector of values and versions, made when it is first needed.
  Pointers are numbers and the null pointer is 0.  The operations are atomic (the table has a lock,
  a vector belongs to one thread), and the platform's key is taken to be available.
\<close>

section \<open>State\<close>

datatype TlsStatus = FREE | IN_USE

record TlsMetadata =
  tm_status :: TlsStatus
  tm_destructor :: nat
  tm_version :: nat

record TlsVectorEntry =
  te_data :: nat
  te_version :: nat

definition kThreadLocalStorageSize :: nat where "kThreadLocalStorageSize = 256"

record Tls =
  tls_metadata :: "TlsMetadata list"
  last_assigned_slot :: nat
  tls_vectors :: "nat \<Rightarrow> TlsVectorEntry list option"

definition initial_tls :: Tls where
  "initial_tls =
     \<lparr>tls_metadata = replicate kThreadLocalStorageSize \<lparr>tm_status = FREE, tm_destructor = 0, tm_version = 0\<rparr>,
      last_assigned_slot = 0, tls_vectors = \<lambda>_. None\<rparr>"

text \<open>A slot object; \<open>- 1\<close> is \<open>kInvalidSlotValue\<close>.\<close>

record Slot =
  m_slot :: int
  m_version :: nat

section \<open>Operations\<close>

definition EnsureTlsVector :: "nat \<Rightarrow> Tls \<Rightarrow> TlsVectorEntry list \<times> Tls" where
  "EnsureTlsVector thread st =
     (case tls_vectors st thread of
        Some v \<Rightarrow> (v, st)
      | None \<Rightarrow> let v = replicate kThreadLocalStorageSize \<lparr>te_data = 0, te_version = 0\<rparr>
               in (v, st\<lparr>tls_vectors := (tls_vectors st)(thread \<mapsto> v)\<rparr>))"

text \<open>The constructor: the search starts behind the slot that was given out last.\<close>

definition slot_candidates :: "Tls \<Rightarrow> nat list" where
  "slot_candidates st = map (\<lambda>i. (last_assigned_slot st + 1 + i) mod kThreadLocalStorageSize) [0..<kThreadLocalStorageSize]"

definition NewSlot :: "nat \<Rightarrow> nat \<Rightarrow> Tls \<Rightarrow> Slot \<times> Tls" where
  "NewSlot destructor thread st =
     (let st = snd (EnsureTlsVector thread st)
      in case find (\<lambda>c. tm_status (tls_metadata st ! c) = FREE) (slot_candidates st) of
           None \<Rightarrow> (\<lparr>m_slot = - 1, m_version = 0\<rparr>, st)
         | Some c \<Rightarrow>
             let meta = (tls_metadata st ! c)\<lparr>tm_status := IN_USE, tm_destructor := destructor\<rparr>
             in (\<lparr>m_slot = int c, m_version = tm_version meta\<rparr>,
                 st\<lparr>tls_metadata := (tls_metadata st)[c := meta], last_assigned_slot := c\<rparr>))"

text \<open>
  \<open>Get\<close> and \<open>Set\<close> in a release build, where the assertions on the index are empty: \<open>None\<close> is an
  access outside of the vector.
\<close>

definition Slot_Get :: "Slot \<Rightarrow> nat \<Rightarrow> Tls \<Rightarrow> nat option" where
  "Slot_Get s thread st =
     (case tls_vectors st thread of
        None \<Rightarrow> Some 0
      | Some v \<Rightarrow>
          if m_slot s < 0 \<or> int (length v) \<le> m_slot s then None
          else let e = v ! nat (m_slot s) in Some (if te_version e \<noteq> m_version s then 0 else te_data e))"

definition Slot_Set :: "Slot \<Rightarrow> nat \<Rightarrow> nat \<Rightarrow> Tls \<Rightarrow> Tls option" where
  "Slot_Set s value thread st =
     (let (v, st) = EnsureTlsVector thread st
      in if m_slot s < 0 \<or> int (length v) \<le> m_slot s then None
         else Some (st\<lparr>tls_vectors := (tls_vectors st)(thread \<mapsto>
                v[nat (m_slot s) := \<lparr>te_data = value, te_version = m_version s\<rparr>])\<rparr>))"

section \<open>Runs\<close>

text \<open>The valid slot objects made so far and the storage.\<close>

inductive tls_run :: "Slot list \<Rightarrow> Tls \<Rightarrow> bool" where
  start: "tls_run [] initial_tls"
| new: "tls_run slots st \<Longrightarrow> NewSlot destructor thread st = (s, st') \<Longrightarrow>
    tls_run (if m_slot s < 0 then slots else s # slots) st'"
| set_value: "tls_run slots st \<Longrightarrow> s \<in> set slots \<Longrightarrow> Slot_Set s value thread st = Some st' \<Longrightarrow> tls_run slots st'"

definition tls_ok :: "Slot list \<Rightarrow> Tls \<Rightarrow> bool" where
  "tls_ok slots st \<longleftrightarrow>
     length (tls_metadata st) = kThreadLocalStorageSize \<and>
     distinct (map m_slot slots) \<and>
     m_slot ` set slots = {int i |i. i < kThreadLocalStorageSize \<and> tm_status (tls_metadata st ! i) = IN_USE} \<and>
     (\<forall>s \<in> set slots. m_version s = 0) \<and> (\<forall>m \<in> set (tls_metadata st). tm_version m = 0) \<and>
     (\<forall>thread v. tls_vectors st thread = Some v \<longrightarrow>
        length v = kThreadLocalStorageSize \<and> (\<forall>e \<in> set v. te_version e = 0))"

lemma size_pos [simp]: "0 < kThreadLocalStorageSize" by (simp add: kThreadLocalStorageSize_def)

lemma ensured:
  assumes "tls_ok slots st" "EnsureTlsVector thread st = (v, st')"
  shows "tls_ok slots st'" "length v = kThreadLocalStorageSize" "\<forall>e \<in> set v. te_version e = 0"
    "tls_vectors st' thread = Some v" "tls_metadata st' = tls_metadata st" "last_assigned_slot st' = last_assigned_slot st"
    "Slot_Get s other st' = Slot_Get s other st \<or> tls_vectors st other = None"
  using assms by (auto simp: EnsureTlsVector_def tls_ok_def Slot_Get_def Let_def split: option.splits if_splits)

lemma candidates: "set (slot_candidates st) = {..<kThreadLocalStorageSize}"
proof -
  have "\<exists>i < kThreadLocalStorageSize. (l + i) mod kThreadLocalStorageSize = c" if "c < kThreadLocalStorageSize" for l c
  proof (intro exI conjI)
    let ?i = "(c + kThreadLocalStorageSize - l mod kThreadLocalStorageSize) mod kThreadLocalStorageSize"
    show "?i < kThreadLocalStorageSize" by simp
    have "l mod kThreadLocalStorageSize \<le> c + kThreadLocalStorageSize"
      using mod_less_divisor [OF size_pos, of l] by linarith
    then have "(l mod kThreadLocalStorageSize + (c + kThreadLocalStorageSize - l mod kThreadLocalStorageSize)) mod kThreadLocalStorageSize = c"
      using that by simp
    then show "(l + ?i) mod kThreadLocalStorageSize = c" by (simp add: mod_add_left_eq mod_add_right_eq)
  qed
  then show ?thesis unfolding slot_candidates_def by (auto simp: image_iff) (metis add_Suc atLeastLessThan_iff le0)
qed

lemma found: "find P xs = Some x \<Longrightarrow> x \<in> set xs \<and> P x"
  by (auto simp: find_Some_iff)

lemma slot_count:
  assumes "tls_ok slots st"
  shows "length slots = card {i. i < kThreadLocalStorageSize \<and> tm_status (tls_metadata st ! i) = IN_USE}"
proof -
  have "length slots = card (m_slot ` set slots)"
    using assms distinct_card [of "map m_slot slots"] by (simp add: tls_ok_def)
  also have "m_slot ` set slots = int ` {i. i < kThreadLocalStorageSize \<and> tm_status (tls_metadata st ! i) = IN_USE}"
    using assms by (auto simp: tls_ok_def)
  finally show ?thesis by (simp add: card_image)
qed

lemma NewSlot_none:
  assumes "EnsureTlsVector thread st = (v, st1)" "find (\<lambda>c. tm_status (tls_metadata st1 ! c) = FREE) (slot_candidates st1) = None"
  shows "NewSlot destructor thread st = (\<lparr>m_slot = - 1, m_version = 0\<rparr>, st1)"
  using assms by (simp add: NewSlot_def)

lemma NewSlot_some:
  assumes "EnsureTlsVector thread st = (v, st1)" "find (\<lambda>c. tm_status (tls_metadata st1 ! c) = FREE) (slot_candidates st1) = Some c"
  shows "NewSlot destructor thread st = (\<lparr>m_slot = int c, m_version = tm_version (tls_metadata st1 ! c)\<rparr>,
    st1\<lparr>tls_metadata := (tls_metadata st1)[c := (tls_metadata st1 ! c)\<lparr>tm_status := IN_USE, tm_destructor := destructor\<rparr>],
      last_assigned_slot := c\<rparr>)"
  using assms by (simp add: NewSlot_def Let_def)

lemma NewSlot_ok:
  assumes ok: "tls_ok slots st" and new: "NewSlot destructor thread st = (s, st')"
  shows "tls_ok (if m_slot s < 0 then slots else s # slots) st'"
    "m_slot s < 0 \<longleftrightarrow> length slots = kThreadLocalStorageSize"
proof -
  obtain v st1 where e: "EnsureTlsVector thread st = (v, st1)" by fastforce
  note ok1 = ensured(1) [OF ok e]
  let ?free = "\<lambda>c. tm_status (tls_metadata st1 ! c) = FREE"
  let ?used = "\<lambda>st. {i. i < kThreadLocalStorageSize \<and> tm_status (tls_metadata st ! i) = IN_USE}"
  have "tls_ok (if m_slot s < 0 then slots else s # slots) st' \<and> (m_slot s < 0 \<longleftrightarrow> length slots = kThreadLocalStorageSize)"
  proof (cases "find ?free (slot_candidates st1)")
    case None
    have "tm_status (tls_metadata st1 ! i) = IN_USE" if "i < kThreadLocalStorageSize" for i
      using None that candidates [of st1] by (cases "tm_status (tls_metadata st1 ! i)") (auto simp: find_None_iff)
    then have "?used st1 = {..<kThreadLocalStorageSize}" by auto
    then have "length slots = kThreadLocalStorageSize" using slot_count [OF ok1] by simp
    moreover have "m_slot s = - 1" "st' = st1" using NewSlot_none [OF e None, of destructor] new by auto
    ultimately show ?thesis using ok1 by simp
  next
    case (Some c)
    then have c: "c < kThreadLocalStorageSize" "?free c" using found [OF Some] candidates [of st1] by auto
    have s: "m_slot s = int c" "m_version s = tm_version (tls_metadata st1 ! c)"
      and st': "st' = st1\<lparr>tls_metadata := (tls_metadata st1)[c := (tls_metadata st1 ! c)\<lparr>tm_status := IN_USE, tm_destructor := destructor\<rparr>],
        last_assigned_slot := c\<rparr>"
      using new unfolding NewSlot_some [OF e Some] by auto
    have l: "length (tls_metadata st1) = kThreadLocalStorageSize" "tm_version (tls_metadata st1 ! c) = 0"
      using ok1 c by (auto simp: tls_ok_def)
    have slots: "m_slot ` set slots = {int i |i. i < kThreadLocalStorageSize \<and> tm_status (tls_metadata st1 ! i) = IN_USE}"
      using ok1 by (simp add: tls_ok_def)
    have "int c \<notin> m_slot ` set slots" unfolding slots using c by auto
    moreover have "{int i |i. i < kThreadLocalStorageSize \<and> tm_status (tls_metadata st' ! i) = IN_USE} =
        insert (int c) (m_slot ` set slots)"
      unfolding slots using c l(1) by (auto simp: st' nth_list_update)
    moreover have "\<forall>m \<in> set (tls_metadata st'). tm_version m = 0"
    proof
      fix m
      assume "m \<in> set (tls_metadata st')"
      then have "m = (tls_metadata st1 ! c)\<lparr>tm_status := IN_USE, tm_destructor := destructor\<rparr> \<or> m \<in> set (tls_metadata st1)"
        using set_update_subset_insert by (fastforce simp: st')
      then show "tm_version m = 0" using ok1 l(2) by (auto simp: tls_ok_def)
    qed
    moreover have "length (tls_metadata st') = kThreadLocalStorageSize" "tls_vectors st' = tls_vectors st1" using l(1) by (simp_all add: st')
    ultimately have "tls_ok (s # slots) st'" using ok1 l(2) s unfolding tls_ok_def by simp
    moreover have "?used st1 \<subseteq> {..<kThreadLocalStorageSize} - {c}" using c(2) by auto
    then have "card (?used st1) \<le> card ({..<kThreadLocalStorageSize} - {c})" by (intro card_mono) simp_all
    then have "length slots < kThreadLocalStorageSize" using slot_count [OF ok1] c(1) size_pos by (simp del: size_pos)
    ultimately show ?thesis using s by simp
  qed
  then show "tls_ok (if m_slot s < 0 then slots else s # slots) st'" "m_slot s < 0 \<longleftrightarrow> length slots = kThreadLocalStorageSize"
    by blast+
qed

lemma slot_in_vector:
  assumes "tls_ok slots st" "s \<in> set slots"
  shows "\<exists>i < kThreadLocalStorageSize. m_slot s = int i" "m_version s = 0"
  using assms by (auto simp: tls_ok_def)

lemma Slot_Set_ok:
  assumes "tls_ok slots st" "s \<in> set slots"
  shows "\<exists>st'. Slot_Set s value thread st = Some st' \<and> tls_ok slots st' \<and>
    (\<forall>r \<in> set slots. \<forall>other. Slot_Get r other st' = (if r = s \<and> other = thread then Some value else Slot_Get r other st))"
proof -
  obtain v st1 where e: "EnsureTlsVector thread st = (v, st1)" by fastforce
  note v = ensured [OF assms(1) e]
  obtain i where i: "i < kThreadLocalStorageSize" "m_slot s = int i" using slot_in_vector(1) [OF assms] by blast
  define w where "w = v[i := \<lparr>te_data = value, te_version = 0\<rparr>]"
  define st' where "st' = st1\<lparr>tls_vectors := (tls_vectors st1)(thread \<mapsto> w)\<rparr>"
  have set_: "Slot_Set s value thread st = Some st'"
    using e i v(2) slot_in_vector(2) [OF assms] by (simp add: Slot_Set_def st'_def w_def)
  have w: "length w = kThreadLocalStorageSize" "\<forall>e \<in> set w. te_version e = 0"
    using v(2,3) by (auto simp: w_def dest!: set_update_subset_insert [THEN subsetD])
  have ok: "tls_ok slots st'" using v(1) w by (auto simp: tls_ok_def st'_def)
  have old: "Slot_Get r thread st = Some (te_data (v ! j))" if "r \<in> set slots" "m_slot r = int j" "j < kThreadLocalStorageSize" for r j
    using e v(2,3) that slot_in_vector(2) [OF assms(1) that(1)] assms(1)
    by (auto simp: EnsureTlsVector_def Slot_Get_def Let_def split: option.splits)
  have others: "tls_vectors st' other = tls_vectors st other" if "other \<noteq> thread" for other
    using e that by (auto simp: EnsureTlsVector_def st'_def Let_def split: option.splits)
  have "Slot_Get r other st' = (if r = s \<and> other = thread then Some value else Slot_Get r other st)" if r: "r \<in> set slots" for r other
  proof (cases "other = thread")
    case False
    then show ?thesis using others [OF False] by (simp add: Slot_Get_def)
  next
    case True
    obtain j where j: "j < kThreadLocalStorageSize" "m_slot r = int j" using slot_in_vector(1) [OF assms(1) r] by blast
    have "r = s \<longleftrightarrow> i = j"
      using assms r i j by (auto simp: tls_ok_def distinct_map inj_on_def)
    moreover have "Slot_Get r thread st' = Some (te_data (w ! j))"
      using j w slot_in_vector(2) [OF assms(1) r] by (simp add: Slot_Get_def st'_def Let_def)
    ultimately show ?thesis
      using True old [OF r j(2,1)] j i v(2) by (auto simp: w_def nth_list_update)
  qed
  then show ?thesis using set_ ok by blast
qed

lemma tls_run_ok: "tls_run slots st \<Longrightarrow> tls_ok slots st"
proof (induction rule: tls_run.induct)
  case start
  then show ?case by (auto simp: tls_ok_def initial_tls_def)
next
  case (new slots st destructor thread s st')
  then show ?case using NewSlot_ok(1) by blast
next
  case (set_value slots st s v thread st')
  then show ?case using Slot_Set_ok [of slots st s v thread] by auto
qed

text \<open>
  C18. Slots are separate.  In every state that constructors and \<open>Set\<close> lead to, at most 256 slots are
  in use and \<open>Set\<close> on one of them stays inside its vector: afterwards that slot holds the value on
  that thread, and what every other slot holds on every thread, and every slot on the other threads,
  is what it was.  The constructor gives a slot that is not in use as long as there is one, and
  behind that the invalid index, on which \<open>Set\<close> writes outside of the vector.
\<close>

theorem slots_are_separate:
  assumes "tls_run slots st"
  shows "length slots \<le> kThreadLocalStorageSize \<and>
    (\<forall>s \<in> set slots. \<exists>st'. Slot_Set s value thread st = Some st' \<and>
       (\<forall>r \<in> set slots. \<forall>other. Slot_Get r other st' = (if r = s \<and> other = thread then Some value else Slot_Get r other st))) \<and>
    (case NewSlot destructor thread st of (s, st') \<Rightarrow>
       if length slots < kThreadLocalStorageSize then m_slot s \<notin> m_slot ` set slots \<and> tls_run (s # slots) st'
       else Slot_Set s value thread st' = None)"
proof -
  note ok = tls_run_ok [OF assms]
  have count: "length slots \<le> kThreadLocalStorageSize"
    unfolding slot_count [OF ok] using card_mono [of "{..<kThreadLocalStorageSize}"] by (simp add: subset_eq)
  obtain s st' where n: "NewSlot destructor thread st = (s, st')" by fastforce
  note new = NewSlot_ok [OF ok n] tls_run.new [OF assms n]
  have "m_slot s \<notin> m_slot ` set slots \<and> tls_run (s # slots) st'" if "length slots < kThreadLocalStorageSize"
    using new that by (auto simp: tls_ok_def)
  moreover have "Slot_Set s value thread st' = None" if "\<not> length slots < kThreadLocalStorageSize"
    using new(2) that count by (simp add: Slot_Set_def split_def Let_def)
  moreover have "\<forall>s \<in> set slots. \<exists>st'. Slot_Set s value thread st = Some st' \<and>
       (\<forall>r \<in> set slots. \<forall>other. Slot_Get r other st' = (if r = s \<and> other = thread then Some value else Slot_Get r other st))"
    using Slot_Set_ok [OF ok, of _ "value" thread] by blast
  ultimately show ?thesis using count unfolding n by simp
qed

theorem slots_are_separate_witness:
  "\<exists>s st'. NewSlot 7 1 initial_tls = (s, st') \<and> m_slot s = 1 \<and>
     (\<exists>st''. Slot_Set s 42 1 st' = Some st'' \<and> Slot_Get s 1 st'' = Some 42 \<and> Slot_Get s 2 st'' = Some 0)"
proof -
  have list: "[0..<kThreadLocalStorageSize] = 0 # [1..<kThreadLocalStorageSize]" using upt_conv_Cons [OF size_pos] by simp
  obtain s st' where n: "NewSlot 7 1 initial_tls = (s, st')" by fastforce
  have s: "m_slot s = 1" "tls_vectors st' 2 = None"
    using n unfolding NewSlot_def slot_candidates_def list
    by (auto simp: EnsureTlsVector_def initial_tls_def kThreadLocalStorageSize_def Let_def)
  have run: "tls_run [s] st'" using slots_are_separate [OF start, of 0 1 7] n by simp
  obtain st'' where "Slot_Set s 42 1 st' = Some st''" "\<forall>other. Slot_Get s other st'' = (if other = 1 then Some 42 else Slot_Get s other st')"
    using slots_are_separate [OF run, of 42 1 0, THEN conjunct2, THEN conjunct1, THEN bspec, of s] by auto
  then show ?thesis using n s by (auto simp: Slot_Get_def)
qed

end
