(* ===== verification/Spec2Isabelle.thy ===== *)
theory Spec2Isabelle
  imports Base_String_Laws Url_Parse_Laws Url_Chars_Laws Url_Ip_Laws Url_Ip6_Laws Url_Host_Laws Url_Path_Laws
    Url_Standard_Again Url_Util Cookie_Laws Http_Laws Loader_Laws
    Jar_Laws Cookie_Order_Laws Cookie_Date_Laws Gurl_Laws Origin_Laws
    Url_Relative_Laws Gurl_Origin_Laws
    Checked_Math_Laws Thread_Slots
begin

text \<open>
  BlinKit: the URL library, the cookie and HTTP code and the loading of resources.

  \<^bold>\<open>The program.\<close>  BlinKit embeds Blink in applications and crawlers.  What it adds to, or
  keeps from, Chromium is modelled here: the URL library (\<open>src/chromium/url\<close>), which parses,
  canonicalizes, resolves and edits URLs; the parts of \<open>base\<close> and \<open>net\<close> it needs (strings, times,
  content types, cookies); and the code of \<open>src/blinkit\<close> that fetches a resource: a task on
  the main loop makes a request, the request transfers it on a worker thread, the response
  collects header lines and data, and the crawler's client decides what happens next.
  Cookies that arrive in responses are parsed, made canonical, kept in the jar and sent
  with later requests; every step of that asks the URL library for hosts, paths and schemes.

  \<^bold>\<open>Which theory models what.\<close>
  \<^item> \<open>Blink_Prelude\<close>: bytes, positions, slices and the index loops that the sources share.
  \<^item> \<open>Base_Strings\<close>, \<open>Base_String_Ops\<close>, \<open>Base_String_Edit\<close>: \<open>base/strings/string_util.cc\<close> and
    \<open>string_split.cc\<close>; \<open>Base_Time\<close>: \<open>base/time\<close>; \<open>Base_Numerics\<close>: \<open>base/numerics/safe_conversions\<close>;
    \<open>Checked_Math\<close>: \<open>base/numerics/checked_math\<close> and \<open>clamped_math\<close>, on which the times rest;
    \<open>Thread_Slots\<close>: \<open>base/threading/thread_local_storage.cpp\<close>.
  \<^item> \<open>Url_Parse\<close>: \<open>third_party/mozilla/url_parse.cc\<close>, \<open>url_parse_file.cc\<close>, \<open>url_file.h\<close> and the
    scheme list of \<open>url_util.cc\<close>; \<open>Url_Chars\<close>: \<open>url_canon_internal.cc/.h\<close>; \<open>Url_Ip\<close>:
    \<open>url_canon_ip.cc\<close>; \<open>Url_Host\<close>: \<open>url_canon_host.cc\<close>; \<open>Url_Path\<close>: \<open>url_canon_path.cc\<close>; \<open>Url_Canon\<close>:
    the remaining canonicalizers (\<open>url_canon_etc.cc\<close>, \<open>_query\<close>, \<open>_stdurl\<close>, \<open>_fileurl\<close>,
    \<open>_filesystemurl\<close>, \<open>_pathurl\<close>, \<open>_mailtourl\<close>) and the replacement of components; \<open>Url_Util\<close>:
    \<open>url_canon_relative.cc\<close> and the entry points of \<open>url_util.cc\<close>; \<open>Gurl\<close>: \<open>gurl.cc\<close>; \<open>Origin\<close>:
    \<open>scheme_host_port.cc\<close> and \<open>origin.cc\<close>.
  \<^item> \<open>Bk_Url\<close>: \<open>blinkit/common/bk_url.cpp\<close>; \<open>Http_Message\<close>: \<open>bk_http_header_map.cpp\<close>,
    \<open>http/response_impl.cpp\<close>, \<open>request_impl.cpp\<close>, \<open>curl_request.cpp\<close> and \<open>net/http/http_util.cpp\<close>;
    \<open>Loader_Task\<close>: \<open>loader_tasks/http_loader_task.cpp\<close>, \<open>misc/controller.cpp\<close>,
    \<open>crawler_impl.cpp\<close>, \<open>url_loader_impl.cpp\<close> and \<open>posix/task_loop.cpp\<close>.
  \<^item> \<open>Cookie_Parse\<close>: \<open>net/cookies/parsed_cookie.cc\<close>; \<open>Cookie_Util\<close>: \<open>cookie_util.cc\<close> with
    \<open>net_util.cpp\<close> and \<open>string_tokenizer.h\<close>; \<open>Canonical_Cookie\<close>: \<open>canonical_cookie.cc\<close>,
    \<open>cookie_options.h\<close> and \<open>blinkit/blink_impl/cookie_jar_impl.cpp\<close>.
  \<^item> Each \<open>\<dots>_Laws\<close> theory, with \<open>Url_Standard_Again\<close>, holds the theorems on the theory it names.

  \<^bold>\<open>How state and operations correspond.\<close>  A \<open>struct\<close> or \<open>class\<close> is a record with the members
  of the source, a method is a function from the record to its new value, an \<open>enum\<close> a datatype.
  \<open>url::Component\<close> is a record of a begin and a length, with length -1 for absent.  A
  \<open>CanonOutput\<close> is the text written so far, an argument and a result of every writer.  A
  type parameter of a template is an argument (\<open>num_type\<close>), and a machine integer of that type an
  integer with every cast written out.  Output parameters are results, a null pointer or a failed result \<open>None\<close>, an error code \<open>Inl\<close>.  The
  loader is a state (\<open>World\<close>: the task, its request, the worker thread, the main loop and
  what the client was told) with one \<open>inductive\<close> relation for the steps of the two threads and
  one for the calls of the client, which interleave in every order (\<open>load_run\<close>); a call on
  a deleted object is recorded and does nothing more, and an exception that nothing
  catches ends the process.  Code under other projects is an argument: what cURL
  transfers, what the client decides, the character set converter of queries, the rest of the
  entries of a hash map in iteration order, and \<open>base::UintToString\<close>.

  \<^bold>\<open>What the groups of lemmas show.\<close>
  \<^item> Parsing (\<open>Url_Parse_Laws\<close>): components lie inside the input, no byte is lost or counted twice,
    delimiters stay out of components, ports and query iteration are exact.
  \<^item> Canonical forms: characters and escapes (\<open>Url_Chars_Laws\<close>), numbers and addresses
    (\<open>Url_Ip_Laws\<close>, \<open>Url_Ip6_Laws\<close>: the IPv4 reader against a reference on the text, round
    trips, the contraction), hosts
    (\<open>Url_Host_Laws\<close>, and \<open>Url_Shift_Laws\<close>: a host is read the same wherever it stands), paths
    (\<open>Url_Path_Laws\<close>: the index loop against a reference on lists of segments), whole URLs
    (\<open>Url_Canon_Laws\<close>, \<open>Url_Standard_Laws\<close>, \<open>Url_Standard_Again\<close>: the shape of a canonical URL,
    that it parses to what was reported, and that it is its own canonical form).
  \<^item> Composition: relative paths merge as RFC 3986 says (\<open>Url_Relative_Laws\<close>), the origin of a
    URL (\<open>Gurl_Origin_Laws\<close>), domains and cookie expiry (\<open>Gurl_Laws\<close>), serialized origins
    (\<open>Origin_Laws\<close>).
  \<^item> Strings (\<open>Base_String_Laws\<close>): substitution in place against recursive substitution, joining and
    splitting, the test for ASCII by words.
  \<^item> Numbers (\<open>Numeric_Laws\<close>, \<open>Checked_Math_Laws\<close>): range checks, mixed comparisons and saturating
    casts are those of the integers; checked operations and chains of them are exact or refused;
    clamped ones clamp; spans of time are computed by them.  \<open>Thread_Slots\<close>: slots stay separate.
  \<^item> Cookies: \<open>Cookie_Laws\<close> (a parsed cookie refines a finite map, its index members stay valid,
    printing and parsing), \<open>Jar_Laws\<close> (which cookies go where, the \<open>Cookie\<close> header),
    \<open>Cookie_Order_Laws\<close>, \<open>Cookie_Date_Laws\<close>.
  \<^item> Loading: \<open>Http_Laws\<close> (header blocks, content types, header maps) and \<open>Loader_Laws\<close> (when a
    deleted object is used, what the client is told, that every run ends or waits for the
    client, and what cancelling does).

  \<^bold>\<open>Interfaces.\<close>  \<open>writer\<close> and \<open>writer2\<close> (\<open>Url_Chars_Laws\<close>): a function that only appends, and two in
  sequence; interpreted by the IPv4 and IPv6 writers.  \<open>dictionary\<close> and
  \<open>erasing_dictionary\<close> (\<open>Dictionary\<close>): what lookup returns after store and erase;
  interpreted by the header map and by the attributes of a parsed cookie.
  \<open>exact_operation\<close> (\<open>Checked_Math_Laws\<close>): an operation that stores the exact result or refuses;
  interpreted by the four checked operations, it gives the clamped and the assigning forms.  The priority of
  cookies is an instance of \<open>linorder\<close>.

  \<^bold>\<open>Bounds and termination.\<close>  No definition has fuel.  The index loops terminate by the distance to
  the end of the text, and each such function carries its \<open>termination\<close> proof.  The loops of
  the in-place substitution, which can run forever, are partial functions into
  \<open>option\<close>; that they end is part of the theorem on them.  The threads of a load take two steps at most, the
  client any number.
  Buffers of fixed size, digits cut at 16, 32- and 64-bit values and 16-bit ports are kept
  where the result depends on them; positions are unbounded integers, for texts shorter than
  \<open>2 ^ 31\<close> bytes.

  \<^bold>\<open>Not modelled.\<close>  The build is the POSIX one without debug checks: assertions stop nothing,
  \<open>WIN32\<close> branches (drive letters, UNC paths) are left out, and functions whose body is an
  assertion return what release builds return (\<open>IDNToASCII\<close> fails, times that would need a
  calendar are zero, the registry of domains is empty).  Of templates over characters the 8-bit
  instance is modelled.  Left out: views, themes, clipboards, fonts and
  windows of Windows and macOS, which only call their systems; JavaScript contexts and DOM
  wrappers, which only call Duktape and Blink; Blink and zlib themselves (\<open>GZipInflate\<close> is a loop
  around zlib); delayed tasks (a sleep on a thread of its own); logging, histograms,
  callbacks, smart pointers; calls of the crawler's client while a response is being
  delivered; floating-point operands of \<open>base/numerics\<close> and its superseded
  \<open>safe_math_impl.h\<close>; the tables of the ICU
  stub; and files that no makefile builds (\<open>http_loader.cpp\<close>, \<open>url_canon_icu.cc\<close>).
\<close>

end
